(* ===== verification/Prelude.thy ===== *)
theory Prelude
  imports Main "HOL-Library.Word"
begin

text \<open>
  Shared vocabulary of the development: the machine types of the 32-bit build
  of xCalls, the result codes of \<^verbatim>\<open>src/src/misc/result.h\<close>, the ways in which a
  library call can fail to return normally, and the state-and-fault monad in
  which every stateful C function is written.  The last section is a weakest
  precondition calculus for that monad.
\<close>

named_theorems prog_simps \<open>unfolding rules of the program combinators\<close>

section \<open>Machine types and result codes\<close>

type_synonym u32 = "32 word"

type_synonym byte = "8 word"

text \<open>Addresses returned by the C allocator are 32-bit words; \<open>None\<close> is \<^verbatim>\<open>NULL\<close>.\<close>

type_synonym addr = "32 word"

type_synonym txc_result_t = "32 word"

abbreviation (input) TXC_R_SUCCESS :: txc_result_t where "TXC_R_SUCCESS \<equiv> 0"

abbreviation (input) TXC_R_NOMEMORY :: txc_result_t where "TXC_R_NOMEMORY \<equiv> 1"

abbreviation (input) TXC_R_EXISTS :: txc_result_t where "TXC_R_EXISTS \<equiv> 18"

abbreviation (input) TXC_R_FAILURE :: txc_result_t where "TXC_R_FAILURE \<equiv> 25"

abbreviation (input) TXC_R_INVALIDFILE :: txc_result_t where "TXC_R_INVALIDFILE \<equiv> 28"

abbreviation (input) TXC_R_NOTINITLOCK :: txc_result_t where "TXC_R_NOTINITLOCK \<equiv> 48"

abbreviation (input) TXC_R_BUSYSENTINEL :: txc_result_t where "TXC_R_BUSYSENTINEL \<equiv> 49"

abbreviation (input) TXC_R_NOTEXISTS :: txc_result_t where "TXC_R_NOTEXISTS \<equiv> 50"

abbreviation (input) TXC_R_NULLITER :: txc_result_t where "TXC_R_NULLITER \<equiv> 51"

lemma unat_of_nat_u32: "n < 2 ^ 32 \<Longrightarrow> unat (of_nat n :: u32) = n"
  by (simp add: unat_of_nat)

lemma unat_plus_u32: "unat a + unat b < 2 ^ 32 \<Longrightarrow> unat ((a::u32) + b) = unat a + unat b"
  using unat_of_nat_u32 [of "unat a + unat b"] by simp

lemma unat_u32_less: "unat (w::u32) < 2 ^ 32"
  using unsigned_less [of w] by simp

section \<open>Faults\<close>

text \<open>The abort reasons of \<^verbatim>\<open>src/src/core/tx.h\<close>.\<close>

datatype txc_tx_abortreason_t =
    TXC_ABORTREASON_TMCONFLICT
  | TXC_ABORTREASON_USERABORT
  | TXC_ABORTREASON_USERRETRY
  | TXC_ABORTREASON_BUSYSENTINEL
  | TXC_ABORTREASON_INCONSISTENCY
  | TXC_ABORTREASON_BUSYTXLOCK

text \<open>
  A C function of the library that does not return to its caller does one of
  the following:
  \<^item> \<open>Exit1\<close>: \<^verbatim>\<open>TXC_INTERNALERROR\<close> and \<^verbatim>\<open>TXC_ERROR\<close> print and call \<^verbatim>\<open>exit(1)\<close>
    (\<^verbatim>\<open>src/src/misc/debug.c\<close>, \<^verbatim>\<open>txc_debug_printmsg\<close> with \<open>fatal = 1\<close>);
  \<^item> \<open>Assert_failed\<close>: \<^verbatim>\<open>TXC_ASSERT\<close> of the debug build, which is the default mode
    of the build script;
  \<^item> \<open>Blocked\<close>: \<^verbatim>\<open>pthread_mutex_lock\<close> on a mutex that is held;
  \<^item> \<open>Undefined\<close>: a dereference of \<^verbatim>\<open>NULL\<close>, an access outside an array or an
    overflow of a character buffer;
  \<^item> \<open>Diverges\<close>: a loop of the call does not end;
  \<^item> \<open>Tx_abort\<close>: the transactional memory system rolls the transaction back
    and control leaves the call.
\<close>

datatype fault =
    Exit1
  | Assert_failed
  | Blocked
  | Undefined
  | Diverges
  | Tx_abort txc_tx_abortreason_t

datatype ('s, 'a) outcome = Ok 'a 's | Fault fault 's

section \<open>Stateful functions\<close>

type_synonym ('s, 'a) prog = "'s \<Rightarrow> ('s, 'a) outcome"

definition ret :: "'a \<Rightarrow> ('s, 'a) prog" where
  [prog_simps]: "ret a s = Ok a s"

definition throw :: "fault \<Rightarrow> ('s, 'a) prog" where
  [prog_simps]: "throw e s = Fault e s"

definition bnd :: "('s, 'a) prog \<Rightarrow> ('a \<Rightarrow> ('s, 'b) prog) \<Rightarrow> ('s, 'b) prog" where
  [prog_simps]: "bnd m f s = (case m s of Ok a s' \<Rightarrow> f a s' | Fault e s' \<Rightarrow> Fault e s')"

definition gets :: "('s \<Rightarrow> 'a) \<Rightarrow> ('s, 'a) prog" where
  [prog_simps]: "gets g s = Ok (g s) s"

definition modify :: "('s \<Rightarrow> 's) \<Rightarrow> ('s, unit) prog" where
  [prog_simps]: "modify g s = Ok () (g s)"

definition guard :: "fault \<Rightarrow> bool \<Rightarrow> ('s, unit) prog" where
  [prog_simps]: "guard e b s = (if b then Ok () s else Fault e s)"

definition mwhen :: "bool \<Rightarrow> ('s, unit) prog \<Rightarrow> ('s, unit) prog" where
  [prog_simps]: "mwhen b m s = (if b then m s else Ok () s)"

text \<open>The result of a loop whose model is \<open>None\<close> when it does not end.\<close>

definition loop_result :: "'a option \<Rightarrow> ('s, 'a) prog" where
  [prog_simps]: "loop_result r = (case r of None \<Rightarrow> throw Diverges | Some a \<Rightarrow> ret a)"

text \<open>Running a function of a component on the part of a larger state that holds the component.\<close>

definition zoom :: "('w \<Rightarrow> 's) \<Rightarrow> ('s \<Rightarrow> 'w \<Rightarrow> 'w) \<Rightarrow> ('s, 'a) prog \<Rightarrow> ('w, 'a) prog" where
  [prog_simps]:
  "zoom g p m w = (case m (g w) of Ok a s \<Rightarrow> Ok a (p s w) | Fault e s \<Rightarrow> Fault e (p s w))"

text \<open>The body of a loop \<^verbatim>\<open>for (i = 0; i < n; i++)\<close> run over the indices in order.\<close>

primrec for_each :: "'a list \<Rightarrow> ('a \<Rightarrow> ('s, unit) prog) \<Rightarrow> ('s, unit) prog" where
  "for_each [] f = ret ()"
| "for_each (x # xs) f = bnd (f x) (\<lambda>_. for_each xs f)"

text \<open>Calling a function \<open>n\<close> times and collecting the results.\<close>

primrec repeat_prog :: "nat \<Rightarrow> ('s, 'a) prog \<Rightarrow> ('s, 'a list) prog" where
  "repeat_prog 0 m = ret []"
| "repeat_prog (Suc n) m = bnd m (\<lambda>r. bnd (repeat_prog n m) (\<lambda>rs. ret (r # rs)))"

text \<open>Calling a function on every element of a list and collecting the results.\<close>

primrec map_prog :: "('a \<Rightarrow> ('s, 'b) prog) \<Rightarrow> 'a list \<Rightarrow> ('s, 'b list) prog" where
  "map_prog f [] = ret []"
| "map_prog f (x # xs) = bnd (f x) (\<lambda>r. bnd (map_prog f xs) (\<lambda>rs. ret (r # rs)))"

text \<open>
  A default pthread mutex that lives in a boolean field of the state (\<open>True\<close> is held).
  Locking a held mutex blocks; unlocking releases it whoever holds it.
\<close>

definition txc_mutex_lock :: "('s \<Rightarrow> bool) \<Rightarrow> (bool \<Rightarrow> 's \<Rightarrow> 's) \<Rightarrow> ('s, unit) prog" where
  [prog_simps]: "txc_mutex_lock g u = (\<lambda>s. if g s then Fault Blocked s else Ok () (u True s))"

definition txc_mutex_unlock :: "(bool \<Rightarrow> 's \<Rightarrow> 's) \<Rightarrow> ('s, unit) prog" where
  [prog_simps]: "txc_mutex_unlock u = modify (u False)"

lemma bnd_ret_left [simp]: "bnd (ret a) f = f a"
  by (simp add: fun_eq_iff prog_simps)

lemma bnd_ret_right [simp]: "bnd m ret = m"
  by (simp add: fun_eq_iff prog_simps split: outcome.split)

lemma bnd_assoc: "bnd (bnd m f) g = bnd m (\<lambda>a. bnd (f a) g)"
  by (simp add: fun_eq_iff prog_simps split: outcome.split)

lemma bnd_throw [simp]: "bnd (throw e) f = throw e"
  by (simp add: fun_eq_iff prog_simps)

lemma for_each_append: "for_each (xs @ ys) f = bnd (for_each xs f) (\<lambda>_. for_each ys f)"
  by (induction xs) (simp_all add: bnd_assoc)

section \<open>Weakest preconditions\<close>

text \<open>
  \<open>wp m Q E s\<close>: started in \<open>s\<close>, \<open>m\<close> either returns with \<open>Q\<close> or faults with \<open>E\<close>.
\<close>

definition wp :: "('s, 'a) prog \<Rightarrow> ('a \<Rightarrow> 's \<Rightarrow> bool) \<Rightarrow> (fault \<Rightarrow> 's \<Rightarrow> bool) \<Rightarrow> 's \<Rightarrow> bool" where
  "wp m Q E s \<longleftrightarrow> (case m s of Ok a s' \<Rightarrow> Q a s' | Fault e s' \<Rightarrow> E e s')"

lemma wp_Ok: "m s = Ok a s' \<Longrightarrow> wp m Q E s \<longleftrightarrow> Q a s'"
  by (simp add: wp_def)

lemma wp_OkD: "wp m Q E s \<Longrightarrow> m s = Ok a s' \<Longrightarrow> Q a s'"
  by (simp add: wp_def)

lemma wp_FaultD: "wp m Q E s \<Longrightarrow> m s = Fault e s' \<Longrightarrow> E e s'"
  by (simp add: wp_def)

lemma wp_mono:
  assumes "wp m Q E s"
    and "\<And>a s'. Q a s' \<Longrightarrow> Q' a s'" and "\<And>e s'. E e s' \<Longrightarrow> E' e s'"
  shows "wp m Q' E' s"
  using assms by (auto simp: wp_def split: outcome.splits)

lemma wp_total:
  "wp m Q (\<lambda>_ _. False) s \<longleftrightarrow> (\<exists>a s'. m s = Ok a s' \<and> Q a s')"
  by (auto simp: wp_def split: outcome.splits)

lemma wp_ret [simp]: "wp (ret a) Q E = Q a"
  by (simp add: fun_eq_iff wp_def prog_simps)

lemma wp_throw [simp]: "wp (throw e) Q E = E e"
  by (simp add: fun_eq_iff wp_def prog_simps)

lemma wp_bnd [simp]: "wp (bnd m f) Q E = wp m (\<lambda>a. wp (f a) Q E) E"
  by (simp add: fun_eq_iff wp_def prog_simps split: outcome.split)

lemma wp_loop_result [simp]:
  "wp (loop_result r) Q E s \<longleftrightarrow> (case r of None \<Rightarrow> E Diverges s | Some a \<Rightarrow> Q a s)"
  by (simp add: loop_result_def split: option.split)

lemma wp_gets [simp]: "wp (gets g) Q E s \<longleftrightarrow> Q (g s) s"
  by (simp add: wp_def prog_simps)

lemma wp_modify [simp]: "wp (modify g) Q E s \<longleftrightarrow> Q () (g s)"
  by (simp add: wp_def prog_simps)

lemma wp_guard [simp]: "wp (guard e b) Q E s \<longleftrightarrow> (if b then Q () s else E e s)"
  by (simp add: wp_def prog_simps)

lemma wp_mwhen [simp]: "wp (mwhen b m) Q E s \<longleftrightarrow> (if b then wp m Q E s else Q () s)"
  by (simp add: wp_def prog_simps)

lemma wp_zoom [simp]:
  "wp (zoom g p m) Q E w \<longleftrightarrow> wp m (\<lambda>a s. Q a (p s w)) (\<lambda>e s. E e (p s w)) (g w)"
  by (simp add: wp_def prog_simps split: outcome.split)

lemma wp_mutex_lock [simp]:
  "wp (txc_mutex_lock g u) Q E s \<longleftrightarrow> (if g s then E Blocked s else Q () (u True s))"
  by (simp add: wp_def prog_simps)

lemma wp_mutex_unlock [simp]: "wp (txc_mutex_unlock u) Q E s \<longleftrightarrow> Q () (u False s)"
  by (simp add: txc_mutex_unlock_def)

lemma wp_if: "wp (if b then m else m') Q E s \<longleftrightarrow> (if b then wp m Q E s else wp m' Q E s)"
  by simp

text \<open>An invariant of the body of a loop is an invariant of the loop.\<close>

lemma wp_for_each:
  assumes "I s"
    and "\<And>x s. x \<in> set xs \<Longrightarrow> I s \<Longrightarrow> wp (f x) (\<lambda>_. I) E s"
  shows "wp (for_each xs f) (\<lambda>_. I) E s"
  using assms
proof (induction xs arbitrary: s)
  case Nil
  then show ?case by simp
next
  case (Cons x xs)
  from Cons.prems have "wp (f x) (\<lambda>_. I) E s" by simp
  then show ?case
    unfolding for_each.simps wp_bnd
    by (rule wp_mono) (use Cons in auto)
qed

end
