(* ===== verification/Dll.thy ===== *)
theory Dll
  imports Prelude
begin

text \<open>
  Linked lists threaded through a heap.  The pool allocator, the hash table,
  the transaction manager and the statistics manager all keep their objects on
  doubly linked lists whose links are fields of the objects.  Here \<open>nx\<close> and
  \<open>pv\<close> are the next and prev fields as functions of the object's address, and
  \<open>lchain\<close>, \<open>pchain\<close> and \<open>dll\<close> relate them to the HOL list of the objects on
  the list.  The lemmas describe the pointer surgery of the C code (push, pop,
  unlink, append) once for all components; \<open>find_node\<close> is the search loop
  \<^verbatim>\<open>for (p = head; p != NULL; p = p->next)\<close>.
\<close>

section \<open>Chains of next and prev links\<close>

primrec lchain :: "('a \<Rightarrow> 'a option) \<Rightarrow> 'a option \<Rightarrow> 'a list \<Rightarrow> 'a option \<Rightarrow> bool" where
  "lchain nx p [] q \<longleftrightarrow> p = q"
| "lchain nx p (a # as) q \<longleftrightarrow> p = Some a \<and> lchain nx (nx a) as q"

primrec pchain :: "('a \<Rightarrow> 'a option) \<Rightarrow> 'a option \<Rightarrow> 'a list \<Rightarrow> bool" where
  "pchain pv b [] \<longleftrightarrow> True"
| "pchain pv b (a # as) \<longleftrightarrow> pv a = b \<and> pchain pv (Some a) as"

lemma lchain_upd [simp]:
  "u \<notin> set xs \<Longrightarrow> lchain (nx(u := v)) p xs q = lchain nx p xs q"
  by (induction xs arbitrary: p) auto

lemma pchain_upd [simp]:
  "u \<notin> set xs \<Longrightarrow> pchain (pv(u := v)) b xs = pchain pv b xs"
  by (induction xs arbitrary: b) auto

lemma lchain_append:
  "lchain nx p (xs @ ys) q \<longleftrightarrow> (\<exists>m. lchain nx p xs m \<and> lchain nx m ys q)"
  by (induction xs arbitrary: p) auto

lemma pchain_append:
  "pchain pv b (xs @ ys) \<longleftrightarrow>
     pchain pv b xs \<and> pchain pv (if xs = [] then b else Some (last xs)) ys"
  by (induction xs arbitrary: b) auto

lemma lchain_cong:
  "(\<And>x. x \<in> set xs \<Longrightarrow> f x = g x) \<Longrightarrow> lchain f p xs q = lchain g p xs q"
  by (induction xs arbitrary: p) auto

lemma pchain_cong:
  "(\<And>x. x \<in> set xs \<Longrightarrow> f x = g x) \<Longrightarrow> pchain f b xs = pchain g b xs"
  by (induction xs arbitrary: b) auto

lemma lchain_unique:
  "lchain nx p xs None \<Longrightarrow> lchain nx p ys None \<Longrightarrow> xs = ys"
proof (induction xs arbitrary: p ys)
  case Nil
  then show ?case by (cases ys) auto
next
  case (Cons x xs)
  then show ?case by (cases ys) auto
qed

text \<open>The first and the last element of a chain.\<close>

lemma lchain_hd: "lchain nx h xs None \<Longrightarrow> h = (case xs of [] \<Rightarrow> None | x # _ \<Rightarrow> Some x)"
  by (cases xs) auto

lemma lchain_next:
  "lchain nx h (as @ x # bs) None \<Longrightarrow> nx x = (case bs of [] \<Rightarrow> None | b # _ \<Rightarrow> Some b)"
  by (auto simp: lchain_append dest: lchain_hd)

lemma pchain_prev:
  "pchain pv b (as @ x # bs) \<Longrightarrow> pv x = (if as = [] then b else Some (last as))"
  by (simp add: pchain_append)

lemma lchain_last:
  assumes "lchain nx h (xs @ [x]) None" and "distinct (xs @ [x])" and "nx' = nx(x := q)"
  shows "lchain nx' h (xs @ [x]) q"
  using assms by (auto simp: lchain_append)

text \<open>Reversing the direction of a non-empty prefix: redirecting its last next link.\<close>

lemma lchain_redirect:
  assumes "lchain nx h (as @ x # bs) None" and "distinct (as @ x # bs)" and "as \<noteq> []"
  shows "lchain (nx(last as := nx x)) h (as @ bs) None"
proof -
  obtain cs c where as: "as = cs @ [c]"
    using assms(3) by (metis rev_exhaust)
  with assms have "c \<notin> set cs" "c \<notin> set bs" by auto
  with assms(1) as show ?thesis
    by (auto simp: lchain_append)
qed

section \<open>Doubly linked lists\<close>

definition dll :: "('a \<Rightarrow> 'a option) \<Rightarrow> ('a \<Rightarrow> 'a option) \<Rightarrow> 'a option \<Rightarrow> 'a list \<Rightarrow> bool" where
  "dll nx pv h xs \<longleftrightarrow> lchain nx h xs None \<and> pchain pv None xs \<and> distinct xs"

lemma dll_empty [simp]: "dll nx pv h [] \<longleftrightarrow> h = None"
  by (simp add: dll_def)

lemma dll_head: "dll nx pv h xs \<Longrightarrow> h = (case xs of [] \<Rightarrow> None | x # _ \<Rightarrow> Some x)"
  unfolding dll_def using lchain_hd by blast

lemma dll_Cons_head: "dll nx pv h (x # xs) \<Longrightarrow> h = Some x"
  by (simp add: dll_def)

lemma dll_links:
  assumes "dll nx pv h (as @ x # bs)"
  shows "nx x = (case bs of [] \<Rightarrow> None | b # _ \<Rightarrow> Some b)"
    and "pv x = (if as = [] then None else Some (last as))"
    and "x \<notin> set as" and "x \<notin> set bs"
  using assms unfolding dll_def by (blast dest: lchain_next, blast dest: pchain_prev, auto)

lemma dll_frame:
  assumes "dll nx pv h xs"
    and "\<And>x. x \<in> set xs \<Longrightarrow> nx' x = nx x" and "\<And>x. x \<in> set xs \<Longrightarrow> pv' x = pv x"
  shows "dll nx' pv' h xs"
  using assms lchain_cong [of xs nx' nx h None] pchain_cong [of xs pv' pv None]
  by (simp add: dll_def)

text \<open>Linking a new element in front of the list.\<close>

lemma dll_push:
  assumes "dll nx pv h xs" and "x \<notin> set xs"
    and "nx' = nx(x := h)"
    and "pv' = (case h of None \<Rightarrow> pv | Some y \<Rightarrow> pv(y := Some x))(x := None)"
  shows "dll nx' pv' (Some x) (x # xs)"
proof (cases xs)
  case Nil
  with assms show ?thesis by (auto simp: dll_def)
next
  case (Cons y ys)
  with assms have "h = Some y" by (auto dest: dll_head)
  with Cons assms show ?thesis by (auto simp: dll_def)
qed

text \<open>Removing the first element: the new head loses its back link.\<close>

lemma dll_pop:
  assumes "dll nx pv (Some x) (x # xs)"
    and "pv' = (case nx x of None \<Rightarrow> pv | Some y \<Rightarrow> pv(y := None))"
  shows "dll nx pv' (nx x) xs"
proof (cases xs)
  case Nil
  with assms show ?thesis by (auto simp: dll_def)
next
  case (Cons y ys)
  with assms have "nx x = Some y" by (auto simp: dll_def)
  with Cons assms show ?thesis by (auto simp: dll_def)
qed

text \<open>Removing an element from anywhere in the list.\<close>

lemma dll_unlink:
  assumes d: "dll nx pv h (as @ x # bs)"
    and nx': "nx' = (case pv x of None \<Rightarrow> nx | Some y \<Rightarrow> nx(y := nx x))"
    and pv': "pv' = (case nx x of None \<Rightarrow> pv | Some z \<Rightarrow> pv(z := pv x))"
    and h': "h' = (case pv x of None \<Rightarrow> nx x | Some _ \<Rightarrow> h)"
  shows "dll nx' pv' h' (as @ bs)"
proof -
  from d have l: "lchain nx h (as @ x # bs) None" and p: "pchain pv None (as @ x # bs)"
    and dist: "distinct (as @ x # bs)"
    by (auto simp: dll_def)
  from p have px: "pv x = (if as = [] then None else Some (last as))"
    by (rule pchain_prev)
  from l have nxx: "nx x = (case bs of [] \<Rightarrow> None | b # _ \<Rightarrow> Some b)"
    by (rule lchain_next)
  have next_ok: "lchain nx' h' (as @ bs) None"
  proof (cases "as = []")
    case True
    with l px nx' h' show ?thesis by (auto simp: lchain_append)
  next
    case False
    with lchain_redirect [OF l dist False] px nx' h' show ?thesis by auto
  qed
  have prev_ok: "pchain pv' None (as @ bs)"
  proof (cases bs)
    case Nil
    with p pv' nxx show ?thesis by (simp add: pchain_append)
  next
    case (Cons b cs)
    with dist have "b \<notin> set as" "b \<notin> set cs" by auto
    with Cons p pv' nxx px show ?thesis
      by (auto simp: pchain_append)
  qed
  from next_ok prev_ok dist show ?thesis by (auto simp: dll_def)
qed

text \<open>Appending behind the last element, whose address the list header caches.\<close>

lemma dll_snoc:
  assumes d: "dll nx pv h xs" and "x \<notin> set xs" and "xs \<noteq> []"
    and "nx' = nx(last xs := Some x)" and "nx x = None" and "pv' = pv(x := Some (last xs))"
  shows "dll nx' pv' h (xs @ [x])"
proof -
  obtain cs c where xs: "xs = cs @ [c]"
    using assms(3) by (metis rev_exhaust)
  with assms have "c \<noteq> x" "c \<notin> set cs" by (auto simp: dll_def)
  with assms xs show ?thesis
    by (auto simp: dll_def lchain_append pchain_append)
qed

section \<open>Lists whose first back link is not maintained\<close>

text \<open>
  \<^verbatim>\<open>bucket_list_remove\<close> of the hash table leaves the prev field of the new
  head as it was, so only the back links behind the head are meaningful.
\<close>

definition hdll :: "('a \<Rightarrow> 'a option) \<Rightarrow> ('a \<Rightarrow> 'a option) \<Rightarrow> 'a option \<Rightarrow> 'a list \<Rightarrow> bool" where
  "hdll nx pv h xs \<longleftrightarrow>
     lchain nx h xs None \<and> distinct xs \<and>
     (case xs of [] \<Rightarrow> True | a # as \<Rightarrow> pchain pv (Some a) as)"

lemma hdll_empty [simp]: "hdll nx pv h [] \<longleftrightarrow> h = None"
  by (simp add: hdll_def)

lemma hdll_head: "hdll nx pv h xs \<Longrightarrow> h = (case xs of [] \<Rightarrow> None | x # _ \<Rightarrow> Some x)"
  unfolding hdll_def using lchain_hd by blast

lemma hdll_frame:
  assumes "hdll nx pv h xs"
    and "\<And>x. x \<in> set xs \<Longrightarrow> nx' x = nx x" and "\<And>x. x \<in> set xs \<Longrightarrow> pv' x = pv x"
  shows "hdll nx' pv' h xs"
proof -
  have "lchain nx' h xs None"
    using assms lchain_cong [of xs nx' nx h None] by (simp add: hdll_def)
  moreover have "case xs of [] \<Rightarrow> True | a # as \<Rightarrow> pchain pv' (Some a) as"
    using assms pchain_cong [of "tl xs" pv' pv] by (auto simp: hdll_def split: list.splits)
  ultimately show ?thesis using assms(1) by (simp add: hdll_def)
qed

lemma hdll_push:
  assumes "hdll nx pv h xs" and "x \<notin> set xs"
    and "nx' = nx(x := h)"
    and "pv' = (case h of None \<Rightarrow> pv | Some y \<Rightarrow> pv(y := Some x))(x := None)"
  shows "hdll nx' pv' (Some x) (x # xs)"
proof (cases xs)
  case Nil
  with assms show ?thesis by (auto simp: hdll_def)
next
  case (Cons y ys)
  with assms have "h = Some y" by (auto dest: hdll_head)
  with Cons assms show ?thesis by (auto simp: hdll_def)
qed

lemma hdll_pop:
  assumes "hdll nx pv (Some x) (x # xs)"
  shows "hdll nx (pv(x := q)) (nx x) xs"
  using assms by (cases xs) (auto simp: hdll_def)

lemma hdll_unlink:
  assumes d: "hdll nx pv h (as @ x # bs)" and "as \<noteq> []"
    and nx': "nx' = nx(last as := nx x)"
    and pv': "pv' = (case nx x of None \<Rightarrow> pv | Some z \<Rightarrow> pv(z := Some (last as)))"
  shows "hdll nx' pv' h (as @ bs)"
proof -
  from d have l: "lchain nx h (as @ x # bs) None" and dist: "distinct (as @ x # bs)"
    by (auto simp: hdll_def)
  obtain a as' where as: "as = a # as'" using \<open>as \<noteq> []\<close> by (cases as) auto
  with d have p: "pchain pv (Some a) (as' @ x # bs)" by (simp add: hdll_def)
  from l have nxx: "nx x = (case bs of [] \<Rightarrow> None | b # _ \<Rightarrow> Some b)" by (rule lchain_next)
  have "pchain pv' (Some a) (as' @ bs)"
  proof (cases bs)
    case Nil
    with p pv' nxx show ?thesis by (simp add: pchain_append)
  next
    case (Cons b cs)
    with dist as have "b \<notin> set as'" "b \<notin> set cs" by auto
    with Cons p pv' nxx as show ?thesis by (auto simp: pchain_append)
  qed
  with lchain_redirect [OF l dist \<open>as \<noteq> []\<close>] nx' as dist show ?thesis
    by (auto simp: hdll_def)
qed

lemma hdll_prev:
  assumes "hdll nx pv h (as @ x # bs)" and "as \<noteq> []"
  shows "pv x = Some (last as)"
  using assms by (cases as) (auto simp: hdll_def dest: pchain_prev)

section \<open>Walking a list\<close>

text \<open>
  The search loop may run forever on a heap whose links form a cycle, hence the
  outer option: \<open>None\<close> is a loop that does not return.
\<close>

partial_function (option) find_node ::
  "('a \<Rightarrow> 'a option) \<Rightarrow> ('a \<Rightarrow> bool) \<Rightarrow> 'a option \<Rightarrow> 'a option option" where
  "find_node nx P p =
     (case p of None \<Rightarrow> Some None
      | Some a \<Rightarrow> if P a then Some (Some a) else find_node nx P (nx a))"

lemma find_node_chain: "lchain nx p xs None \<Longrightarrow> find_node nx P p = Some (List.find P xs)"
proof (induction xs arbitrary: p)
  case Nil
  then show ?case by (simp add: find_node.simps)
next
  case (Cons x xs)
  then show ?case by (subst find_node.simps) auto
qed

text \<open>
  A search that returns has walked a finite chain of nodes that do not satisfy
  \<open>P\<close>, up to \<open>NULL\<close> or to a node that does.
\<close>

definition walked :: "('a \<Rightarrow> 'a option) \<Rightarrow> ('a \<Rightarrow> bool) \<Rightarrow> 'a option \<Rightarrow> 'a option \<Rightarrow> bool" where
  "walked nx P p r \<longleftrightarrow>
     (\<exists>xs. lchain nx p xs r \<and> (\<forall>x \<in> set xs. \<not> P x) \<and> (\<forall>a. r = Some a \<longrightarrow> P a))"

lemma walked_stop: "(\<And>a. p = Some a \<Longrightarrow> P a) \<Longrightarrow> walked nx P p p"
  unfolding walked_def by (rule exI [of _ "[]"]) auto

lemma walked_step: "walked nx P (nx a) r \<Longrightarrow> \<not> P a \<Longrightarrow> walked nx P (Some a) r"
  unfolding walked_def by (metis lchain.simps(2) set_ConsD)

lemma find_node_returns:
  assumes "find_node nx P p = Some r"
  shows "walked nx P p r"
proof -
  have "(\<lambda>((nx, P), p) r. walked nx P p r) ((nx, P), p) r"
    by (rule find_node.raw_induct [OF _ assms])
      (auto intro!: walked_stop walked_step split: option.splits if_splits)
  then show ?thesis by simp
qed

text \<open>
  On a set of nodes that is closed under \<open>nx\<close> and has no \<open>NULL\<close> link, a search
  that finds nothing never returns.
\<close>

lemma find_node_diverges:
  assumes "a \<in> C" and closed: "\<And>x. x \<in> C \<Longrightarrow> \<not> P x \<and> (\<exists>y \<in> C. nx x = Some y)"
  shows "find_node nx P (Some a) = None"
proof (cases "find_node nx P (Some a)")
  case (Some r)
  have stays: "\<exists>c \<in> C. r' = Some c" if "lchain nx (Some b) xs r'" "b \<in> C" for b xs r'
    using that
  proof (induction xs arbitrary: b)
    case (Cons x xs)
    then show ?case using closed [of b] by auto
  qed auto
  from find_node_returns [OF Some] obtain xs where "lchain nx (Some a) xs r" "\<forall>c. r = Some c \<longrightarrow> P c"
    unfolding walked_def by blast
  with stays [OF _ assms(1)] closed show ?thesis by blast
qed simp

text \<open>The nodes a loop that visits the whole list passes, in order.\<close>

partial_function (option) walk :: "('a \<Rightarrow> 'a option) \<Rightarrow> 'a option \<Rightarrow> 'a list option" where
  "walk nx p =
     (case p of None \<Rightarrow> Some []
      | Some a \<Rightarrow> Option.bind (walk nx (nx a)) (\<lambda>xs. Some (a # xs)))"

lemma walk_chain: "lchain nx p xs None \<Longrightarrow> walk nx p = Some xs"
proof (induction xs arbitrary: p)
  case Nil
  then show ?case by (simp add: walk.simps)
next
  case (Cons x xs)
  then show ?case by (subst walk.simps) auto
qed

lemma walk_dll: "dll nx pv p xs \<Longrightarrow> walk nx p = Some xs"
  by (simp add: dll_def walk_chain)

lemma walk_hdll: "hdll nx pv p xs \<Longrightarrow> walk nx p = Some xs"
  by (simp add: hdll_def walk_chain)

end
