(* ===== verification/Pool.thy ===== *)
theory Pool
  imports Dll
begin

text \<open>
  The object pool of \<^verbatim>\<open>src/src/misc/pool.c\<close>, a slab allocator of objects of one
  size.  A pool owns one buffer of \<open>obj_num * obj_size\<close> bytes and one descriptor
  per object; a descriptor is on the free list or on the allocated list, both
  doubly linked.  A descriptor pointer is modelled by its index in \<open>obj_list\<close>,
  \<^verbatim>\<open>NULL\<close> by \<open>None\<close>.  The theory shows that the two lists always partition the
  descriptors (\<open>pool_rep\<close>), that allocation hands out an address that is not in
  use, that \<open>free\<close> finds the descriptor of an address by pointer arithmetic and
  detects double frees, and derives from this the interface \<open>object_pool\<close> on
  which the components that keep their objects in pools rely.
\<close>

section \<open>Data\<close>

abbreviation (input) TXC_POOL_OBJECT_FREE :: "'w::len word" where "TXC_POOL_OBJECT_FREE \<equiv> 1"

abbreviation (input) TXC_POOL_OBJECT_ALLOCATED :: "'w::len word" where "TXC_POOL_OBJECT_ALLOCATED \<equiv> 2"

record txc_pool_object =
  obj_buf :: addr
  obj_status :: "8 word"
  obj_next :: "nat option"
  obj_prev :: "nat option"

record txc_pool =
  pool_mutex :: bool
  full_buf :: addr
  obj_list :: "nat \<Rightarrow> txc_pool_object"
  obj_free_head :: "nat option"
  obj_allocated_head :: "nat option"
  obj_free_num :: u32
  obj_allocated_num :: u32
  obj_size :: u32
  obj_num :: u32

definition pnext :: "txc_pool \<Rightarrow> nat \<Rightarrow> nat option" where
  "pnext p i = obj_next (obj_list p i)"

definition pprev :: "txc_pool \<Rightarrow> nat \<Rightarrow> nat option" where
  "pprev p i = obj_prev (obj_list p i)"

definition pstatus :: "txc_pool \<Rightarrow> nat \<Rightarrow> 8 word" where
  "pstatus p i = obj_status (obj_list p i)"

definition pbuf :: "txc_pool \<Rightarrow> nat \<Rightarrow> addr" where
  "pbuf p i = obj_buf (obj_list p i)"

definition set_next :: "nat \<Rightarrow> nat option \<Rightarrow> txc_pool \<Rightarrow> txc_pool" where
  "set_next i v p = p\<lparr>obj_list := (obj_list p)(i := (obj_list p i)\<lparr>obj_next := v\<rparr>)\<rparr>"

definition set_prev :: "nat \<Rightarrow> nat option \<Rightarrow> txc_pool \<Rightarrow> txc_pool" where
  "set_prev i v p = p\<lparr>obj_list := (obj_list p)(i := (obj_list p i)\<lparr>obj_prev := v\<rparr>)\<rparr>"

definition set_status :: "nat \<Rightarrow> 8 word \<Rightarrow> txc_pool \<Rightarrow> txc_pool" where
  "set_status i v p = p\<lparr>obj_list := (obj_list p)(i := (obj_list p i)\<lparr>obj_status := v\<rparr>)\<rparr>"

section \<open>Creation and destruction\<close>

text \<open>
  The loop of \<^verbatim>\<open>txc_pool_create\<close> fills the descriptors in order and runs the
  constructor, if any, on each object; \<open>'m\<close> is the memory the constructor
  writes.  The index computations are those of C: \<^verbatim>\<open>(i-1)%obj_num\<close> is computed in
  unsigned arithmetic.
\<close>

definition pool_create_step ::
  "addr \<Rightarrow> u32 \<Rightarrow> u32 \<Rightarrow> (addr \<Rightarrow> 'm \<Rightarrow> 'm) option \<Rightarrow> nat \<Rightarrow>
   (nat \<Rightarrow> txc_pool_object) \<times> 'm \<Rightarrow> (nat \<Rightarrow> txc_pool_object) \<times> 'm" where
  "pool_create_step buf osize onum ctor i = (\<lambda>(objs, m).
     let b = buf + of_nat i * osize;
         objs = objs(i := \<lparr>obj_buf = b,
                          obj_status = TXC_POOL_OBJECT_FREE,
                          obj_next = Some (unat ((of_nat i + 1) mod onum)),
                          obj_prev = Some (unat ((of_nat i - 1) mod onum))\<rparr>)
     in (objs, case ctor of None \<Rightarrow> m | Some c \<Rightarrow> c b m))"

definition calloc_object :: txc_pool_object where
  "calloc_object = \<lparr>obj_buf = 0, obj_status = 0, obj_next = None, obj_prev = None\<rparr>"

text \<open>
  The arguments \<open>poolp\<close>, \<open>object_list\<close> and \<open>buf\<close> are the results of the three
  allocator calls and \<open>mutex_rc\<close> is what \<^verbatim>\<open>pthread_mutex_init\<close> returns.
\<close>

definition txc_pool_create ::
  "addr option \<Rightarrow> addr option \<Rightarrow> addr option \<Rightarrow> int \<Rightarrow> u32 \<Rightarrow> u32 \<Rightarrow> (addr \<Rightarrow> 'm \<Rightarrow> 'm) option \<Rightarrow>
   ('m, txc_result_t \<times> txc_pool option) prog" where
  "txc_pool_create poolp object_list buf mutex_rc osize onum ctor m =
     (case (poolp, object_list, buf) of
        (Some _, Some _, Some b) \<Rightarrow>
          if onum = 0 then Fault Undefined m
          else
            let (objs, m) = fold (pool_create_step b osize onum ctor) [0..<unat onum]
                              (\<lambda>_. calloc_object, m);
                objs = objs(unat (onum - 1) := (objs (unat (onum - 1)))\<lparr>obj_next := None\<rparr>);
                objs = objs(0 := (objs 0)\<lparr>obj_prev := None\<rparr>);
                p = \<lparr>pool_mutex = False, full_buf = b, obj_list = objs,
                     obj_free_head = Some 0, obj_allocated_head = None,
                     obj_free_num = onum, obj_allocated_num = 0,
                     obj_size = osize, obj_num = onum\<rparr>
            in if mutex_rc \<noteq> 0 then Ok (TXC_R_NOTINITLOCK, None) m
               else Ok (TXC_R_SUCCESS, Some p) m
      | _ \<Rightarrow> Ok (TXC_R_NOMEMORY, None) m)"

definition txc_pool_destroy :: "(txc_pool option, txc_result_t) prog" where
  "txc_pool_destroy =
     bnd (gets (\<lambda>p. p \<noteq> None)) (\<lambda>b.
     bnd (guard Assert_failed b) (\<lambda>_.
     bnd (modify (\<lambda>_. None)) (\<lambda>_.
     ret TXC_R_SUCCESS)))"

section \<open>Allocation and release\<close>

definition txc_pool_lock :: "(txc_pool, unit) prog" where
  "txc_pool_lock = txc_mutex_lock pool_mutex (\<lambda>b. pool_mutex_update (\<lambda>_. b))"

definition txc_pool_unlock :: "(txc_pool, unit) prog" where
  "txc_pool_unlock = txc_mutex_unlock (\<lambda>b. pool_mutex_update (\<lambda>_. b))"

text \<open>The pointer updates of \<^verbatim>\<open>txc_pool_object_alloc\<close>, one binding per statement.\<close>

definition pool_object_take :: "nat \<Rightarrow> txc_pool \<Rightarrow> txc_pool" where
  "pool_object_take i p =
     (let p = p\<lparr>obj_free_head := pnext p i\<rparr>;
          p = (case obj_free_head p of None \<Rightarrow> p | Some h \<Rightarrow> set_prev h None p);
          p = set_prev i None p;
          p = set_next i (obj_allocated_head p) p;
          p = (case obj_allocated_head p of None \<Rightarrow> p | Some h \<Rightarrow> set_prev h (Some i) p);
          p = p\<lparr>obj_allocated_head := Some i\<rparr>;
          p = p\<lparr>obj_allocated_num := obj_allocated_num p + 1\<rparr>;
          p = p\<lparr>obj_free_num := obj_free_num p - 1\<rparr>
      in set_status i TXC_POOL_OBJECT_ALLOCATED p)"

definition txc_pool_object_alloc :: "bool \<Rightarrow> (txc_pool, txc_result_t \<times> addr option) prog" where
  "txc_pool_object_alloc lock =
     bnd (mwhen lock txc_pool_lock) (\<lambda>_.
     bnd (gets obj_free_num) (\<lambda>free_num.
     bnd (if free_num = 0 then ret (TXC_R_NOMEMORY, None)
          else
            bnd (gets obj_free_head) (\<lambda>head.
            case head of
              None \<Rightarrow> throw Undefined
            | Some i \<Rightarrow>
                bnd (modify (pool_object_take i)) (\<lambda>_.
                bnd (gets (\<lambda>p. pbuf p i)) (\<lambda>b.
                ret (TXC_R_SUCCESS, Some b))))) (\<lambda>result.
     bnd (mwhen lock txc_pool_unlock) (\<lambda>_.
     ret result))))"

text \<open>The pointer updates of \<^verbatim>\<open>txc_pool_object_free\<close>, one binding per statement.\<close>

definition pool_object_put :: "nat \<Rightarrow> txc_pool \<Rightarrow> txc_pool" where
  "pool_object_put i p =
     (let p = (case pprev p i of
                 Some q \<Rightarrow> set_next q (pnext p i) p
               | None \<Rightarrow> p\<lparr>obj_allocated_head := pnext p i\<rparr>);
          p = (case pnext p i of None \<Rightarrow> p | Some q \<Rightarrow> set_prev q (pprev p i) p);
          p = set_next i (obj_free_head p) p;
          p = set_prev i None p;
          p = (case obj_free_head p of None \<Rightarrow> p | Some h \<Rightarrow> set_prev h (Some i) p);
          p = p\<lparr>obj_allocated_num := obj_allocated_num p - 1\<rparr>;
          p = p\<lparr>obj_free_num := obj_free_num p + 1\<rparr>;
          p = set_status i TXC_POOL_OBJECT_FREE p
      in p\<lparr>obj_free_head := Some i\<rparr>)"

definition pool_index :: "txc_pool \<Rightarrow> addr \<Rightarrow> u32" where
  "pool_index p a = (a - full_buf p) div obj_size p"

text \<open>The result is the value stored in \<open>*objp\<close>, which is \<^verbatim>\<open>NULL\<close> on return.\<close>

definition txc_pool_object_free :: "addr option \<Rightarrow> bool \<Rightarrow> (txc_pool, addr option) prog" where
  "txc_pool_object_free objp lock =
     (case objp of
        None \<Rightarrow> throw Assert_failed
      | Some a \<Rightarrow>
          bnd (mwhen lock txc_pool_lock) (\<lambda>_.
          bnd (gets obj_size) (\<lambda>sz.
          bnd (guard Undefined (sz \<noteq> 0)) (\<lambda>_.
          bnd (gets (\<lambda>p. pool_index p a)) (\<lambda>index.
          bnd (gets obj_num) (\<lambda>n.
          bnd (guard Undefined (index < n)) (\<lambda>_.
          bnd (gets (\<lambda>p. pstatus p (unat index))) (\<lambda>status.
          bnd (guard Assert_failed (status = TXC_POOL_OBJECT_ALLOCATED)) (\<lambda>_.
          bnd (modify (pool_object_put (unat index))) (\<lambda>_.
          bnd (mwhen lock txc_pool_unlock) (\<lambda>_.
          ret None)))))))))))"

section \<open>Iteration\<close>

definition txc_pool_object_first :: "u32 \<Rightarrow> (txc_pool, nat option) prog" where
  "txc_pool_object_first status =
     (if status = TXC_POOL_OBJECT_FREE then gets obj_free_head
      else if status = TXC_POOL_OBJECT_ALLOCATED then gets obj_allocated_head
      else if status = and TXC_POOL_OBJECT_ALLOCATED TXC_POOL_OBJECT_FREE then ret (Some 0)
      else throw Exit1)"

definition txc_pool_object_next :: "txc_pool \<Rightarrow> nat \<Rightarrow> nat option" where
  "txc_pool_object_next p i = pnext p i"

definition txc_pool_object_of :: "txc_pool \<Rightarrow> nat \<Rightarrow> addr" where
  "txc_pool_object_of p i = pbuf p i"

text \<open>
  \<^verbatim>\<open>txc_pool_print\<close>: what is printed of a descriptor is its index and its links
  (in verbose mode) and what the printer shows of the object's address.
\<close>

type_synonym pool_line = "(nat \<times> nat option \<times> nat option) option \<times> addr option"

definition pool_print_object :: "txc_pool \<Rightarrow> bool \<Rightarrow> bool \<Rightarrow> nat \<Rightarrow> pool_line" where
  "pool_print_object p printer verbose i =
     (if verbose then Some (i, pprev p i, pnext p i) else None, if printer then Some (pbuf p i) else None)"

definition txc_pool_print ::
  "bool \<Rightarrow> bool \<Rightarrow> bool \<Rightarrow> (txc_pool, pool_line list \<times> pool_line list) prog" where
  "txc_pool_print debug printer verbose =
     (if \<not> debug then ret ([], [])
      else
        bnd txc_pool_lock (\<lambda>_.
        bnd (gets (\<lambda>p. walk (pnext p) (obj_free_head p))) (\<lambda>w.
        bnd (loop_result w) (\<lambda>fs.
        bnd (gets (\<lambda>p. walk (pnext p) (obj_allocated_head p))) (\<lambda>w.
        bnd (loop_result w) (\<lambda>as.
        bnd (gets (\<lambda>p. (map (pool_print_object p printer verbose) fs,
                        map (pool_print_object p printer verbose) as))) (\<lambda>out.
        bnd txc_pool_unlock (\<lambda>_.
        ret out))))))))"

section \<open>The representation invariant\<close>

text \<open>
  \<open>fs\<close> and \<open>as\<close> are the descriptors on the free and on the allocated list.  The
  last conjuncts say that the buffer lies inside the address space, not at 0.
\<close>

definition pool_geometry :: "txc_pool \<Rightarrow> bool" where
  "pool_geometry p \<longleftrightarrow>
     0 < obj_size p \<and> 0 < obj_num p \<and> 0 < full_buf p \<and>
     unat (full_buf p) + unat (obj_num p) * unat (obj_size p) \<le> 2 ^ 32 \<and>
     (\<forall>i < unat (obj_num p). pbuf p i = full_buf p + of_nat i * obj_size p)"

definition pool_rep :: "txc_pool \<Rightarrow> nat list \<Rightarrow> nat list \<Rightarrow> bool" where
  "pool_rep p fs as \<longleftrightarrow>
     dll (pnext p) (pprev p) (obj_free_head p) fs \<and>
     dll (pnext p) (pprev p) (obj_allocated_head p) as \<and>
     set fs \<inter> set as = {} \<and> set fs \<union> set as = {..<unat (obj_num p)} \<and>
     (\<forall>i \<in> set fs. pstatus p i = TXC_POOL_OBJECT_FREE) \<and>
     (\<forall>i \<in> set as. pstatus p i = TXC_POOL_OBJECT_ALLOCATED) \<and>
     obj_free_num p = of_nat (length fs) \<and> obj_allocated_num p = of_nat (length as) \<and>
     pool_geometry p"

lemma link_updates [simp]:
  "pnext (set_next i v p) = (pnext p)(i := v)" "pnext (set_prev i v p) = pnext p"
  "pnext (set_status i w p) = pnext p"
  "pprev (set_next i v p) = pprev p" "pprev (set_prev i v p) = (pprev p)(i := v)"
  "pprev (set_status i w p) = pprev p"
  "pstatus (set_next i v p) = pstatus p" "pstatus (set_prev i v p) = pstatus p"
  "pstatus (set_status i w p) = (pstatus p)(i := w)"
  "pbuf (set_next i v p) = pbuf p" "pbuf (set_prev i v p) = pbuf p" "pbuf (set_status i w p) = pbuf p"
  by (auto simp: pnext_def pprev_def pstatus_def pbuf_def set_next_def set_prev_def set_status_def fun_eq_iff)

lemma header_updates [simp]:
  "obj_free_head (set_next i v p) = obj_free_head p"
  "obj_free_head (set_prev i v p) = obj_free_head p"
  "obj_free_head (set_status i w p) = obj_free_head p"
  "obj_allocated_head (set_next i v p) = obj_allocated_head p"
  "obj_allocated_head (set_prev i v p) = obj_allocated_head p"
  "obj_allocated_head (set_status i w p) = obj_allocated_head p"
  "obj_free_num (set_next i v p) = obj_free_num p"
  "obj_free_num (set_prev i v p) = obj_free_num p"
  "obj_free_num (set_status i w p) = obj_free_num p"
  "obj_allocated_num (set_next i v p) = obj_allocated_num p"
  "obj_allocated_num (set_prev i v p) = obj_allocated_num p"
  "obj_allocated_num (set_status i w p) = obj_allocated_num p"
  by (simp_all add: set_next_def set_prev_def set_status_def)

definition same_pool :: "txc_pool \<Rightarrow> txc_pool \<Rightarrow> bool" where
  "same_pool p q \<longleftrightarrow>
     full_buf q = full_buf p \<and> obj_size q = obj_size p \<and> obj_num q = obj_num p \<and> pbuf q = pbuf p \<and>
     pool_mutex q = pool_mutex p"

lemma same_pool_updates [simp]:
  "same_pool p (set_next i v q) = same_pool p q"
  "same_pool p (set_prev i v q) = same_pool p q"
  "same_pool p (set_status i w q) = same_pool p q"
  by (simp_all add: same_pool_def) (simp_all add: set_next_def set_prev_def set_status_def)

lemma header_links [simp]:
  "pnext (p\<lparr>obj_free_head := a\<rparr>) = pnext p" "pnext (p\<lparr>obj_allocated_head := a\<rparr>) = pnext p"
  "pnext (p\<lparr>obj_free_num := n\<rparr>) = pnext p" "pnext (p\<lparr>obj_allocated_num := n\<rparr>) = pnext p"
  "pprev (p\<lparr>obj_free_head := a\<rparr>) = pprev p" "pprev (p\<lparr>obj_allocated_head := a\<rparr>) = pprev p"
  "pprev (p\<lparr>obj_free_num := n\<rparr>) = pprev p" "pprev (p\<lparr>obj_allocated_num := n\<rparr>) = pprev p"
  "pstatus (p\<lparr>obj_free_head := a\<rparr>) = pstatus p" "pstatus (p\<lparr>obj_allocated_head := a\<rparr>) = pstatus p"
  "pstatus (p\<lparr>obj_free_num := n\<rparr>) = pstatus p" "pstatus (p\<lparr>obj_allocated_num := n\<rparr>) = pstatus p"
  "pbuf (p\<lparr>obj_free_head := a\<rparr>) = pbuf p" "pbuf (p\<lparr>obj_allocated_head := a\<rparr>) = pbuf p"
  "pbuf (p\<lparr>obj_free_num := n\<rparr>) = pbuf p" "pbuf (p\<lparr>obj_allocated_num := n\<rparr>) = pbuf p"
  "pnext (p\<lparr>pool_mutex := b\<rparr>) = pnext p" "pprev (p\<lparr>pool_mutex := b\<rparr>) = pprev p"
  "pstatus (p\<lparr>pool_mutex := b\<rparr>) = pstatus p" "pbuf (p\<lparr>pool_mutex := b\<rparr>) = pbuf p"
  by (auto simp: pnext_def pprev_def pstatus_def pbuf_def fun_eq_iff)

lemma same_pool_refl [simp]: "same_pool p p"
  by (simp add: same_pool_def)

lemma same_pool_trans [trans]: "same_pool p q \<Longrightarrow> same_pool q r \<Longrightarrow> same_pool p r"
  by (simp add: same_pool_def)

lemma same_pool_header [simp]:
  "same_pool p (q\<lparr>obj_free_head := a\<rparr>) = same_pool p q"
  "same_pool p (q\<lparr>obj_allocated_head := a\<rparr>) = same_pool p q"
  "same_pool p (q\<lparr>obj_free_num := n\<rparr>) = same_pool p q"
  "same_pool p (q\<lparr>obj_allocated_num := n\<rparr>) = same_pool p q"
  by (simp_all add: same_pool_def)

lemma pool_geometry_same: "same_pool p q \<Longrightarrow> pool_geometry q = pool_geometry p"
  by (simp add: same_pool_def pool_geometry_def)

lemma pool_rep_mutex [simp]: "pool_rep (p\<lparr>pool_mutex := b\<rparr>) fs as = pool_rep p fs as"
  by (simp add: pool_rep_def pool_geometry_def)


section \<open>Every operation keeps the invariant\<close>

lemma pool_take_frame [simp]: "same_pool p (pool_object_take i p)"
  by (simp add: pool_object_take_def Let_def split: option.split)

lemma pool_put_frame [simp]: "same_pool p (pool_object_put i p)"
  by (simp add: pool_object_put_def Let_def split: option.split)

text \<open>The heap after \<open>pool_object_take\<close>, as the composition of a pop and a push.\<close>

lemma pool_take_links:
  fixes p i
  defines "q \<equiv> pool_object_take i p"
  defines "pv1 \<equiv> (case pnext p i of None \<Rightarrow> pprev p | Some h \<Rightarrow> (pprev p)(h := None))"
  shows "pnext q = (pnext p)(i := obj_allocated_head p)"
    and "obj_allocated_head p \<noteq> Some i \<Longrightarrow> pprev q =
      (case obj_allocated_head p of None \<Rightarrow> pv1 | Some h \<Rightarrow> pv1(h := Some i))(i := None)"
    and "obj_free_head q = pnext p i" "obj_allocated_head q = Some i"
    and "pstatus q = (pstatus p)(i := TXC_POOL_OBJECT_ALLOCATED)"
    and "obj_free_num q = obj_free_num p - 1" "obj_allocated_num q = obj_allocated_num p + 1"
  by (auto simp: q_def pv1_def pool_object_take_def Let_def fun_eq_iff split: option.split)

lemma pool_rep_take:
  assumes r: "pool_rep p (i # fs) as"
  shows "pool_rep (pool_object_take i p) fs (i # as)"
proof -
  let ?q = "pool_object_take i p"
  let ?pv1 = "case pnext p i of None \<Rightarrow> pprev p | Some h \<Rightarrow> (pprev p)(h := None)"
  from r have A: "dll (pnext p) (pprev p) (obj_allocated_head p) as"
    and disj: "set (i # fs) \<inter> set as = {}" and "dll (pnext p) (pprev p) (obj_free_head p) (i # fs)"
    by (simp_all add: pool_rep_def)
  then have F: "dll (pnext p) (pprev p) (Some i) (i # fs)"
    using dll_Cons_head by metis
  from F have ifs: "i \<notin> set fs" and hfs: "pnext p i = (case fs of [] \<Rightarrow> None | x # _ \<Rightarrow> Some x)"
    by (auto simp: dll_def dest: lchain_hd)
  from A disj have has: "obj_allocated_head p = (case as of [] \<Rightarrow> None | x # _ \<Rightarrow> Some x)"
    and ia: "obj_allocated_head p \<noteq> Some i" and ias: "i \<notin> set as"
    by (auto dest: dll_head split: list.splits)
  note L = pool_take_links [where p = p and i = i] pool_take_links(2) [OF ia]
  have F1: "dll (pnext p) ?pv1 (pnext p i) fs" by (rule dll_pop [OF F refl])
  have F2: "dll (pnext ?q) (pprev ?q) (obj_free_head ?q) fs"
    unfolding L(3) by (rule dll_frame [OF F1])
      (use ifs ias disj has L in \<open>auto split: option.splits list.splits\<close>)
  have A1: "dll (pnext p) ?pv1 (obj_allocated_head p) as"
    by (rule dll_frame [OF A]) (use disj hfs in \<open>auto split: list.splits\<close>)
  have A2: "dll (pnext ?q) (pprev ?q) (obj_allocated_head ?q) (i # as)"
    unfolding L(4) by (rule dll_push [OF A1 ias]) (simp_all only: L)
  have "pool_geometry ?q" using r pool_geometry_same [OF pool_take_frame] by (simp add: pool_rep_def)
  moreover have "obj_num ?q = obj_num p" using pool_take_frame by (simp add: same_pool_def)
  ultimately show ?thesis
    using r F2 A2 ifs ias L by (auto simp: pool_rep_def)
qed

text \<open>The heap after \<open>pool_object_put\<close>, as an unlink and a push.\<close>

lemma pool_put_links:
  fixes p i
  defines "q \<equiv> pool_object_put i p"
  defines "nx1 \<equiv> (case pprev p i of None \<Rightarrow> pnext p | Some h \<Rightarrow> (pnext p)(h := pnext p i))"
  defines "pv1 \<equiv> (case pnext p i of None \<Rightarrow> pprev p | Some h \<Rightarrow> (pprev p)(h := pprev p i))"
  assumes "pprev p i \<noteq> Some i" "pnext p i \<noteq> Some i" "obj_free_head p \<noteq> Some i"
  shows "pnext q = nx1(i := obj_free_head p)"
    and "pprev q = (case obj_free_head p of None \<Rightarrow> pv1 | Some h \<Rightarrow> pv1(h := Some i))(i := None)"
    and "obj_free_head q = Some i"
    and "obj_allocated_head q =
           (case pprev p i of None \<Rightarrow> pnext p i | Some _ \<Rightarrow> obj_allocated_head p)"
    and "pstatus q = (pstatus p)(i := TXC_POOL_OBJECT_FREE)"
    and "obj_free_num q = obj_free_num p + 1" "obj_allocated_num q = obj_allocated_num p - 1"
  using assms(4-)
  by (auto simp: q_def nx1_def pv1_def pool_object_put_def Let_def fun_eq_iff split: option.split)

lemma pool_rep_put:
  assumes r: "pool_rep p fs (xs @ i # ys)"
  shows "pool_rep (pool_object_put i p) (i # fs) (xs @ ys)"
proof -
  let ?q = "pool_object_put i p"
  let ?nx1 = "case pprev p i of None \<Rightarrow> pnext p | Some h \<Rightarrow> (pnext p)(h := pnext p i)"
  let ?pv1 = "case pnext p i of None \<Rightarrow> pprev p | Some h \<Rightarrow> (pprev p)(h := pprev p i)"
  let ?h1 = "case pprev p i of None \<Rightarrow> pnext p i | Some _ \<Rightarrow> obj_allocated_head p"
  from r have F: "dll (pnext p) (pprev p) (obj_free_head p) fs"
    and A: "dll (pnext p) (pprev p) (obj_allocated_head p) (xs @ i # ys)"
    and disj: "set fs \<inter> set (xs @ i # ys) = {}"
    by (simp_all add: pool_rep_def)
  note nxi = dll_links(1) [OF A] and pvi = dll_links(2) [OF A] and dist = dll_links(3,4) [OF A]
  have ne: "pprev p i \<noteq> Some i" "pnext p i \<noteq> Some i" "obj_free_head p \<noteq> Some i"
    using dist pvi nxi disj dll_head [OF F] by (auto split: list.splits if_splits)
  note L = pool_put_links [OF ne]
  have F1: "dll ?nx1 ?pv1 (obj_free_head p) fs"
    by (rule dll_frame [OF F]) (use disj pvi nxi in \<open>auto split: list.splits if_splits\<close>)
  have F2: "dll (pnext ?q) (pprev ?q) (obj_free_head ?q) (i # fs)"
    unfolding L(3) by (rule dll_push [OF F1]) (use disj in auto, simp_all only: L)
  have A1: "dll ?nx1 ?pv1 ?h1 (xs @ ys)" by (rule dll_unlink [OF A refl refl refl])
  have A2: "dll (pnext ?q) (pprev ?q) (obj_allocated_head ?q) (xs @ ys)"
    unfolding L(4) by (rule dll_frame [OF A1])
      (use disj dist L(1,2) dll_head [OF F] in \<open>auto split: list.splits\<close>)
  have "pool_geometry ?q" using r pool_geometry_same [OF pool_put_frame] by (simp add: pool_rep_def)
  moreover have "obj_num ?q = obj_num p" using pool_put_frame by (simp add: same_pool_def)
  ultimately show ?thesis
    using r F2 A2 dist L(5-7) by (auto simp: pool_rep_def)
qed

section \<open>Addresses and descriptors\<close>

text \<open>
  The pointer arithmetic of \<open>free\<close> inverts that of \<open>create\<close>: every address
  inside an object leads back to its descriptor.
\<close>

lemma pool_address:
  assumes "pool_geometry p" and "i < unat (obj_num p)" and "off < unat (obj_size p)"
  shows "unat (pbuf p i + of_nat off) = unat (full_buf p) + i * unat (obj_size p) + off"
proof -
  let ?s = "unat (obj_size p)" and ?n = "unat (obj_num p)"
  have "i * ?s + off < (i + 1) * ?s" using assms(3) by simp
  also have "\<dots> \<le> ?n * ?s" using assms(2) by (intro mult_le_mono) auto
  finally have lt: "unat (full_buf p) + i * ?s + off < 2 ^ 32"
    using assms(1) by (simp add: pool_geometry_def)
  have "pbuf p i + of_nat off = of_nat (unat (full_buf p) + i * ?s + off)"
    using assms by (simp add: pool_geometry_def)
  with lt show ?thesis by (simp only: unat_of_nat_u32)
qed

lemma pool_index_of:
  assumes "pool_geometry p" and "i < unat (obj_num p)" and "off < unat (obj_size p)"
  shows "unat (pool_index p (pbuf p i + of_nat off)) = i"
proof -
  have le: "full_buf p \<le> pbuf p i + of_nat off"
    using pool_address [OF assms] by (simp add: word_le_nat_alt)
  then have "unat (pbuf p i + of_nat off - full_buf p) = i * unat (obj_size p) + off"
    using pool_address [OF assms] by (simp add: unat_sub)
  with assms(3) show ?thesis by (simp add: pool_index_def unat_div)
qed

lemma pool_buf_inj:
  assumes "pool_geometry p" shows "inj_on (pbuf p) {..<unat (obj_num p)}"
proof (rule inj_onI)
  fix i j assume "i \<in> {..<unat (obj_num p)}" "j \<in> {..<unat (obj_num p)}" "pbuf p i = pbuf p j"
  then show "i = j"
    using pool_index_of [OF assms, of i 0] pool_index_of [OF assms, of j 0] assms
    by (simp add: pool_geometry_def word_less_nat_alt)
qed

lemma pool_buf_nonnull:
  assumes "pool_geometry p" and "i < unat (obj_num p)" shows "pbuf p i \<noteq> 0"
  using pool_address [OF assms, of 0] assms(1)
  by (auto simp: pool_geometry_def word_less_nat_alt)

section \<open>Behaviour of the operations\<close>

definition pool_enter :: "txc_pool \<Rightarrow> bool \<Rightarrow> bool" where
  "pool_enter p lock \<longleftrightarrow> (lock \<longrightarrow> \<not> pool_mutex p)"

lemma pool_lock_unlock [simp]:
  "\<not> pool_mutex p \<Longrightarrow> p\<lparr>pool_mutex := False\<rparr> = p"
  by simp

lemma pool_mutex_commute [simp]:
  "(pool_object_take i (p\<lparr>pool_mutex := b\<rparr>)) = (pool_object_take i p)\<lparr>pool_mutex := b\<rparr>"
  "(pool_object_put i (p\<lparr>pool_mutex := b\<rparr>)) = (pool_object_put i p)\<lparr>pool_mutex := b\<rparr>"
  by (simp_all add: pool_object_take_def pool_object_put_def Let_def set_next_def set_prev_def
      set_status_def pnext_def pprev_def split: option.split)

lemma same_pool_mutex: "same_pool p q \<Longrightarrow> pool_mutex q = pool_mutex p"
  by (simp add: same_pool_def)

lemma alloc_full:
  assumes "pool_rep p [] as" "pool_enter p lock"
  shows "txc_pool_object_alloc lock p = Ok (TXC_R_NOMEMORY, None) p"
  using assms by (simp add: txc_pool_object_alloc_def txc_pool_lock_def txc_pool_unlock_def
      prog_simps pool_rep_def pool_enter_def)

lemma alloc_Cons:
  assumes "pool_rep p (i # fs) as" "pool_enter p lock"
  shows "txc_pool_object_alloc lock p = Ok (TXC_R_SUCCESS, Some (pbuf p i)) (pool_object_take i p)"
proof -
  have "length (i # fs) \<le> unat (obj_num p)"
    using assms(1) by (metis card_lessThan distinct_card card_mono finite_lessThan Un_upper1
        pool_rep_def dll_def)
  then have "length (i # fs) < 2 ^ 32"
    using unat_u32_less [of "obj_num p"] by simp
  then have "unat (obj_free_num p) = length (i # fs)"
    using assms(1) unfolding pool_rep_def by (simp only: unat_of_nat_u32)
  then have "obj_free_num p \<noteq> 0" by auto
  moreover have "obj_free_head p = Some i"
    using assms(1) by (auto simp: pool_rep_def dest: dll_Cons_head)
  moreover have "pbuf (pool_object_take i p) = pbuf p" "pool_mutex (pool_object_take i p) = pool_mutex p"
    using pool_take_frame [of p i] by (simp_all add: same_pool_def)
  ultimately show ?thesis
    using assms(2) by (simp add: txc_pool_object_alloc_def txc_pool_lock_def
        txc_pool_unlock_def prog_simps pool_enter_def)
qed

lemma free_allocated:
  assumes r: "pool_rep p fs as" and i: "i \<in> set as" and "off < unat (obj_size p)"
    and "pool_enter p lock"
  shows "txc_pool_object_free (Some (pbuf p i + of_nat off)) lock p = Ok None (pool_object_put i p)"
proof -
  have "i < unat (obj_num p)" "pool_geometry p" "pstatus p i = 2" "obj_size p \<noteq> 0"
    using r i by (auto simp: pool_rep_def pool_geometry_def)
  moreover from this have "unat (pool_index p (pbuf p i + of_nat off)) = i"
    using assms(3) by (simp add: pool_index_of)
  moreover have "pool_mutex (pool_object_put i p) = pool_mutex p"
    using pool_put_frame [of p i] by (simp add: same_pool_def)
  moreover have "pool_index (p\<lparr>pool_mutex := b\<rparr>) a = pool_index p a" for b a
    by (simp add: pool_index_def)
  ultimately show ?thesis
    using assms(4) by (simp add: txc_pool_object_free_def txc_pool_lock_def txc_pool_unlock_def
        prog_simps pool_enter_def word_less_nat_alt)
qed

lemma free_not_allocated:
  assumes r: "pool_rep p fs as" and i: "i \<in> set fs" and "off < unat (obj_size p)"
    and "pool_enter p lock"
  shows "txc_pool_object_free (Some (pbuf p i + of_nat off)) lock p =
           Fault Assert_failed (p\<lparr>pool_mutex := lock \<or> pool_mutex p\<rparr>)"
proof -
  have "i < unat (obj_num p)" "pool_geometry p" "pstatus p i = 1" "obj_size p \<noteq> 0"
    using r i by (auto simp: pool_rep_def pool_geometry_def)
  moreover from this have "unat (pool_index p (pbuf p i + of_nat off)) = i"
    using assms(3) by (simp add: pool_index_of)
  moreover have "pool_index (p\<lparr>pool_mutex := b\<rparr>) a = pool_index p a" for b a
    by (simp add: pool_index_def)
  ultimately show ?thesis
    using assms(4) by (auto simp: txc_pool_object_free_def txc_pool_lock_def txc_pool_unlock_def
        prog_simps pool_enter_def word_less_nat_alt)
qed

section \<open>A new pool\<close>

lemma pool_create_fold:
  "fst (fold (pool_create_step b sz n ctor) [0..<k] (\<lambda>_. calloc_object, m)) =
     (\<lambda>i. if i < k then \<lparr>obj_buf = b + of_nat i * sz, obj_status = TXC_POOL_OBJECT_FREE,
                        obj_next = Some (unat ((of_nat i + 1) mod n)),
                        obj_prev = Some (unat ((of_nat i - 1) mod n))\<rparr> else calloc_object)"
  by (induction k) (auto simp: pool_create_step_def Let_def fun_eq_iff split_beta)

text \<open>The links the creation loop and the two final assignments leave.\<close>

lemma chain_upt:
  assumes "\<And>i. Suc i < n \<Longrightarrow> nxt i = Some (Suc i)" and "nxt (n - 1) = None" and "k < n"
  shows "lchain nxt (Some k) [k..<n] None"
  using assms(3)
proof (induction "n - k" arbitrary: k)
  case (Suc m)
  show ?case
  proof (cases "Suc k < n")
    case True
    with Suc have "lchain nxt (Some (Suc k)) [Suc k..<n] None" by simp
    with True assms(1) show ?thesis by (simp add: upt_conv_Cons)
  next
    case False
    with Suc.prems have "n = Suc k" by simp
    with assms(2) show ?thesis by simp
  qed
qed simp

lemma pchain_upt:
  assumes "\<And>i. k \<le> i \<Longrightarrow> i < n \<Longrightarrow> prv i = (if i = k then b else Some (i - 1))"
  shows "pchain prv b [k..<n]"
  using assms
proof (induction "n - k" arbitrary: k b)
  case (Suc m)
  then have "k < n" by simp
  moreover have "pchain prv (Some k) [Suc k..<n]"
    using Suc by (intro Suc.hyps(1)) auto
  ultimately show ?case using Suc.prems by (simp add: upt_conv_Cons)
qed simp

lemma unat_mod_small: "(a::u32) < b \<Longrightarrow> unat (a mod b) = unat a"
  by (simp add: unat_mod word_less_nat_alt)

lemma unat_succ_index: "Suc i < unat (n::u32) \<Longrightarrow> unat ((of_nat i + 1) mod n) = Suc i"
proof -
  assume i: "Suc i < unat n"
  then have "unat (of_nat (Suc i) :: u32) = Suc i"
    using unat_u32_less [of n] by (intro unat_of_nat_u32) simp
  moreover from this i have "(of_nat (Suc i) :: u32) < n" by (simp only: word_less_nat_alt)
  ultimately show ?thesis
    using unat_mod_small [of "of_nat (Suc i)" n] by (simp add: add.commute)
qed

lemma unat_pred_index: "0 < i \<Longrightarrow> i < unat (n::u32) \<Longrightarrow> unat ((of_nat i - 1) mod n) = i - 1"
proof -
  assume i: "0 < i" "i < unat n"
  then have "unat (of_nat (i - 1) :: u32) = i - 1"
    using unat_u32_less [of n] by (intro unat_of_nat_u32) simp
  moreover from this i have "(of_nat (i - 1) :: u32) < n" by (simp only: word_less_nat_alt)
  ultimately show ?thesis
    using unat_mod_small [of "of_nat (i - 1)" n] i by (simp add: of_nat_diff)
qed

definition pool_fits :: "addr \<Rightarrow> u32 \<Rightarrow> u32 \<Rightarrow> bool" where
  "pool_fits b sz n \<longleftrightarrow> 0 < b \<and> 0 < sz \<and> 0 < n \<and> unat b + unat n * unat sz \<le> 2 ^ 32"

lemma pool_create_rep:
  assumes fits: "pool_fits b sz n"
  obtains p m' where
    "txc_pool_create (Some x) (Some y) (Some b) 0 sz n ctor m = Ok (TXC_R_SUCCESS, Some p) m'"
    "pool_rep p [0..<unat n] []" "obj_num p = n" "obj_size p = sz" "full_buf p = b" "\<not> pool_mutex p"
proof -
  let ?fold = "fold (pool_create_step b sz n ctor) [0..<unat n] (\<lambda>_. calloc_object, m)"
  obtain o1 m' where fm: "?fold = (o1, m')" by (cases ?fold)
  define o2 where "o2 = o1(unat (n - 1) := (o1 (unat (n - 1)))\<lparr>obj_next := None\<rparr>)"
  define o3 where "o3 = o2(0 := (o2 0)\<lparr>obj_prev := None\<rparr>)"
  define p where "p = \<lparr>pool_mutex = False, full_buf = b, obj_list = o3,
                     obj_free_head = Some 0, obj_allocated_head = None,
                     obj_free_num = n, obj_allocated_num = 0, obj_size = sz, obj_num = n\<rparr>"
  have "n \<noteq> 0" using fits by (auto simp: pool_fits_def)
  then have n0: "0 < unat n" and n1: "unat (n - 1) = unat n - 1"
    by (simp_all add: unat_minus_one unat_gt_0)
  have o1: "o1 i = \<lparr>obj_buf = b + of_nat i * sz, obj_status = TXC_POOL_OBJECT_FREE,
                        obj_next = Some (unat ((of_nat i + 1) mod n)),
                        obj_prev = Some (unat ((of_nat i - 1) mod n))\<rparr>" if "i < unat n" for i
    using that fun_cong [OF arg_cong [OF fm, of fst], of i] by (simp add: pool_create_fold)
  have links: "pnext p i = (if i = unat n - 1 then None else Some (Suc i))"
    "pprev p i = (if i = 0 then None else Some (i - 1))" "pbuf p i = b + of_nat i * sz"
    "pstatus p i = TXC_POOL_OBJECT_FREE" if "i < unat n" for i
    using that o1 [OF that] n0 n1 unat_succ_index [of i n] unat_pred_index [of i n] o1 [of 0]
    by (auto simp: pnext_def pprev_def pbuf_def pstatus_def p_def o3_def o2_def)
  have "lchain (pnext p) (Some 0) [0..<unat n] None"
    by (rule chain_upt) (use links n0 in auto)
  moreover have "pchain (pprev p) None [0..<unat n]"
    by (rule pchain_upt) (use links in auto)
  ultimately have "dll (pnext p) (pprev p) (obj_free_head p) [0..<unat n]"
    by (simp add: dll_def p_def)
  moreover have "pool_geometry p"
    using fits links by (auto simp: pool_geometry_def pool_fits_def p_def)
  ultimately have "pool_rep p [0..<unat n] []"
    using links by (auto simp: pool_rep_def p_def)
  moreover have "txc_pool_create (Some x) (Some y) (Some b) 0 sz n ctor m = Ok (TXC_R_SUCCESS, Some p) m'"
    using fm \<open>n \<noteq> 0\<close> by (simp add: txc_pool_create_def p_def o3_def o2_def Let_def)
  ultimately show ?thesis using that by (simp add: p_def)
qed

section \<open>The interface\<close>

text \<open>
  What a component that keeps its objects in a pool relies on: \<open>live p\<close> is the
  set of the addresses in use and \<open>cap p\<close> the number of objects of the pool.
\<close>

locale object_pool =
  fixes alloc :: "('p, txc_result_t \<times> addr option) prog"
    and free :: "addr option \<Rightarrow> ('p, addr option) prog"
    and ok :: "'p \<Rightarrow> bool" and live :: "'p \<Rightarrow> addr set" and cap :: "'p \<Rightarrow> nat"
  assumes alloc_ok: "ok p \<Longrightarrow> card (live p) < cap p \<Longrightarrow>
      \<exists>a p'. alloc p = Ok (TXC_R_SUCCESS, Some a) p' \<and> ok p' \<and> cap p' = cap p \<and>
             a \<noteq> 0 \<and> a \<notin> live p \<and> live p' = insert a (live p)"
    and alloc_none: "ok p \<Longrightarrow> cap p \<le> card (live p) \<Longrightarrow> alloc p = Ok (TXC_R_NOMEMORY, None) p"
    and free_ok: "ok p \<Longrightarrow> a \<in> live p \<Longrightarrow>
      \<exists>p'. free (Some a) p = Ok None p' \<and> ok p' \<and> cap p' = cap p \<and> live p' = live p - {a}"
    and live_finite: "ok p \<Longrightarrow> finite (live p)"
begin

text \<open>Allocating \<open>n\<close> objects in a row, as the clients do when they fill a list.\<close>

lemma alloc_many_fresh:
  assumes "ok p" "card (live p) + n \<le> cap p"
  shows "\<exists>as p'. repeat_prog n alloc p = Ok (map (\<lambda>a. (TXC_R_SUCCESS, Some a)) as) p' \<and> ok p' \<and> cap p' = cap p \<and>
           length as = n \<and> distinct as \<and> 0 \<notin> set as \<and> set as \<inter> live p = {} \<and>
           live p' = set as \<union> live p"
  using assms
proof (induction n arbitrary: p)
  case 0
  then show ?case by (simp add: prog_simps)
next
  case (Suc n)
  then obtain a p1 where 1: "alloc p = Ok (TXC_R_SUCCESS, Some a) p1" "ok p1" "cap p1 = cap p"
    "a \<noteq> 0" "a \<notin> live p" "live p1 = insert a (live p)"
    using alloc_ok [of p] by auto
  moreover have "card (live p1) = Suc (card (live p))"
    using 1 live_finite [OF Suc.prems(1)] by simp
  ultimately obtain as p2 where 2: "repeat_prog n alloc p1 = Ok (map (\<lambda>a. (TXC_R_SUCCESS, Some a)) as) p2" "ok p2" "cap p2 = cap p1"
    "length as = n" "distinct as" "0 \<notin> set as" "set as \<inter> live p1 = {}" "live p2 = set as \<union> live p1"
    using Suc.IH [of p1] Suc.prems by auto
  show ?case
    by (intro exI [of _ "a # as"] exI [of _ p2]) (use 1 2 in \<open>auto simp: prog_simps\<close>)
qed

text \<open>The pool is exhausted exactly when \<open>cap p\<close> objects are in use.\<close>

lemma alloc_iff:
  assumes "ok p"
  shows "(\<exists>a p'. alloc p = Ok (TXC_R_SUCCESS, Some a) p') \<longleftrightarrow> card (live p) < cap p"
  using alloc_ok [OF assms] alloc_none [OF assms] by (cases "card (live p) < cap p") auto

text \<open>An object that is given back makes room for the next allocation.\<close>

lemma free_then_alloc:
  assumes "ok p" "a \<in> live p" "card (live p) \<le> cap p"
  shows "\<exists>b p'. bnd (free (Some a)) (\<lambda>_. alloc) p = Ok (TXC_R_SUCCESS, Some b) p' \<and> ok p' \<and>
           card (live p') = card (live p)"
proof -
  obtain p1 where 1: "free (Some a) p = Ok None p1" "ok p1" "cap p1 = cap p" "live p1 = live p - {a}"
    using free_ok assms by blast
  have c: "Suc (card (live p1)) = card (live p)"
    using 1 assms live_finite by (metis card_Suc_Diff1)
  then obtain b p2 where 2: "alloc p1 = Ok (TXC_R_SUCCESS, Some b) p2" "ok p2" "b \<notin> live p1"
    "live p2 = insert b (live p1)"
    using alloc_ok [of p1] 1 assms by force
  then have "card (live p2) = card (live p)"
    using c live_finite [OF 1(2)] by simp
  with 1 2 show ?thesis by (auto simp: prog_simps)
qed

end

definition pool_ok :: "txc_pool \<Rightarrow> bool" where
  "pool_ok p \<longleftrightarrow> (\<exists>fs as. pool_rep p fs as) \<and> \<not> pool_mutex p"

definition pool_live :: "txc_pool \<Rightarrow> addr set" where
  "pool_live p = pbuf p ` {i \<in> {..<unat (obj_num p)}. pstatus p i = TXC_POOL_OBJECT_ALLOCATED}"

lemma pool_rep_allocated:
  assumes "pool_rep p fs as"
  shows "{i. i < unat (obj_num p) \<and> pstatus p i = TXC_POOL_OBJECT_ALLOCATED} = set as"
proof -
  have "i \<in> set fs \<union> set as \<longleftrightarrow> i < unat (obj_num p)" for i
    using assms by (simp add: pool_rep_def)
  moreover have "i \<in> set fs \<Longrightarrow> pstatus p i = 1" "i \<in> set as \<Longrightarrow> pstatus p i = 2" for i
    using assms by (simp_all add: pool_rep_def)
  ultimately show ?thesis by auto force
qed

lemma pool_rep_live: "pool_rep p fs as \<Longrightarrow> pool_live p = pbuf p ` set as"
  by (simp add: pool_live_def pool_rep_allocated)

lemma pool_rep_card:
  assumes "pool_rep p fs as"
  shows "card (pool_live p) = length as" and "length fs + length as = unat (obj_num p)"
proof -
  have d: "distinct as" "distinct fs" "set fs \<inter> set as = {}" "set fs \<union> set as = {..<unat (obj_num p)}"
    "pool_geometry p"
    using assms by (auto simp: pool_rep_def dll_def)
  have "inj_on (pbuf p) (set as)"
    by (rule inj_on_subset [OF pool_buf_inj [OF d(5)]]) (use d in auto)
  with d show "card (pool_live p) = length as"
    by (simp add: pool_rep_live [OF assms] card_image distinct_card)
  have "card (set fs \<union> set as) = length fs + length as"
    using d by (subst card_Un_disjoint) (auto simp: distinct_card)
  with d show "length fs + length as = unat (obj_num p)" by simp
qed

lemma same_pool_live:
  assumes "same_pool p q" "pool_rep q fs as"
  shows "pool_live q = pbuf p ` set as" "obj_num q = obj_num p" "pool_mutex q = pool_mutex p"
  using assms pool_rep_live [OF assms(2)] by (simp_all add: same_pool_def)

lemma pool_live_put:
  assumes r: "pool_rep p fs as" and i: "i \<in> set as"
  shows "pool_rep (pool_object_put i p) (i # fs) (remove1 i as)"
    and "pool_live (pool_object_put i p) = pool_live p - {pbuf p i}"
proof -
  obtain xs ys where as: "as = xs @ i # ys" "i \<notin> set xs"
    using split_list_first [OF i] by blast
  then have rem: "remove1 i as = xs @ ys" by (simp add: remove1_append)
  with r as show rep: "pool_rep (pool_object_put i p) (i # fs) (remove1 i as)"
    using pool_rep_put by simp
  have "inj_on (pbuf p) (set as)" "distinct as"
    using r pool_buf_inj by (auto simp: pool_rep_def dll_def intro: inj_on_subset)
  with i have "pbuf p ` set (remove1 i as) = pbuf p ` set as - {pbuf p i}"
    by (simp add: set_remove1_eq inj_on_image_set_diff [of _ "set as"])
  then show "pool_live (pool_object_put i p) = pool_live p - {pbuf p i}"
    using same_pool_live(1) [OF pool_put_frame rep] pool_rep_live [OF r] by simp
qed

lemma pool_alloc_ok:
  assumes "pool_ok p" "card (pool_live p) < unat (obj_num p)"
  shows "\<exists>a p'. txc_pool_object_alloc lock p = Ok (TXC_R_SUCCESS, Some a) p' \<and> pool_ok p' \<and>
           unat (obj_num p') = unat (obj_num p) \<and> a \<noteq> 0 \<and> a \<notin> pool_live p \<and>
           pool_live p' = insert a (pool_live p)"
proof -
  obtain fs as where r: "pool_rep p fs as" using assms(1) by (auto simp: pool_ok_def)
  with assms(2) pool_rep_card [OF r] obtain i fs' where fs: "fs = i # fs'" by (cases fs) auto
  note r' = pool_rep_take [OF r [unfolded fs]]
  have g: "pool_geometry p" "i < unat (obj_num p)" "set as \<subseteq> {..<unat (obj_num p)}" "i \<notin> set as"
    using r fs by (auto simp: pool_rep_def)
  have "pbuf p i \<notin> pool_live p"
    using inj_onD [OF pool_buf_inj [OF g(1)]] g pool_rep_live [OF r] by auto
  with alloc_Cons [OF r [unfolded fs], of lock] assms(1) same_pool_live [OF pool_take_frame r']
    r' pool_rep_live [OF r] pool_buf_nonnull [OF g(1,2)]
  show ?thesis by (auto simp: pool_ok_def pool_enter_def)
qed

interpretation obj_pool: object_pool
  "txc_pool_object_alloc lock" "\<lambda>objp. txc_pool_object_free objp lock" pool_ok pool_live
  "\<lambda>p. unat (obj_num p)" for lock
proof unfold_locales
  fix p assume "pool_ok p" "card (pool_live p) < unat (obj_num p)"
  then show "\<exists>a p'. txc_pool_object_alloc lock p = Ok (TXC_R_SUCCESS, Some a) p' \<and> pool_ok p' \<and>
      unat (obj_num p') = unat (obj_num p) \<and> a \<noteq> 0 \<and> a \<notin> pool_live p \<and>
      pool_live p' = insert a (pool_live p)"
    by (rule pool_alloc_ok)
next
  fix p assume ok: "pool_ok p" and "unat (obj_num p) \<le> card (pool_live p)"
  moreover obtain fs as where r: "pool_rep p fs as" using ok by (auto simp: pool_ok_def)
  ultimately have "length fs = 0" using pool_rep_card [OF r] by linarith
  then have "fs = []" by simp
  with r ok show "txc_pool_object_alloc lock p = Ok (TXC_R_NOMEMORY, None) p"
    using alloc_full by (simp add: pool_ok_def pool_enter_def)
next
  fix p a assume ok: "pool_ok p" and a: "a \<in> pool_live p"
  obtain fs as where r: "pool_rep p fs as" using ok by (auto simp: pool_ok_def)
  then obtain i where i: "i \<in> set as" "a = pbuf p i" using a pool_rep_live by auto
  have "0 < unat (obj_size p)"
    using r by (simp add: pool_rep_def pool_geometry_def word_less_nat_alt)
  then have "txc_pool_object_free (Some a) lock p = Ok None (pool_object_put i p)"
    using free_allocated [OF r i(1), of 0 lock] i ok by (simp add: pool_ok_def pool_enter_def)
  moreover have "obj_num (pool_object_put i p) = obj_num p" "pool_mutex (pool_object_put i p) = pool_mutex p"
    using pool_put_frame [of p i] by (simp_all add: same_pool_def)
  ultimately show "\<exists>p'. txc_pool_object_free (Some a) lock p = Ok None p' \<and> pool_ok p' \<and>
      unat (obj_num p') = unat (obj_num p) \<and> pool_live p' = pool_live p - {a}"
    using pool_live_put [OF r i(1)] i ok by (auto simp: pool_ok_def)
next
  fix p show "finite (pool_live p)" by (simp add: pool_live_def)
qed

section \<open>Properties\<close>

lemma repeat_alloc_size:
  assumes "pool_ok p" "repeat_prog n (txc_pool_object_alloc lock) p = Ok rs p'"
  shows "obj_size p' = obj_size p"
  using assms
proof (induction n arbitrary: p rs)
  case (Suc n)
  from Suc.prems(1) obtain fs as where r: "pool_rep p fs as" "pool_enter p lock"
    by (auto simp: pool_ok_def pool_enter_def)
  have "\<exists>res p1. txc_pool_object_alloc lock p = Ok res p1 \<and> pool_ok p1 \<and> obj_size p1 = obj_size p"
  proof (cases fs)
    case Nil
    with r alloc_full Suc.prems(1) show ?thesis by auto
  next
    case (Cons i fs')
    with r have "pool_rep (pool_object_take i p) fs' (i # as)" by (simp add: pool_rep_take)
    with Cons r alloc_Cons [of p i fs' as lock] Suc.prems(1) pool_take_frame [of p i]
    show ?thesis by (auto simp: pool_ok_def same_pool_def)
  qed
  with Suc show ?case by (auto simp: prog_simps split: outcome.splits)
qed (simp add: prog_simps)

lemma pool_live_apart:
  assumes "pool_ok p" "a \<in> pool_live p" "b \<in> pool_live p" "a \<noteq> b"
  shows "unat a + unat (obj_size p) \<le> unat b \<or> unat b + unat (obj_size p) \<le> unat a"
proof -
  obtain fs as where r: "pool_rep p fs as" using assms(1) by (auto simp: pool_ok_def)
  have g: "pool_geometry p" "0 < unat (obj_size p)"
    using r by (auto simp: pool_rep_def pool_geometry_def word_less_nat_alt)
  obtain i j where ij: "a = pbuf p i" "b = pbuf p j" "i < unat (obj_num p)" "j < unat (obj_num p)"
    using assms(2,3) by (auto simp: pool_live_def)
  with assms(4) have "i < j \<or> j < i" by (metis linorder_cases)
  then have "(i + 1) * unat (obj_size p) \<le> j * unat (obj_size p) \<or>
             (j + 1) * unat (obj_size p) \<le> i * unat (obj_size p)"
    by (metis Suc_eq_plus1 Suc_leI mult_le_mono1)
  then show ?thesis
    using pool_address [OF g(1) ij(3) g(2)] pool_address [OF g(1) ij(4) g(2)] ij by auto
qed

text \<open>
  C14. A newly created pool of \<open>n\<close> objects of \<open>sz\<close> bytes serves exactly \<open>n\<close>
  allocations: they return \<open>n\<close> non-null addresses whose extents of \<open>sz\<close> bytes
  are pairwise disjoint, and the next request is answered \<^verbatim>\<open>TXC_R_NOMEMORY\<close>.
\<close>

theorem pool_serves_all_objects:
  assumes "pool_fits b sz n"
  shows "\<exists>p m' as p'.
    txc_pool_create (Some x) (Some y) (Some b) 0 sz n ctor m = Ok (TXC_R_SUCCESS, Some p) m' \<and>
    repeat_prog (unat n) (txc_pool_object_alloc lock) p =
      Ok (map (\<lambda>a. (TXC_R_SUCCESS, Some a)) as) p' \<and>
    length as = unat n \<and> distinct as \<and> 0 \<notin> set as \<and>
    (\<forall>a \<in> set as. \<forall>c \<in> set as. a \<noteq> c \<longrightarrow>
       unat a + unat sz \<le> unat c \<or> unat c + unat sz \<le> unat a) \<and>
    txc_pool_object_alloc lock p' = Ok (TXC_R_NOMEMORY, None) p'"
proof -
  obtain p m' where c: "txc_pool_create (Some x) (Some y) (Some b) 0 sz n ctor m =
      Ok (TXC_R_SUCCESS, Some p) m'"
    and p: "pool_rep p [0..<unat n] []" "obj_num p = n" "obj_size p = sz" "\<not> pool_mutex p"
    using pool_create_rep [OF assms] by metis
  have ok: "pool_ok p" and live: "pool_live p = {}"
    using p pool_rep_live [OF p(1)] by (auto simp: pool_ok_def)
  obtain as p' where a: "repeat_prog (unat n) (txc_pool_object_alloc lock) p =
      Ok (map (\<lambda>a. (TXC_R_SUCCESS, Some a)) as) p'"
    and as: "pool_ok p'" "unat (obj_num p') = unat (obj_num p)" "length as = unat n" "distinct as"
      "0 \<notin> set as" "pool_live p' = set as"
    using obj_pool.alloc_many_fresh [OF ok, of "unat n" lock] live p by auto
  have "txc_pool_object_alloc lock p' = Ok (TXC_R_NOMEMORY, None) p'"
    by (rule obj_pool.alloc_none) (use as p in \<open>simp_all add: distinct_card\<close>)
  moreover have "obj_size p' = sz"
    using repeat_alloc_size [OF ok a] p by simp
  ultimately show ?thesis
    using c a as pool_live_apart [OF as(1)] by blast
qed

theorem pool_serves_all_objects_witness:
  "pool_fits 4096 16 3 \<and> (\<exists>p m' as p'.
    txc_pool_create (Some 8) (Some 64) (Some 4096) 0 16 3 (None :: (addr \<Rightarrow> unit \<Rightarrow> unit) option) () =
      Ok (TXC_R_SUCCESS, Some p) m' \<and>
    repeat_prog 3 (txc_pool_object_alloc True) p =
      Ok (map (\<lambda>a. (TXC_R_SUCCESS, Some a)) as) p' \<and>
    length as = 3 \<and> txc_pool_object_alloc True p' = Ok (TXC_R_NOMEMORY, None) p')"
proof -
  have f: "pool_fits 4096 16 3" by (simp add: pool_fits_def)
  have "unat (3::u32) = 3" by simp
  with f pool_serves_all_objects [OF f, of 8 64 "None :: (addr \<Rightarrow> unit \<Rightarrow> unit) option" "()" True]
  show ?thesis by metis
qed

text \<open>
  Freeing any address inside an allocated object gives back exactly that
  object, sets the caller's pointer to \<^verbatim>\<open>NULL\<close>, and the next allocation returns the
  same object again (the pool is a slab allocator that allocates from the head).
\<close>

theorem pool_free_then_alloc_same_object:
  assumes "pool_rep p fs as" "i \<in> set as" "off < unat (obj_size p)" "pool_enter p lock"
  shows "\<exists>q r. txc_pool_object_free (Some (txc_pool_object_of p i + of_nat off)) lock p = Ok None q \<and>
           pool_rep q (i # fs) (remove1 i as) \<and> same_pool p q \<and>
           txc_pool_object_alloc lock q = Ok (TXC_R_SUCCESS, Some (txc_pool_object_of p i)) r \<and>
           pool_rep r fs (i # remove1 i as)"
proof -
  let ?q = "pool_object_put i p"
  have q: "pool_rep ?q (i # fs) (remove1 i as)" "same_pool p ?q"
    using pool_live_put(1) [OF assms(1,2)] by simp_all
  then have "pool_enter ?q lock" "pbuf ?q i = pbuf p i"
    using assms(4) by (simp_all add: pool_enter_def same_pool_def)
  with alloc_Cons [OF q(1)] pool_rep_take [OF q(1)] free_allocated [OF assms] q show ?thesis
    by (auto simp: txc_pool_object_of_def)
qed

text \<open>A pool of two objects with the first one allocated, as \<open>create\<close> and \<open>alloc\<close> leave it.\<close>

definition sample_pool :: txc_pool where
  "sample_pool = \<lparr>pool_mutex = False, full_buf = 4096,
     obj_list = (\<lambda>_. calloc_object)
       (0 := \<lparr>obj_buf = 4096, obj_status = 2, obj_next = None, obj_prev = None\<rparr>,
        1 := \<lparr>obj_buf = 4112, obj_status = 1, obj_next = None, obj_prev = None\<rparr>),
     obj_free_head = Some 1, obj_allocated_head = Some 0,
     obj_free_num = 1, obj_allocated_num = 1, obj_size = 16, obj_num = 2\<rparr>"

lemma sample_pool_rep: "pool_rep sample_pool [1] [0]" "\<not> pool_mutex sample_pool"
proof -
  have two: "{..<2} = {0, 1 :: nat}" "i < 2 \<longleftrightarrow> i = 0 \<or> i = 1" for i :: nat by auto
  show "pool_rep sample_pool [1] [0]"
    unfolding pool_rep_def pool_geometry_def
    by (simp add: sample_pool_def dll_def pnext_def pprev_def pstatus_def pbuf_def insert_commute
        two)
  show "\<not> pool_mutex sample_pool" by (simp add: sample_pool_def)
qed

theorem pool_free_then_alloc_same_object_witness:
  "\<exists>q r. txc_pool_object_free (Some 4100) True sample_pool = Ok None q \<and>
     pool_rep q [0, 1] [] \<and> txc_pool_object_alloc True q = Ok (TXC_R_SUCCESS, Some 4096) r"
proof -
  have "unat (obj_size sample_pool) = 16" "txc_pool_object_of sample_pool 0 = 4096"
    by (simp_all add: sample_pool_def txc_pool_object_of_def pbuf_def)
  with pool_free_then_alloc_same_object [OF sample_pool_rep(1), of 0 4 True] sample_pool_rep(2)
  show ?thesis by (auto simp: pool_enter_def)
qed

text \<open>
  Freeing an object that is already free never corrupts the lists: the
  assertion on the object's status stops the process before any link changes.
\<close>

theorem pool_double_free_detected:
  assumes "pool_rep p fs as" "i \<in> set as" "off < unat (obj_size p)" "pool_enter p lock"
  shows "\<exists>q. bnd (txc_pool_object_free (Some (txc_pool_object_of p i + of_nat off)) lock)
               (\<lambda>_. txc_pool_object_free (Some (txc_pool_object_of p i + of_nat off)) lock) p =
             Fault Assert_failed q \<and> pool_rep q (i # fs) (remove1 i as)"
proof -
  let ?q = "pool_object_put i p"
  have q: "pool_rep ?q (i # fs) (remove1 i as)" "same_pool p ?q"
    using pool_live_put(1) [OF assms(1,2)] by simp_all
  then have "pool_enter ?q lock" "pbuf ?q i = pbuf p i" "obj_size ?q = obj_size p"
    using assms(4) by (simp_all add: pool_enter_def same_pool_def)
  with free_not_allocated [OF q(1), of i off lock] free_allocated [OF assms] q assms(3) show ?thesis
    by (auto simp: txc_pool_object_of_def prog_simps)
qed

theorem pool_double_free_detected_witness:
  "\<exists>q. bnd (txc_pool_object_free (Some 4096) True) (\<lambda>_. txc_pool_object_free (Some 4096) True)
         sample_pool = Fault Assert_failed q \<and> pool_rep q [0, 1] []"
proof -
  have "unat (obj_size sample_pool) = 16" "txc_pool_object_of sample_pool 0 = 4096"
    by (simp_all add: sample_pool_def txc_pool_object_of_def pbuf_def)
  with pool_double_free_detected [OF sample_pool_rep(1), of 0 0 True] sample_pool_rep(2)
  show ?thesis by (auto simp: pool_enter_def)
qed

section \<open>Reachable pools\<close>

text \<open>The calls a correct client makes: it frees only addresses it holds.\<close>

inductive pool_step :: "txc_pool \<Rightarrow> txc_pool \<Rightarrow> bool" where
  alloc: "txc_pool_object_alloc lock p = Ok r q \<Longrightarrow> pool_step p q"
| free: "a \<in> pool_live p \<Longrightarrow> txc_pool_object_free (Some a) lock p = Ok r q \<Longrightarrow> pool_step p q"

inductive_cases pool_stepE: "pool_step p q"

lemma pool_step_ok:
  assumes "pool_step p q" "pool_ok p"
  shows "pool_ok q \<and> obj_num q = obj_num p"
  using assms(1)
proof (cases rule: pool_step.cases)
  case (alloc lock r)
  with assms(2) obj_pool.alloc_ok [of p lock] obj_pool.alloc_none [of p lock] show ?thesis
    by (cases "card (pool_live p) < unat (obj_num p)") (auto intro: unsigned_word_eqI)
next
  case (free a lock r)
  with assms(2) obj_pool.free_ok [of p a lock] show ?thesis
    by (auto intro: unsigned_word_eqI)
qed

lemma pool_steps_ok: "pool_step\<^sup>*\<^sup>* p q \<Longrightarrow> pool_ok p \<Longrightarrow> pool_ok q \<and> obj_num q = obj_num p"
  by (induction rule: rtranclp_induct) (auto dest: pool_step_ok)

text \<open>
  C31. However a client allocates and frees, the two counters of the pool are
  exact (they never wrap around): together they make up \<open>obj_num\<close>, and
  \<open>obj_allocated_num\<close> is the number of live addresses.
\<close>

theorem pool_counters_exact:
  assumes "txc_pool_create (Some x) (Some y) (Some b) 0 sz n ctor m = Ok (TXC_R_SUCCESS, Some p) m'"
    and "pool_fits b sz n" and "pool_step\<^sup>*\<^sup>* p q"
  shows "unat (obj_free_num q) + unat (obj_allocated_num q) = unat n \<and>
         card (pool_live q) = unat (obj_allocated_num q)"
proof -
  from pool_create_rep [OF assms(2), of x y ctor m] assms(1)
  have "pool_ok p" "obj_num p = n" by (auto simp: pool_ok_def)
  with pool_steps_ok [OF assms(3)] have "pool_ok q" "obj_num q = n" by auto
  then obtain fs as where r: "pool_rep q fs as" by (auto simp: pool_ok_def)
  note c = pool_rep_card [OF r] and lt = unat_u32_less [of n]
  have "length fs < 2 ^ 32" "length as < 2 ^ 32"
    using c lt \<open>obj_num q = n\<close> by simp_all
  then have "unat (obj_free_num q) = length fs" "unat (obj_allocated_num q) = length as"
    using r by (simp_all only: pool_rep_def unat_of_nat_u32)
  with c \<open>obj_num q = n\<close> show ?thesis by simp
qed

theorem pool_counters_exact_witness:
  "\<exists>p m' q. txc_pool_create (Some 8) (Some 64) (Some 4096) 0 16 2
        (None :: (addr \<Rightarrow> unit \<Rightarrow> unit) option) () = Ok (TXC_R_SUCCESS, Some p) m' \<and>
     txc_pool_object_alloc False p = Ok (TXC_R_SUCCESS, Some 4096) q \<and>
     unat (obj_free_num q) + unat (obj_allocated_num q) = 2 \<and>
     card (pool_live q) = unat (obj_allocated_num q)"
proof -
  have f: "pool_fits 4096 16 2" by (simp add: pool_fits_def)
  obtain p m' where p: "txc_pool_create (Some 8) (Some 64) (Some 4096) 0 16 2
        (None :: (addr \<Rightarrow> unit \<Rightarrow> unit) option) () = Ok (TXC_R_SUCCESS, Some p) m'"
      "pool_rep p [0..<unat (2::u32)] []" "full_buf p = 4096" "\<not> pool_mutex p" "obj_num p = 2"
    using pool_create_rep [OF f] by metis
  have "[0..<unat (2::u32)] = [0, 1]" by (simp add: upt_rec)
  with p have r: "pool_rep p (0 # [1]) []" by simp
  have "pbuf p 0 = 4096" using r p by (simp add: pool_rep_def pool_geometry_def)
  with alloc_Cons [OF r, of False] obtain q where
    q: "txc_pool_object_alloc False p = Ok (TXC_R_SUCCESS, Some 4096) q"
    by (auto simp: pool_enter_def)
  have "pool_step\<^sup>*\<^sup>* p q" by (rule r_into_rtranclp) (rule pool_step.alloc [OF q])
  from pool_counters_exact [OF p(1) f this] p q show ?thesis by auto
qed

section \<open>Iteration\<close>

lemma psubset_union:
  assumes "A \<inter> B = {}" "B \<noteq> {}" shows "A \<subset> A \<union> B"
  using assms by auto

lemma lchain_suffix:
  "lchain nx h xs None \<Longrightarrow> i \<in> set xs \<Longrightarrow> lchain nx (Some i) (dropWhile (\<lambda>j. j \<noteq> i) xs) None"
  by (induction xs arbitrary: h) auto

text \<open>
  Walking a pool from \<open>first\<close> with \<open>next\<close> visits the free objects for
  \<^verbatim>\<open>TXC_POOL_OBJECT_FREE\<close>, the allocated ones for \<^verbatim>\<open>TXC_POOL_OBJECT_ALLOCATED\<close>, and ends.
  For \<^verbatim>\<open>ALLOCATED & FREE\<close>, which is 0 and meant to visit every object, it visits
  only the rest of the list on which descriptor 0 happens to be, so it misses
  objects whenever both lists are non-empty.
\<close>

theorem pool_iteration:
  assumes "pool_rep p fs as"
  shows "txc_pool_object_first TXC_POOL_OBJECT_FREE p = Ok (obj_free_head p) p \<and>
         walk (txc_pool_object_next p) (obj_free_head p) = Some fs \<and>
         txc_pool_object_first TXC_POOL_OBJECT_ALLOCATED p = Ok (obj_allocated_head p) p \<and>
         walk (txc_pool_object_next p) (obj_allocated_head p) = Some as \<and>
         txc_pool_object_first (and TXC_POOL_OBJECT_ALLOCATED TXC_POOL_OBJECT_FREE) p = Ok (Some 0) p \<and>
         (\<exists>xs. walk (txc_pool_object_next p) (Some 0) = Some xs \<and>
            xs = dropWhile (\<lambda>j. j \<noteq> 0) (if 0 \<in> set fs then fs else as) \<and>
            (fs \<noteq> [] \<longrightarrow> as \<noteq> [] \<longrightarrow> set xs \<subset> set fs \<union> set as))"
proof -
  have nx: "txc_pool_object_next p = pnext p" by (simp add: fun_eq_iff txc_pool_object_next_def)
  have F: "dll (pnext p) (pprev p) (obj_free_head p) fs" and A: "dll (pnext p) (pprev p) (obj_allocated_head p) as"
    and disj: "set fs \<inter> set as = {}" and un: "set fs \<union> set as = {..<unat (obj_num p)}"
    and "0 < unat (obj_num p)"
    using assms by (auto simp: pool_rep_def pool_geometry_def word_less_nat_alt)
  then have z: "0 \<in> set fs \<or> 0 \<in> set as" by (metis UnE lessThan_iff)
  let ?ys = "if 0 \<in> set fs then fs else as"
  have "lchain (pnext p) (Some 0) (dropWhile (\<lambda>j. j \<noteq> 0) ?ys) None"
    using F A z lchain_suffix [of "pnext p" _ _ 0] unfolding dll_def by auto
  then have "walk (pnext p) (Some 0) = Some (dropWhile (\<lambda>j. j \<noteq> 0) ?ys)" by (rule walk_chain)
  moreover have "set (dropWhile (\<lambda>j. j \<noteq> 0) ?ys) \<subset> set fs \<union> set as" if "fs \<noteq> []" "as \<noteq> []"
  proof -
    have "set (dropWhile (\<lambda>j. j \<noteq> 0) ?ys) \<subseteq> set ?ys" by (auto dest: set_dropWhileD)
    also have "\<dots> \<subset> set fs \<union> set as"
    proof -
      have "set fs \<noteq> {}" "set as \<noteq> {}" using that by simp_all
      with disj have "set fs \<subset> set fs \<union> set as" "set as \<subset> set fs \<union> set as"
        by (metis psubset_union Int_commute Un_commute)+
      then show ?thesis by simp
    qed
    finally show ?thesis .
  qed
  ultimately show ?thesis
    using walk_dll [OF F] walk_dll [OF A] nx
    by (auto simp: txc_pool_object_first_def prog_simps)
qed

theorem pool_iteration_witness:
  "walk (txc_pool_object_next sample_pool) (obj_free_head sample_pool) = Some [1] \<and>
   walk (txc_pool_object_next sample_pool) (Some 0) = Some [0]"
  using pool_iteration [OF sample_pool_rep(1)] by simp

text \<open>The debugging printout terminates and shows every object once.\<close>

lemma pool_print_complete:
  assumes "pool_rep p fs as" "\<not> pool_mutex p"
  shows "txc_pool_print True printer verbose p =
    Ok (map (pool_print_object p printer verbose) fs,
        map (pool_print_object p printer verbose) as) p"
proof -
  have w: "walk (pnext p) (obj_free_head p) = Some fs" "walk (pnext p) (obj_allocated_head p) = Some as"
    using assms(1) walk_dll by (auto simp: pool_rep_def)
  have "pool_print_object (p\<lparr>pool_mutex := True\<rparr>) = pool_print_object p"
    by (simp add: fun_eq_iff pool_print_object_def)
  with w assms(2) show ?thesis
    by (simp add: txc_pool_print_def txc_pool_lock_def txc_pool_unlock_def prog_simps)
qed

end
