(* ===== verification/Hash_Table.thy ===== *)
theory Hash_Table
  imports Dll
begin

text \<open>
  The chained hash table of \<^verbatim>\<open>src/src/misc/hash_table.c\<close>, which the alias cache of
  the kernel object manager (inode to object) and the statistics manager keep
  their entries in.  Buckets live in a heap indexed by address; every slot has
  a list of used buckets and a list of recycled ones, and a mutex that is taken
  when the table is multi-thread safe.  The theory shows that the table refines
  a finite map (\<open>ht_map\<close>), states this as the interface \<open>map_store\<close>, and that the
  iterator enumerates every entry exactly once.
\<close>

section \<open>Data\<close>

record 'v txc_hash_table_bucket =
  bkt_next :: "addr option"
  bkt_prev :: "addr option"
  bkt_key :: u32
  bkt_value :: 'v

record txc_hash_table_bucket_list =
  bl_mutex :: bool
  bl_head :: "addr option"
  bl_free :: "addr option"

record 'v txc_hash_table =
  tbl_size :: u32
  tbl :: "nat \<Rightarrow> txc_hash_table_bucket_list"
  mtsafe :: bool
  ht_heap :: "addr \<Rightarrow> 'v txc_hash_table_bucket"

record txc_hash_table_iter =
  it_index :: u32
  it_bucket :: "addr option"

definition hnext :: "'v txc_hash_table \<Rightarrow> addr \<Rightarrow> addr option" where
  "hnext h a = bkt_next (ht_heap h a)"

definition hprev :: "'v txc_hash_table \<Rightarrow> addr \<Rightarrow> addr option" where
  "hprev h a = bkt_prev (ht_heap h a)"

definition hkey :: "'v txc_hash_table \<Rightarrow> addr \<Rightarrow> u32" where
  "hkey h a = bkt_key (ht_heap h a)"

definition hvalue :: "'v txc_hash_table \<Rightarrow> addr \<Rightarrow> 'v" where
  "hvalue h a = bkt_value (ht_heap h a)"

definition set_hnext :: "addr \<Rightarrow> addr option \<Rightarrow> 'v txc_hash_table \<Rightarrow> 'v txc_hash_table" where
  "set_hnext a q h = h\<lparr>ht_heap := (ht_heap h)(a := (ht_heap h a)\<lparr>bkt_next := q\<rparr>)\<rparr>"

definition set_hprev :: "addr \<Rightarrow> addr option \<Rightarrow> 'v txc_hash_table \<Rightarrow> 'v txc_hash_table" where
  "set_hprev a q h = h\<lparr>ht_heap := (ht_heap h)(a := (ht_heap h a)\<lparr>bkt_prev := q\<rparr>)\<rparr>"

definition set_hentry :: "addr \<Rightarrow> u32 \<Rightarrow> 'v \<Rightarrow> 'v txc_hash_table \<Rightarrow> 'v txc_hash_table" where
  "set_hentry a k v h =
     h\<lparr>ht_heap := (ht_heap h)(a := (ht_heap h a)\<lparr>bkt_key := k, bkt_value := v\<rparr>)\<rparr>"

text \<open>
  The C helpers take the address of a list head, which is the \<open>head\<close> or the
  \<open>free\<close> field of a slot.  A list is named by its slot and a flag that is true
  for the list of recycled buckets.
\<close>

type_synonym list_id = "nat \<times> bool"

definition list_head :: "'v txc_hash_table \<Rightarrow> list_id \<Rightarrow> addr option" where
  "list_head h s = (if snd s then bl_free (tbl h (fst s)) else bl_head (tbl h (fst s)))"

definition set_list_head :: "list_id \<Rightarrow> addr option \<Rightarrow> 'v txc_hash_table \<Rightarrow> 'v txc_hash_table" where
  "set_list_head s q h =
     h\<lparr>tbl := (tbl h)(fst s := (if snd s then (tbl h (fst s))\<lparr>bl_free := q\<rparr>
                              else (tbl h (fst s))\<lparr>bl_head := q\<rparr>))\<rparr>"

section \<open>Creation and destruction\<close>

text \<open>
  \<open>hp\<close> and \<open>tbl0\<close> are the results of the two allocator calls.  The heap argument
  is the memory in which buckets will be allocated.
\<close>

definition txc_hash_table_create ::
  "addr option \<Rightarrow> addr option \<Rightarrow> (addr \<Rightarrow> 'v txc_hash_table_bucket) \<Rightarrow> u32 \<Rightarrow> bool \<Rightarrow>
   txc_result_t \<times> 'v txc_hash_table option" where
  "txc_hash_table_create hp tbl0 heap table_size mt =
     (case (hp, tbl0) of
        (Some _, Some _) \<Rightarrow>
          (TXC_R_SUCCESS, Some \<lparr>tbl_size = table_size,
             tbl = (\<lambda>_. \<lparr>bl_mutex = False, bl_head = None, bl_free = None\<rparr>),
             mtsafe = mt, ht_heap = heap\<rparr>)
      | _ \<Rightarrow> (TXC_R_NOMEMORY, None))"

text \<open>The buckets that are freed, slot by slot, and the result code.\<close>

definition txc_hash_table_destroy ::
  "'v txc_hash_table option \<Rightarrow> ('s, txc_result_t \<times> addr list) prog" where
  "txc_hash_table_destroy hp =
     (case hp of
        None \<Rightarrow> ret (TXC_R_SUCCESS, [])
      | Some h \<Rightarrow>
          bnd (loop_result (those (map (\<lambda>i.
                 Option.bind (walk (hnext h) (bl_head (tbl h i))) (\<lambda>used.
                 Option.bind (walk (hnext h) (bl_free (tbl h i))) (\<lambda>free.
                 Some (used @ free)))) [0..<unat (tbl_size h)]))) (\<lambda>freed.
          ret (TXC_R_SUCCESS, concat freed)))"

section \<open>Bucket lists\<close>

definition bucket_list_add :: "list_id \<Rightarrow> addr \<Rightarrow> 'v txc_hash_table \<Rightarrow> 'v txc_hash_table" where
  "bucket_list_add s b h =
     (let h = (case list_head h s of None \<Rightarrow> h | Some a \<Rightarrow> set_hprev a (Some b) h);
          h = set_hnext b (list_head h s) h;
          h = set_hprev b None h
      in set_list_head s (Some b) h)"

definition bucket_list_remove :: "list_id \<Rightarrow> addr \<Rightarrow> ('v txc_hash_table, unit) prog" where
  "bucket_list_remove s b h =
     (if list_head h s = Some b then
        let h = set_list_head s (hnext h b) h in Ok () (set_hprev b None h)
      else
        case hprev h b of
          None \<Rightarrow> Fault Undefined h
        | Some p \<Rightarrow>
            let h = set_hnext p (hnext h b) h
            in Ok () (case hnext h b of None \<Rightarrow> h | Some n \<Rightarrow> set_hprev n (hprev h b) h))"

section \<open>Operations\<close>

definition bucket_list_lock :: "nat \<Rightarrow> ('v txc_hash_table, unit) prog" where
  "bucket_list_lock i =
     bnd (gets mtsafe) (\<lambda>mt. mwhen mt
       (txc_mutex_lock (\<lambda>h. bl_mutex (tbl h i))
          (\<lambda>b h. h\<lparr>tbl := (tbl h)(i := (tbl h i)\<lparr>bl_mutex := b\<rparr>)\<rparr>)))"

definition bucket_list_unlock :: "nat \<Rightarrow> ('v txc_hash_table, unit) prog" where
  "bucket_list_unlock i =
     bnd (gets mtsafe) (\<lambda>mt. mwhen mt
       (txc_mutex_unlock (\<lambda>b h. h\<lparr>tbl := (tbl h)(i := (tbl h i)\<lparr>bl_mutex := b\<rparr>)\<rparr>)))"

text \<open>\<^verbatim>\<open>&h->tbl[key % h->tbl_size]\<close>\<close>

definition bucket_list_of :: "u32 \<Rightarrow> ('v txc_hash_table, nat) prog" where
  "bucket_list_of k =
     bnd (gets tbl_size) (\<lambda>n.
     bnd (guard Undefined (n \<noteq> 0)) (\<lambda>_.
     ret (unat (k mod n))))"

definition bucket_search :: "u32 \<Rightarrow> nat \<Rightarrow> ('v txc_hash_table, addr option) prog" where
  "bucket_search k i =
     bnd (gets (\<lambda>h. find_node (hnext h) (\<lambda>a. hkey h a = k) (bl_head (tbl h i)))) loop_result"

text \<open>
  The part of \<open>add\<close> that finds a bucket and links it: \<open>new\<close> is the result of the
  \<^verbatim>\<open>MALLOC\<close> call that runs when no bucket can be recycled.
\<close>

definition bucket_obtain :: "nat \<Rightarrow> addr option \<Rightarrow> ('v txc_hash_table, addr) prog" where
  "bucket_obtain i new =
     bnd (gets (\<lambda>h. bl_free (tbl h i))) (\<lambda>free.
     case free of
       Some b \<Rightarrow> bnd (bucket_list_remove (i, True) b) (\<lambda>_. ret b)
     | None \<Rightarrow> (case new of None \<Rightarrow> throw Undefined | Some b \<Rightarrow> ret b))"

definition txc_hash_table_add ::
  "addr option \<Rightarrow> u32 \<Rightarrow> 'v \<Rightarrow> ('v txc_hash_table, txc_result_t) prog" where
  "txc_hash_table_add new k v =
     bnd (bucket_list_of k) (\<lambda>i.
     bnd (bucket_list_lock i) (\<lambda>_.
     bnd (bucket_search k i) (\<lambda>found.
     bnd (case found of
            Some _ \<Rightarrow> ret TXC_R_EXISTS
          | None \<Rightarrow>
              bnd (bucket_obtain i new) (\<lambda>b.
              bnd (modify (set_hentry b k v)) (\<lambda>_.
              bnd (modify (bucket_list_add (i, False) b)) (\<lambda>_.
              ret TXC_R_SUCCESS)))) (\<lambda>result.
     bnd (bucket_list_unlock i) (\<lambda>_.
     ret result)))))"

text \<open>The second component is the value written to \<^verbatim>\<open>*value\<close>, if any.\<close>

definition txc_hash_table_lookup :: "u32 \<Rightarrow> ('v txc_hash_table, txc_result_t \<times> 'v option) prog" where
  "txc_hash_table_lookup k =
     bnd (bucket_list_of k) (\<lambda>i.
     bnd (bucket_list_lock i) (\<lambda>_.
     bnd (bucket_search k i) (\<lambda>found.
     bnd (case found of
            Some b \<Rightarrow> gets (\<lambda>h. (TXC_R_SUCCESS, Some (hvalue h b)))
          | None \<Rightarrow> ret (TXC_R_NOTEXISTS, None)) (\<lambda>result.
     bnd (bucket_list_unlock i) (\<lambda>_.
     ret result)))))"

definition txc_hash_table_remove :: "u32 \<Rightarrow> ('v txc_hash_table, txc_result_t \<times> 'v option) prog" where
  "txc_hash_table_remove k =
     bnd (bucket_list_of k) (\<lambda>i.
     bnd (bucket_list_lock i) (\<lambda>_.
     bnd (bucket_search k i) (\<lambda>found.
     bnd (case found of
            Some b \<Rightarrow>
              bnd (gets (\<lambda>h. hvalue h b)) (\<lambda>v.
              bnd (bucket_list_remove (i, False) b) (\<lambda>_.
              bnd (modify (bucket_list_add (i, True) b)) (\<lambda>_.
              ret (TXC_R_SUCCESS, Some v))))
          | None \<Rightarrow> ret (TXC_R_NOTEXISTS, None)) (\<lambda>result.
     bnd (bucket_list_unlock i) (\<lambda>_.
     ret result)))))"

section \<open>Iteration\<close>

definition first_used :: "'v txc_hash_table \<Rightarrow> nat \<Rightarrow> nat option" where
  "first_used h i = List.find (\<lambda>i. bl_head (tbl h i) \<noteq> None) [i..<unat (tbl_size h)]"

text \<open>The search loop the two iterator functions share.\<close>

definition iter_seek :: "'v txc_hash_table \<Rightarrow> nat \<Rightarrow> txc_hash_table_iter \<Rightarrow> txc_hash_table_iter" where
  "iter_seek h i it =
     (case first_used h i of
        None \<Rightarrow> it
      | Some i \<Rightarrow> it\<lparr>it_index := of_nat i, it_bucket := bl_head (tbl h i)\<rparr>)"

definition txc_hash_table_iter_init :: "'v txc_hash_table \<Rightarrow> txc_hash_table_iter" where
  "txc_hash_table_iter_init h = iter_seek h 0 \<lparr>it_index = 0, it_bucket = None\<rparr>"

definition txc_hash_table_iter_next ::
  "'v txc_hash_table \<Rightarrow> txc_hash_table_iter \<Rightarrow> txc_result_t \<times> u32 \<times> 'v option \<times> txc_hash_table_iter" where
  "txc_hash_table_iter_next h it =
     (case it_bucket it of
        None \<Rightarrow> (TXC_R_NULLITER, 0, None, it)
      | Some b \<Rightarrow>
          (TXC_R_SUCCESS, hkey h b, Some (hvalue h b),
           case hnext h b of
             Some n \<Rightarrow> it\<lparr>it_bucket := Some n\<rparr>
           | None \<Rightarrow> iter_seek h (unat (it_index it + 1)) (it\<lparr>it_bucket := None\<rparr>)))"

text \<open>The loop of the clients: call \<open>iter_next\<close> until it answers \<^verbatim>\<open>TXC_R_NULLITER\<close>.\<close>

partial_function (option) iter_collect ::
  "'v txc_hash_table \<Rightarrow> txc_hash_table_iter \<Rightarrow> (u32 \<times> 'v option) list option" where
  "iter_collect h it =
     (case txc_hash_table_iter_next h it of (r, k, v, it') \<Rightarrow>
        if r = TXC_R_NULLITER then Some []
        else Option.bind (iter_collect h it') (\<lambda>xs. Some ((k, v) # xs)))"

text \<open>\<^verbatim>\<open>txc_hash_table_print\<close>: the lines for the used and the recycled buckets of every slot.\<close>

definition print_chain :: "'v txc_hash_table \<Rightarrow> addr option \<Rightarrow> (u32 \<times> 'v) list option" where
  "print_chain h p =
     Option.bind (walk (hnext h) p) (\<lambda>bs. Some (map (\<lambda>b. (hkey h b, hvalue h b)) bs))"

definition txc_hash_table_print ::
  "'v txc_hash_table \<Rightarrow> (nat \<times> (u32 \<times> 'v) list \<times> (u32 \<times> 'v) list) list option" where
  "txc_hash_table_print h =
     those (map (\<lambda>i. Option.bind (print_chain h (bl_head (tbl h i))) (\<lambda>used.
                     Option.bind (print_chain h (bl_free (tbl h i))) (\<lambda>free.
                     Some (i, used, free)))) [0..<unat (tbl_size h)])"

section \<open>The representation invariant\<close>

text \<open>\<open>L s\<close> is the HOL list of the buckets on list \<open>s\<close>.\<close>

definition ht_lists :: "'v txc_hash_table \<Rightarrow> (list_id \<Rightarrow> addr list) \<Rightarrow> bool" where
  "ht_lists h L \<longleftrightarrow>
     (\<forall>s. fst s < unat (tbl_size h) \<longrightarrow> hdll (hnext h) (hprev h) (list_head h s) (L s)) \<and>
     (\<forall>s t. fst s < unat (tbl_size h) \<longrightarrow> fst t < unat (tbl_size h) \<longrightarrow> s \<noteq> t \<longrightarrow>
        set (L s) \<inter> set (L t) = {})"

definition ht_rep :: "'v txc_hash_table \<Rightarrow> (list_id \<Rightarrow> addr list) \<Rightarrow> bool" where
  "ht_rep h L \<longleftrightarrow>
     tbl_size h \<noteq> 0 \<and> ht_lists h L \<and>
     (\<forall>i < unat (tbl_size h). distinct (map (hkey h) (L (i, False))) \<and>
        (\<forall>b \<in> set (L (i, False)). unat (hkey h b mod tbl_size h) = i))"

text \<open>No slot is locked: the table between two calls.\<close>

definition ht_idle :: "'v txc_hash_table \<Rightarrow> bool" where
  "ht_idle h \<longleftrightarrow> (\<forall>i. \<not> bl_mutex (tbl h i))"

definition ht_ok :: "'v txc_hash_table \<Rightarrow> bool" where
  "ht_ok h \<longleftrightarrow> ht_idle h \<and> (\<exists>L. ht_rep h L)"

text \<open>The addresses of the buckets the table holds, used or recycled.\<close>

definition ht_buckets :: "'v txc_hash_table \<Rightarrow> addr set" where
  "ht_buckets h = (\<Union>s \<in> {..<unat (tbl_size h)} \<times> UNIV.
     case walk (hnext h) (list_head h s) of None \<Rightarrow> {} | Some bs \<Rightarrow> set bs)"

text \<open>The finite map a table stands for.\<close>

definition ht_map :: "'v txc_hash_table \<Rightarrow> u32 \<Rightarrow> 'v option" where
  "ht_map h k =
     (case walk (hnext h) (bl_head (tbl h (unat (k mod tbl_size h)))) of
        None \<Rightarrow> None
      | Some bs \<Rightarrow> map_of (map (\<lambda>b. (hkey h b, hvalue h b)) bs) k)"

lemma heap_updates [simp]:
  "hnext (set_hnext a q h) = (hnext h)(a := q)" "hnext (set_hprev a q h) = hnext h"
  "hprev (set_hnext a q h) = hprev h" "hprev (set_hprev a q h) = (hprev h)(a := q)"
  "hkey (set_hnext a q h) = hkey h" "hkey (set_hprev a q h) = hkey h"
  "hvalue (set_hnext a q h) = hvalue h" "hvalue (set_hprev a q h) = hvalue h"
  "hnext (set_hentry a k v h) = hnext h" "hprev (set_hentry a k v h) = hprev h"
  "hkey (set_hentry a k v h) = (hkey h)(a := k)" "hvalue (set_hentry a k v h) = (hvalue h)(a := v)"
  "hnext (set_list_head s q h) = hnext h" "hprev (set_list_head s q h) = hprev h"
  "hkey (set_list_head s q h) = hkey h" "hvalue (set_list_head s q h) = hvalue h"
  "hnext (h\<lparr>tbl := t\<rparr>) = hnext h" "hprev (h\<lparr>tbl := t\<rparr>) = hprev h"
  "hkey (h\<lparr>tbl := t\<rparr>) = hkey h" "hvalue (h\<lparr>tbl := t\<rparr>) = hvalue h"
  by (auto simp: hnext_def hprev_def hkey_def hvalue_def set_hnext_def set_hprev_def
      set_hentry_def set_list_head_def fun_eq_iff)

lemma table_updates [simp]:
  "list_head (set_hnext a q h) = list_head h" "list_head (set_hprev a q h) = list_head h"
  "list_head (set_hentry a k v h) = list_head h"
  "list_head (set_list_head s q h) = (list_head h)(s := q)"
  "tbl_size (set_hnext a q h) = tbl_size h" "tbl_size (set_hprev a q h) = tbl_size h"
  "tbl_size (set_hentry a k v h) = tbl_size h" "tbl_size (set_list_head s q h) = tbl_size h"
  "mtsafe (set_hnext a q h) = mtsafe h" "mtsafe (set_hprev a q h) = mtsafe h"
  "mtsafe (set_hentry a k v h) = mtsafe h" "mtsafe (set_list_head s q h) = mtsafe h"
  "bl_mutex (tbl (set_hnext a q h) i) = bl_mutex (tbl h i)"
  "bl_mutex (tbl (set_hprev a q h) i) = bl_mutex (tbl h i)"
  "bl_mutex (tbl (set_hentry a k v h) i) = bl_mutex (tbl h i)"
  "bl_mutex (tbl (set_list_head s q h) i) = bl_mutex (tbl h i)"
  by (auto simp: list_head_def set_hnext_def set_hprev_def set_hentry_def set_list_head_def
      fun_eq_iff prod_eq_iff)

text \<open>Everything but the links and the heads stays as it is.\<close>

definition same_entries :: "'v txc_hash_table \<Rightarrow> 'v txc_hash_table \<Rightarrow> bool" where
  "same_entries h h' \<longleftrightarrow> hkey h' = hkey h \<and> hvalue h' = hvalue h \<and> tbl_size h' = tbl_size h \<and>
     mtsafe h' = mtsafe h \<and> (\<forall>i. bl_mutex (tbl h' i) = bl_mutex (tbl h i))"

lemma bucket_list_add_entries: "same_entries h (bucket_list_add s b h)"
  by (simp add: same_entries_def bucket_list_add_def Let_def split: option.split)

lemma bucket_list_remove_entries: "bucket_list_remove s b h = Ok () h' \<Longrightarrow> same_entries h h'"
  by (auto simp: same_entries_def bucket_list_remove_def Let_def split: option.splits if_splits)

lemma ht_listsD:
  assumes "ht_lists h L" "fst s < unat (tbl_size h)"
  shows "hdll (hnext h) (hprev h) (list_head h s) (L s)"
    and "fst t < unat (tbl_size h) \<Longrightarrow> s \<noteq> t \<Longrightarrow> set (L s) \<inter> set (L t) = {}"
  using assms unfolding ht_lists_def by blast+

text \<open>
  Replacing the list \<open>s\<close>: the other lists need only be outside the part of the
  heap that changed.
\<close>

lemma ht_lists_update:
  assumes "ht_lists h L" and "tbl_size h' = tbl_size h"
    and "hdll (hnext h') (hprev h') (list_head h' s) xs"
    and "\<And>t. t \<noteq> s \<Longrightarrow> list_head h' t = list_head h t"
    and "\<And>a. a \<notin> C \<Longrightarrow> hnext h' a = hnext h a \<and> hprev h' a = hprev h a"
    and "\<And>t. fst t < unat (tbl_size h) \<Longrightarrow> t \<noteq> s \<Longrightarrow> set (L t) \<inter> (C \<union> set xs) = {}"
  shows "ht_lists h' (L(s := xs))"
  unfolding ht_lists_def
proof (intro conjI allI impI)
  fix t :: list_id assume t: "fst t < unat (tbl_size h')"
  show "hdll (hnext h') (hprev h') (list_head h' t) ((L(s := xs)) t)"
  proof (cases "t = s")
    case False
    then have "hdll (hnext h) (hprev h) (list_head h' t) (L t)"
      using ht_listsD(1) [OF assms(1)] assms(2,4) t by simp
    then have "hdll (hnext h') (hprev h') (list_head h' t) (L t)"
      by (rule hdll_frame) (use assms(2,5) assms(6) [of t] t False in auto)
    with False show ?thesis by simp
  qed (simp add: assms(3))
next
  fix t u :: list_id
  assume "fst t < unat (tbl_size h')" "fst u < unat (tbl_size h')" "t \<noteq> u"
  then show "set ((L(s := xs)) t) \<inter> set ((L(s := xs)) u) = {}"
    using assms(2) assms(6) [of t] assms(6) [of u] ht_listsD(2) [OF assms(1), of t u] by auto
qed

lemma ht_lists_add:
  assumes l: "ht_lists h L" and s: "fst s < unat (tbl_size h)"
    and fresh: "\<And>t. fst t < unat (tbl_size h) \<Longrightarrow> b \<notin> set (L t)"
  shows "ht_lists (bucket_list_add s b h) (L(s := b # L s))"
proof (rule ht_lists_update [OF l])
  let ?h = "bucket_list_add s b h"
  note d = ht_listsD(1) [OF l s]
  have ls: "list_head h s = Some a \<Longrightarrow> a \<in> set (L s)" for a
    using hdll_head [OF d] by (auto split: list.splits)
  have "b \<notin> set (L s)" using fresh s by blast
  then have "list_head h s \<noteq> Some b" using ls by blast
  then have links: "hnext ?h = (hnext h)(b := list_head h s)" "list_head ?h s = Some b"
    "hprev ?h = (case list_head h s of None \<Rightarrow> hprev h | Some y \<Rightarrow> (hprev h)(y := Some b))(b := None)"
    by (auto simp: bucket_list_add_def Let_def split: option.split)
  then show "hdll (hnext ?h) (hprev ?h) (list_head ?h s) (b # L s)"
    using hdll_push [OF d \<open>b \<notin> set (L s)\<close>] by simp
  show "hnext ?h a = hnext h a \<and> hprev ?h a = hprev h a" if "a \<notin> insert b (set (L s))" for a
    using that ls links by (auto split: option.splits)
  show "set (L t) \<inter> (insert b (set (L s)) \<union> set (b # L s)) = {}"
    if "fst t < unat (tbl_size h)" "t \<noteq> s" for t
    using fresh [OF that(1)] ht_listsD(2) [OF l that(1) s that(2)] by auto
  show "list_head ?h t = list_head h t" if "t \<noteq> s" for t
    using that by (simp add: bucket_list_add_def Let_def split: option.split)
qed (use bucket_list_add_entries [of h s b] in \<open>simp add: same_entries_def\<close>)

lemma ht_lists_remove:
  assumes l: "ht_lists h L" and s: "fst s < unat (tbl_size h)" and b: "b \<in> set (L s)"
  obtains h' where "bucket_list_remove s b h = Ok () h'" "same_entries h h'"
    "ht_lists h' (L(s := remove1 b (L s)))"
proof -
  note d = ht_listsD(1) [OF l s]
  obtain xs ys where split: "L s = xs @ b # ys" "b \<notin> set xs" using split_list_first [OF b] by blast
  then have rem: "remove1 b (L s) = xs @ ys" by (simp add: remove1_append)
  have d': "hdll (hnext h) (hprev h) (list_head h s) (xs @ b # ys)" using d split by simp
  have nb: "hnext h b = (case ys of [] \<Rightarrow> None | y # _ \<Rightarrow> Some y)"
    using d' by (auto simp: hdll_def dest: lchain_next)
  have "\<exists>h'. bucket_list_remove s b h = Ok () h' \<and>
      hdll (hnext h') (hprev h') (list_head h' s) (xs @ ys) \<and>
      (\<forall>t. t \<noteq> s \<longrightarrow> list_head h' t = list_head h t) \<and>
      (\<forall>a. a \<notin> set (L s) \<longrightarrow> hnext h' a = hnext h a \<and> hprev h' a = hprev h a)"
  proof (cases "xs = []")
    case True
    with d' have "list_head h s = Some b" by (simp add: hdll_def)
    moreover from this True d' have "hdll (hnext h) ((hprev h)(b := None)) (hnext h b) ys"
      using hdll_pop by simp
    ultimately show ?thesis
      using True b by (auto simp: bucket_list_remove_def Let_def)
  next
    case False
    then have "list_head h s \<noteq> Some b" "hprev h b = Some (last xs)"
      using hdll_head [OF d'] hdll_prev [OF d'] split by (cases xs; auto)+
    moreover have "last xs \<noteq> b" "last xs \<in> set (L s)" using False split by auto
    moreover have "hnext h b = Some n \<Longrightarrow> n \<in> set (L s)" for n
      using nb split by (auto split: list.splits)
    ultimately show ?thesis
      using hdll_unlink [OF d' False refl refl]
      by (auto simp: bucket_list_remove_def Let_def split: option.splits)
  qed
  then obtain h' where h': "bucket_list_remove s b h = Ok () h'"
    "hdll (hnext h') (hprev h') (list_head h' s) (remove1 b (L s))"
    "\<And>t. t \<noteq> s \<Longrightarrow> list_head h' t = list_head h t"
    "\<And>a. a \<notin> set (L s) \<Longrightarrow> hnext h' a = hnext h a \<and> hprev h' a = hprev h a"
    using rem by auto
  moreover note e = bucket_list_remove_entries [OF h'(1)]
  moreover have "ht_lists h' (L(s := remove1 b (L s)))"
    by (rule ht_lists_update [OF l _ h'(2-4)])
      (use e ht_listsD(2) [OF l _ s] set_remove1_subset [of b "L s"] in
        \<open>auto simp: same_entries_def\<close>)
  ultimately show ?thesis using that by blast
qed

section \<open>Behaviour of the operations\<close>

lemma slot_less: "tbl_size h \<noteq> 0 \<Longrightarrow> unat (k mod tbl_size h) < unat (tbl_size h)"
  by (simp add: unat_mod unat_gt_0)

lemma ht_rep_walk:
  assumes "ht_rep h L" "fst s < unat (tbl_size h)"
  shows "walk (hnext h) (list_head h s) = Some (L s)"
  using ht_listsD(1) [of h L s] assms walk_hdll by (simp add: ht_rep_def)

lemma ht_rep_find:
  assumes "ht_rep h L" "i < unat (tbl_size h)"
  shows "find_node (hnext h) P (bl_head (tbl h i)) = Some (List.find P (L (i, False)))"
  using ht_listsD(1) [of h L "(i, False)"] assms
  by (simp add: ht_rep_def hdll_def list_head_def find_node_chain)

lemma ht_rep_map:
  assumes "ht_rep h L"
  shows "ht_map h k =
    map_of (map (\<lambda>b. (hkey h b, hvalue h b)) (L (unat (k mod tbl_size h), False))) k"
proof -
  have "tbl_size h \<noteq> 0" using assms by (simp add: ht_rep_def)
  then have "walk (hnext h) (list_head h (unat (k mod tbl_size h), False)) =
      Some (L (unat (k mod tbl_size h), False))"
    by (intro ht_rep_walk [OF assms]) (simp add: slot_less)
  then show ?thesis by (simp add: ht_map_def list_head_def)
qed

lemma find_map_of:
  "map_of (map (\<lambda>b. (f b, g b)) bs) k = map_option g (List.find (\<lambda>b. f b = k) bs)"
  by (induction bs) auto

lemma ht_rep_buckets:
  assumes "ht_rep h L"
  shows "ht_buckets h = (\<Union>s \<in> {..<unat (tbl_size h)} \<times> UNIV. set (L s))"
  using ht_rep_walk [OF assms] unfolding ht_buckets_def by (intro SUP_cong) auto

lemma ht_rep_cong:
  assumes "ht_rep h L" "hnext h' = hnext h" "hprev h' = hprev h" "hkey h' = hkey h"
    "list_head h' = list_head h" "tbl_size h' = tbl_size h"
  shows "ht_rep h' L"
  using assms by (simp add: ht_rep_def ht_lists_def)

text \<open>Locking and unlocking a slot.\<close>

definition set_bl_mutex :: "nat \<Rightarrow> bool \<Rightarrow> 'v txc_hash_table \<Rightarrow> 'v txc_hash_table" where
  "set_bl_mutex i b h = h\<lparr>tbl := (tbl h)(i := (tbl h i)\<lparr>bl_mutex := b\<rparr>)\<rparr>"

lemma set_bl_mutex_simps [simp]:
  "hnext (set_bl_mutex i b h) = hnext h" "hprev (set_bl_mutex i b h) = hprev h"
  "hkey (set_bl_mutex i b h) = hkey h" "hvalue (set_bl_mutex i b h) = hvalue h"
  "list_head (set_bl_mutex i b h) = list_head h" "tbl_size (set_bl_mutex i b h) = tbl_size h"
  "mtsafe (set_bl_mutex i b h) = mtsafe h"
  "bl_mutex (tbl (set_bl_mutex i b h) j) = (if i = j then b else bl_mutex (tbl h j))"
  "bl_head (tbl (set_bl_mutex i b h) j) = bl_head (tbl h j)"
  "bl_free (tbl (set_bl_mutex i b h) j) = bl_free (tbl h j)"
  by (auto simp: set_bl_mutex_def list_head_def fun_eq_iff)

lemma set_bl_mutex_rep [simp]: "ht_rep (set_bl_mutex i b h) L = ht_rep h L"
  by (auto elim: ht_rep_cong)

lemma set_bl_mutex_map [simp]: "ht_map (set_bl_mutex i b h) = ht_map h"
  by (simp add: ht_map_def fun_eq_iff split: option.split)

lemma set_bl_mutex_idle: "ht_idle h \<Longrightarrow> set_bl_mutex i False (set_bl_mutex i b h) = h"
proof -
  assume "ht_idle h"
  then have "(tbl h i)\<lparr>bl_mutex := False\<rparr> = tbl h i" by (simp add: ht_idle_def)
  then show ?thesis by (simp add: set_bl_mutex_def)
qed

definition ht_locked :: "nat \<Rightarrow> 'v txc_hash_table \<Rightarrow> 'v txc_hash_table" where
  "ht_locked i h = (if mtsafe h then set_bl_mutex i True h else h)"

definition ht_unlocked :: "nat \<Rightarrow> 'v txc_hash_table \<Rightarrow> 'v txc_hash_table" where
  "ht_unlocked i h = (if mtsafe h then set_bl_mutex i False h else h)"

lemma bucket_list_lock_idle: "ht_idle h \<Longrightarrow> bucket_list_lock i h = Ok () (ht_locked i h)"
  by (simp add: bucket_list_lock_def prog_simps ht_locked_def set_bl_mutex_def ht_idle_def)

lemma bucket_list_unlock_eq: "bucket_list_unlock i h = Ok () (ht_unlocked i h)"
  by (simp add: bucket_list_unlock_def prog_simps ht_unlocked_def set_bl_mutex_def)

lemma ht_locked_simps [simp]:
  "ht_rep (ht_locked i h) L = ht_rep h L" "ht_map (ht_locked i h) = ht_map h"
  "hkey (ht_locked i h) = hkey h" "hvalue (ht_locked i h) = hvalue h" "hnext (ht_locked i h) = hnext h"
  "tbl_size (ht_locked i h) = tbl_size h" "mtsafe (ht_locked i h) = mtsafe h"
  "list_head (ht_locked i h) = list_head h"
  "bl_head (tbl (ht_locked i h) j) = bl_head (tbl h j)"
  "bl_free (tbl (ht_locked i h) j) = bl_free (tbl h j)"
  "ht_rep (ht_unlocked i h) L = ht_rep h L" "ht_map (ht_unlocked i h) = ht_map h"
  by (simp_all add: ht_locked_def ht_unlocked_def)

lemma ht_unlocked_locked: "ht_idle h \<Longrightarrow> ht_unlocked i (ht_locked i h) = h"
  by (simp add: ht_locked_def ht_unlocked_def set_bl_mutex_idle)

lemma ht_unlocked_idle:
  assumes "ht_idle h" "mtsafe h' = mtsafe h"
    and "\<And>j. bl_mutex (tbl h' j) = bl_mutex (tbl (ht_locked i h) j)"
  shows "ht_idle (ht_unlocked i h')"
  using assms by (auto simp: ht_idle_def ht_unlocked_def ht_locked_def)

text \<open>Linking an unused bucket with a new key.\<close>

lemma ht_rep_insert:
  fixes v :: 'v
  assumes r: "ht_rep h L" and k: "ht_map h k = None"
    and fresh: "\<And>t. fst t < unat (tbl_size h) \<Longrightarrow> b \<notin> set (L t)"
    and i: "i = unat (k mod tbl_size h)"
  defines "h' \<equiv> bucket_list_add (i, False) b (set_hentry b k v h)"
  shows "ht_rep h' (L((i, False) := b # L (i, False)))" and "ht_map h' = (ht_map h)(k \<mapsto> v)"
    and "mtsafe h' = mtsafe h" "\<And>j. bl_mutex (tbl h' j) = bl_mutex (tbl h j)"
    and "tbl_size h' = tbl_size h"
proof -
  have il: "i < unat (tbl_size h)" using r i by (simp add: ht_rep_def slot_less)
  have "ht_lists (set_hentry b k v h) L" using r by (simp add: ht_rep_def ht_lists_def)
  then have l: "ht_lists h' (L((i, False) := b # L (i, False)))"
    unfolding h'_def by (rule ht_lists_add) (use il fresh in auto)
  have e: "hkey h' = (hkey h)(b := k)" "hvalue h' = (hvalue h)(b := v)" "tbl_size h' = tbl_size h"
    using bucket_list_add_entries [of "set_hentry b k v h" "(i, False)" b]
    by (simp_all add: h'_def same_entries_def)
  show m: "mtsafe h' = mtsafe h" "bl_mutex (tbl h' j) = bl_mutex (tbl h j)" "tbl_size h' = tbl_size h" for j
    using bucket_list_add_entries [of "set_hentry b k v h" "(i, False)" b]
    by (simp_all add: h'_def same_entries_def)
  have nk: "k \<notin> hkey h ` set (L (i, False))"
    using k unfolding ht_rep_map [OF r] i by (force simp: map_of_eq_None_iff image_iff)
  have others: "map (hkey h') (L (j, False)) = map (hkey h) (L (j, False))"
    "map (\<lambda>b. (hkey h' b, hvalue h' b)) (L (j, False)) = map (\<lambda>b. (hkey h b, hvalue h b)) (L (j, False))"
    "\<And>c. c \<in> set (L (j, False)) \<Longrightarrow> hkey h' c = hkey h c"
    if "j < unat (tbl_size h)" for j
    using fresh [of "(j, False)"] that e by auto
  show rep: "ht_rep h' (L((i, False) := b # L (i, False)))"
    unfolding ht_rep_def
  proof (intro conjI allI impI l)
    fix j assume j: "j < unat (tbl_size h')"
    then have jh: "j < unat (tbl_size h)" using e(3) by simp
    then have "distinct (map (hkey h') (L (j, False)))"
      unfolding others(1) [OF jh] using r by (simp add: ht_rep_def)
    moreover have "hkey h' b \<notin> set (map (hkey h') (L (i, False)))"
      unfolding others(1) [OF il] using nk e(1) by simp
    ultimately show "distinct (map (hkey h') ((L((i, False) := b # L (i, False))) (j, False)))"
      by (cases "j = i") simp_all
    show "\<forall>c \<in> set ((L((i, False) := b # L (i, False))) (j, False)). unat (hkey h' c mod tbl_size h') = j"
      using r j others(3) [of j] e i by (auto simp: ht_rep_def)
  qed (use r e in \<open>simp add: ht_rep_def\<close>)
  show "ht_map h' = (ht_map h)(k \<mapsto> v)"
  proof
    fix k'
    let ?j = "unat (k' mod tbl_size h)"
    have jl: "?j < unat (tbl_size h)" using r by (simp add: ht_rep_def slot_less)
    have kb: "hkey h' b = k" "hvalue h' b = v" using e by simp_all
    show "ht_map h' k' = ((ht_map h)(k \<mapsto> v)) k'"
      unfolding ht_rep_map [OF rep] ht_rep_map [OF r] e(3) using i
      by (cases "?j = i") (auto simp: kb others(2) [OF jl] others(2) [OF il [unfolded i]])
  qed
qed

text \<open>Moving a bucket between lists does not change the entries of the other lists.\<close>

lemma ht_rep_lists_change:
  assumes r: "ht_rep h L" and l: "ht_lists h' L'" and e: "same_entries h h'"
    and sub: "\<And>j. j < unat (tbl_size h) \<Longrightarrow>
      set (L' (j, False)) \<subseteq> set (L (j, False)) \<and> distinct (L' (j, False))"
  shows "ht_rep h' L'"
  unfolding ht_rep_def
proof (intro conjI allI impI l)
  fix j assume j: "j < unat (tbl_size h')"
  then have "inj_on (hkey h) (set (L (j, False)))"
    using r e by (simp add: ht_rep_def same_entries_def distinct_map)
  then have "inj_on (hkey h) (set (L' (j, False)))"
    by (rule inj_on_subset) (use sub [of j] j e in \<open>simp add: same_entries_def\<close>)
  then show "distinct (map (hkey h') (L' (j, False)))"
    using sub [of j] j e by (simp add: distinct_map same_entries_def)
  show "\<forall>b \<in> set (L' (j, False)). unat (hkey h' b mod tbl_size h') = j"
    using sub [of j] j e r by (auto simp: ht_rep_def same_entries_def)
qed (use r e in \<open>simp add: ht_rep_def same_entries_def\<close>)

lemma ht_rep_distinct: "ht_rep h L \<Longrightarrow> fst s < unat (tbl_size h) \<Longrightarrow> distinct (L s)"
  using ht_listsD(1) [of h L s] by (simp add: ht_rep_def hdll_def)

lemma bucket_obtain_rep:
  assumes r: "ht_rep h L" and i: "i < unat (tbl_size h)"
    and new: "\<exists>a. new = Some a \<and> a \<notin> ht_buckets h"
  shows "\<exists>b h' L'. bucket_obtain i new h = Ok b h' \<and> ht_rep h' L' \<and> same_entries h h' \<and>
    (\<forall>t. fst t < unat (tbl_size h) \<longrightarrow> b \<notin> set (L' t)) \<and> (\<forall>j. L' (j, False) = L (j, False))"
proof (cases "L (i, True)")
  case Nil
  then have "bl_free (tbl h i) = None"
    using ht_listsD(1) [of h L "(i, True)"] r i by (simp add: ht_rep_def list_head_def)
  moreover obtain a where "new = Some a" "a \<notin> ht_buckets h" using new by blast
  ultimately show ?thesis
    using r ht_rep_buckets [OF r]
    by (intro exI [of _ a] exI [of _ h] exI [of _ L])
      (auto simp: bucket_obtain_def prog_simps same_entries_def)
next
  case (Cons b bs)
  have l: "ht_lists h L" using r by (simp add: ht_rep_def)
  then have "bl_free (tbl h i) = Some b"
    using hdll_head [OF ht_listsD(1) [of h L "(i, True)"]] i Cons by (simp add: list_head_def)
  moreover obtain h' where h': "bucket_list_remove (i, True) b h = Ok () h'" "same_entries h h'"
    "ht_lists h' (L((i, True) := bs))"
    using ht_lists_remove [OF l, of "(i, True)" b] i Cons by auto
  moreover have "ht_rep h' (L((i, True) := bs))"
    by (rule ht_rep_lists_change [OF r h'(3,2)]) (use ht_rep_distinct [OF r] in auto)
  moreover have "b \<notin> set ((L((i, True) := bs)) t)" if "fst t < unat (tbl_size h)" for t
    using ht_listsD(2) [OF l that, of "(i, True)"] ht_rep_distinct [OF r, of "(i, True)"] Cons i
    by auto
  ultimately show ?thesis
    by (intro exI [of _ b] exI [of _ h'] exI [of _ "L((i, True) := bs)"])
      (auto simp: bucket_obtain_def prog_simps)
qed

lemma same_entries_map:
  assumes "ht_rep h L" "ht_rep h' L'" "same_entries h h'" "\<And>j. L' (j, False) = L (j, False)"
  shows "ht_map h' = ht_map h"
  using assms by (simp add: fun_eq_iff ht_rep_map same_entries_def)

lemma bucket_search_rep:
  assumes "ht_rep h L"
  shows "bucket_search k (unat (k mod tbl_size h)) h =
    Ok (List.find (\<lambda>b. hkey h b = k) (L (unat (k mod tbl_size h), False))) h"
  using ht_rep_find [OF assms slot_less [of h k]] assms
  by (simp add: bucket_search_def prog_simps ht_rep_def)

lemma ht_rep_found:
  assumes "ht_rep h L" "ht_map h k = Some w"
  obtains b where "List.find (\<lambda>b. hkey h b = k) (L (unat (k mod tbl_size h), False)) = Some b"
    "hvalue h b = w"
  using assms(2) unfolding ht_rep_map [OF assms(1)] find_map_of map_option_eq_Some by blast

lemma bucket_list_of_ok:
  "tbl_size h \<noteq> 0 \<Longrightarrow> bucket_list_of k h = Ok (unat (k mod tbl_size h)) h"
  by (simp add: bucket_list_of_def prog_simps)

lemmas ht_call = bucket_list_of_ok bucket_list_lock_idle bucket_list_unlock_eq

lemma lookup_ok:
  assumes "ht_ok h"
  shows "txc_hash_table_lookup k h =
    Ok (case ht_map h k of None \<Rightarrow> (TXC_R_NOTEXISTS, None) | Some v \<Rightarrow> (TXC_R_SUCCESS, Some v)) h"
proof -
  obtain L where r: "ht_rep h L" and id: "ht_idle h" using assms by (auto simp: ht_ok_def)
  let ?i = "unat (k mod tbl_size h)"
  have "tbl_size h \<noteq> 0" using r by (simp add: ht_rep_def)
  moreover have "bucket_search k ?i (ht_locked ?i h) =
      Ok (List.find (\<lambda>b. hkey h b = k) (L (?i, False))) (ht_locked ?i h)"
    using bucket_search_rep [of "ht_locked ?i h" L k] r by simp
  ultimately show ?thesis
    using id ht_rep_map [OF r, of k]
    by (auto simp: txc_hash_table_lookup_def prog_simps ht_call ht_unlocked_locked find_map_of
        split: option.split)
qed

lemma add_exists_ok:
  assumes "ht_ok h" "ht_map h k = Some w"
  shows "txc_hash_table_add new k v h = Ok TXC_R_EXISTS h"
proof -
  obtain L where r: "ht_rep h L" and id: "ht_idle h" using assms by (auto simp: ht_ok_def)
  let ?i = "unat (k mod tbl_size h)"
  have "tbl_size h \<noteq> 0" using r by (simp add: ht_rep_def)
  moreover have "bucket_search k ?i (ht_locked ?i h) =
      Ok (List.find (\<lambda>b. hkey h b = k) (L (?i, False))) (ht_locked ?i h)"
    using bucket_search_rep [of "ht_locked ?i h" L k] r by simp
  moreover obtain b where "List.find (\<lambda>b. hkey h b = k) (L (?i, False)) = Some b"
    using ht_rep_found [OF r assms(2)] by blast
  ultimately show ?thesis
    using id
    by (auto simp: txc_hash_table_add_def prog_simps ht_call ht_unlocked_locked find_map_of)
qed

lemma add_new_ok:
  assumes "ht_ok h" "ht_map h k = None" "\<exists>a. new = Some a \<and> a \<notin> ht_buckets h"
  shows "\<exists>h'. txc_hash_table_add new k v h = Ok TXC_R_SUCCESS h' \<and> ht_ok h' \<and>
           ht_map h' = (ht_map h)(k \<mapsto> v)"
proof -
  obtain L where r: "ht_rep h L" and id: "ht_idle h" using assms by (auto simp: ht_ok_def)
  let ?i = "unat (k mod tbl_size h)" and ?hl = "ht_locked (unat (k mod tbl_size h)) h"
  have sz: "tbl_size h \<noteq> 0" using r by (simp add: ht_rep_def)
  have search: "bucket_search k ?i ?hl =
      Ok (List.find (\<lambda>b. hkey h b = k) (L (?i, False))) ?hl"
    using bucket_search_rep [of ?hl L k] r by simp
  have nf: "List.find (\<lambda>b. hkey h b = k) (L (?i, False)) = None"
    using ht_rep_map [OF r, of k] assms(2) by (simp add: find_map_of)
  have "ht_buckets ?hl = ht_buckets h" by (simp add: ht_buckets_def)
  then obtain b h1 L1 where 1: "bucket_obtain ?i new ?hl = Ok b h1" "ht_rep h1 L1"
    "same_entries ?hl h1" "\<And>t. fst t < unat (tbl_size h) \<Longrightarrow> b \<notin> set (L1 t)"
    "\<And>j. L1 (j, False) = L (j, False)"
    using bucket_obtain_rep [of ?hl L ?i new] r assms(3) slot_less [OF sz] by auto
  have m1: "ht_map h1 = ht_map h"
    using same_entries_map [of ?hl L h1 L1] r 1 by simp
  have e1: "tbl_size h1 = tbl_size h" "mtsafe h1 = mtsafe h"
    "\<And>j. bl_mutex (tbl h1 j) = bl_mutex (tbl ?hl j)"
    using 1(3) by (simp_all add: same_entries_def)
  let ?h2 = "bucket_list_add (?i, False) b (set_hentry b k v h1)"
  note 2 = ht_rep_insert [OF 1(2), of k b ?i v]
  have "ht_rep ?h2 (L1((?i, False) := b # L1 (?i, False)))" "ht_map ?h2 = (ht_map h)(k \<mapsto> v)"
    "mtsafe ?h2 = mtsafe h" "\<And>j. bl_mutex (tbl ?h2 j) = bl_mutex (tbl ?hl j)"
    using 2 m1 e1 assms(2) 1(4) by simp_all
  moreover from this have "ht_idle (ht_unlocked ?i ?h2)"
    using ht_unlocked_idle [OF id] by blast
  moreover have "txc_hash_table_add new k v h = Ok TXC_R_SUCCESS (ht_unlocked ?i ?h2)"
    using sz id search nf 1(1) by (simp add: txc_hash_table_add_def prog_simps ht_call)
  ultimately show ?thesis by (auto simp: ht_ok_def)
qed

lemma map_of_remove:
  assumes "distinct (map f bs)" "b \<in> set bs"
  shows "map_of (map (\<lambda>b. (f b, g b)) (remove1 b bs)) = (map_of (map (\<lambda>b. (f b, g b)) bs))(f b := None)"
  using assms
proof (induction bs)
  case (Cons c bs)
  show ?case
  proof (cases "b = c")
    case True
    with Cons.prems have "map_of (map (\<lambda>b. (f b, g b)) bs) (f b) = None"
      by (auto simp: map_of_eq_None_iff image_iff)
    with True show ?thesis by (auto simp: fun_eq_iff)
  next
    case False
    with Cons.prems have "f b \<in> f ` set bs" "f c \<notin> f ` set bs" by auto
    then have "f b \<noteq> f c" by metis
    with False Cons show ?thesis by (auto simp: fun_upd_twist)
  qed
qed simp

lemma remove_ok:
  assumes "ht_ok h" "ht_map h k = Some v"
  shows "\<exists>h'. txc_hash_table_remove k h = Ok (TXC_R_SUCCESS, Some v) h' \<and> ht_ok h' \<and>
           ht_map h' = (ht_map h)(k := None)"
proof -
  obtain L where r: "ht_rep h L" and id: "ht_idle h" using assms by (auto simp: ht_ok_def)
  let ?i = "unat (k mod tbl_size h)" and ?hl = "ht_locked (unat (k mod tbl_size h)) h"
  have sz: "tbl_size h \<noteq> 0" and il: "?i < unat (tbl_size h)"
    using r by (simp_all add: ht_rep_def slot_less)
  have rl: "ht_rep ?hl L" "ht_lists ?hl L" using r ht_locked_simps(1) by (auto simp: ht_rep_def)
  have search: "bucket_search k ?i ?hl = Ok (List.find (\<lambda>b. hkey h b = k) (L (?i, False))) ?hl"
    using bucket_search_rep [of ?hl L k] rl by simp
  obtain b where fb: "List.find (\<lambda>b. hkey h b = k) (L (?i, False)) = Some b" and v: "hvalue h b = v"
    using ht_rep_found [OF r assms(2)] by blast
  then have b: "b \<in> set (L (?i, False))" "hkey h b = k" by (auto simp: find_Some_iff)
  obtain h1 where h1: "bucket_list_remove (?i, False) b ?hl = Ok () h1" "same_entries ?hl h1"
    "ht_lists h1 (L((?i, False) := remove1 b (L (?i, False))))"
    using ht_lists_remove [OF rl(2), of "(?i, False)" b] b il by auto
  let ?L1 = "L((?i, False) := remove1 b (L (?i, False)))"
  let ?L2 = "?L1((?i, True) := b # ?L1 (?i, True))" and ?h2 = "bucket_list_add (?i, True) b h1"
  have "b \<notin> set (?L1 t)" if "fst t < unat (tbl_size h1)" for t
    using ht_listsD(2) [OF rl(2), of t "(?i, False)"] ht_rep_distinct [OF r, of "(?i, False)"]
      that h1(2) il b by (auto simp: same_entries_def)
  then have l2: "ht_lists ?h2 ?L2"
    using ht_lists_add [OF h1(3), of "(?i, True)" b] h1(2) il by (simp add: same_entries_def)
  have e2: "same_entries ?hl ?h2"
    using h1(2) bucket_list_add_entries [of h1 "(?i, True)" b] by (simp add: same_entries_def)
  have r2: "ht_rep ?h2 ?L2"
  proof (rule ht_rep_lists_change [OF rl(1) l2 e2])
    fix j assume "j < unat (tbl_size ?hl)"
    then have "distinct (L (j, False))" using ht_rep_distinct [OF r, of "(j, False)"] by simp
    then show "set (?L2 (j, False)) \<subseteq> set (L (j, False)) \<and> distinct (?L2 (j, False))"
      by (auto dest: notin_set_remove1 simp: set_remove1_eq)
  qed
  have "ht_map ?h2 = (ht_map h)(k := None)"
  proof
    fix k'
    have "distinct (map (hkey h) (L (?i, False)))" using r il by (simp add: ht_rep_def)
    from map_of_remove [OF this b(1), of "hvalue h"] b(2) e2
    show "ht_map ?h2 k' = ((ht_map h)(k := None)) k'"
      unfolding ht_rep_map [OF r2] ht_rep_map [OF r] by (auto simp: same_entries_def)
  qed
  moreover have "ht_idle (ht_unlocked ?i ?h2)"
    by (rule ht_unlocked_idle [OF id]) (use e2 in \<open>simp_all add: same_entries_def\<close>)
  moreover have "txc_hash_table_remove k h = Ok (TXC_R_SUCCESS, Some v) (ht_unlocked ?i ?h2)"
    using sz id search fb h1(1) v by (simp add: txc_hash_table_remove_def prog_simps ht_call)
  ultimately show ?thesis using r2 by (auto simp: ht_ok_def)
qed

lemma remove_absent_ok:
  assumes "ht_ok h" "ht_map h k = None"
  shows "txc_hash_table_remove k h = Ok (TXC_R_NOTEXISTS, None) h"
proof -
  obtain L where r: "ht_rep h L" and id: "ht_idle h" using assms by (auto simp: ht_ok_def)
  let ?i = "unat (k mod tbl_size h)"
  have "bucket_search k ?i (ht_locked ?i h) =
      Ok (List.find (\<lambda>b. hkey h b = k) (L (?i, False))) (ht_locked ?i h)"
    using bucket_search_rep [of "ht_locked ?i h" L k] r by simp
  moreover have "tbl_size h \<noteq> 0" using r by (simp add: ht_rep_def)
  ultimately show ?thesis
    using id ht_rep_map [OF r, of k] assms(2)
    by (simp add: txc_hash_table_remove_def prog_simps ht_call ht_unlocked_locked find_map_of)
qed

section \<open>The interface\<close>

text \<open>
  A store of key/value pairs as its clients see it: \<open>abs\<close> is the finite map it
  stands for, and \<open>fresh new h\<close> says that the allocator's answer \<open>new\<close> is usable.
\<close>

locale map_store =
  fixes add :: "'a \<Rightarrow> u32 \<Rightarrow> 'v \<Rightarrow> ('h, txc_result_t) prog"
    and lookup :: "u32 \<Rightarrow> ('h, txc_result_t \<times> 'v option) prog"
    and remove :: "u32 \<Rightarrow> ('h, txc_result_t \<times> 'v option) prog"
    and ok :: "'h \<Rightarrow> bool" and abs :: "'h \<Rightarrow> u32 \<Rightarrow> 'v option" and fresh :: "'a \<Rightarrow> 'h \<Rightarrow> bool"
  assumes add_new: "ok h \<Longrightarrow> abs h k = None \<Longrightarrow> fresh new h \<Longrightarrow>
      \<exists>h'. add new k v h = Ok TXC_R_SUCCESS h' \<and> ok h' \<and> abs h' = (abs h)(k \<mapsto> v)"
    and add_exists: "ok h \<Longrightarrow> abs h k = Some w \<Longrightarrow> add new k v h = Ok TXC_R_EXISTS h"
    and lookup: "ok h \<Longrightarrow> lookup k h =
      Ok (case abs h k of None \<Rightarrow> (TXC_R_NOTEXISTS, None) | Some v \<Rightarrow> (TXC_R_SUCCESS, Some v)) h"
    and remove_present: "ok h \<Longrightarrow> abs h k = Some w \<Longrightarrow>
      \<exists>h'. remove k h = Ok (TXC_R_SUCCESS, Some w) h' \<and> ok h' \<and> abs h' = (abs h)(k := None)"
    and remove_absent: "ok h \<Longrightarrow> abs h k = None \<Longrightarrow> remove k h = Ok (TXC_R_NOTEXISTS, None) h"
begin

lemma lookup_after_add:
  assumes "ok h" "abs h k = None" "fresh new h"
  shows "\<exists>h'. bnd (add new k v) (\<lambda>_. lookup k) h = Ok (TXC_R_SUCCESS, Some v) h' \<and> ok h'"
proof -
  obtain h' where "add new k v h = Ok TXC_R_SUCCESS h'" "ok h'" "abs h' = (abs h)(k \<mapsto> v)"
    using add_new assms by blast
  with lookup [of h' k] show ?thesis by (simp add: prog_simps)
qed

lemma add_remove_restores:
  assumes "ok h" "abs h k = None" "fresh new h"
  shows "\<exists>h'. bnd (add new k v) (\<lambda>_. remove k) h = Ok (TXC_R_SUCCESS, Some v) h' \<and> ok h' \<and>
           abs h' = abs h"
proof -
  obtain h1 where 1: "add new k v h = Ok TXC_R_SUCCESS h1" "ok h1" "abs h1 = (abs h)(k \<mapsto> v)"
    using add_new assms by blast
  obtain h2 where "remove k h1 = Ok (TXC_R_SUCCESS, Some v) h2" "ok h2" "abs h2 = (abs h1)(k := None)"
    using remove_present [of h1 k v] 1 by auto
  with 1 assms(2) show ?thesis by (auto simp: prog_simps)
qed

end

definition ht_fresh :: "addr option \<Rightarrow> 'v txc_hash_table \<Rightarrow> bool" where
  "ht_fresh new h \<longleftrightarrow> (\<exists>a. new = Some a \<and> a \<notin> ht_buckets h)"

interpretation ht: map_store txc_hash_table_add txc_hash_table_lookup txc_hash_table_remove
  ht_ok ht_map ht_fresh
  by unfold_locales
    (simp_all add: add_new_ok add_exists_ok lookup_ok remove_ok remove_absent_ok ht_fresh_def)

section \<open>Sequences of calls refine a finite map\<close>

datatype 'v ht_op = Add "addr option" u32 'v | Lookup u32 | Remove u32

fun ht_exec :: "'v ht_op \<Rightarrow> ('v txc_hash_table, txc_result_t \<times> 'v option) prog" where
  "ht_exec (Add new k v) = bnd (txc_hash_table_add new k v) (\<lambda>r. ret (r, None))"
| "ht_exec (Lookup k) = txc_hash_table_lookup k"
| "ht_exec (Remove k) = txc_hash_table_remove k"

primrec ht_run :: "'v ht_op list \<Rightarrow> ('v txc_hash_table, (txc_result_t \<times> 'v option) list) prog" where
  "ht_run [] = ret []"
| "ht_run (x # xs) = bnd (ht_exec x) (\<lambda>r. bnd (ht_run xs) (\<lambda>rs. ret (r # rs)))"

text \<open>The specification: the same calls on a finite map.\<close>

fun map_exec :: "'v ht_op \<Rightarrow> (u32 \<Rightarrow> 'v option) \<Rightarrow> (txc_result_t \<times> 'v option) \<times> (u32 \<Rightarrow> 'v option)" where
  "map_exec (Add new k v) m =
     (if m k = None then ((TXC_R_SUCCESS, None), m(k \<mapsto> v)) else ((TXC_R_EXISTS, None), m))"
| "map_exec (Lookup k) m =
     ((case m k of None \<Rightarrow> (TXC_R_NOTEXISTS, None) | Some v \<Rightarrow> (TXC_R_SUCCESS, Some v)), m)"
| "map_exec (Remove k) m =
     ((case m k of None \<Rightarrow> (TXC_R_NOTEXISTS, None) | Some v \<Rightarrow> (TXC_R_SUCCESS, Some v)), m(k := None))"

primrec map_run :: "'v ht_op list \<Rightarrow> (u32 \<Rightarrow> 'v option) \<Rightarrow>
    (txc_result_t \<times> 'v option) list \<times> (u32 \<Rightarrow> 'v option)" where
  "map_run [] m = ([], m)"
| "map_run (x # xs) m =
     (let (r, m1) = map_exec x m; (rs, m2) = map_run xs m1 in (r # rs, m2))"

text \<open>
  What the run relies on of the allocator: when \<open>add\<close> needs a bucket, \<^verbatim>\<open>malloc\<close>
  returns one that the table does not already hold.
\<close>

fun op_fresh :: "'v ht_op \<Rightarrow> 'v txc_hash_table \<Rightarrow> bool" where
  "op_fresh (Add new k v) h \<longleftrightarrow> ht_fresh new h"
| "op_fresh _ h \<longleftrightarrow> True"

primrec run_fresh :: "'v ht_op list \<Rightarrow> 'v txc_hash_table \<Rightarrow> bool" where
  "run_fresh [] h \<longleftrightarrow> True"
| "run_fresh (x # xs) h \<longleftrightarrow>
     op_fresh x h \<and> (case ht_exec x h of Ok _ h' \<Rightarrow> run_fresh xs h' | Fault _ _ \<Rightarrow> True)"

lemma ht_exec_refines:
  assumes "ht_ok h" "op_fresh x h"
  shows "\<exists>h'. ht_exec x h = Ok (fst (map_exec x (ht_map h))) h' \<and> ht_ok h' \<and>
           ht_map h' = snd (map_exec x (ht_map h))"
proof (cases x)
  case (Add new k v)
  with assms ht.add_new [of h k new v] ht.add_exists [of h k _ new v] show ?thesis
    by (cases "ht_map h k") (auto simp: prog_simps)
next
  case (Lookup k)
  with assms ht.lookup show ?thesis by auto
next
  case (Remove k)
  with assms ht.remove_present [of h k] ht.remove_absent [of h k] show ?thesis
    by (cases "ht_map h k") auto
qed

text \<open>
  C13. Every sequence of \<open>add\<close>, \<open>lookup\<close> and \<open>remove\<close> calls returns normally, with
  exactly the result codes and values that the same calls on a finite map give,
  and leaves a well-formed table that stands for the resulting map.
\<close>

theorem hash_table_refines_map:
  assumes "ht_ok h" "run_fresh xs h"
  shows "\<exists>h'. ht_run xs h = Ok (fst (map_run xs (ht_map h))) h' \<and> ht_ok h' \<and>
           ht_map h' = snd (map_run xs (ht_map h))"
  using assms
proof (induction xs arbitrary: h)
  case Nil
  then show ?case by (simp add: prog_simps)
next
  case (Cons x xs)
  then obtain h1 where 1: "ht_exec x h = Ok (fst (map_exec x (ht_map h))) h1" "ht_ok h1"
    "ht_map h1 = snd (map_exec x (ht_map h))"
    using ht_exec_refines [of h x] by auto
  then obtain h2 where "ht_run xs h1 = Ok (fst (map_run xs (ht_map h1))) h2" "ht_ok h2"
    "ht_map h2 = snd (map_run xs (ht_map h1))"
    using Cons.IH [of h1] Cons.prems by fastforce
  with 1 show ?case by (auto simp: prog_simps split_beta Let_def)
qed

lemma ht_create_ok:
  assumes "txc_hash_table_create (Some x) (Some y) heap n mt = (TXC_R_SUCCESS, Some h)" "n \<noteq> 0"
  shows "ht_ok h" "ht_map h = Map.empty" "ht_buckets h = {}"
proof -
  have "ht_rep h (\<lambda>_. [])" using assms
    by (auto simp: txc_hash_table_create_def ht_rep_def ht_lists_def list_head_def)
  then show "ht_ok h" "ht_map h = Map.empty" "ht_buckets h = {}"
    using assms ht_rep_map [of h "\<lambda>_. []"] ht_rep_buckets [of h "\<lambda>_. []"]
    by (auto simp: txc_hash_table_create_def ht_ok_def ht_idle_def)
qed

definition sample_table :: "nat txc_hash_table" where
  "sample_table = the (snd (txc_hash_table_create (Some 8) (Some 16)
     (\<lambda>_. \<lparr>bkt_next = None, bkt_prev = None, bkt_key = 0, bkt_value = 0\<rparr>) 4 True))"

lemma sample_table_ok: "ht_ok sample_table" "ht_map sample_table = Map.empty" "ht_buckets sample_table = {}"
  using ht_create_ok [of 8 16 "\<lambda>_. \<lparr>bkt_next = None, bkt_prev = None, bkt_key = 0, bkt_value = 0\<rparr>"
      4 True sample_table]
  by (simp_all add: sample_table_def txc_hash_table_create_def)

theorem hash_table_refines_map_witness:
  "\<exists>h'. ht_run [Add (Some 4096) 5 7, Lookup 5, Remove 5, Lookup 5] sample_table =
     Ok [(TXC_R_SUCCESS, None), (TXC_R_SUCCESS, Some 7), (TXC_R_SUCCESS, Some 7),
         (TXC_R_NOTEXISTS, None)] h' \<and> ht_map h' = Map.empty"
proof -
  have "run_fresh [Add (Some 4096) 5 7, Lookup 5, Remove 5, Lookup 5] sample_table"
    using sample_table_ok by (simp add: ht_fresh_def split: outcome.split)
  from hash_table_refines_map [OF sample_table_ok(1) this] show ?thesis
    by (auto simp: sample_table_ok(2) fun_upd_idem)
qed

section \<open>The iterator\<close>

definition ht_entry :: "'v txc_hash_table \<Rightarrow> addr \<Rightarrow> u32 \<times> 'v option" where
  "ht_entry h b = (hkey h b, Some (hvalue h b))"

text \<open>Walking the rest of a slot and then the slots behind it.\<close>

lemma iter_collect_slot:
  assumes "lchain (hnext h) (it_bucket it) bs None" "bs \<noteq> []"
    and "iter_collect h (iter_seek h (unat (it_index it + 1)) (it\<lparr>it_bucket := None\<rparr>)) = Some xs"
  shows "iter_collect h it = Some (map (ht_entry h) bs @ xs)"
  using assms
proof (induction bs arbitrary: it)
  case (Cons b bs)
  then have b: "it_bucket it = Some b" "lchain (hnext h) (hnext h b) bs None" by auto
  show ?case
  proof (cases bs)
    case Nil
    with b Cons.prems show ?thesis
      by (subst iter_collect.simps) (simp add: txc_hash_table_iter_next_def ht_entry_def)
  next
    case (Cons c cs)
    with b have n: "hnext h b = Some c" by simp
    then have "iter_collect h (it\<lparr>it_bucket := Some c\<rparr>) = Some (map (ht_entry h) bs @ xs)"
      using Cons.IH [of "it\<lparr>it_bucket := Some c\<rparr>"] Cons.prems b Cons by simp
    with b n show ?thesis
      by (subst iter_collect.simps) (simp add: txc_hash_table_iter_next_def ht_entry_def)
  qed
qed simp

lemma iter_collect_null: "it_bucket it = None \<Longrightarrow> iter_collect h it = Some []"
  by (subst iter_collect.simps) (simp add: txc_hash_table_iter_next_def)

lemma iter_seek_step:
  assumes "j < unat (tbl_size h)"
  shows "iter_seek h j it =
    (if bl_head (tbl h j) = None then iter_seek h (Suc j) it
     else it\<lparr>it_index := of_nat j, it_bucket := bl_head (tbl h j)\<rparr>)"
  using assms by (simp add: iter_seek_def first_used_def upt_conv_Cons)

lemma iter_collect_seek:
  assumes r: "ht_rep h L" and "it_bucket it = None"
  shows "iter_collect h (iter_seek h j it) =
    Some (concat (map (\<lambda>i. map (ht_entry h) (L (i, False))) [j..<unat (tbl_size h)]))"
  using assms(2)
proof (induction "unat (tbl_size h) - j" arbitrary: j it)
  case 0
  then show ?case by (simp add: iter_seek_def first_used_def iter_collect_null)
next
  case (Suc m)
  then have j: "j < unat (tbl_size h)" and IH: "\<And>it. it_bucket it = None \<Longrightarrow>
      iter_collect h (iter_seek h (Suc j) it) =
      Some (concat (map (\<lambda>i. map (ht_entry h) (L (i, False))) [Suc j..<unat (tbl_size h)]))"
    using Suc.hyps(1) [of "Suc j"] by auto
  have c: "lchain (hnext h) (bl_head (tbl h j)) (L (j, False)) None"
    using ht_listsD(1) [of h L "(j, False)"] r j by (simp add: ht_rep_def hdll_def list_head_def)
  show ?case
  proof (cases "L (j, False)")
    case Nil
    with c IH [OF Suc.prems] j show ?thesis by (simp add: iter_seek_step upt_conv_Cons)
  next
    case (Cons b bs)
    let ?it = "it\<lparr>it_index := of_nat j, it_bucket := bl_head (tbl h j)\<rparr>"
    have "Suc j < 2 ^ 32" using j unat_u32_less [of "tbl_size h"] by linarith
    then have u: "unat (it_index ?it + 1) = Suc j"
      using unat_of_nat_u32 [of "Suc j"] by (simp add: add.commute)
    have "iter_collect h ?it = Some (map (ht_entry h) (L (j, False)) @
        concat (map (\<lambda>i. map (ht_entry h) (L (i, False))) [Suc j..<unat (tbl_size h)]))"
      by (rule iter_collect_slot) (use c Cons IH u in simp_all)
    with c Cons j show ?thesis by (simp add: iter_seek_step upt_conv_Cons)
  qed
qed

lemma bucket_slot:
  assumes "ht_rep h L" "i < unat (tbl_size h)" "b \<in> set (L (i, False))"
  shows "unat (hkey h b mod tbl_size h) = i"
  using assms by (simp add: ht_rep_def)

lemma distinct_bucket_keys:
  assumes r: "ht_rep h L" and "distinct xs" "set xs \<subseteq> {..<unat (tbl_size h)}"
  shows "distinct (concat (map (\<lambda>i. map (hkey h) (L (i, False))) xs))"
  using assms(2,3)
proof (induction xs)
  case (Cons i xs)
  have "distinct (map (hkey h) (L (i, False)))" using r Cons.prems by (simp add: ht_rep_def)
  moreover have "hkey h b \<noteq> hkey h c"
    if "b \<in> set (L (i, False))" "j \<in> set xs" "c \<in> set (L (j, False))" for b c j
  proof -
    have "i < unat (tbl_size h)" "j < unat (tbl_size h)" "i \<noteq> j" using Cons.prems that by auto
    with bucket_slot [OF r, of i b] bucket_slot [OF r, of j c] that show ?thesis by auto
  qed
  ultimately show ?case using Cons by auto
qed simp

text \<open>
  C32. Iterating a table with \<open>iter_init\<close> and \<open>iter_next\<close> until \<^verbatim>\<open>TXC_R_NULLITER\<close>
  ends and yields every entry of the map exactly once.
\<close>

theorem hash_table_iterates_map:
  assumes "ht_ok h"
  shows "\<exists>es. iter_collect h (txc_hash_table_iter_init h) = Some es \<and>
           distinct (map fst es) \<and> (\<forall>k v. (k, v) \<in> set es \<longleftrightarrow> v \<noteq> None \<and> ht_map h k = v)"
proof -
  obtain L where r: "ht_rep h L" using assms by (auto simp: ht_ok_def)
  let ?n = "unat (tbl_size h)"
  let ?es = "concat (map (\<lambda>i. map (ht_entry h) (L (i, False))) [0..<?n])"
  have "iter_collect h (txc_hash_table_iter_init h) = Some ?es"
    by (simp add: txc_hash_table_iter_init_def iter_collect_seek [OF r])
  moreover have "distinct (map fst ?es)"
    using distinct_bucket_keys [OF r, of "[0..<?n]"] by (simp add: map_concat o_def ht_entry_def lessThan_atLeast0)
  moreover have "(k, v) \<in> set ?es \<longleftrightarrow> v \<noteq> None \<and> ht_map h k = v" for k v
  proof -
    let ?j = "unat (k mod tbl_size h)"
    have jl: "?j < ?n" using r by (simp add: ht_rep_def slot_less)
    have d: "distinct (map fst (map (\<lambda>b. (hkey h b, hvalue h b)) (L (?j, False))))"
      using r jl by (simp add: ht_rep_def o_def)
    have "(k, v) \<in> set ?es \<longleftrightarrow>
        (\<exists>i < ?n. \<exists>b \<in> set (L (i, False)). hkey h b = k \<and> v = Some (hvalue h b))"
      by (force simp: ht_entry_def)
    also have "\<dots> \<longleftrightarrow> (\<exists>b \<in> set (L (?j, False)). hkey h b = k \<and> v = Some (hvalue h b))"
      using bucket_slot [OF r] jl by metis
    also have "\<dots> \<longleftrightarrow> (\<exists>w. v = Some w \<and> ht_map h k = Some w)"
      unfolding ht_rep_map [OF r] map_of_eq_Some_iff [OF d] by auto
    finally show ?thesis by (cases v) auto
  qed
  ultimately show ?thesis by blast
qed

theorem hash_table_iterates_map_witness:
  "\<exists>es. iter_collect sample_table (txc_hash_table_iter_init sample_table) = Some es \<and>
     (\<forall>k v. (k, v) \<in> set es \<longleftrightarrow> v \<noteq> None \<and> ht_map sample_table k = v)"
  using hash_table_iterates_map [OF sample_table_ok(1)] by blast

text \<open>Destruction frees every bucket the table holds.\<close>

lemma those_map_Some: "(\<And>x. x \<in> set xs \<Longrightarrow> f x = Some (g x)) \<Longrightarrow> those (map f xs) = Some (map g xs)"
  by (induction xs) auto

lemma hash_table_destroy_frees_all:
  assumes "ht_ok h"
  shows "\<exists>bs. txc_hash_table_destroy (Some h) s = Ok (TXC_R_SUCCESS, bs) s \<and> set bs = ht_buckets h"
proof -
  obtain L where r: "ht_rep h L" using assms by (auto simp: ht_ok_def)
  have w: "walk (hnext h) (bl_head (tbl h i)) = Some (L (i, False))"
    "walk (hnext h) (bl_free (tbl h i)) = Some (L (i, True))" if "i < unat (tbl_size h)" for i
    using ht_rep_walk [OF r, of "(i, False)"] ht_rep_walk [OF r, of "(i, True)"] that
    by (simp_all add: list_head_def)
  have "those (map (\<lambda>i. Option.bind (walk (hnext h) (bl_head (tbl h i))) (\<lambda>used.
          Option.bind (walk (hnext h) (bl_free (tbl h i))) (\<lambda>free. Some (used @ free))))
            [0..<unat (tbl_size h)]) = Some (map (\<lambda>i. L (i, False) @ L (i, True)) [0..<unat (tbl_size h)])"
    by (rule those_map_Some) (simp add: w)
  then have "txc_hash_table_destroy (Some h) s =
      Ok (TXC_R_SUCCESS, concat (map (\<lambda>i. L (i, False) @ L (i, True)) [0..<unat (tbl_size h)])) s"
    by (simp add: txc_hash_table_destroy_def prog_simps)
  moreover have "set (concat (map (\<lambda>i. L (i, False) @ L (i, True)) [0..<unat (tbl_size h)])) = ht_buckets h"
    unfolding ht_rep_buckets [OF r] by (force simp: UNIV_bool)
  ultimately show ?thesis by blast
qed

end
