(* ===== verification/Buffer.thy ===== *)
theory Buffer
  imports Pool
begin

text \<open>
  The buffer manager of \<^verbatim>\<open>src/src/core/buffer.c\<close>: a pool of circular buffers, in
  which pipes and sockets keep data that was read speculatively, and a pool of
  linear buffers, from which a transaction allocates the argument blocks of its
  commit and undo actions in stack order.  Buffers are records in a memory that
  is indexed by the address of the pool object.
\<close>

section \<open>Data\<close>

abbreviation (input) TXC_BUFFER_CIRCULAR_SIZE :: u32 where
  "TXC_BUFFER_CIRCULAR_SIZE \<equiv> 1024 * (64 * 2) * 64"

abbreviation (input) TXC_BUFFER_CIRCULAR_NUM :: u32 where "TXC_BUFFER_CIRCULAR_NUM \<equiv> 32"

abbreviation (input) TXC_BUFFER_LINEAR_SIZE :: u32 where "TXC_BUFFER_LINEAR_SIZE \<equiv> 1024 * 256"

abbreviation (input) TXC_BUFFER_LINEAR_NUM :: u32 where "TXC_BUFFER_LINEAR_NUM \<equiv> 32"

text \<open>The sizes of the two structures on the 32-bit target: twelve and five words.\<close>

abbreviation (input) sizeof_circular :: u32 where "sizeof_circular \<equiv> 48"

abbreviation (input) sizeof_linear :: u32 where "sizeof_linear \<equiv> 20"

datatype txc_buffer_state_t =
    TXC_BUFFER_STATE_NON_SPECULATIVE
  | TXC_BUFFER_STATE_SPECULATIVE

text \<open>\<open>cb_data\<close> is the content of the region \<open>buf\<close> points to, by offset.\<close>

record txc_buffer_circular =
  cb_buf :: addr
  cb_data :: "nat \<Rightarrow> byte"
  cb_size_max :: u32
  primary_head :: u32
  primary_tail :: u32
  secondary_head :: u32
  secondary_tail :: u32
  speculative_primary_head :: u32
  speculative_primary_tail :: u32
  speculative_secondary_head :: u32
  speculative_secondary_tail :: u32
  cb_state :: txc_buffer_state_t

record txc_buffer_linear =
  lb_buf :: addr
  lb_size_max :: u32
  cur_len :: u32
  lb_state :: txc_buffer_state_t

record txc_buffermgr =
  pool_buffer_circular :: txc_pool
  pool_buffer_linear :: txc_pool
  circ_mem :: "addr \<Rightarrow> txc_buffer_circular"
  lin_mem :: "addr \<Rightarrow> txc_buffer_linear"

section \<open>The manager\<close>

type_synonym buffer_mem = "(addr \<Rightarrow> txc_buffer_circular) \<times> (addr \<Rightarrow> txc_buffer_linear)"

definition circular_buffer_constructor :: "addr \<Rightarrow> buffer_mem \<Rightarrow> buffer_mem" where
  "circular_buffer_constructor obj = (\<lambda>(cm, lm).
     (cm(obj := (cm obj)\<lparr>cb_size_max := TXC_BUFFER_CIRCULAR_SIZE, cb_buf := obj + sizeof_circular\<rparr>), lm))"

definition linear_buffer_constructor :: "addr \<Rightarrow> buffer_mem \<Rightarrow> buffer_mem" where
  "linear_buffer_constructor obj = (\<lambda>(cm, lm).
     (cm, lm(obj := (lm obj)\<lparr>lb_size_max := TXC_BUFFER_LINEAR_SIZE, lb_buf := obj + sizeof_linear\<rparr>)))"

text \<open>The allocator's answers to the calls of one \<^verbatim>\<open>txc_pool_create\<close>, and that of the mutex initialiser.\<close>

record pool_env =
  env_pool :: "addr option"
  env_list :: "addr option"
  env_buf :: "addr option"
  env_mutex :: int

definition create_pool_with ::
  "pool_env \<Rightarrow> u32 \<Rightarrow> u32 \<Rightarrow> (addr \<Rightarrow> 'm \<Rightarrow> 'm) option \<Rightarrow> ('m, txc_result_t \<times> txc_pool option) prog" where
  "create_pool_with e = txc_pool_create (env_pool e) (env_list e) (env_buf e) (env_mutex e)"

definition txc_buffermgr_create ::
  "addr option \<Rightarrow> pool_env \<Rightarrow> pool_env \<Rightarrow> (buffer_mem, txc_result_t \<times> txc_buffermgr option) prog" where
  "txc_buffermgr_create mgr ec el =
     (case mgr of
        None \<Rightarrow> ret (TXC_R_NOMEMORY, None)
      | Some _ \<Rightarrow>
          bnd (create_pool_with ec (TXC_BUFFER_CIRCULAR_SIZE + sizeof_circular) TXC_BUFFER_CIRCULAR_NUM
                 (Some circular_buffer_constructor)) (\<lambda>(rc, pc).
          if rc \<noteq> TXC_R_SUCCESS then ret (rc, None)
          else
            bnd (create_pool_with el (TXC_BUFFER_LINEAR_SIZE + sizeof_linear) TXC_BUFFER_LINEAR_NUM
                   (Some linear_buffer_constructor)) (\<lambda>(rl, pl).
            if rl \<noteq> TXC_R_SUCCESS then ret (rl, None)
            else
              bnd (gets (\<lambda>(cm, lm). \<lparr>pool_buffer_circular = the pc, pool_buffer_linear = the pl,
                                    circ_mem = cm, lin_mem = lm\<rparr>)) (\<lambda>mgr.
              ret (TXC_R_SUCCESS, Some mgr)))))"

text \<open>Destroying the manager destroys both pools and clears the caller's pointer.\<close>

definition txc_buffermgr_destroy :: "(txc_buffermgr option, unit) prog" where
  "txc_buffermgr_destroy s =
     (case s of
        None \<Rightarrow> Fault Undefined None
      | Some mgr \<Rightarrow>
          (case txc_pool_destroy (Some (pool_buffer_circular mgr)) of
             Fault e _ \<Rightarrow> Fault e s
           | Ok _ _ \<Rightarrow>
               (case txc_pool_destroy (Some (pool_buffer_linear mgr)) of
                  Fault e _ \<Rightarrow> Fault e s
                | Ok _ _ \<Rightarrow> Ok () None)))"

section \<open>Circular buffers\<close>

definition txc_buffer_circular_init :: "addr \<Rightarrow> (txc_buffermgr, txc_result_t) prog" where
  "txc_buffer_circular_init b =
     bnd (modify (\<lambda>m. m\<lparr>circ_mem := (circ_mem m)(b := (circ_mem m b)
        \<lparr>primary_head := 0, primary_tail := 0, secondary_head := 0, secondary_tail := 0,
         cb_state := TXC_BUFFER_STATE_NON_SPECULATIVE\<rparr>)\<rparr>)) (\<lambda>_.
     ret TXC_R_SUCCESS)"

definition zoom_pool_circular :: "(txc_pool, 'a) prog \<Rightarrow> (txc_buffermgr, 'a) prog" where
  "zoom_pool_circular = zoom pool_buffer_circular (\<lambda>p m. m\<lparr>pool_buffer_circular := p\<rparr>)"

definition zoom_pool_linear :: "(txc_pool, 'a) prog \<Rightarrow> (txc_buffermgr, 'a) prog" where
  "zoom_pool_linear = zoom pool_buffer_linear (\<lambda>p m. m\<lparr>pool_buffer_linear := p\<rparr>)"

definition txc_buffer_circular_create :: "(txc_buffermgr, txc_result_t \<times> addr) prog" where
  "txc_buffer_circular_create =
     bnd (zoom_pool_circular (txc_pool_object_alloc True)) (\<lambda>(result, buffer).
     if result \<noteq> TXC_R_SUCCESS then throw Exit1
     else
       case buffer of
         None \<Rightarrow> throw Undefined
       | Some b \<Rightarrow> bnd (txc_buffer_circular_init b) (\<lambda>_. ret (TXC_R_SUCCESS, b)))"

definition txc_buffer_circular_destroy :: "addr option \<Rightarrow> (txc_buffermgr, addr option) prog" where
  "txc_buffer_circular_destroy bufferp =
     (case bufferp of
        None \<Rightarrow> throw Undefined
      | Some b \<Rightarrow> bnd (zoom_pool_circular (txc_pool_object_free (Some b) True)) (\<lambda>_. ret None))"

section \<open>Linear buffers\<close>

definition txc_buffer_linear_init :: "addr \<Rightarrow> (txc_buffermgr, txc_result_t) prog" where
  "txc_buffer_linear_init b =
     bnd (modify (\<lambda>m. m\<lparr>lin_mem := (lin_mem m)(b := (lin_mem m b)
        \<lparr>lb_state := TXC_BUFFER_STATE_NON_SPECULATIVE, cur_len := 0\<rparr>)\<rparr>)) (\<lambda>_.
     ret TXC_R_SUCCESS)"

definition txc_buffer_linear_create :: "(txc_buffermgr, txc_result_t \<times> addr) prog" where
  "txc_buffer_linear_create =
     bnd (zoom_pool_linear (txc_pool_object_alloc True)) (\<lambda>(result, buffer).
     if result \<noteq> TXC_R_SUCCESS then throw Exit1
     else
       case buffer of
         None \<Rightarrow> throw Undefined
       | Some b \<Rightarrow> bnd (txc_buffer_linear_init b) (\<lambda>_. ret (TXC_R_SUCCESS, b)))"

definition txc_buffer_linear_destroy :: "addr option \<Rightarrow> (txc_buffermgr, addr option) prog" where
  "txc_buffer_linear_destroy bufferp =
     (case bufferp of
        None \<Rightarrow> throw Undefined
      | Some b \<Rightarrow> bnd (zoom_pool_linear (txc_pool_object_free (Some b) True)) (\<lambda>_. ret None))"

text \<open>The sum in the guard is computed in 32-bit unsigned arithmetic.\<close>

definition txc_buffer_linear_malloc :: "addr \<Rightarrow> u32 \<Rightarrow> (txc_buffermgr, addr option) prog" where
  "txc_buffer_linear_malloc b n =
     bnd (gets (\<lambda>m. lin_mem m b)) (\<lambda>buffer.
     if cur_len buffer + n > lb_size_max buffer then ret None
     else
       bnd (modify (\<lambda>m. m\<lparr>lin_mem := (lin_mem m)(b := buffer\<lparr>cur_len := cur_len buffer + n\<rparr>)\<rparr>)) (\<lambda>_.
       ret (Some (lb_buf buffer + cur_len buffer))))"

definition txc_buffer_linear_free :: "addr \<Rightarrow> u32 \<Rightarrow> (txc_buffermgr, unit) prog" where
  "txc_buffer_linear_free b n =
     modify (\<lambda>m. m\<lparr>lin_mem := (lin_mem m)(b := (lin_mem m b)\<lparr>cur_len := cur_len (lin_mem m b) - n\<rparr>)\<rparr>)"

section \<open>Stack allocation\<close>

text \<open>
  The contract of a region that is allocated from and released in stack order:
  \<open>used\<close> and \<open>room\<close> are measured in bytes, and a request is small enough when
  the machine addition in the guard does not wrap around.
\<close>

locale region_stack =
  fixes malloc :: "u32 \<Rightarrow> ('b, addr option) prog" and free :: "u32 \<Rightarrow> ('b, unit) prog"
    and ok :: "'b \<Rightarrow> bool" and used :: "'b \<Rightarrow> nat" and room :: "'b \<Rightarrow> nat" and base :: "'b \<Rightarrow> nat"
  assumes malloc_fits: "ok b \<Longrightarrow> used b + unat n \<le> room b \<Longrightarrow>
      \<exists>p b'. malloc n b = Ok (Some p) b' \<and> ok b' \<and> unat p = base b + used b \<and>
             used b' = used b + unat n \<and> room b' = room b \<and> base b' = base b"
    and malloc_full: "ok b \<Longrightarrow> room b < used b + unat n \<Longrightarrow> used b + unat n < 2 ^ 32 \<Longrightarrow>
      malloc n b = Ok None b"
    and free_used: "ok b \<Longrightarrow> unat n \<le> used b \<Longrightarrow>
      \<exists>b'. free n b = Ok () b' \<and> ok b' \<and> used b' = used b - unat n \<and> room b' = room b \<and>
           base b' = base b"
begin

text \<open>Requests that fit together get consecutive regions, all inside the buffer.\<close>

lemma mallocs_consecutive:
  assumes "ok b" "used b + sum_list (map unat ns) \<le> room b"
  shows "\<exists>ps b'. map_prog malloc ns b =
             Ok (map Some ps) b' \<and> ok b' \<and> used b' = used b + sum_list (map unat ns) \<and>
           room b' = room b \<and> base b' = base b \<and> length ps = length ns \<and>
           (\<forall>i < length ns. unat (ps ! i) = base b + used b + sum_list (map unat (take i ns)))"
  using assms
proof (induction ns arbitrary: b)
  case Nil
  then show ?case by (simp add: prog_simps)
next
  case (Cons n ns)
  then obtain p b1 where 1: "malloc n b = Ok (Some p) b1" "ok b1" "unat p = base b + used b"
    "used b1 = used b + unat n" "room b1 = room b" "base b1 = base b"
    using malloc_fits [of b n] by auto
  then obtain ps b2 where 2: "map_prog malloc ns b1 =
      Ok (map Some ps) b2" "ok b2" "used b2 = used b1 + sum_list (map unat ns)" "room b2 = room b1"
    "base b2 = base b1" "length ps = length ns"
    "\<forall>i < length ns. unat (ps ! i) = base b1 + used b1 + sum_list (map unat (take i ns))"
    using Cons.IH [of b1] Cons.prems by auto
  show ?case
  proof (intro exI [of _ "p # ps"] exI [of _ b2] conjI allI impI)
    fix i assume "i < length (n # ns)"
    then show "unat ((p # ps) ! i) = base b + used b + sum_list (map unat (take i (n # ns)))"
      using 1 2 by (cases i) auto
  qed (use 1 2 in \<open>simp_all add: prog_simps\<close>)
qed

text \<open>Releasing as many bytes as were allocated restores the buffer's fill level.\<close>

lemma frees_restore:
  assumes "ok b" "sum_list (map unat ns) \<le> used b"
  shows "\<exists>b'. for_each ns free b = Ok () b' \<and> ok b' \<and> used b' = used b - sum_list (map unat ns) \<and>
           room b' = room b \<and> base b' = base b"
  using assms
proof (induction ns arbitrary: b)
  case Nil
  then show ?case by (simp add: prog_simps)
next
  case (Cons n ns)
  then obtain b1 where 1: "free n b = Ok () b1" "ok b1" "used b1 = used b - unat n" "room b1 = room b"
    "base b1 = base b"
    using free_used [of b n] by auto
  then obtain b2 where "for_each ns free b1 = Ok () b2" "ok b2"
    "used b2 = used b1 - sum_list (map unat ns)" "room b2 = room b1" "base b2 = base b1"
    using Cons.IH [of b1] Cons.prems by (auto simp: le_diff_conv2 add.commute)
  with 1 show ?case by (auto simp: prog_simps)
qed

end

definition linear_ok :: "addr \<Rightarrow> txc_buffermgr \<Rightarrow> bool" where
  "linear_ok a m \<longleftrightarrow> cur_len (lin_mem m a) \<le> lb_size_max (lin_mem m a) \<and>
     unat (lb_buf (lin_mem m a)) + unat (lb_size_max (lin_mem m a)) < 2 ^ 32"

interpretation linear: region_stack
  "txc_buffer_linear_malloc a" "txc_buffer_linear_free a" "linear_ok a"
  "\<lambda>m. unat (cur_len (lin_mem m a))" "\<lambda>m. unat (lb_size_max (lin_mem m a))"
  "\<lambda>m. unat (lb_buf (lin_mem m a))" for a
proof unfold_locales
  fix m :: txc_buffermgr and n :: u32
  assume ok: "linear_ok a m"
    and fits: "unat (cur_len (lin_mem m a)) + unat n \<le> unat (lb_size_max (lin_mem m a))"
  let ?b = "lin_mem m a"
  have "unat (cur_len ?b + n) = unat (cur_len ?b) + unat n"
    using fits unat_u32_less [of "lb_size_max ?b"] by (intro unat_plus_u32) simp
  moreover have "unat (lb_buf ?b + cur_len ?b) = unat (lb_buf ?b) + unat (cur_len ?b)"
    using ok by (intro unat_plus_u32) (simp add: linear_ok_def word_le_nat_alt)
  ultimately show "\<exists>p b'. txc_buffer_linear_malloc a n m = Ok (Some p) b' \<and> linear_ok a b' \<and>
      unat p = unat (lb_buf ?b) + unat (cur_len ?b) \<and>
      unat (cur_len (lin_mem b' a)) = unat (cur_len ?b) + unat n \<and>
      unat (lb_size_max (lin_mem b' a)) = unat (lb_size_max ?b) \<and>
      unat (lb_buf (lin_mem b' a)) = unat (lb_buf ?b)"
    using ok fits
    by (simp add: txc_buffer_linear_malloc_def prog_simps linear_ok_def word_le_nat_alt word_less_nat_alt)
next
  fix m :: txc_buffermgr and n :: u32
  let ?b = "lin_mem m a"
  assume "unat (lb_size_max ?b) < unat (cur_len ?b) + unat n"
    and "unat (cur_len ?b) + unat n < 2 ^ 32"
  then show "txc_buffer_linear_malloc a n m = Ok None m"
    using unat_plus_u32 [of "cur_len ?b" n]
    by (simp add: txc_buffer_linear_malloc_def prog_simps word_less_nat_alt)
next
  fix m :: txc_buffermgr and n :: u32
  let ?b = "lin_mem m a"
  assume "linear_ok a m" and "unat n \<le> unat (cur_len ?b)"
  moreover from this have "unat (cur_len ?b - n) = unat (cur_len ?b) - unat n"
    by (simp add: unat_sub word_le_nat_alt)
  ultimately show "\<exists>b'. txc_buffer_linear_free a n m = Ok () b' \<and> linear_ok a b' \<and>
      unat (cur_len (lin_mem b' a)) = unat (cur_len ?b) - unat n \<and>
      unat (lb_size_max (lin_mem b' a)) = unat (lb_size_max ?b) \<and>
      unat (lb_buf (lin_mem b' a)) = unat (lb_buf ?b)"
    by (auto simp: txc_buffer_linear_free_def prog_simps linear_ok_def word_le_nat_alt)
qed

section \<open>Properties\<close>


definition sample_linear :: txc_buffermgr where
  "sample_linear = \<lparr>pool_buffer_circular = sample_pool, pool_buffer_linear = sample_pool,
     circ_mem = undefined, lin_mem = (\<lambda>_. \<lparr>lb_buf = 4096, lb_size_max = 64, cur_len = 8,
       lb_state = TXC_BUFFER_STATE_NON_SPECULATIVE\<rparr>)\<rparr>"


text \<open>
  C34. The guard of \<open>linear_malloc\<close> adds in 32 bits: a request of nearly \<open>2^32\<close>
  bytes wraps around, is granted, and moves the fill level backwards, so that
  the next request is given memory that is already in use.
\<close>

theorem linear_malloc_wraps:
  assumes "linear_ok a m" "0 < k" "k \<le> cur_len (lin_mem m a)"
  shows "\<exists>m'. txc_buffer_linear_malloc a (- k) m = Ok (Some (lb_buf (lin_mem m a) + cur_len (lin_mem m a))) m' \<and>
    cur_len (lin_mem m' a) = cur_len (lin_mem m a) - k \<and> cur_len (lin_mem m' a) < cur_len (lin_mem m a)"
proof -
  let ?c = "cur_len (lin_mem m a)"
  have "?c - k \<le> ?c" using assms(3) by (simp add: word_sub_le)
  moreover have "?c - k \<noteq> ?c" using assms(2) by auto
  ultimately have "?c - k < ?c" by (simp add: order_less_le)
  with assms(1) show ?thesis
    by (auto simp: txc_buffer_linear_malloc_def prog_simps linear_ok_def)
qed

theorem linear_malloc_wraps_witness:
  "\<exists>m'. txc_buffer_linear_malloc 4076 (- 8) sample_linear = Ok (Some 4104) m' \<and>
     cur_len (lin_mem m' 4076) = 0"
proof -
  have "linear_ok 4076 sample_linear" "cur_len (lin_mem sample_linear 4076) = 8"
    "lb_buf (lin_mem sample_linear 4076) = 4096"
    by (simp_all add: linear_ok_def sample_linear_def)
  with linear_malloc_wraps [of 4076 sample_linear 8] show ?thesis by auto
qed

end
