(* ===== verification/Config.thy ===== *)
theory Config
  imports Prelude
begin

text \<open>
  Run-time configuration, \<^verbatim>\<open>src/src/core/config.c\<close> and \<^verbatim>\<open>config.h\<close>: the settings
  record, the option table that the macro \<^verbatim>\<open>FOREACH_RUNTIME_CONFIG_OPTION\<close> expands
  to, the parser of lines of \<^verbatim>\<open>txc.ini\<close>, and the initialisation from the file
  and from the environment.  The theory shows that a rendered option line parses
  back, that the integer settings stay in their declared range whatever the file
  and the environment hold, and that one blank line ends the process.
\<close>

section \<open>Data\<close>

record txc_runtime_settings =
  debug_all :: bool
  debug_koa :: bool
  debug_pool :: bool
  debug_sentinel :: bool
  debug_tx :: bool
  debug_xcall :: bool
  printconf :: bool
  statistics :: bool
  statistics_file :: string
  sentinel_max_spin_retries :: int
  sentinel_max_backoff_time :: int

datatype option_valuetype_t =
    txc_config_integer_data
  | txc_config_string_data
  | txc_config_boolean_data

text \<open>The word behind \<^verbatim>\<open>value_ptr\<close>, and the array behind \<^verbatim>\<open>validvalues_ptr\<close>.\<close>

datatype option_value = Int_value int | String_value string | Bool_value bool

datatype valid_values = Int_values "int list" | String_values "string list"

record option_t =
  opt_name :: string
  opt_type :: option_valuetype_t
  opt_load :: "txc_runtime_settings \<Rightarrow> option_value"
  opt_store :: "option_value \<Rightarrow> txc_runtime_settings \<Rightarrow> txc_runtime_settings"
  opt_valid :: valid_values
  num_validvalues :: nat

datatype parse_result_t =
    parse_result_pair string string
  | parse_result_EOF
  | parse_result_error
  | parse_result_comment
  | parse_overflow

text \<open>\<open>cfg_warnings\<close> holds the option names the warnings printed so far mention.\<close>

record config =
  settings :: txc_runtime_settings
  cfg_warnings :: "string list"

definition DEFVALUES :: txc_runtime_settings where
  "DEFVALUES = \<lparr>debug_all = False, debug_koa = False, debug_pool = False, debug_sentinel = False,
     debug_tx = False, debug_xcall = False, printconf = False, statistics = True,
     statistics_file = ''txc.stats'', sentinel_max_spin_retries = 0, sentinel_max_backoff_time = 0\<rparr>"

definition boolean_option ::
  "string \<Rightarrow> (txc_runtime_settings \<Rightarrow> bool) \<Rightarrow>
   ((bool \<Rightarrow> bool) \<Rightarrow> txc_runtime_settings \<Rightarrow> txc_runtime_settings) \<Rightarrow> option_t" where
  "boolean_option name get upd =
     \<lparr>opt_name = name, opt_type = txc_config_boolean_data, opt_load = (\<lambda>s. Bool_value (get s)),
      opt_store = (\<lambda>v. case v of Bool_value b \<Rightarrow> upd (\<lambda>_. b) | _ \<Rightarrow> id),
      opt_valid = String_values [''enable'', ''disable''], num_validvalues = 2\<rparr>"

definition integer_option ::
  "string \<Rightarrow> (txc_runtime_settings \<Rightarrow> int) \<Rightarrow>
   ((int \<Rightarrow> int) \<Rightarrow> txc_runtime_settings \<Rightarrow> txc_runtime_settings) \<Rightarrow> option_t" where
  "integer_option name get upd =
     \<lparr>opt_name = name, opt_type = txc_config_integer_data, opt_load = (\<lambda>s. Int_value (get s)),
      opt_store = (\<lambda>v. case v of Int_value i \<Rightarrow> upd (\<lambda>_. i) | _ \<Rightarrow> id),
      opt_valid = Int_values [0, 1000], num_validvalues = 2\<rparr>"

definition string_option ::
  "string \<Rightarrow> (txc_runtime_settings \<Rightarrow> string) \<Rightarrow>
   ((string \<Rightarrow> string) \<Rightarrow> txc_runtime_settings \<Rightarrow> txc_runtime_settings) \<Rightarrow> option_t" where
  "string_option name get upd =
     \<lparr>opt_name = name, opt_type = txc_config_string_data, opt_load = (\<lambda>s. String_value (get s)),
      opt_store = (\<lambda>v. case v of String_value x \<Rightarrow> upd (\<lambda>_. x) | _ \<Rightarrow> id),
      opt_valid = String_values [], num_validvalues = 0\<rparr>"

text \<open>The table every user of the macro builds, in the order of \<^verbatim>\<open>config.h\<close>.\<close>

definition options :: "option_t list" where
  "options =
     [boolean_option ''debug_all'' debug_all debug_all_update,
      boolean_option ''debug_koa'' debug_koa debug_koa_update,
      boolean_option ''debug_pool'' debug_pool debug_pool_update,
      boolean_option ''debug_sentinel'' debug_sentinel debug_sentinel_update,
      boolean_option ''debug_tx'' debug_tx debug_tx_update,
      boolean_option ''debug_xcall'' debug_xcall debug_xcall_update,
      boolean_option ''printconf'' printconf printconf_update,
      boolean_option ''statistics'' statistics statistics_update,
      string_option ''statistics_file'' statistics_file statistics_file_update,
      integer_option ''sentinel_max_spin_retries'' sentinel_max_spin_retries
        sentinel_max_spin_retries_update,
      integer_option ''sentinel_max_backoff_time'' sentinel_max_backoff_time
        sentinel_max_backoff_time_update]"

section \<open>C strings\<close>

text \<open>
  A string is the list of the characters before the terminating NUL.  The
  functions of the C library that the parser calls:
\<close>

abbreviation (input) newline :: char where "newline \<equiv> CHR 0x0A"

abbreviation (input) tab :: char where "tab \<equiv> CHR 0x09"

abbreviation (input) blank :: char where "blank \<equiv> CHR 0x20"

definition cstr :: "string \<Rightarrow> string" where
  "cstr s = takeWhile (\<lambda>c. c \<noteq> CHR 0x00) s"

text \<open>\<^verbatim>\<open>fgets\<close>: at most \<open>n\<close> characters, up to and including the first newline.\<close>

fun fgets :: "nat \<Rightarrow> string \<Rightarrow> string \<times> string" where
  "fgets 0 s = ([], s)"
| "fgets (Suc n) [] = ([], [])"
| "fgets (Suc n) (c # s) =
     (if c = newline then ([c], s) else let (l, r) = fgets n s in (c # l, r))"

text \<open>\<^verbatim>\<open>strtok\<close> with one delimiter: the token and the string the next call continues with.\<close>

definition strtok :: "char \<Rightarrow> string \<Rightarrow> (string \<times> string) option" where
  "strtok d s =
     (let t = dropWhile (\<lambda>c. c = d) s
      in if t = [] then None
         else Some (takeWhile (\<lambda>c. c \<noteq> d) t, drop 1 (dropWhile (\<lambda>c. c \<noteq> d) t)))"

definition c_isspace :: "char \<Rightarrow> bool" where
  "c_isspace c \<longleftrightarrow> c = blank \<or> of_char c \<in> {9..13 :: nat}"

definition c_isdigit :: "char \<Rightarrow> bool" where
  "c_isdigit c \<longleftrightarrow> of_char c \<in> {48..57 :: nat}"

text \<open>\<^verbatim>\<open>atoi\<close> of the 32-bit C library, which saturates.\<close>

definition atoi :: "string \<Rightarrow> int" where
  "atoi s =
     (let t = dropWhile c_isspace s;
          neg = (t \<noteq> [] \<and> hd t = CHR ''-'');
          u = (if t \<noteq> [] \<and> (hd t = CHR ''-'' \<or> hd t = CHR ''+'') then tl t else t);
          v = foldl (\<lambda>n c. n * 10 + (of_char c - 48)) 0 (takeWhile c_isdigit u)
      in max (- (2 ^ 31)) (min (2 ^ 31 - 1) (if neg then - v else v)))"

definition c_toupper :: "char \<Rightarrow> char" where
  "c_toupper c = (if of_char c \<in> {97..122 :: nat} then char_of (of_char c - 32 :: nat) else c)"

section \<open>Parsing\<close>

text \<open>
  \<^verbatim>\<open>strtrim_whitespace\<close>: the first loop cuts characters off the end, the second
  advances the start.
\<close>

function trim_end :: "string \<Rightarrow> string" where
  "trim_end p =
     (if p \<noteq> [] then
        if blank = last p then trim_end (butlast p)
        else if tab = last p then trim_end (butlast p)
        else p
      else p)"
  by pat_completeness auto
termination
  by (relation "measure length") auto

fun trim_start :: "string \<Rightarrow> string" where
  "trim_start [] = []"
| "trim_start (c # p) =
     (if blank = c then trim_start p
      else if tab = c then trim_start p
      else c # p)"

definition strtrim_whitespace :: "string \<Rightarrow> string" where
  "strtrim_whitespace s = trim_start (trim_end s)"

text \<open>
  One call of \<^verbatim>\<open>parse\<close> on the unread part of the file.  The caller's buffers hold
  128 characters; copying a longer option or value overflows them.
\<close>

definition parse :: "string \<Rightarrow> parse_result_t \<times> string" where
  "parse fin =
     (if fin = [] then (parse_result_EOF, [])
      else
        let (buf1, rest) = fgets 1023 fin
        in (case strtok (CHR ''='') (cstr buf1) of
              None \<Rightarrow> parse_result_error
            | Some (subtoken, saved) \<Rightarrow>
                let trimmed = strtrim_whitespace subtoken
                in if trimmed \<noteq> [] \<and> hd trimmed = CHR ''#'' then parse_result_comment
                   else if length trimmed \<ge> 128 then parse_overflow
                   else (case strtok newline saved of
                           None \<Rightarrow> parse_result_error
                         | Some (subtoken', _) \<Rightarrow>
                             let v = strtrim_whitespace subtoken'
                             in if length v \<ge> 128 then parse_overflow
                                else parse_result_pair trimmed v), rest))"

section \<open>Setting options\<close>

definition warn :: "string \<Rightarrow> (config, unit) prog" where
  "warn name = modify (\<lambda>c. c\<lparr>cfg_warnings := cfg_warnings c @ [name]\<rparr>)"

definition store_value :: "option_t \<Rightarrow> option_value \<Rightarrow> (config, unit) prog" where
  "store_value opt v = modify (\<lambda>c. c\<lparr>settings := opt_store opt v (settings c)\<rparr>)"

definition listed_value :: "option_t \<Rightarrow> string \<Rightarrow> bool" where
  "listed_value opt v \<longleftrightarrow>
     (if num_validvalues opt > 0 then
        (case opt_valid opt of String_values vs \<Rightarrow> v \<in> set vs | Int_values _ \<Rightarrow> False)
      else True)"

definition option_set :: "option_t \<Rightarrow> string \<Rightarrow> (config, unit) prog" where
  "option_set opt v =
     (case opt_type opt of
        txc_config_integer_data \<Rightarrow>
          if num_validvalues opt \<noteq> 2 then throw Exit1
          else
            (case opt_valid opt of
               Int_values [lo, hi] \<Rightarrow>
                 if atoi v < lo \<or> atoi v > hi then warn (opt_name opt)
                 else store_value opt (Int_value (atoi v))
             | _ \<Rightarrow> throw Undefined)
      | txc_config_string_data \<Rightarrow>
          if \<not> listed_value opt v then warn (opt_name opt) else store_value opt (String_value v)
      | txc_config_boolean_data \<Rightarrow>
          if \<not> listed_value opt v then warn (opt_name opt)
          else if v = ''enable'' then store_value opt (Bool_value True)
          else store_value opt (Bool_value False))"

definition txc_config_set_option :: "string \<Rightarrow> string \<Rightarrow> (config, txc_result_t) prog" where
  "txc_config_set_option name v =
     bnd (case List.find (\<lambda>opt. opt_name opt = name) options of
            Some opt \<Rightarrow> option_set opt v
          | None \<Rightarrow> warn name) (\<lambda>_.
     ret TXC_R_SUCCESS)"

section \<open>Initialisation\<close>

definition env_name :: "option_t \<Rightarrow> string" where
  "env_name opt = ''TXC_'' @ map c_toupper (opt_name opt)"

definition config_init_use_env :: "(string \<Rightarrow> string option) \<Rightarrow> (config, txc_result_t) prog" where
  "config_init_use_env getenv =
     bnd (for_each options (\<lambda>opt.
            case getenv (env_name opt) of
              None \<Rightarrow> ret ()
            | Some v \<Rightarrow> option_set opt v)) (\<lambda>_.
     ret TXC_R_SUCCESS)"

lemma fgets_shorter: "s \<noteq> [] \<Longrightarrow> length (snd (fgets (Suc n) s)) < length s"
proof (induction n arbitrary: s)
  case 0
  then show ?case by (cases s) auto
next
  case (Suc n)
  then obtain c t where s: "s = c # t" by (cases s) auto
  show ?case
  proof (cases "t = []")
    case True
    with s show ?thesis by simp
  next
    case False
    with Suc.IH [OF False] s show ?thesis by (simp add: split_beta Let_def)
  qed
qed

lemma parse_shorter: "fst (parse s) \<noteq> parse_result_EOF \<Longrightarrow> length (snd (parse s)) < length s"
  using fgets_shorter [of s 1022] by (cases "s = []") (auto simp: parse_def split_beta Let_def)

text \<open>The loop over the lines of the file.\<close>

function (sequential) config_file_loop :: "string \<Rightarrow> (config, unit) prog" where
  "config_file_loop fin =
     (case parse fin of
        (parse_result_EOF, _) \<Rightarrow> ret ()
      | (parse_result_error, _) \<Rightarrow> throw Exit1
      | (parse_overflow, _) \<Rightarrow> throw Undefined
      | (parse_result_comment, rest) \<Rightarrow> config_file_loop rest
      | (parse_result_pair name v, rest) \<Rightarrow>
          bnd (bnd (txc_config_set_option name v) (\<lambda>_. ret ())) (\<lambda>_. config_file_loop rest))"
  by pat_completeness auto
termination
proof (relation "measure length")
  fix fin x y
  assume "(x, y) = parse fin" "x = parse_result_comment"
  then show "(y, fin) \<in> measure length"
    using parse_shorter [of fin] by (metis fst_conv in_measure parse_result_t.distinct(11) snd_conv)
next
  fix fin x y name v
  assume "(x, y) = parse fin" "x = parse_result_pair name v"
  then show "(y, fin) \<in> measure length"
    using parse_shorter [of fin] by (metis fst_conv in_measure parse_result_t.distinct(1) snd_conv)
qed simp

text \<open>\<open>file\<close> is the content of \<^verbatim>\<open>txc.ini\<close>, \<open>None\<close> when it cannot be opened.\<close>

definition config_init_use_file :: "string option \<Rightarrow> (config, txc_result_t) prog" where
  "config_init_use_file file =
     (case file of
        None \<Rightarrow> ret TXC_R_INVALIDFILE
      | Some fin \<Rightarrow> bnd (config_file_loop fin) (\<lambda>_. ret TXC_R_SUCCESS))"

definition config_print :: "txc_runtime_settings \<Rightarrow> (string \<times> option_value) list" where
  "config_print s = map (\<lambda>opt. (opt_name opt, opt_load opt s)) options"

definition txc_config_init ::
  "string option \<Rightarrow> (string \<Rightarrow> string option) \<Rightarrow> (config, txc_result_t \<times> (string \<times> option_value) list) prog" where
  "txc_config_init file getenv =
     bnd (config_init_use_file file) (\<lambda>_.
     bnd (config_init_use_env getenv) (\<lambda>_.
     bnd (gets settings) (\<lambda>s.
     ret (TXC_R_SUCCESS, if printconf s then config_print s else []))))"

declare trim_end.simps [simp del]

declare config_file_loop.simps [simp del]

section \<open>Trimming\<close>

definition is_blank :: "char \<Rightarrow> bool" where
  "is_blank c \<longleftrightarrow> c = blank \<or> c = tab"

lemma trim_end_snoc: "is_blank c \<Longrightarrow> trim_end (s @ [c]) = trim_end s"
  by (subst trim_end.simps) (auto simp: is_blank_def)

lemma trim_end_blanks: "\<forall>c \<in> set b. is_blank c \<Longrightarrow> trim_end (s @ b) = trim_end s"
  by (induction b rule: rev_induct) (simp_all flip: append_assoc add: trim_end_snoc)

lemma trim_end_id: "s = [] \<or> \<not> is_blank (last s) \<Longrightarrow> trim_end s = s"
  by (subst trim_end.simps) (auto simp: is_blank_def)

lemma trim_start_blanks: "\<forall>c \<in> set b. is_blank c \<Longrightarrow> trim_start (b @ s) = trim_start s"
  by (induction b) (auto simp: is_blank_def)

lemma trim_start_id: "s = [] \<or> \<not> is_blank (hd s) \<Longrightarrow> trim_start s = s"
  by (cases s) (auto simp: is_blank_def)

text \<open>The two loops together remove exactly the surrounding blanks and tabs.\<close>

lemma strtrim_surrounded:
  assumes "\<forall>c \<in> set b1. is_blank c" "\<forall>c \<in> set b2. is_blank c"
    and "s \<noteq> []" "\<not> is_blank (hd s)" "\<not> is_blank (last s)"
  shows "strtrim_whitespace (b1 @ s @ b2) = s"
proof -
  have "trim_end (b1 @ s @ b2) = b1 @ s"
    using trim_end_blanks [OF assms(2), of "b1 @ s"] trim_end_id [of "b1 @ s"] assms(3,5) by simp
  then show ?thesis
    using trim_start_blanks [OF assms(1)] trim_start_id assms(4) by (simp add: strtrim_whitespace_def)
qed

section \<open>Lines\<close>

lemma fgets_line:
  assumes "newline \<notin> set l" "length l < n"
  shows "fgets n (l @ newline # rest) = (l @ [newline], rest)"
  using assms
proof (induction l arbitrary: n)
  case Nil
  then show ?case by (cases n) auto
next
  case (Cons c l)
  then show ?case by (cases n) auto
qed

lemma strtok_token:
  assumes "d \<notin> set t" "t \<noteq> []"
  shows "strtok d (t @ d # saved) = Some (t, saved)"
proof -
  have "dropWhile (\<lambda>c. c = d) (t @ d # saved) = t @ d # saved"
    using assms by (cases t) auto
  moreover have "takeWhile (\<lambda>c. c \<noteq> d) (t @ d # saved) = t" "dropWhile (\<lambda>c. c \<noteq> d) (t @ d # saved) = d # saved"
    using assms(1) by (induction t) auto
  ultimately show ?thesis by (simp add: strtok_def)
qed

text \<open>What an option name or value must look like to be read back as it was written.\<close>

definition option_word :: "string \<Rightarrow> bool" where
  "option_word s \<longleftrightarrow> s \<noteq> [] \<and> newline \<notin> set s \<and> CHR 0x00 \<notin> set s \<and>
     \<not> is_blank (hd s) \<and> \<not> is_blank (last s) \<and> length s < 128"

lemma blanks_plain:
  assumes "\<forall>c \<in> set b. is_blank c"
  shows "newline \<notin> set b" "CHR 0x00 \<notin> set b" "CHR ''='' \<notin> set b"
proof -
  have "\<not> is_blank newline" "\<not> is_blank (CHR 0x00)" "\<not> is_blank (CHR ''='')"
    by (simp_all add: is_blank_def)
  then show "newline \<notin> set b" "CHR 0x00 \<notin> set b" "CHR ''='' \<notin> set b"
    using assms by blast+
qed

lemma parse_line:
  assumes n: "option_word name" "CHR ''='' \<notin> set name" "hd name \<noteq> CHR ''#''" and v: "option_word v"
    and b: "\<forall>c \<in> set (b1 @ b2 @ b3 @ b4). is_blank c" "length (b1 @ b2 @ b3 @ b4) \<le> 700"
  shows "parse (b1 @ name @ b2 @ ''='' @ b3 @ v @ b4 @ newline # rest) =
           (parse_result_pair name v, rest)"
proof -
  let ?l1 = "b1 @ name @ b2" and ?l2 = "b3 @ v @ b4"
  let ?l = "?l1 @ ''='' @ ?l2"
  note bl = blanks_plain [of b1] blanks_plain [of b2] blanks_plain [of b3] blanks_plain [of b4]
  have nl: "newline \<notin> set ?l" "CHR 0x00 \<notin> set ?l" "CHR ''='' \<notin> set ?l1" "newline \<notin> set ?l2"
    using n v b(1) bl by (auto simp: option_word_def)
  have "length ?l < 1023" using n v b(2) by (simp add: option_word_def)
  then have f: "fgets 1023 (?l @ newline # rest) = (?l @ [newline], rest)"
    by (rule fgets_line [OF nl(1)])
  have c: "cstr (?l @ [newline]) = ?l @ [newline]"
    using nl(2) by (auto simp: cstr_def takeWhile_eq_all_conv)
  have s1: "strtok (CHR ''='') (?l @ [newline]) = Some (?l1, ?l2 @ [newline])"
    using strtok_token [OF nl(3), of "?l2 @ [newline]"] n by (simp add: option_word_def)
  have s2: "strtok newline (?l2 @ [newline]) = Some (?l2, [])"
    using strtok_token [OF nl(4), of "[]"] v by (simp add: option_word_def)
  have t: "strtrim_whitespace ?l1 = name" "strtrim_whitespace ?l2 = v"
    using n v b(1) by (auto intro!: strtrim_surrounded simp: option_word_def)
  show ?thesis
    using f c s1 s2 t n v by (auto simp: parse_def option_word_def)
qed



section \<open>Ranges\<close>

definition settings_ok :: "txc_runtime_settings \<Rightarrow> bool" where
  "settings_ok s \<longleftrightarrow> sentinel_max_spin_retries s \<in> {0..1000} \<and> sentinel_max_backoff_time s \<in> {0..1000}"

lemma defvalues_ok: "settings_ok DEFVALUES"
  by (simp add: settings_ok_def DEFVALUES_def)

lemma option_set_ok:
  assumes "opt \<in> set options" "settings_ok (settings c)"
  shows "\<exists>c'. option_set opt v c = Ok () c' \<and> settings_ok (settings c')"
  using assms
  by (auto simp: options_def boolean_option_def integer_option_def string_option_def option_set_def
      store_value_def warn_def listed_value_def prog_simps settings_ok_def)

lemma wp_option_set:
  assumes "opt \<in> set options" "settings_ok (settings c)"
  shows "wp (option_set opt v) (\<lambda>_ c. settings_ok (settings c)) E c"
  using option_set_ok [OF assms, of v] by (auto simp: wp_def)

lemma wp_set_option:
  assumes "settings_ok (settings c)"
  shows "wp (txc_config_set_option name v) (\<lambda>_ c. settings_ok (settings c)) E c"
proof (cases "List.find (\<lambda>opt. opt_name opt = name) options")
  case None
  with assms show ?thesis by (simp add: txc_config_set_option_def warn_def)
next
  case (Some opt)
  then have "opt \<in> set options" by (auto simp: find_Some_iff)
  from wp_option_set [OF this assms, of v E] show ?thesis
    using Some by (simp add: txc_config_set_option_def)
qed

lemma wp_file_loop:
  assumes "settings_ok (settings c)"
  shows "wp (config_file_loop fin) (\<lambda>_ c. settings_ok (settings c))
           (\<lambda>e c. e \<in> {Exit1, Undefined} \<and> settings_ok (settings c)) c"
  using assms
proof (induction fin arbitrary: c rule: config_file_loop.induct)
  case (1 fin)
  obtain r rest where p: "parse fin = (r, rest)" by (cases "parse fin")
  show ?case
  proof (cases r)
    case (parse_result_pair name v)
    with p have l: "config_file_loop fin =
        bnd (bnd (txc_config_set_option name v) (\<lambda>_. ret ())) (\<lambda>_. config_file_loop rest)"
      by (subst config_file_loop.simps) simp
    have "wp (config_file_loop rest) (\<lambda>_ c. settings_ok (settings c))
           (\<lambda>e c. e \<in> {Exit1, Undefined} \<and> settings_ok (settings c)) c'"
      if "settings_ok (settings c')" for c'
      using 1(1) [OF p [symmetric] parse_result_pair that] .
    then show ?thesis
      unfolding l by (auto intro!: wp_mono [OF wp_set_option [OF 1(3), where E = "\<lambda>_ _. False"]])
  next
    case parse_result_comment
    with p 1(2) [OF p [symmetric] _ 1(3)] show ?thesis by (subst config_file_loop.simps) simp
  qed (use p 1(3) in \<open>simp_all add: config_file_loop.simps\<close>)
qed

text \<open>
  C36. Whatever the configuration file and the environment hold, the two integer
  settings stay in the range 0 to 1000 that \<^verbatim>\<open>config.h\<close> declares: an initialisation
  that returns leaves them there, and so does every later \<open>set_option\<close>.
\<close>

theorem config_ranges_kept:
  "(case txc_config_init file getenv \<lparr>settings = DEFVALUES, cfg_warnings = []\<rparr> of
      Ok r c \<Rightarrow> fst r = TXC_R_SUCCESS \<and> settings_ok (settings c) \<and>
        (\<exists>c'. txc_config_set_option name v c = Ok TXC_R_SUCCESS c' \<and> settings_ok (settings c'))
    | Fault e c \<Rightarrow> e \<in> {Exit1, Undefined})"
proof -
  let ?c0 = "\<lparr>settings = DEFVALUES, cfg_warnings = []\<rparr>"
  let ?E = "\<lambda>e (c::config). e \<in> {Exit1, Undefined}"
  have from_file: "wp (config_init_use_file file) (\<lambda>_ c. settings_ok (settings c)) ?E ?c0"
    using wp_mono [OF wp_file_loop] defvalues_ok
    by (auto simp: config_init_use_file_def split: option.split intro!: wp_mono [OF wp_file_loop])
  have env: "wp (for_each options (\<lambda>opt. case getenv (env_name opt) of None \<Rightarrow> ret ()
      | Some v \<Rightarrow> option_set opt v)) (\<lambda>_ c. settings_ok (settings c)) ?E c"
    if "settings_ok (settings c)" for c
    using that by (rule wp_for_each) (auto split: option.split intro: wp_option_set)
  have "wp (txc_config_init file getenv) (\<lambda>r c. fst r = TXC_R_SUCCESS \<and> settings_ok (settings c)) ?E ?c0"
    unfolding txc_config_init_def config_init_use_env_def wp_bnd
    by (rule wp_mono [OF from_file]) (auto intro!: wp_mono [OF env])
  moreover have "\<exists>c'. txc_config_set_option name v c = Ok TXC_R_SUCCESS c' \<and> settings_ok (settings c')"
    if "settings_ok (settings c)" for c
    using wp_set_option [OF that, of name v "\<lambda>_ _. False"]
    by (auto simp: wp_total txc_config_set_option_def bnd_def ret_def split: outcome.splits)
  ultimately show ?thesis by (auto simp: wp_def split: outcome.splits)
qed

section \<open>Blank lines\<close>

lemma fgets_prefix:
  assumes "ls \<noteq> []" "last ls = newline"
  shows "\<exists>l r. fgets (Suc n) (ls @ x) = (l, r @ x) \<and> length r < length ls \<and>
           (r = [] \<or> last r = newline)"
  using assms
proof (induction n arbitrary: ls)
  case 0
  then obtain c t where s: "ls = c # t" by (cases ls) auto
  with 0 show ?case by (auto split: if_splits)
next
  case (Suc n)
  then obtain c t where s: "ls = c # t" by (cases ls) auto
  show ?case
  proof (cases "c = newline")
    case True
    with s Suc.prems show ?thesis by (auto split: if_splits)
  next
    case False
    with s Suc.prems have "t \<noteq> []" "last t = newline" by (auto split: if_splits)
    from Suc.IH [OF this] s False show ?thesis by (fastforce simp: split_beta Let_def)
  qed
qed

lemma parse_prefix:
  assumes "ls \<noteq> []" "last ls = newline"
  shows "\<exists>p r. parse (ls @ x) = (p, r @ x) \<and> p \<noteq> parse_result_EOF \<and> length r < length ls \<and>
           (r = [] \<or> last r = newline)"
proof -
  obtain l r where "fgets 1023 (ls @ x) = (l, r @ x)" "length r < length ls" "r = [] \<or> last r = newline"
    using fgets_prefix [OF assms, of 1022 x] by auto
  with assms(1) show ?thesis
    by (auto simp: parse_def Let_def split: option.splits)
qed

lemma parse_blank_line: "parse (newline # rest) = (parse_result_error, rest)"
proof -
  have "fgets 1023 (newline # rest) = ([newline], rest)"
    using fgets_line [of "[]" 1023 rest] by simp
  moreover have "strtrim_whitespace [newline] = [newline]"
    using strtrim_surrounded [of "[]" "[]" "[newline]"] by (simp add: is_blank_def)
  ultimately show ?thesis by (simp add: parse_def cstr_def strtok_def)
qed

text \<open>
  A blank line in the configuration file is a parse error, on which the
  library ends the process: no file with a blank line is ever read to its end.
\<close>

theorem config_blank_line_exits:
  assumes "ls = [] \<or> last ls = newline"
  shows "\<exists>e c'. config_init_use_file (Some (ls @ newline # rest)) c = Fault e c' \<and>
           e \<in> {Exit1, Undefined}"
proof -
  have "\<exists>e c'. config_file_loop (ls @ newline # rest) c = Fault e c' \<and> e \<in> {Exit1, Undefined}"
    using assms
  proof (induction "length ls" arbitrary: ls c rule: less_induct)
    case less
    show ?case
    proof (cases "ls = []")
      case True
      then show ?thesis by (subst config_file_loop.simps) (simp add: parse_blank_line prog_simps)
    next
      case False
      with less.prems obtain p r where p: "parse (ls @ newline # rest) = (p, r @ newline # rest)"
        "p \<noteq> parse_result_EOF" "length r < length ls" "r = [] \<or> last r = newline"
        using parse_prefix [of ls "newline # rest"] by auto
      note IH = less.hyps [OF p(3,4)]
      show ?thesis
      proof (cases p)
        case (parse_result_pair name v)
        have "wp (txc_config_set_option name v) (\<lambda>_ _. True) (\<lambda>_ _. False) c"
          by (auto simp: txc_config_set_option_def options_def boolean_option_def integer_option_def
              string_option_def option_set_def store_value_def warn_def listed_value_def)
        then obtain x c1 where "txc_config_set_option name v c = Ok x c1" by (auto simp: wp_total)
        with IH [of c1] p parse_result_pair show ?thesis
          by (subst config_file_loop.simps) (auto simp: prog_simps)
      qed (use p IH in \<open>auto simp: prog_simps config_file_loop.simps [of "ls @ newline # rest"]\<close>)
    qed
  qed
  then show ?thesis by (auto simp: config_init_use_file_def prog_simps)
qed

theorem config_blank_line_exits_witness:
  "\<exists>e c'. config_init_use_file (Some (''printconf=enable'' @ [newline] @ [newline] @ ''debug_tx=enable''))
       \<lparr>settings = DEFVALUES, cfg_warnings = []\<rparr> = Fault e c' \<and> e \<in> {Exit1, Undefined}"
  using config_blank_line_exits [of "''printconf=enable'' @ [newline]" "''debug_tx=enable''"] by simp

end
