(* ===== verification/Txdesc.thy ===== *)
theory Txdesc
  imports Buffer Config
begin

text \<open>
  Transaction descriptors and their action lists: the structures of
  \<^verbatim>\<open>src/src/core/txdesc.h\<close> and the first part of \<^verbatim>\<open>src/src/core/tx.c\<close>, the wrapper
  of the Intel TM runtime in \<^verbatim>\<open>src/src/tm/itm.h\<close>, and the failure manager
  \<^verbatim>\<open>src/src/core/fm.c\<close>.  A registered action is a value of the datatype \<open>action\<close>:
  one constructor per function the library registers, applied to the argument
  block that the C code allocates for it.  The central part is the pair of
  functions that run the registered actions when a transaction commits or rolls
  back; the theory shows that they run every action exactly once, in the order
  of the execution levels, commit actions in the order of registration and undo
  actions in the reverse order, and that they terminate.
\<close>

section \<open>Actions\<close>

text \<open>The execution levels of \<^verbatim>\<open>config.h\<close>.\<close>

abbreviation (input) TXC_TX_REGULAR_COMMIT_ACTION_ORDER :: int where "TXC_TX_REGULAR_COMMIT_ACTION_ORDER \<equiv> 0"

abbreviation (input) TXC_TX_REGULAR_UNDO_ACTION_ORDER :: int where "TXC_TX_REGULAR_UNDO_ACTION_ORDER \<equiv> 0"

abbreviation (input) TXC_KOA_CREATE_COMMIT_ACTION_ORDER :: int where "TXC_KOA_CREATE_COMMIT_ACTION_ORDER \<equiv> 0"

abbreviation (input) TXC_KOA_CREATE_UNDO_ACTION_ORDER :: int where "TXC_KOA_CREATE_UNDO_ACTION_ORDER \<equiv> 0"

abbreviation (input) TXC_KOA_DESTROY_COMMIT_ACTION_ORDER :: int where "TXC_KOA_DESTROY_COMMIT_ACTION_ORDER \<equiv> 1"

abbreviation (input) TXC_SENTINELMGR_COMMIT_ACTION_ORDER :: int where "TXC_SENTINELMGR_COMMIT_ACTION_ORDER \<equiv> 2"

abbreviation (input) TXC_SENTINELMGR_UNDO_ACTION_ORDER :: int where "TXC_SENTINELMGR_UNDO_ACTION_ORDER \<equiv> 2"

abbreviation (input) TXC_STATSMGR_COMMIT_ACTION_ORDER :: int where "TXC_STATSMGR_COMMIT_ACTION_ORDER \<equiv> 3"

abbreviation (input) TXC_STATSMGR_UNDO_ACTION_ORDER :: int where "TXC_STATSMGR_UNDO_ACTION_ORDER \<equiv> 3"

abbreviation (input) TXC_ACTION_LIST_SIZE :: u32 where "TXC_ACTION_LIST_SIZE \<equiv> 32"

text \<open>
  Descriptors of files are C ints, kernel objects and descriptors of transactions
  are addresses, and byte buffers that an argument block points to are held by
  value (\<open>None\<close> is \<^verbatim>\<open>NULL\<close>).  \<open>Act_user\<close> is a function of the application with
  its argument.
\<close>

datatype action =
    Act_sentinelmgr_commit addr
  | Act_sentinelmgr_undo addr
  | Act_statsmgr_commit addr
  | Act_statsmgr_undo addr
  | Act_x_open_undo int addr
  | Act_x_close_commit int addr
  | Act_x_dup_undo int addr
  | Act_x_lseek_undo int int
  | Act_x_read_undo int int
  | Act_x_write_seq_undo int int
  | Act_x_write_ovr_undo int "byte list option" int
  | Act_x_fsync_commit int
  | Act_x_fdatasync_commit int
  | Act_x_write_pipe_commit int "byte list"
  | Act_x_read_pipe_commit addr addr
  | Act_x_read_pipe_undo addr addr
  | Act_x_pipe_undo "int \<times> int" "addr \<times> addr"
  | Act_x_socket_undo int addr
  | Act_x_sendmsg_commit addr
  | Act_x_recvmsg_commit addr addr
  | Act_x_recvmsg_undo addr addr
  | Act_x_unlink_commit addr string
  | Act_x_create_case1_undo int addr string
  | Act_x_create_case2_commit int addr string string
  | Act_x_create_case2_undo int addr string string
  | Act_x_rename_commit addr "addr option" string string string
  | Act_x_rename_undo addr "addr option" string string string
  | Act_x_pthread_create_commit addr
  | Act_x_pthread_create_undo addr
  | Act_x_pthread_mutex_lock_undo addr
  | Act_x_pthread_mutex_unlock_commit addr
  | Act_user addr addr

record txc_tx_action_list_entry =
  ae_function :: action
  ae_error_result :: "addr option"
  ae_order :: int

text \<open>
  The array of entries is the HOL list of its first \<open>num_entries\<close> elements;
  \<open>al_valid\<close> is false when \<open>entries\<close> is \<^verbatim>\<open>NULL\<close>, after a failed reallocation.
\<close>

record txc_tx_action_list =
  al_entries :: "txc_tx_action_list_entry list"
  al_size :: u32
  al_valid :: bool

text \<open>The sentinel lists of a descriptor, \<^verbatim>\<open>struct txc_sentinel_list_s\<close>: sentinel and status of each entry.\<close>

record txc_sentinel_list =
  sl_entries :: "(addr \<times> u32) list"
  sl_size :: u32
  sl_valid :: bool

section \<open>Descriptors and the state\<close>

record txc_tx =
  tid :: u32
  tid_pthread :: u32
  sentinelmgr_undo_action_registered :: bool
  sentinelmgr_commit_action_registered :: bool
  statsmgr_undo_action_registered :: bool
  statsmgr_commit_action_registered :: bool
  generic_undo_action_registered :: bool
  generic_commit_action_registered :: bool
  abort_reason :: txc_tx_abortreason_t
  forced_retries :: u32
  commit_action_list :: txc_tx_action_list
  undo_action_list :: txc_tx_action_list
  sentinel_list :: txc_sentinel_list
  sentinel_list_preacquire :: txc_sentinel_list
  buffer_linear :: addr
  txd_next :: "addr option"
  txd_prev :: "addr option"
  txstat :: addr
  threadstat :: addr
  fm_flags :: int
  fm_error_result :: "addr option"
  fm_abort :: bool
  itm_td :: u32

datatype txc_tx_xactstate_t =
    TXC_XACTSTATE_NONTRANSACTIONAL
  | TXC_XACTSTATE_TRANSACTIONAL_RETRYABLE
  | TXC_XACTSTATE_TRANSACTIONAL_IRREVOCABLE

text \<open>What \<^verbatim>\<open>_ITM_inTransaction\<close> answers; \<open>itm_other\<close> stands for any other value.\<close>

datatype itm_howExecuting =
    outsideTransaction
  | inRetryableTransaction
  | inIrrevocableTransaction
  | itm_other

text \<open>
  The state the transaction code works on.  \<open>itm_mode\<close> and \<open>itm_actions\<close> are what
  the TM runtime holds: the mode of each of its descriptors and the user actions
  registered with it (\<open>True\<close> marks a commit action).  \<open>int_mem\<close> is the memory of
  the \<^verbatim>\<open>int\<close> variables that callers pass for asynchronous errors.  \<open>realloc_ok\<close>
  are the allocator's answers to the growth of action and sentinel lists, by the
  number of the call.
\<close>

record tx_state =
  txds :: "addr \<Rightarrow> txc_tx"
  l_txd :: "addr option"
  runtime_settings :: txc_runtime_settings
  bufmgr :: txc_buffermgr
  int_mem :: "addr \<Rightarrow> int"
  errno :: int
  itm_mode :: "u32 \<Rightarrow> itm_howExecuting"
  itm_actions :: "(u32 \<times> bool \<times> addr) list"
  realloc_ok :: "nat \<Rightarrow> bool"
  realloc_calls :: nat

definition txd_get :: "addr \<Rightarrow> (txc_tx \<Rightarrow> 'a) \<Rightarrow> ('z tx_state_scheme, 'a) prog" where
  "txd_get t f = gets (\<lambda>s. f (txds s t))"

definition txd_set :: "addr \<Rightarrow> (txc_tx \<Rightarrow> txc_tx) \<Rightarrow> ('z tx_state_scheme, unit) prog" where
  "txd_set t f = modify (\<lambda>s. s\<lparr>txds := (txds s)(t := f (txds s t))\<rparr>)"

lemma wp_txd_get [simp]: "wp (txd_get t f) Q E s \<longleftrightarrow> Q (f (txds s t)) s"
  by (simp add: txd_get_def)

lemma wp_txd_set [simp]:
  "wp (txd_set t f) Q E s \<longleftrightarrow> Q () (s\<lparr>txds := (txds s)(t := f (txds s t))\<rparr>)"
  by (simp add: txd_set_def)

definition store_int :: "addr option \<Rightarrow> int \<Rightarrow> ('z tx_state_scheme, unit) prog" where
  "store_int p v = (case p of None \<Rightarrow> ret () | Some a \<Rightarrow> modify (\<lambda>s. s\<lparr>int_mem := (int_mem s)(a := v)\<rparr>))"

definition on_bufmgr :: "(txc_buffermgr, 'a) prog \<Rightarrow> ('z tx_state_scheme, 'a) prog" where
  "on_bufmgr = zoom bufmgr (\<lambda>m s. s\<lparr>bufmgr := m\<rparr>)"

definition realloc_answer :: "('z tx_state_scheme, bool) prog" where
  "realloc_answer =
     bnd (gets (\<lambda>s. realloc_ok s (realloc_calls s))) (\<lambda>b.
     bnd (modify (\<lambda>s. s\<lparr>realloc_calls := Suc (realloc_calls s)\<rparr>)) (\<lambda>_.
     ret b))"

section \<open>The TM runtime\<close>

text \<open>\<open>td\<close> and \<open>thread\<close> are what \<^verbatim>\<open>_ITM_getTransaction\<close> and \<^verbatim>\<open>_ITM_getThreadnum\<close> return.\<close>

definition tmsystem_tx_init :: "u32 \<Rightarrow> u32 \<Rightarrow> addr \<Rightarrow> ('z tx_state_scheme, unit) prog" where
  "tmsystem_tx_init td thread t = txd_set t (\<lambda>d. d\<lparr>itm_td := td, tid := thread\<rparr>)"

definition tmsystem_register_generic_undo_action :: "addr \<Rightarrow> ('z tx_state_scheme, unit) prog" where
  "tmsystem_register_generic_undo_action t =
     bnd (txd_get t generic_undo_action_registered) (\<lambda>registered.
     mwhen (\<not> registered)
       (bnd (modify (\<lambda>s. s\<lparr>itm_actions := itm_actions s @ [(itm_td (txds s t), False, t)]\<rparr>)) (\<lambda>_.
        txd_set t (\<lambda>d. d\<lparr>generic_undo_action_registered := True\<rparr>))))"

definition tmsystem_register_generic_commit_action :: "addr \<Rightarrow> ('z tx_state_scheme, unit) prog" where
  "tmsystem_register_generic_commit_action t =
     bnd (txd_get t generic_commit_action_registered) (\<lambda>registered.
     mwhen (\<not> registered)
       (bnd (modify (\<lambda>s. s\<lparr>itm_actions := itm_actions s @ [(itm_td (txds s t), True, t)]\<rparr>)) (\<lambda>_.
        txd_set t (\<lambda>d. d\<lparr>generic_commit_action_registered := True\<rparr>))))"

text \<open>The TM runtime does not return from \<^verbatim>\<open>_ITM_abortTransaction\<close>.\<close>

definition tmsystem_abort_transaction ::
  "addr \<Rightarrow> txc_tx_abortreason_t \<Rightarrow> ('z tx_state_scheme, 'a) prog" where
  "tmsystem_abort_transaction t reason =
     bnd (tmsystem_register_generic_undo_action t) (\<lambda>_.
     bnd (txd_set t (\<lambda>d. d\<lparr>abort_reason := reason, forced_retries := forced_retries d + 1\<rparr>)) (\<lambda>_.
     throw (Tx_abort reason)))"

definition tmsystem_get_xactstate :: "addr \<Rightarrow> ('z tx_state_scheme, txc_tx_xactstate_t) prog" where
  "tmsystem_get_xactstate t =
     bnd (gets (\<lambda>s. itm_mode s (itm_td (txds s t)))) (\<lambda>mode.
     case mode of
       outsideTransaction \<Rightarrow> ret TXC_XACTSTATE_NONTRANSACTIONAL
     | inRetryableTransaction \<Rightarrow> ret TXC_XACTSTATE_TRANSACTIONAL_RETRYABLE
     | inIrrevocableTransaction \<Rightarrow> ret TXC_XACTSTATE_TRANSACTIONAL_IRREVOCABLE
     | itm_other \<Rightarrow> throw Exit1)"

section \<open>Failure manager\<close>

abbreviation (input) TXC_FM_NO_RETRY :: int where "TXC_FM_NO_RETRY \<equiv> 1"

definition txc_fm_init :: "addr \<Rightarrow> ('z tx_state_scheme, unit) prog" where
  "txc_fm_init t = txd_set t (\<lambda>d. d\<lparr>fm_abort := False, fm_error_result := None, fm_flags := 0\<rparr>)"

definition txc_fm_register :: "addr \<Rightarrow> int \<Rightarrow> addr option \<Rightarrow> ('z tx_state_scheme, unit) prog" where
  "txc_fm_register t flags p = txd_set t (\<lambda>d. d\<lparr>fm_flags := flags, fm_error_result := p\<rparr>)"

definition txc_tx_abort_transaction ::
  "addr \<Rightarrow> txc_tx_abortreason_t \<Rightarrow> ('z tx_state_scheme, 'a) prog" where
  "txc_tx_abort_transaction t reason = tmsystem_abort_transaction t reason"

definition txc_fm_transaction_postbegin :: "addr \<Rightarrow> ('z tx_state_scheme, unit) prog" where
  "txc_fm_transaction_postbegin t =
     bnd (txd_get t fm_abort) (\<lambda>b.
     mwhen b (txc_tx_abort_transaction t TXC_ABORTREASON_USERABORT))"

definition txc_fm_handle_commit_failure :: "addr \<Rightarrow> int \<Rightarrow> ('z tx_state_scheme, unit) prog" where
  "txc_fm_handle_commit_failure t err =
     bnd (txd_get t fm_error_result) (\<lambda>p. store_int p err)"

text \<open>The flag test of the source is the logical \<^verbatim>\<open>&&\<close>, so any non-zero flags count.\<close>

definition txc_fm_handle_undo_failure :: "addr \<Rightarrow> int \<Rightarrow> ('z tx_state_scheme, unit) prog" where
  "txc_fm_handle_undo_failure t err =
     bnd (mwhen (err \<noteq> 0)
       (bnd (txd_get t fm_error_result) (\<lambda>p.
        bnd (store_int p err) (\<lambda>_.
        bnd (txd_get t fm_flags) (\<lambda>flags.
        mwhen (flags \<noteq> 0 \<and> TXC_FM_NO_RETRY \<noteq> 0) (txd_set t (\<lambda>d. d\<lparr>fm_abort := True\<rparr>))))))) (\<lambda>_.
     txd_set t (\<lambda>d. d\<lparr>fm_flags := 0\<rparr>))"

section \<open>Registering actions\<close>

definition allocate_action_list_entries ::
  "txc_tx_action_list \<Rightarrow> bool \<Rightarrow> ('z tx_state_scheme, txc_result_t \<times> txc_tx_action_list) prog" where
  "allocate_action_list_entries la ext =
     bnd realloc_answer (\<lambda>ok.
     let la = (if ext then la\<lparr>al_size := al_size la * 2\<rparr> else la)
     in if ok then ret (TXC_R_SUCCESS, la\<lparr>al_valid := True\<rparr>)
        else ret (TXC_R_NOMEMORY, la\<lparr>al_valid := False\<rparr>))"

definition deallocate_action_list_entries :: "txc_tx_action_list \<Rightarrow> txc_result_t \<times> txc_tx_action_list" where
  "deallocate_action_list_entries la = (TXC_R_SUCCESS, la\<lparr>al_valid := False\<rparr>)"

definition register_action ::
  "txc_tx_action_list \<Rightarrow> action \<Rightarrow> addr option \<Rightarrow> int \<Rightarrow>
   ('z tx_state_scheme, txc_result_t \<times> txc_tx_action_list) prog" where
  "register_action la function error_result order =
     bnd (if of_nat (length (al_entries la)) = al_size la
          then allocate_action_list_entries la True
          else ret (TXC_R_SUCCESS, la)) (\<lambda>(r, la).
     if r \<noteq> TXC_R_SUCCESS then ret (r, la)
     else
       bnd (guard Undefined (al_valid la)) (\<lambda>_.
       ret (TXC_R_SUCCESS, la\<lparr>al_entries := al_entries la @
              [\<lparr>ae_function = function, ae_error_result = error_result, ae_order = order\<rparr>]\<rparr>)))"

definition txc_tx_register_commit_action ::
  "addr \<Rightarrow> action \<Rightarrow> addr option \<Rightarrow> int \<Rightarrow> ('z tx_state_scheme, txc_result_t) prog" where
  "txc_tx_register_commit_action t function error_result order =
     bnd (txd_get t commit_action_list) (\<lambda>la.
     bnd (register_action la function error_result order) (\<lambda>(r, la).
     bnd (txd_set t (\<lambda>d. d\<lparr>commit_action_list := la\<rparr>)) (\<lambda>_.
     if r \<noteq> TXC_R_SUCCESS then ret r
     else bnd (tmsystem_register_generic_commit_action t) (\<lambda>_. ret TXC_R_SUCCESS))))"

definition txc_tx_register_undo_action ::
  "addr \<Rightarrow> action \<Rightarrow> addr option \<Rightarrow> int \<Rightarrow> ('z tx_state_scheme, txc_result_t) prog" where
  "txc_tx_register_undo_action t function error_result order =
     bnd (txd_get t undo_action_list) (\<lambda>la.
     bnd (register_action la function error_result order) (\<lambda>(r, la).
     bnd (txd_set t (\<lambda>d. d\<lparr>undo_action_list := la\<rparr>)) (\<lambda>_.
     if r \<noteq> TXC_R_SUCCESS then ret r
     else bnd (tmsystem_register_generic_undo_action t) (\<lambda>_. ret TXC_R_SUCCESS))))"

section \<open>Descriptor initialisation and queries\<close>

definition txc_tx_init :: "addr \<Rightarrow> ('z tx_state_scheme, txc_result_t) prog" where
  "txc_tx_init t =
     bnd (txd_set t (\<lambda>d. d\<lparr>sentinelmgr_commit_action_registered := False,
        sentinelmgr_undo_action_registered := False,
        statsmgr_commit_action_registered := False,
        statsmgr_undo_action_registered := False,
        generic_undo_action_registered := False,
        generic_commit_action_registered := False,
        abort_reason := TXC_ABORTREASON_TMCONFLICT,
        commit_action_list := (commit_action_list d)\<lparr>al_entries := []\<rparr>,
        undo_action_list := (undo_action_list d)\<lparr>al_entries := []\<rparr>\<rparr>)) (\<lambda>_.
     bnd (txd_get t buffer_linear) (\<lambda>b.
     bnd (on_bufmgr (txc_buffer_linear_init b)) (\<lambda>_.
     ret TXC_R_SUCCESS)))"

definition txc_tx_get_txd :: "('z tx_state_scheme, addr option) prog" where
  "txc_tx_get_txd = gets l_txd"

definition txc_tx_get_tid :: "addr option \<Rightarrow> ('z tx_state_scheme, u32) prog" where
  "txc_tx_get_tid p = (case p of None \<Rightarrow> ret 0 | Some t \<Rightarrow> txd_get t tid)"

definition txc_tx_get_tid_pthread :: "addr option \<Rightarrow> ('z tx_state_scheme, u32) prog" where
  "txc_tx_get_tid_pthread p = (case p of None \<Rightarrow> ret 0 | Some t \<Rightarrow> txd_get t tid_pthread)"

definition txc_tx_get_xactstate :: "addr option \<Rightarrow> ('z tx_state_scheme, txc_tx_xactstate_t) prog" where
  "txc_tx_get_xactstate p =
     (case p of None \<Rightarrow> ret TXC_XACTSTATE_NONTRANSACTIONAL | Some t \<Rightarrow> tmsystem_get_xactstate t)"

definition txc_tx_get_forced_retries :: "addr \<Rightarrow> ('z tx_state_scheme, u32) prog" where
  "txc_tx_get_forced_retries t = txd_get t forced_retries"

section \<open>Running the actions\<close>

text \<open>
  \<open>exec\<close> runs one action and returns what it stores in its error variable.  The
  accumulator of the loops is the pair of \<open>num_actions_executed\<close> and
  \<open>first_error_result\<close>.
\<close>

type_synonym 's action_exec = "action \<Rightarrow> ('s, int) prog"

definition run_entry ::
  "'z tx_state_scheme action_exec \<Rightarrow> txc_tx_action_list_entry \<Rightarrow> int \<times> int \<Rightarrow>
   ('z tx_state_scheme, int \<times> int) prog" where
  "run_entry exec e = (\<lambda>(executed, first).
     bnd (exec (ae_function e)) (\<lambda>temp.
     bnd (store_int (ae_error_result e) temp) (\<lambda>_.
     ret (executed + 1, if first = 0 then temp else first))))"

text \<open>
  The body of the inner loops: entry \<open>i\<close> is read from the list as it is now and
  run if it has the current order.
\<close>

definition run_index ::
  "(txc_tx \<Rightarrow> txc_tx_action_list) \<Rightarrow> 'z tx_state_scheme action_exec \<Rightarrow> addr \<Rightarrow> int \<Rightarrow> nat \<Rightarrow>
   int \<times> int \<Rightarrow> ('z tx_state_scheme, int \<times> int) prog" where
  "run_index sel exec t order i acc =
     bnd (txd_get t sel) (\<lambda>la.
     if i < length (al_entries la) \<and> al_valid la then
       if ae_order (al_entries la ! i) = order then run_entry exec (al_entries la ! i) acc else ret acc
     else throw Undefined)"

primrec run_indices ::
  "(txc_tx \<Rightarrow> txc_tx_action_list) \<Rightarrow> 'z tx_state_scheme action_exec \<Rightarrow> addr \<Rightarrow> int \<Rightarrow> nat list \<Rightarrow>
   int \<times> int \<Rightarrow> ('z tx_state_scheme, int \<times> int) prog" where
  "run_indices sel exec t order [] acc = ret acc"
| "run_indices sel exec t order (i # is) acc =
     bnd (run_index sel exec t order i acc) (\<lambda>acc. run_indices sel exec t order is acc)"

text \<open>
  The outer loop: it counts \<open>order\<close> up until as many actions were executed as
  the list has entries.  \<open>dir\<close> gives the order in which the inner loop visits
  the indices.
\<close>

partial_function (option) run_orders ::
  "(nat \<Rightarrow> nat list) \<Rightarrow> (txc_tx \<Rightarrow> txc_tx_action_list) \<Rightarrow> 'z tx_state_scheme action_exec \<Rightarrow> addr \<Rightarrow>
   int \<Rightarrow> int \<times> int \<Rightarrow> 'z tx_state_scheme \<Rightarrow> ('z tx_state_scheme, int \<times> int) outcome option" where
  "run_orders dir sel exec t order acc s =
     (if fst acc = int (length (al_entries (sel (txds s t)))) then Some (Ok acc s)
      else
        case run_indices sel exec t order (dir (length (al_entries (sel (txds s t))))) acc s of
          Ok acc s \<Rightarrow> run_orders dir sel exec t (order + 1) acc s
        | Fault e s \<Rightarrow> Some (Fault e s))"

definition run_actions ::
  "(nat \<Rightarrow> nat list) \<Rightarrow> (txc_tx \<Rightarrow> txc_tx_action_list) \<Rightarrow> 'z tx_state_scheme action_exec \<Rightarrow> addr \<Rightarrow>
   ('z tx_state_scheme, int \<times> int) prog" where
  "run_actions dir sel exec t s =
     (case run_orders dir sel exec t 0 (0, 0) s of
        None \<Rightarrow> Fault Diverges s
      | Some r \<Rightarrow> r)"

definition downwards :: "nat \<Rightarrow> nat list" where
  "downwards n = rev [0..<n]"

definition upwards :: "nat \<Rightarrow> nat list" where
  "upwards n = [0..<n]"

definition tx_generic_undo_action ::
  "'z tx_state_scheme action_exec \<Rightarrow> addr \<Rightarrow> ('z tx_state_scheme, unit) prog" where
  "tx_generic_undo_action exec t =
     bnd (run_actions downwards undo_action_list exec t) (\<lambda>(_, first_error_result).
     bnd (txc_tx_init t) (\<lambda>_.
     txc_fm_handle_undo_failure t first_error_result))"

definition tx_generic_commit_action ::
  "'z tx_state_scheme action_exec \<Rightarrow> addr \<Rightarrow> ('z tx_state_scheme, unit) prog" where
  "tx_generic_commit_action exec t =
     bnd (run_actions upwards commit_action_list exec t) (\<lambda>(_, first_error_result).
     bnd (txc_tx_init t) (\<lambda>_.
     bnd (txd_set t (\<lambda>d. d\<lparr>forced_retries := 0\<rparr>)) (\<lambda>_.
     txc_fm_handle_commit_failure t first_error_result)))"

section \<open>The order of execution\<close>

text \<open>The reference: running a list of entries one after the other.\<close>

primrec run_list ::
  "'z tx_state_scheme action_exec \<Rightarrow> txc_tx_action_list_entry list \<Rightarrow> int \<times> int \<Rightarrow>
   ('z tx_state_scheme, int \<times> int) prog" where
  "run_list exec [] acc = ret acc"
| "run_list exec (e # es) acc = bnd (run_entry exec e acc) (run_list exec es)"

text \<open>The entries by execution level, and within a level in the given order.\<close>

definition by_level :: "nat \<Rightarrow> txc_tx_action_list_entry list \<Rightarrow> txc_tx_action_list_entry list" where
  "by_level levels es = concat (map (\<lambda>k. filter (\<lambda>e. ae_order e = int k) es) [0..<levels])"

lemma run_list_append:
  "run_list exec (xs @ ys) = (\<lambda>acc. bnd (run_list exec xs acc) (run_list exec ys))"
proof (induction xs)
  case Nil
  show ?case by (rule ext) simp
next
  case (Cons x xs)
  show ?case by (rule ext) (simp add: Cons bnd_assoc)
qed

lemma mset_by_level:
  assumes "\<And>e. e \<in> set es \<Longrightarrow> 0 \<le> ae_order e \<and> ae_order e < int levels"
  shows "set (by_level levels es) = set es" and "length (by_level levels es) = length es"
proof -
  have "\<exists>k \<in> {0..<levels}. ae_order e = int k" if "e \<in> set es" for e
    using assms [OF that] by (intro bexI [of _ "nat (ae_order e)"]) auto
  then show "set (by_level levels es) = set es"
    unfolding by_level_def by auto
  have "length (filter (\<lambda>e. ae_order e < int k) es) =
      length (concat (map (\<lambda>k. filter (\<lambda>e. ae_order e = int k) es) [0..<k]))" for k
  proof (induction k)
    case 0
    have "filter (\<lambda>e. ae_order e < int 0) es = []"
      using assms by (force simp: filter_empty_conv)
    then show ?case by simp
  next
    case (Suc k)
    have "length (filter (\<lambda>e. ae_order e < int (Suc k)) es) =
        length (filter (\<lambda>e. ae_order e < int k) es) + length (filter (\<lambda>e. ae_order e = int k) es)"
      by (induction es) auto
    with Suc show ?case by simp
  qed
  moreover have "filter (\<lambda>e. ae_order e < int levels) es = es"
    using assms by (simp add: filter_id_conv)
  ultimately show "length (by_level levels es) = length es" by (metis by_level_def)
qed

text \<open>
  What the loops rely on of the functions they call: running an action does not
  change the list that is being run.
\<close>

definition keeps_list ::
  "(txc_tx \<Rightarrow> txc_tx_action_list) \<Rightarrow> addr \<Rightarrow> 'z tx_state_scheme action_exec \<Rightarrow> bool" where
  "keeps_list sel t exec \<longleftrightarrow>
     (\<forall>a s r s'. exec a s = Ok r s' \<longrightarrow> sel (txds s' t) = sel (txds s t))"

locale action_runner =
  fixes sel :: "txc_tx \<Rightarrow> txc_tx_action_list" and t :: addr
    and exec :: "'z tx_state_scheme action_exec" and dir :: "nat \<Rightarrow> nat list"
  assumes exec_keeps: "exec a s = Ok r s' \<Longrightarrow> sel (txds s' t) = sel (txds s t)"
    and dir_set: "set (dir n) = {..<n}" and dir_length: "length (dir n) = n"
begin

lemma run_entry_keeps:
  assumes "run_entry exec e acc s = Ok acc' s'"
  shows "sel (txds s' t) = sel (txds s t)" "fst acc' = fst acc + 1"
  using assms exec_keeps [of "ae_function e" s]
  by (auto simp: run_entry_def prog_simps store_int_def split_beta split: outcome.splits option.splits)

lemma run_list_keeps:
  assumes "run_list exec es acc s = Ok acc' s'"
  shows "sel (txds s' t) = sel (txds s t) \<and> fst acc' = fst acc + int (length es)"
  using assms
proof (induction es arbitrary: acc s)
  case (Cons e es)
  then obtain acc1 s1 where 1: "run_entry exec e acc s = Ok acc1 s1"
    "run_list exec es acc1 s1 = Ok acc' s'"
    by (auto simp: bnd_def split: outcome.splits)
  with Cons.IH [OF 1(2)] run_entry_keeps [OF 1(1)] show ?case by simp
qed (simp add: ret_def)

lemma run_indices_filter:
  assumes "al_valid (sel (txds s t))" "\<forall>i \<in> set is. i < length (al_entries (sel (txds s t)))"
  shows "run_indices sel exec t order is acc s =
    run_list exec (filter (\<lambda>e. ae_order e = order) (map (nth (al_entries (sel (txds s t)))) is)) acc s"
  using assms
proof (induction "is" arbitrary: acc s)
  case (Cons i "is")
  let ?e = "al_entries (sel (txds s t)) ! i"
  have idx: "run_index sel exec t order i acc s =
      (if ae_order ?e = order then run_entry exec ?e acc s else Ok acc s)"
    using Cons.prems by (simp add: run_index_def txd_get_def prog_simps)
  show ?case
  proof (cases "ae_order ?e = order")
    case True
    have "run_indices sel exec t order is acc1 s1 =
        run_list exec (filter (\<lambda>e. ae_order e = order) (map (nth (al_entries (sel (txds s t)))) is)) acc1 s1"
      if "run_entry exec ?e acc s = Ok acc1 s1" for acc1 s1
      using Cons.IH [of s1 acc1] Cons.prems run_entry_keeps(1) [OF that] by simp
    with True idx show ?thesis by (simp add: bnd_def split: outcome.split)
  next
    case False
    with idx Cons.IH [of s acc] Cons.prems show ?thesis by (simp add: bnd_def)
  qed
qed simp

text \<open>Once every action has a lower level, the remaining passes are empty.\<close>

lemma no_more_passes:
  assumes "length (filter (\<lambda>e. ae_order e < int k) es) = length es"
  shows "concat (map (\<lambda>k. filter (\<lambda>e. ae_order e = int k) es) [k..<n]) = []"
proof -
  have all: "\<forall>e \<in> set es. ae_order e < int k"
    using assms by (metis length_filter_less linorder_neq_iff)
  have "filter (\<lambda>e. ae_order e = int j) es = []" if "j \<in> set [k..<n]" for j
    using all that by (auto simp: filter_empty_conv)
  then show ?thesis by (auto simp: concat_eq_Nil_conv)
qed

lemma count_next_level:
  "length (filter (\<lambda>e. ae_order e < int (Suc k)) es) =
     length (filter (\<lambda>e. ae_order e < int k) es) + length (filter (\<lambda>e. ae_order e = int k) es)"
  by (induction es) auto

lemma run_orders_list:
  assumes "al_valid (sel (txds s t))"
    and es: "es = map (nth (al_entries (sel (txds s t)))) (dir (length (al_entries (sel (txds s t)))))"
    and ord: "\<And>e. e \<in> set es \<Longrightarrow> 0 \<le> ae_order e \<and> ae_order e < int levels"
    and "fst acc = int (length (filter (\<lambda>e. ae_order e < int k) es))" and "k \<le> levels"
  shows "run_orders dir sel exec t (int k) acc s =
    Some (run_list exec (concat (map (\<lambda>k. filter (\<lambda>e. ae_order e = int k) es) [k..<levels])) acc s)"
  using assms(1,2,4,5)
proof (induction "levels - k" arbitrary: k acc s)
  case 0
  have len: "length es = length (al_entries (sel (txds s t)))"
    using 0 by (simp add: dir_length)
  have "filter (\<lambda>e. ae_order e < int k) es = es"
    using 0 ord by (simp add: filter_id_conv)
  then have "fst acc = int (length (al_entries (sel (txds s t))))"
    using 0(4) len by simp
  with 0(1) show ?case by (subst run_orders.simps) (simp add: ret_def)
next
  case (Suc m)
  have len: "length es = length (al_entries (sel (txds s t)))"
    using Suc.prems by (simp add: dir_length)
  have kl: "k < levels" using Suc.hyps(2) by simp
  show ?case
  proof (cases "fst acc = int (length es)")
    case True
    then have none: "concat (map (\<lambda>k. filter (\<lambda>e. ae_order e = int k) es) [k..<levels]) = []"
      using Suc.prems(3) by (intro no_more_passes) simp
    show ?thesis
      unfolding none using True len by (subst run_orders.simps) (simp add: ret_def)
  next
    case False
    let ?pass = "filter (\<lambda>e. ae_order e = int k) es"
    have pass: "run_indices sel exec t (int k) (dir (length (al_entries (sel (txds s t))))) acc s =
        run_list exec ?pass acc s"
      using run_indices_filter [of s "dir (length (al_entries (sel (txds s t))))" "int k" acc] Suc.prems(1,2)
      by (simp add: dir_set)
    have split_upt: "concat (map (\<lambda>k. filter (\<lambda>e. ae_order e = int k) es) [k..<levels]) =
        ?pass @ concat (map (\<lambda>k. filter (\<lambda>e. ae_order e = int k) es) [Suc k..<levels])"
      using kl by (simp add: upt_conv_Cons)
    show ?thesis
    proof (cases "run_list exec ?pass acc s")
      case (Fault e s1)
      with False len pass show ?thesis
        unfolding split_upt by (subst run_orders.simps) (simp add: run_list_append bnd_def)
    next
      case (Ok acc1 s1)
      note keep = run_list_keeps [OF Ok]
      have "fst acc1 = int (length (filter (\<lambda>e. ae_order e < int (Suc k)) es))"
        using keep Suc.prems(3) count_next_level [of k es] by simp
      then have "run_orders dir sel exec t (int (Suc k)) acc1 s1 =
          Some (run_list exec (concat (map (\<lambda>k. filter (\<lambda>e. ae_order e = int k) es) [Suc k..<levels])) acc1 s1)"
        using Suc.hyps(1) [of "Suc k" s1 acc1] Suc.hyps(2) Suc.prems(1,2) keep kl by simp
      with False len pass Ok show ?thesis
        unfolding split_upt
        by (subst run_orders.simps) (simp add: run_list_append bnd_def add.commute)
    qed
  qed
qed

lemma run_actions_list:
  assumes "al_valid (sel (txds s t))"
    and "\<And>e. e \<in> set (al_entries (sel (txds s t))) \<Longrightarrow> 0 \<le> ae_order e \<and> ae_order e < int levels"
  shows "run_actions dir sel exec t s =
    run_list exec (by_level levels
      (map (nth (al_entries (sel (txds s t)))) (dir (length (al_entries (sel (txds s t))))))) (0, 0) s"
proof -
  let ?L = "al_entries (sel (txds s t))"
  let ?es = "map (nth ?L) (dir (length ?L))"
  have "e \<in> set ?es \<Longrightarrow> 0 \<le> ae_order e \<and> ae_order e < int levels" for e
    using assms(2) by (auto simp: dir_set)
  moreover from this have "filter (\<lambda>e. ae_order e < int 0) ?es = []"
    by (force simp: filter_empty_conv)
  ultimately show ?thesis
    using run_orders_list [OF assms(1) refl, of levels "(0, 0)" 0]
    by (simp add: run_actions_def by_level_def)
qed

end

lemma map_nth_rev: "map (nth xs) (rev [0..<length xs]) = rev xs"
  by (simp add: rev_map [symmetric] map_nth)

lemma action_runner_undo:
  "keeps_list undo_action_list t exec \<Longrightarrow> action_runner undo_action_list t exec downwards"
  by unfold_locales (auto simp: keeps_list_def downwards_def)

lemma action_runner_commit:
  "keeps_list commit_action_list t exec \<Longrightarrow> action_runner commit_action_list t exec upwards"
  by unfold_locales (auto simp: keeps_list_def upwards_def)

text \<open>The orders the library uses: the four execution levels of \<^verbatim>\<open>config.h\<close>.\<close>

definition levels_ok :: "txc_tx_action_list \<Rightarrow> bool" where
  "levels_ok la \<longleftrightarrow> al_valid la \<and> (\<forall>e \<in> set (al_entries la). 0 \<le> ae_order e \<and> ae_order e < 4)"

text \<open>
  C4. On rollback every registered undo action runs exactly once, level by level
  and within a level in the reverse order of registration; then the descriptor is
  reset and the first non-zero error goes to the failure manager.  The loop over
  the levels always ends.
\<close>

theorem undo_actions_run_in_reverse:
  assumes "keeps_list undo_action_list t exec" "levels_ok (undo_action_list (txds s t))"
  shows "tx_generic_undo_action exec t s =
      bnd (run_list exec (by_level 4 (rev (al_entries (undo_action_list (txds s t))))) (0, 0))
        (\<lambda>(_, first). bnd (txc_tx_init t) (\<lambda>_. txc_fm_handle_undo_failure t first)) s \<and>
    length (by_level 4 (rev (al_entries (undo_action_list (txds s t))))) =
      length (al_entries (undo_action_list (txds s t))) \<and>
    set (by_level 4 (rev (al_entries (undo_action_list (txds s t))))) =
      set (al_entries (undo_action_list (txds s t)))"
proof -
  let ?L = "al_entries (undo_action_list (txds s t))"
  have "run_actions downwards undo_action_list exec t s = run_list exec (by_level 4 (rev ?L)) (0, 0) s"
    using action_runner.run_actions_list [OF action_runner_undo [OF assms(1)], of s 4] assms(2)
    by (simp add: levels_ok_def downwards_def map_nth_rev)
  moreover note mset_by_level [of "rev ?L" 4]
  ultimately show ?thesis
    using assms(2) by (simp add: tx_generic_undo_action_def bnd_def levels_ok_def)
qed

text \<open>
  C26. On commit every registered commit action runs exactly once, level by level
  and within a level in the order of registration, and the loop ends.
\<close>

theorem commit_actions_run_in_order:
  assumes "keeps_list commit_action_list t exec" "levels_ok (commit_action_list (txds s t))"
  shows "tx_generic_commit_action exec t s =
      bnd (run_list exec (by_level 4 (al_entries (commit_action_list (txds s t)))) (0, 0))
        (\<lambda>(_, first). bnd (txc_tx_init t) (\<lambda>_.
           bnd (txd_set t (\<lambda>d. d\<lparr>forced_retries := 0\<rparr>)) (\<lambda>_.
           txc_fm_handle_commit_failure t first))) s \<and>
    length (by_level 4 (al_entries (commit_action_list (txds s t)))) =
      length (al_entries (commit_action_list (txds s t))) \<and>
    set (by_level 4 (al_entries (commit_action_list (txds s t)))) =
      set (al_entries (commit_action_list (txds s t)))"
proof -
  let ?L = "al_entries (commit_action_list (txds s t))"
  have "run_actions upwards commit_action_list exec t s = run_list exec (by_level 4 ?L) (0, 0) s"
    using action_runner.run_actions_list [OF action_runner_commit [OF assms(1)], of s 4] assms(2)
    by (simp add: levels_ok_def upwards_def map_nth)
  moreover note mset_by_level [of ?L 4]
  ultimately show ?thesis
    using assms(2) by (simp add: tx_generic_commit_action_def bnd_def levels_ok_def)
qed

section \<open>Registration\<close>

definition list_ready :: "txc_tx_action_list \<Rightarrow> bool" where
  "list_ready la \<longleftrightarrow> al_valid la \<and> 0 < al_size la \<and> length (al_entries la) \<le> unat (al_size la)"

lemma double_u32: "unat (x::u32) < 2 ^ 31 \<Longrightarrow> unat (x * 2) = 2 * unat x"
  using unat_plus_u32 [of x x] by (simp add: mult_2_right)

lemma register_action_ok:
  assumes "list_ready la" "\<And>k. realloc_ok s k" "length (al_entries la) < 2 ^ 31"
  shows "\<exists>la' n. register_action la f p ord s = Ok (TXC_R_SUCCESS, la') (s\<lparr>realloc_calls := n\<rparr>) \<and>
    list_ready la' \<and>
    al_entries la' = al_entries la @ [\<lparr>ae_function = f, ae_error_result = p, ae_order = ord\<rparr>]"
proof (cases "of_nat (length (al_entries la)) = al_size la")
  case True
  then have u: "unat (al_size la) = length (al_entries la)"
    using assms(3) unat_of_nat_u32 [of "length (al_entries la)"] by simp
  then have d: "unat (al_size la * 2) = 2 * length (al_entries la)"
    using assms(3) double_u32 [of "al_size la"] by simp
  have pos: "Suc 0 \<le> length (al_entries la)"
    using u assms(1) by (auto simp: list_ready_def word_less_nat_alt Suc_le_eq)
  show ?thesis
    by (intro exI [of _ "la\<lparr>al_size := al_size la * 2, al_valid := True, al_entries := al_entries la @
          [\<lparr>ae_function = f, ae_error_result = p, ae_order = ord\<rparr>]\<rparr>"] exI [of _ "Suc (realloc_calls s)"])
      (use True assms d pos in \<open>auto simp: register_action_def allocate_action_list_entries_def
        realloc_answer_def prog_simps list_ready_def word_less_nat_alt Let_def\<close>)
next
  case False
  then have "length (al_entries la) \<noteq> unat (al_size la)" by auto
  then show ?thesis
    by (intro exI [of _ "la\<lparr>al_entries := al_entries la @
          [\<lparr>ae_function = f, ae_error_result = p, ae_order = ord\<rparr>]\<rparr>"] exI [of _ "realloc_calls s"])
      (use False assms(1) in \<open>simp add: register_action_def prog_simps list_ready_def\<close>)
qed

definition register_all ::
  "addr \<Rightarrow> (action \<times> addr option \<times> int) list \<Rightarrow> ('z tx_state_scheme, txc_result_t list) prog" where
  "register_all t = map_prog (\<lambda>(f, p, ord). txc_tx_register_undo_action t f p ord)"

definition entry_of :: "action \<times> addr option \<times> int \<Rightarrow> txc_tx_action_list_entry" where
  "entry_of = (\<lambda>(f, p, ord). \<lparr>ae_function = f, ae_error_result = p, ae_order = ord\<rparr>)"

text \<open>
  The state after a successful registration: nothing changes but the list, the
  flag of the generic action, the TM runtime's list and the allocator's counter.
\<close>

definition itm_registered :: "bool \<Rightarrow> bool \<Rightarrow> addr \<Rightarrow> 'z tx_state_scheme \<Rightarrow> (u32 \<times> bool \<times> addr) list" where
  "itm_registered already commit t s =
     itm_actions s @ (if already then [] else [(itm_td (txds s t), commit, t)])"

lemma register_undo_exact:
  assumes "list_ready (undo_action_list (txds s t))" "\<And>k. realloc_ok s k"
    "length (al_entries (undo_action_list (txds s t))) < 2 ^ 31"
  shows "\<exists>la n. txc_tx_register_undo_action t f p ord s = Ok TXC_R_SUCCESS
      (s\<lparr>realloc_calls := n,
         itm_actions := itm_registered (generic_undo_action_registered (txds s t)) False t s,
         txds := (txds s)(t := (txds s t)\<lparr>undo_action_list := la, generic_undo_action_registered := True\<rparr>)\<rparr>) \<and>
    list_ready la \<and> al_entries la = al_entries (undo_action_list (txds s t)) @ [entry_of (f, p, ord)]"
proof -
  obtain la n where r: "register_action (undo_action_list (txds s t)) f p ord s =
      Ok (TXC_R_SUCCESS, la) (s\<lparr>realloc_calls := n\<rparr>)" "list_ready la"
    "al_entries la = al_entries (undo_action_list (txds s t)) @ [entry_of (f, p, ord)]"
    using register_action_ok [OF assms, of f p ord] by (auto simp: entry_of_def)
  have flag: "d\<lparr>undo_action_list := la\<rparr> = d\<lparr>undo_action_list := la, generic_undo_action_registered := True\<rparr>"
    if "generic_undo_action_registered d" for d :: txc_tx
    using that by (cases d) simp
  have "txc_tx_register_undo_action t f p ord s = Ok TXC_R_SUCCESS
      (s\<lparr>realloc_calls := n,
         itm_actions := itm_registered (generic_undo_action_registered (txds s t)) False t s,
         txds := (txds s)(t := (txds s t)\<lparr>undo_action_list := la, generic_undo_action_registered := True\<rparr>)\<rparr>)"
  proof (cases "generic_undo_action_registered (txds s t)")
    case True
    let ?F = "\<lambda>d. s\<lparr>realloc_calls := n, itm_actions := itm_registered True False t s, txds := (txds s)(t := d)\<rparr>"
    have "txc_tx_register_undo_action t f p ord s = Ok TXC_R_SUCCESS (?F ((txds s t)\<lparr>undo_action_list := la\<rparr>))"
      using r(1) True
      by (simp add: txc_tx_register_undo_action_def tmsystem_register_generic_undo_action_def
          txd_get_def txd_set_def prog_simps itm_registered_def)
    also have "?F ((txds s t)\<lparr>undo_action_list := la\<rparr>) =
        ?F ((txds s t)\<lparr>undo_action_list := la, generic_undo_action_registered := True\<rparr>)"
      by (rule arg_cong [where f = ?F]) (rule flag [OF True])
    finally show ?thesis using True by simp
  next
    case False
    with r(1) show ?thesis
      by (simp add: txc_tx_register_undo_action_def tmsystem_register_generic_undo_action_def
          txd_get_def txd_set_def prog_simps itm_registered_def)
  qed
  with r show ?thesis by blast
qed

lemma register_commit_exact:
  assumes "list_ready (commit_action_list (txds s t))" "\<And>k. realloc_ok s k"
    "length (al_entries (commit_action_list (txds s t))) < 2 ^ 31"
  shows "\<exists>la n. txc_tx_register_commit_action t f p ord s = Ok TXC_R_SUCCESS
      (s\<lparr>realloc_calls := n,
         itm_actions := itm_registered (generic_commit_action_registered (txds s t)) True t s,
         txds := (txds s)(t := (txds s t)\<lparr>commit_action_list := la, generic_commit_action_registered := True\<rparr>)\<rparr>) \<and>
    list_ready la \<and> al_entries la = al_entries (commit_action_list (txds s t)) @ [entry_of (f, p, ord)]"
proof -
  obtain la n where r: "register_action (commit_action_list (txds s t)) f p ord s =
      Ok (TXC_R_SUCCESS, la) (s\<lparr>realloc_calls := n\<rparr>)" "list_ready la"
    "al_entries la = al_entries (commit_action_list (txds s t)) @ [entry_of (f, p, ord)]"
    using register_action_ok [OF assms, of f p ord] by (auto simp: entry_of_def)
  have flag: "d\<lparr>commit_action_list := la\<rparr> = d\<lparr>commit_action_list := la, generic_commit_action_registered := True\<rparr>"
    if "generic_commit_action_registered d" for d :: txc_tx
    using that by (cases d) simp
  have "txc_tx_register_commit_action t f p ord s = Ok TXC_R_SUCCESS
      (s\<lparr>realloc_calls := n,
         itm_actions := itm_registered (generic_commit_action_registered (txds s t)) True t s,
         txds := (txds s)(t := (txds s t)\<lparr>commit_action_list := la, generic_commit_action_registered := True\<rparr>)\<rparr>)"
  proof (cases "generic_commit_action_registered (txds s t)")
    case True
    let ?F = "\<lambda>d. s\<lparr>realloc_calls := n, itm_actions := itm_registered True True t s, txds := (txds s)(t := d)\<rparr>"
    have "txc_tx_register_commit_action t f p ord s = Ok TXC_R_SUCCESS (?F ((txds s t)\<lparr>commit_action_list := la\<rparr>))"
      using r(1) True
      by (simp add: txc_tx_register_commit_action_def tmsystem_register_generic_commit_action_def
          txd_get_def txd_set_def prog_simps itm_registered_def)
    also have "?F ((txds s t)\<lparr>commit_action_list := la\<rparr>) =
        ?F ((txds s t)\<lparr>commit_action_list := la, generic_commit_action_registered := True\<rparr>)"
      by (rule arg_cong [where f = ?F]) (rule flag [OF True])
    finally show ?thesis using True by simp
  next
    case False
    with r(1) show ?thesis
      by (simp add: txc_tx_register_commit_action_def tmsystem_register_generic_commit_action_def
          txd_get_def txd_set_def prog_simps itm_registered_def)
  qed
  with r show ?thesis by blast
qed

text \<open>
  However many undo actions a transaction registers (fewer than \<open>2^31\<close>), the
  list grows as needed and holds them in the order of registration, and the
  generic undo action is registered with the TM runtime exactly once.
\<close>

theorem undo_registration:
  assumes "list_ready (undo_action_list (txds s t))" "\<forall>k. realloc_ok s k"
    and "length (al_entries (undo_action_list (txds s t))) + length xs < 2 ^ 31"
  shows "\<exists>rs s'. register_all t xs s = Ok rs s' \<and> set rs \<subseteq> {TXC_R_SUCCESS} \<and>
    al_entries (undo_action_list (txds s' t)) = al_entries (undo_action_list (txds s t)) @ map entry_of xs \<and>
    itm_actions s' = itm_actions s @
      (if generic_undo_action_registered (txds s t) \<or> xs = [] then [] else [(itm_td (txds s t), False, t)])"
  using assms
proof (induction xs arbitrary: s)
  case Nil
  then show ?case by (simp add: register_all_def prog_simps)
next
  case (Cons x xs)
  obtain f p ord where x: "x = (f, p, ord)" by (cases x)
  obtain s1 where 1: "txc_tx_register_undo_action t f p ord s = Ok TXC_R_SUCCESS s1"
    "list_ready (undo_action_list (txds s1 t))" "\<forall>k. realloc_ok s1 k"
    "al_entries (undo_action_list (txds s1 t)) = al_entries (undo_action_list (txds s t)) @ [entry_of (f, p, ord)]"
    "generic_undo_action_registered (txds s1 t)"
    "itm_actions s1 = itm_actions s @
      (if generic_undo_action_registered (txds s t) then [] else [(itm_td (txds s t), False, t)])"
    using register_undo_exact [of s t f p ord] Cons.prems by (auto simp: itm_registered_def)
  obtain rs s2 where 2: "register_all t xs s1 = Ok rs s2" "set rs \<subseteq> {TXC_R_SUCCESS}"
    "al_entries (undo_action_list (txds s2 t)) = al_entries (undo_action_list (txds s1 t)) @ map entry_of xs"
    "itm_actions s2 = itm_actions s1"
    using Cons.IH [OF 1(2,3)] 1(4,5) Cons.prems(3) by auto
  have "register_all t (x # xs) s = Ok (TXC_R_SUCCESS # rs) s2"
    using 1(1) 2(1) x by (simp add: register_all_def prog_simps)
  with 1 2 x show ?case by auto
qed

section \<open>Witnesses\<close>

definition sample_txd :: txc_tx where
  "sample_txd = \<lparr>tid = 1, tid_pthread = 1,
     sentinelmgr_undo_action_registered = False, sentinelmgr_commit_action_registered = False,
     statsmgr_undo_action_registered = False, statsmgr_commit_action_registered = False,
     generic_undo_action_registered = False, generic_commit_action_registered = False,
     abort_reason = TXC_ABORTREASON_TMCONFLICT, forced_retries = 0,
     commit_action_list = \<lparr>al_entries = [], al_size = 32, al_valid = True\<rparr>,
     undo_action_list = \<lparr>al_entries = [], al_size = 32, al_valid = True\<rparr>,
     sentinel_list = \<lparr>sl_entries = [], sl_size = 32, sl_valid = True\<rparr>,
     sentinel_list_preacquire = \<lparr>sl_entries = [], sl_size = 32, sl_valid = True\<rparr>,
     buffer_linear = 4076, txd_next = None, txd_prev = None, txstat = 0, threadstat = 0,
     fm_flags = 0, fm_error_result = None, fm_abort = False, itm_td = 7\<rparr>"

definition sample_tx_state :: tx_state where
  "sample_tx_state = \<lparr>txds = (\<lambda>_. sample_txd), l_txd = Some 256, runtime_settings = DEFVALUES,
     bufmgr = sample_linear, int_mem = (\<lambda>_. 0), errno = 0,
     itm_mode = (\<lambda>_. inRetryableTransaction), itm_actions = [],
     realloc_ok = (\<lambda>_. True), realloc_calls = 0\<rparr>"

definition two_actions :: "txc_tx_action_list" where
  "two_actions = \<lparr>al_entries =
     [\<lparr>ae_function = Act_sentinelmgr_undo 256, ae_error_result = None, ae_order = 2\<rparr>,
      \<lparr>ae_function = Act_x_lseek_undo 3 0, ae_error_result = None, ae_order = 0\<rparr>,
      \<lparr>ae_function = Act_x_lseek_undo 3 9, ae_error_result = None, ae_order = 0\<rparr>],
     al_size = 32, al_valid = True\<rparr>"

text \<open>An executor that only logs the action it runs in the error memory.\<close>

definition log_exec :: "tx_state action_exec" where
  "log_exec a =
     bnd (modify (\<lambda>s. s\<lparr>int_mem := (int_mem s)(0 := int_mem s 0 * 10 +
        (case a of Act_x_lseek_undo _ p \<Rightarrow> p + 1 | _ \<Rightarrow> 5))\<rparr>)) (\<lambda>_. ret 0)"

lemma log_exec_keeps: "keeps_list sel t log_exec"
  by (auto simp: keeps_list_def log_exec_def prog_simps)

theorem undo_actions_run_in_reverse_witness:
  "map ae_function (by_level 4 (rev (al_entries two_actions))) =
     [Act_x_lseek_undo 3 9, Act_x_lseek_undo 3 0, Act_sentinelmgr_undo 256] \<and>
   (let s = sample_tx_state\<lparr>txds := (\<lambda>_. sample_txd\<lparr>undo_action_list := two_actions\<rparr>)\<rparr> in
      tx_generic_undo_action log_exec 256 s =
      bnd (run_list log_exec (by_level 4 (rev (al_entries two_actions))) (0, 0))
        (\<lambda>(_, first). bnd (txc_tx_init 256) (\<lambda>_. txc_fm_handle_undo_failure 256 first)) s)"
proof -
  let ?s = "sample_tx_state\<lparr>txds := (\<lambda>_. sample_txd\<lparr>undo_action_list := two_actions\<rparr>)\<rparr>"
  have "levels_ok (undo_action_list (txds ?s 256))" by (simp add: levels_ok_def two_actions_def)
  from undo_actions_run_in_reverse [OF log_exec_keeps this] show ?thesis
    by (simp add: two_actions_def by_level_def upt_rec numeral_eq_Suc)
qed

theorem commit_actions_run_in_order_witness:
  "let s = sample_tx_state\<lparr>txds := (\<lambda>_. sample_txd\<lparr>commit_action_list := two_actions\<rparr>)\<rparr> in
     tx_generic_commit_action log_exec 256 s =
     bnd (run_list log_exec (by_level 4 (al_entries two_actions)) (0, 0))
       (\<lambda>(_, first). bnd (txc_tx_init 256) (\<lambda>_.
          bnd (txd_set 256 (\<lambda>d. d\<lparr>forced_retries := 0\<rparr>)) (\<lambda>_.
          txc_fm_handle_commit_failure 256 first))) s"
proof -
  let ?s = "sample_tx_state\<lparr>txds := (\<lambda>_. sample_txd\<lparr>commit_action_list := two_actions\<rparr>)\<rparr>"
  have "levels_ok (commit_action_list (txds ?s 256))" by (simp add: levels_ok_def two_actions_def)
  from commit_actions_run_in_order [OF log_exec_keeps this] show ?thesis by simp
qed

theorem undo_registration_witness:
  "\<exists>rs s'. register_all 256 (replicate 40 (Act_x_lseek_undo 3 0, None, 0)) sample_tx_state = Ok rs s' \<and>
     length (al_entries (undo_action_list (txds s' 256))) = 40 \<and> itm_actions s' = [(7, False, 256)]"
proof -
  have "list_ready (undo_action_list (txds sample_tx_state 256))"
    by (simp add: list_ready_def sample_tx_state_def sample_txd_def)
  from undo_registration [OF this, of "replicate 40 (Act_x_lseek_undo 3 0, None, 0)"] show ?thesis
    by (auto simp: sample_tx_state_def sample_txd_def)
qed

end
