(* ===== verification/Sentinel_Sort.thy ===== *)
theory Sentinel_Sort
  imports Prelude "HOL-Library.Multiset"
begin

text \<open>
  The bubble sort \<^verbatim>\<open>sentinel_list_sort\<close> of \<^verbatim>\<open>src/src/core/sentinel.c\<close>, which orders
  the sentinels a restarting transaction acquires by their identifiers.  The
  model is the C code on an array that is indexed and updated in place; the
  theory shows that it terminates and returns a sorted permutation.
\<close>

section \<open>The algorithm\<close>

text \<open>One comparison of neighbours, and the exchange of the two entries.\<close>

definition swap_step :: "('a \<Rightarrow> int) \<Rightarrow> nat \<Rightarrow> 'a list \<times> bool \<Rightarrow> 'a list \<times> bool" where
  "swap_step key i = (\<lambda>(entries, swapped).
     if key (entries ! i) > key (entries ! (i + 1)) then
       let entry_temp = entries ! (i + 1);
           entries = entries[i + 1 := entries ! i];
           entries = entries[i := entry_temp]
       in (entries, True)
     else (entries, swapped))"

text \<open>One round of the \<^verbatim>\<open>do\<close> loop: \<^verbatim>\<open>for (i = 0; i<n-1; i++)\<close>.\<close>

definition bubble_round :: "('a \<Rightarrow> int) \<Rightarrow> nat \<Rightarrow> 'a list \<Rightarrow> 'a list \<times> bool" where
  "bubble_round key n entries = fold (swap_step key) [0..<n - 1] (entries, False)"

function sentinel_list_sort_loop :: "('a \<Rightarrow> int) \<Rightarrow> nat \<Rightarrow> 'a list \<Rightarrow> 'a list" where
  "sentinel_list_sort_loop key n entries =
     (case bubble_round key n entries of (entries, swapped) \<Rightarrow>
        if swapped then sentinel_list_sort_loop key (n - 1) entries else entries)"
  by pat_completeness auto
termination
proof (relation "measure (\<lambda>(_, n, _). n)")
  fix key :: "'a \<Rightarrow> int" and n entries x y
  assume "(x, y) = bubble_round key n entries" and y
  then have "n \<noteq> 0" by (cases "n = 0") (auto simp: bubble_round_def)
  then show "((key, n - 1, x), key, n, entries) \<in> measure (\<lambda>(_, n, _). n)" by simp
qed simp

definition sort_entries :: "('a \<Rightarrow> int) \<Rightarrow> 'a list \<Rightarrow> 'a list" where
  "sort_entries key entries = sentinel_list_sort_loop key (length entries) entries"

declare sentinel_list_sort_loop.simps [simp del]

section \<open>Correctness\<close>

text \<open>A round, by recursion over the list, and whether it exchanges anything.\<close>

fun bubble :: "('a \<Rightarrow> int) \<Rightarrow> 'a list \<Rightarrow> 'a list" where
  "bubble key (x # y # zs) =
     (if key x > key y then y # bubble key (x # zs) else x # bubble key (y # zs))"
| "bubble key xs = xs"

fun disordered :: "('a \<Rightarrow> int) \<Rightarrow> 'a list \<Rightarrow> bool" where
  "disordered key (x # y # zs) \<longleftrightarrow> key x > key y \<or> disordered key (y # zs)"
| "disordered key xs \<longleftrightarrow> False"

lemma mset_bubble [simp]: "mset (bubble key xs) = mset xs"
  by (induction key xs rule: bubble.induct) auto

lemma length_bubble [simp]: "length (bubble key xs) = length xs"
  by (rule mset_eq_length) simp

lemma set_bubble [simp]: "set (bubble key xs) = set xs"
  by (rule mset_eq_setD) simp

lemma not_disordered: "\<not> disordered key xs \<Longrightarrow> bubble key xs = xs \<and> sorted (map key xs)"
  by (induction key xs rule: disordered.induct) auto

lemma bubble_last:
  assumes "xs \<noteq> []"
  shows "\<exists>ys z. bubble key xs = ys @ [z] \<and> (\<forall>y \<in> set ys. key y \<le> key z)"
  using assms
proof (induction key xs rule: bubble.induct)
  case (1 key x y zs)
  show ?case
  proof (cases "key x > key y")
    case True
    with 1(1) obtain ys z where b: "bubble key (x # zs) = ys @ [z]" "\<forall>y \<in> set ys. key y \<le> key z" by auto
    have "x \<in> set (ys @ [z])" using set_bubble [of key "x # zs"] b by simp
    with True b have "key y \<le> key z" by auto
    with True b show ?thesis by (intro exI [of _ "y # ys"] exI [of _ z]) auto
  next
    case False
    with 1(2) obtain ys z where b: "bubble key (y # zs) = ys @ [z]" "\<forall>y \<in> set ys. key y \<le> key z" by auto
    have "y \<in> set (ys @ [z])" using set_bubble [of key "y # zs"] b by simp
    with False b have "key x \<le> key z" by auto
    with False b show ?thesis by (intro exI [of _ "x # ys"] exI [of _ z]) auto
  qed
qed auto

text \<open>The array version does the same to a prefix of the array.\<close>

lemma swap_step_nth:
  assumes "i = length pre"
  shows "swap_step key i (pre @ x # y # zs, sw) =
    (if key x > key y then (pre @ y # x # zs, True) else (pre @ x # y # zs, sw))"
  using assms by (simp add: swap_step_def nth_append list_update_append)

lemma fold_swap:
  assumes "k = length pre"
  shows "\<exists>b. fold (swap_step key) [k..<k + length ys] (pre @ (y # ys) @ post, sw) =
    (pre @ bubble key (y # ys) @ post, b) \<and> (b \<longleftrightarrow> sw \<or> disordered key (y # ys))"
  using assms
proof (induction ys arbitrary: pre y k sw)
  case Nil
  then show ?case by simp
next
  case (Cons z zs)
  have upt: "[k..<k + length (z # zs)] = k # [Suc k..<Suc k + length zs]"
    by (simp add: upt_conv_Cons del: upt_Suc)
  have step: "swap_step key k (pre @ (y # z # zs) @ post, sw) =
      (if key y > key z then (pre @ z # y # zs @ post, True) else (pre @ y # z # zs @ post, sw))"
    using swap_step_nth [OF Cons.prems, of key y z "zs @ post" sw] by simp
  show ?case
  proof (cases "key y > key z")
    case True
    with Cons.IH [of "Suc k" "pre @ [z]" y True] Cons.prems step show ?thesis
      unfolding upt by auto
  next
    case False
    with Cons.IH [of "Suc k" "pre @ [y]" z sw] Cons.prems step show ?thesis
      unfolding upt by auto
  qed
qed

lemma bubble_round_prefix:
  assumes "n \<le> length xs"
  shows "\<exists>b. bubble_round key n xs = (bubble key (take n xs) @ drop n xs, b) \<and>
    (b \<longleftrightarrow> disordered key (take n xs))"
proof (cases "take n xs")
  case Nil
  with assms have "n = 0" by (cases xs) auto
  then show ?thesis by (intro exI [of _ False]) (simp add: bubble_round_def)
next
  case (Cons y ys)
  with assms have len: "n - 1 = length ys" by (metis length_Cons length_take min.absorb2 diff_Suc_1)
  have "xs = (y # ys) @ drop n xs" using Cons by (metis append_take_drop_id)
  with fold_swap [of 0 "[]" key ys y "drop n xs" False] Cons len show ?thesis
    unfolding bubble_round_def by (metis add_0 append_Nil list.size(3))
qed

lemma sort_loop_correct:
  assumes "n \<le> length xs" "sorted (map key (drop n xs))"
    and "\<forall>x \<in> set (take n xs). \<forall>y \<in> set (drop n xs). key x \<le> key y"
  shows "mset (sentinel_list_sort_loop key n xs) = mset xs \<and>
         sorted (map key (sentinel_list_sort_loop key n xs))"
  using assms
proof (induction n arbitrary: xs rule: less_induct)
  case (less n)
  let ?p = "take n xs" and ?d = "drop n xs"
  obtain b where round: "bubble_round key n xs = (bubble key ?p @ ?d, b)" "b \<longleftrightarrow> disordered key ?p"
    using bubble_round_prefix [OF less.prems(1)] by blast
  show ?case
  proof (cases "disordered key ?p")
    case False
    then have "bubble key ?p = ?p" "sorted (map key ?p)" by (simp_all add: not_disordered)
    moreover from this False round have "sentinel_list_sort_loop key n xs = ?p @ ?d"
      by (subst sentinel_list_sort_loop.simps) simp
    moreover from calculation less.prems(2,3) have "sorted (map key (?p @ ?d))"
      unfolding map_append sorted_append by auto
    ultimately show ?thesis by simp
  next
    case True
    then have "?p \<noteq> []" by (cases ?p) auto
    then have n: "0 < n" by (cases n) auto
    obtain ys z where b: "bubble key ?p = ys @ [z]" "\<forall>y \<in> set ys. key y \<le> key z"
      using bubble_last [OF \<open>?p \<noteq> []\<close>] by blast
    have len: "length ys = n - 1"
      using arg_cong [OF b(1), of length] less.prems(1) by simp
    have "set (ys @ [z]) = set ?p" using set_bubble [of key ?p] b(1) by simp
    then have le: "\<forall>x \<in> set (ys @ [z]). \<forall>y \<in> set ?d. key x \<le> key y" using less.prems(3) by simp
    let ?xs = "ys @ z # ?d"
    have "mset ?xs = mset (bubble key ?p @ ?d)" using b(1) by simp
    also have "\<dots> = mset (?p @ ?d)" by (simp only: mset_append mset_bubble)
    finally have ms: "mset ?xs = mset xs" by simp
    have "mset (sentinel_list_sort_loop key (n - 1) ?xs) = mset ?xs \<and>
        sorted (map key (sentinel_list_sort_loop key (n - 1) ?xs))"
      by (rule less.IH) (use n len le b(2) less.prems in auto)
    moreover have "sentinel_list_sort_loop key n xs = sentinel_list_sort_loop key (n - 1) ?xs"
      using round True b(1) by (subst sentinel_list_sort_loop.simps) simp
    ultimately show ?thesis using ms by simp
  qed
qed

lemma sort_entries_correct:
  "mset (sort_entries key xs) = mset xs" "sorted (map key (sort_entries key xs))"
  using sort_loop_correct [of "length xs" xs key] by (simp_all add: sort_entries_def)

lemma sort_entries_set: "set (sort_entries key xs) = set xs"
  by (rule mset_eq_setD) (rule sort_entries_correct)

lemma sort_entries_distinct: "distinct (sort_entries key xs) = distinct xs"
  by (rule mset_eq_imp_distinct_iff) (rule sort_entries_correct)

text \<open>Entries with the same identifier keep their order.\<close>

lemma filter_bubble: "filter (\<lambda>x. key x = k) (bubble key xs) = filter (\<lambda>x. key x = k) xs"
  by (induction key xs rule: bubble.induct) auto

lemma sort_loop_stable:
  "n \<le> length xs \<Longrightarrow>
   filter (\<lambda>x. key x = k) (sentinel_list_sort_loop key n xs) = filter (\<lambda>x. key x = k) xs"
proof (induction n arbitrary: xs rule: less_induct)
  case (less n)
  let ?xs = "bubble key (take n xs) @ drop n xs"
  obtain b where round: "bubble_round key n xs = (?xs, b)" "b \<longleftrightarrow> disordered key (take n xs)"
    using bubble_round_prefix [OF less.prems] by blast
  have same: "filter (\<lambda>x. key x = k) ?xs = filter (\<lambda>x. key x = k) xs"
    by (metis append_take_drop_id filter_append filter_bubble)
  show ?case
  proof (cases b)
    case True
    then have "0 < n" using round(2) by (cases n) auto
    with less.IH [of "n - 1" ?xs] less.prems same round True show ?thesis
      by (subst sentinel_list_sort_loop.simps) simp
  next
    case False
    with round same show ?thesis by (subst sentinel_list_sort_loop.simps) simp
  qed
qed

lemma sort_entries_sort_key: "sort_entries key xs = sort_key key xs"
proof (rule properties_for_sort_key [symmetric])
  show "mset (sort_entries key xs) = mset xs" "sorted (map key (sort_entries key xs))"
    by (fact sort_entries_correct)+
  show "filter (\<lambda>x. key k = key x) (sort_entries key xs) = filter (\<lambda>x. key k = key x) xs" for k
    using sort_loop_stable [of "length xs" xs key "key k"] by (simp add: sort_entries_def eq_commute)
qed

text \<open>
  C37. \<^verbatim>\<open>sentinel_list_sort\<close>, which exchanges neighbours in place and shortens the
  range of every round, terminates and computes the same list as the stable
  sorting function of the library: every entry is kept and the identifiers
  increase.
\<close>

theorem sentinel_sort_correct:
  "sort_entries key xs = sort_key key xs \<and>
   mset (sort_entries key xs) = mset xs \<and> sorted (map key (sort_entries key xs))"
  by (simp add: sort_entries_sort_key)

end
