(* ===== verification/Sentinel.thy ===== *)
theory Sentinel
  imports Txdesc Sentinel_Sort
begin

text \<open>
  Sentinels, \<^verbatim>\<open>src/src/core/sentinel.c\<close>: revocable locks that give the kernel
  objects a transaction uses isolation until it commits.  A transaction tries to
  acquire a sentinel and aborts when it is busy; on a restart it releases what
  it holds and, before it runs again, acquires the sentinels it marked in the
  order of their identifiers.  The theory models every function of the file,
  shows what each does to the sentinel and to the transaction's sentinel list,
  that completion releases everything the transaction holds, that a restart
  without contention reacquires exactly the marked sentinels, and that the
  ordered acquisition cannot deadlock.
\<close>

section \<open>Data\<close>

abbreviation (input) TXC_SENTINEL_ACQUIRED :: u32 where "TXC_SENTINEL_ACQUIRED \<equiv> 1"

abbreviation (input) TXC_SENTINEL_ACQUIREONRETRY :: u32 where "TXC_SENTINEL_ACQUIREONRETRY \<equiv> 2"

abbreviation (input) TXC_SENTINEL_NUM :: u32 where "TXC_SENTINEL_NUM \<equiv> 512"

abbreviation (input) TXC_SENTINEL_LIST_SIZE :: u32 where "TXC_SENTINEL_LIST_SIZE \<equiv> 32"

abbreviation (input) sizeof_sentinel :: u32 where "sizeof_sentinel \<equiv> 64"

record txc_sentinel =
  sentinel_mutex :: bool
  synch_mutex :: bool
  sn_id :: int
  sn_refcnt :: int
  sn_owner :: "addr option"

text \<open>\<open>indeterminate\<close> is what an uninitialised variable of type \<^verbatim>\<open>txc_result_t\<close> holds.\<close>

record sentinel_state = tx_state +
  pool_sentinel :: txc_pool
  sentinels :: "addr \<Rightarrow> txc_sentinel"
  indeterminate :: txc_result_t

definition sn_get :: "addr \<Rightarrow> (txc_sentinel \<Rightarrow> 'a) \<Rightarrow> ('z sentinel_state_scheme, 'a) prog" where
  "sn_get a f = gets (\<lambda>s. f (sentinels s a))"

definition sn_set :: "addr \<Rightarrow> (txc_sentinel \<Rightarrow> txc_sentinel) \<Rightarrow> ('z sentinel_state_scheme, unit) prog" where
  "sn_set a f = modify (\<lambda>s. s\<lparr>sentinels := (sentinels s)(a := f (sentinels s a))\<rparr>)"

definition on_pool_sentinel :: "(txc_pool, 'a) prog \<Rightarrow> ('z sentinel_state_scheme, 'a) prog" where
  "on_pool_sentinel = zoom pool_sentinel (\<lambda>p s. s\<lparr>pool_sentinel := p\<rparr>)"

section \<open>The manager\<close>

text \<open>The loop that gives the sentinels of the new pool their identifiers.\<close>

definition sentinel_init :: "int \<Rightarrow> txc_sentinel \<Rightarrow> txc_sentinel" where
  "sentinel_init i sn = sn\<lparr>synch_mutex := False, sentinel_mutex := False, sn_id := i, sn_owner := None\<rparr>"

definition txc_sentinelmgr_create ::
  "addr option \<Rightarrow> pool_env \<Rightarrow> (addr \<Rightarrow> txc_sentinel, txc_result_t \<times> txc_pool option) prog" where
  "txc_sentinelmgr_create mgr env =
     (case mgr of
        None \<Rightarrow> ret (TXC_R_NOMEMORY, None)
      | Some _ \<Rightarrow>
          bnd (create_pool_with env sizeof_sentinel TXC_SENTINEL_NUM None) (\<lambda>(r, p).
          if r \<noteq> TXC_R_SUCCESS then ret (r, None)
          else
            case p of
              None \<Rightarrow> throw Undefined
            | Some pool \<Rightarrow>
                (case txc_pool_object_first (and TXC_POOL_OBJECT_ALLOCATED TXC_POOL_OBJECT_FREE) pool of
                   Fault e _ \<Rightarrow> throw e
                 | Ok first _ \<Rightarrow>
                     bnd (loop_result (walk (txc_pool_object_next pool) first)) (\<lambda>objs.
                     bnd (for_each (zip objs [0..<length objs]) (\<lambda>(obj, i).
                            modify (\<lambda>m. m(txc_pool_object_of pool obj :=
                              sentinel_init (int i) (m (txc_pool_object_of pool obj)))))) (\<lambda>_.
                     ret (TXC_R_SUCCESS, Some pool))))))"

definition txc_sentinelmgr_destroy :: "(txc_pool option, unit) prog" where
  "txc_sentinelmgr_destroy = bnd txc_pool_destroy (\<lambda>_. ret ())"

section \<open>Sentinels\<close>

definition txc_sentinel_create :: "('z sentinel_state_scheme, txc_result_t \<times> addr) prog" where
  "txc_sentinel_create =
     bnd (on_pool_sentinel (txc_pool_object_alloc True)) (\<lambda>(result, p).
     if result \<noteq> TXC_R_SUCCESS then throw Exit1
     else
       case p of
         None \<Rightarrow> throw Undefined
       | Some a \<Rightarrow>
           bnd (sn_set a (\<lambda>sn. sn\<lparr>sn_owner := None, sn_refcnt := 1\<rparr>)) (\<lambda>_.
           ret (TXC_R_SUCCESS, a)))"

definition sentinel_destroy :: "addr \<Rightarrow> ('z sentinel_state_scheme, unit) prog" where
  "sentinel_destroy a = bnd (on_pool_sentinel (txc_pool_object_free (Some a) True)) (\<lambda>_. ret ())"

definition lock_synch :: "addr \<Rightarrow> ('z sentinel_state_scheme, unit) prog" where
  "lock_synch a =
     bnd (sn_get a synch_mutex) (\<lambda>held.
     bnd (guard Blocked (\<not> held)) (\<lambda>_.
     sn_set a (\<lambda>sn. sn\<lparr>synch_mutex := True\<rparr>)))"

definition unlock_synch :: "addr \<Rightarrow> ('z sentinel_state_scheme, unit) prog" where
  "unlock_synch a = sn_set a (\<lambda>sn. sn\<lparr>synch_mutex := False\<rparr>)"

definition lock_sentinel :: "addr \<Rightarrow> ('z sentinel_state_scheme, unit) prog" where
  "lock_sentinel a =
     bnd (sn_get a sentinel_mutex) (\<lambda>held.
     bnd (guard Blocked (\<not> held)) (\<lambda>_.
     sn_set a (\<lambda>sn. sn\<lparr>sentinel_mutex := True\<rparr>)))"

definition unlock_sentinel :: "addr \<Rightarrow> ('z sentinel_state_scheme, unit) prog" where
  "unlock_sentinel a = sn_set a (\<lambda>sn. sn\<lparr>sentinel_mutex := False\<rparr>)"

text \<open>\<^verbatim>\<open>pthread_mutex_trylock\<close>: 0 when the mutex was free, \<^verbatim>\<open>EBUSY\<close> otherwise.\<close>

definition trylock_sentinel :: "addr \<Rightarrow> ('z sentinel_state_scheme, int) prog" where
  "trylock_sentinel a =
     bnd (sn_get a sentinel_mutex) (\<lambda>held.
     if held then ret 16
     else bnd (sn_set a (\<lambda>sn. sn\<lparr>sentinel_mutex := True\<rparr>)) (\<lambda>_. ret 0))"

definition txc_sentinel_destroy :: "addr option \<Rightarrow> ('z sentinel_state_scheme, unit) prog" where
  "txc_sentinel_destroy p =
     (case p of
        None \<Rightarrow> throw Assert_failed
      | Some a \<Rightarrow>
          bnd (lock_synch a) (\<lambda>_.
          bnd (sentinel_destroy a) (\<lambda>_.
          unlock_synch a)))"

definition sentinel_attach :: "addr \<Rightarrow> ('z sentinel_state_scheme, unit) prog" where
  "sentinel_attach a = sn_set a (\<lambda>sn. sn\<lparr>sn_refcnt := sn_refcnt sn + 1\<rparr>)"

definition sentinel_detach :: "addr \<Rightarrow> ('z sentinel_state_scheme, txc_result_t) prog" where
  "sentinel_detach a =
     bnd (sn_set a (\<lambda>sn. sn\<lparr>sn_refcnt := sn_refcnt sn - 1\<rparr>)) (\<lambda>_.
     bnd (sn_get a sn_refcnt) (\<lambda>n.
     bnd (mwhen (n = 0) (sentinel_destroy a)) (\<lambda>_.
     ret TXC_R_SUCCESS)))"

definition txc_sentinel_detach :: "addr \<Rightarrow> ('z sentinel_state_scheme, txc_result_t) prog" where
  "txc_sentinel_detach a =
     bnd (lock_synch a) (\<lambda>_.
     bnd (sentinel_detach a) (\<lambda>r.
     bnd (unlock_synch a) (\<lambda>_.
     ret r)))"

definition txc_sentinel_owner :: "addr \<Rightarrow> ('z sentinel_state_scheme, addr option) prog" where
  "txc_sentinel_owner a = sn_get a sn_owner"

section \<open>Sentinel lists\<close>

definition allocate_sentinel_list_entries ::
  "txc_sentinel_list \<Rightarrow> bool \<Rightarrow> ('z tx_state_scheme, txc_result_t \<times> txc_sentinel_list) prog" where
  "allocate_sentinel_list_entries la ext =
     bnd realloc_answer (\<lambda>ok.
     let la = (if ext then la\<lparr>sl_size := sl_size la * 2\<rparr> else la)
     in if ok then ret (TXC_R_SUCCESS, la\<lparr>sl_valid := True\<rparr>)
        else ret (TXC_R_NOMEMORY, la\<lparr>sl_valid := False\<rparr>))"

definition deallocate_sentinel_list_entries :: "txc_sentinel_list \<Rightarrow> txc_result_t \<times> txc_sentinel_list" where
  "deallocate_sentinel_list_entries la = (TXC_R_SUCCESS, la\<lparr>sl_valid := False\<rparr>)"

text \<open>\<open>p\<close> is the result of the \<^verbatim>\<open>MALLOC\<close> of the list header.\<close>

definition txc_sentinel_list_create ::
  "addr option \<Rightarrow> ('z tx_state_scheme, txc_result_t \<times> txc_sentinel_list option) prog" where
  "txc_sentinel_list_create p =
     (case p of
        None \<Rightarrow> ret (TXC_R_NOMEMORY, None)
      | Some _ \<Rightarrow>
          bnd (allocate_sentinel_list_entries
                 \<lparr>sl_entries = [], sl_size = TXC_SENTINEL_LIST_SIZE, sl_valid = False\<rparr> False) (\<lambda>(r, la).
          if r \<noteq> TXC_R_SUCCESS then ret (r, None) else ret (TXC_R_SUCCESS, Some la)))"

definition txc_sentinel_list_init :: "txc_sentinel_list \<Rightarrow> txc_sentinel_list" where
  "txc_sentinel_list_init la = la\<lparr>sl_entries := []\<rparr>"

definition txc_sentinel_list_destroy :: "txc_sentinel_list option \<Rightarrow> txc_result_t \<times> txc_sentinel_list option" where
  "txc_sentinel_list_destroy p =
     (case p of
        None \<Rightarrow> (TXC_R_SUCCESS, None)
      | Some la \<Rightarrow>
          let (r, la) = deallocate_sentinel_list_entries la
          in if r \<noteq> TXC_R_SUCCESS then (r, Some la) else (TXC_R_SUCCESS, None))"

definition enlist_sentinel ::
  "txc_sentinel_list \<Rightarrow> addr \<Rightarrow> u32 \<Rightarrow> ('z tx_state_scheme, txc_result_t \<times> txc_sentinel_list) prog" where
  "enlist_sentinel la a status =
     bnd (if of_nat (length (sl_entries la)) = sl_size la
          then allocate_sentinel_list_entries la True
          else ret (TXC_R_SUCCESS, la)) (\<lambda>(r, la).
     if r \<noteq> TXC_R_SUCCESS then ret (r, la)
     else
       bnd (guard Undefined (sl_valid la)) (\<lambda>_.
       ret (TXC_R_SUCCESS, la\<lparr>sl_entries := sl_entries la @ [(a, status)]\<rparr>)))"

text \<open>Enlisting in the main list of a descriptor and in its list for the restart.\<close>

definition enlist_main :: "addr \<Rightarrow> addr \<Rightarrow> u32 \<Rightarrow> ('z tx_state_scheme, txc_result_t) prog" where
  "enlist_main t a status =
     bnd (txd_get t sentinel_list) (\<lambda>la.
     bnd (enlist_sentinel la a status) (\<lambda>(r, la).
     bnd (txd_set t (\<lambda>d. d\<lparr>sentinel_list := la\<rparr>)) (\<lambda>_.
     ret r)))"

definition enlist_preacquire :: "addr \<Rightarrow> addr \<Rightarrow> u32 \<Rightarrow> ('z tx_state_scheme, txc_result_t) prog" where
  "enlist_preacquire t a status =
     bnd (txd_get t sentinel_list_preacquire) (\<lambda>la.
     bnd (enlist_sentinel la a status) (\<lambda>(r, la).
     bnd (txd_set t (\<lambda>d. d\<lparr>sentinel_list_preacquire := la\<rparr>)) (\<lambda>_.
     ret r)))"

text \<open>The list is the transaction's preacquire list, which the loop does not change.\<close>

definition acquire_entry :: "addr \<Rightarrow> addr \<times> u32 \<Rightarrow> ('z sentinel_state_scheme, unit) prog" where
  "acquire_entry t = (\<lambda>(a, _).
     bnd (lock_sentinel a) (\<lambda>_.
     bnd (sn_set a (\<lambda>sn. sn\<lparr>sn_owner := Some t\<rparr>)) (\<lambda>_.
     bnd (enlist_main t a (or TXC_SENTINEL_ACQUIRED TXC_SENTINEL_ACQUIREONRETRY)) (\<lambda>_.
     ret ()))))"

definition sentinel_list_acquire :: "addr \<Rightarrow> (addr \<times> u32) list \<Rightarrow> ('z sentinel_state_scheme, unit) prog" where
  "sentinel_list_acquire t entries = for_each entries (acquire_entry t)"

definition release_entry :: "bool \<Rightarrow> addr \<times> u32 \<Rightarrow> ('z sentinel_state_scheme, unit) prog" where
  "release_entry transaction_completion = (\<lambda>(a, status).
     bnd (lock_synch a) (\<lambda>_.
     bnd (mwhen (and status TXC_SENTINEL_ACQUIRED \<noteq> 0)
            (bnd (sn_set a (\<lambda>sn. sn\<lparr>sn_owner := None\<rparr>)) (\<lambda>_. unlock_sentinel a))) (\<lambda>_.
     bnd (if transaction_completion then bnd (sentinel_detach a) (\<lambda>_. ret ())
          else mwhen (and status TXC_SENTINEL_ACQUIREONRETRY = 0)
                 (bnd (sentinel_detach a) (\<lambda>_. ret ()))) (\<lambda>_.
     unlock_synch a))))"

definition sentinel_list_release :: "(addr \<times> u32) list \<Rightarrow> bool \<Rightarrow> ('z sentinel_state_scheme, unit) prog" where
  "sentinel_list_release entries transaction_completion =
     for_each entries (release_entry transaction_completion)"

definition sentinel_list_sort :: "addr \<Rightarrow> ('z sentinel_state_scheme, unit) prog" where
  "sentinel_list_sort t =
     modify (\<lambda>s. s\<lparr>txds := (txds s)(t := (txds s t)\<lparr>sentinel_list_preacquire :=
       (sentinel_list_preacquire (txds s t))\<lparr>sl_entries :=
         sort_entries (\<lambda>(a, _). sn_id (sentinels s a)) (sl_entries (sentinel_list_preacquire (txds s t)))\<rparr>\<rparr>)\<rparr>)"

definition txc_sentinel_is_enlisted :: "addr \<Rightarrow> addr \<Rightarrow> ('z tx_state_scheme, txc_result_t) prog" where
  "txc_sentinel_is_enlisted t a =
     bnd (txd_get t sentinel_list) (\<lambda>la.
     ret (if a \<in> fst ` set (sl_entries la) then TXC_R_SUCCESS else TXC_R_FAILURE))"

section \<open>Commit and undo\<close>

definition sentinelmgr_transaction_on_complete :: "addr \<Rightarrow> ('z sentinel_state_scheme, unit) prog" where
  "sentinelmgr_transaction_on_complete t =
     bnd (txd_get t sentinel_list) (\<lambda>la.
     bnd (sentinel_list_release (sl_entries la) True) (\<lambda>_.
     bnd (txd_set t (\<lambda>d. d\<lparr>sentinel_list := txc_sentinel_list_init (sentinel_list d)\<rparr>)) (\<lambda>_.
     txd_set t (\<lambda>d. d\<lparr>sentinelmgr_undo_action_registered := False,
                      sentinelmgr_commit_action_registered := False\<rparr>))))"

text \<open>
  The time \<^verbatim>\<open>backoff\<close> sleeps; the comparison of the unsigned \<open>wait_time\<close> with the
  setting is unsigned.
\<close>

definition backoff_time :: "txc_runtime_settings \<Rightarrow> u32 \<Rightarrow> u32 option" where
  "backoff_time cfg retries =
     (if sentinel_max_backoff_time cfg > 0 then
        let wait_time = retries * 32
        in if wait_time < of_int (sentinel_max_backoff_time cfg) then Some wait_time
           else Some (of_int (sentinel_max_backoff_time cfg))
      else None)"

definition backoff :: "addr \<Rightarrow> ('z tx_state_scheme, u32 option) prog" where
  "backoff t =
     bnd (gets runtime_settings) (\<lambda>cfg.
     bnd (txc_tx_get_forced_retries t) (\<lambda>retries.
     ret (backoff_time cfg retries)))"

definition collect_preacquire :: "addr \<Rightarrow> (addr \<times> u32) list \<Rightarrow> ('z tx_state_scheme, unit) prog" where
  "collect_preacquire t entries =
     for_each entries (\<lambda>(a, status).
       mwhen (and status TXC_SENTINEL_ACQUIREONRETRY \<noteq> 0)
         (bnd (enlist_preacquire t a 0) (\<lambda>_. ret ())))"

text \<open>
  The function \<^verbatim>\<open>sentinelmgr_transaction_before_retry\<close> up to the call of
  \<^verbatim>\<open>sentinel_list_acquire\<close>, and the whole function.
\<close>

definition before_retry_release :: "addr \<Rightarrow> ('z sentinel_state_scheme, unit) prog" where
  "before_retry_release t =
     bnd (txd_set t (\<lambda>d. d\<lparr>sentinel_list_preacquire := (sentinel_list_preacquire d)\<lparr>sl_entries := []\<rparr>\<rparr>)) (\<lambda>_.
     bnd (txd_get t sentinel_list) (\<lambda>la.
     bnd (collect_preacquire t (sl_entries la)) (\<lambda>_.
     bnd (sentinel_list_sort t) (\<lambda>_.
     bnd (sentinel_list_release (sl_entries la) False) (\<lambda>_.
     bnd (txd_set t (\<lambda>d. d\<lparr>sentinel_list := txc_sentinel_list_init (sentinel_list d)\<rparr>)) (\<lambda>_.
     bnd (txd_set t (\<lambda>d. d\<lparr>sentinelmgr_undo_action_registered := False,
                          sentinelmgr_commit_action_registered := False\<rparr>)) (\<lambda>_.
     bnd (backoff t) (\<lambda>_. ret ()))))))))"

definition sentinelmgr_transaction_before_retry :: "addr \<Rightarrow> ('z sentinel_state_scheme, unit) prog" where
  "sentinelmgr_transaction_before_retry t =
     bnd (before_retry_release t) (\<lambda>_.
     bnd (txd_get t sentinel_list_preacquire) (\<lambda>pre.
     sentinel_list_acquire t (sl_entries pre)))"

definition sentinelmgr_commit_action :: "addr \<Rightarrow> ('z sentinel_state_scheme, int) prog" where
  "sentinelmgr_commit_action t = bnd (sentinelmgr_transaction_on_complete t) (\<lambda>_. ret 0)"

definition sentinelmgr_undo_action :: "addr \<Rightarrow> ('z sentinel_state_scheme, int) prog" where
  "sentinelmgr_undo_action t =
     bnd (txd_get t abort_reason) (\<lambda>reason.
     bnd (case reason of
            TXC_ABORTREASON_USERABORT \<Rightarrow> sentinelmgr_transaction_on_complete t
          | _ \<Rightarrow> sentinelmgr_transaction_before_retry t) (\<lambda>_.
     ret 0))"

definition register_sentinelmgr_commit_action :: "addr \<Rightarrow> ('z tx_state_scheme, unit) prog" where
  "register_sentinelmgr_commit_action t =
     bnd (txd_get t sentinelmgr_commit_action_registered) (\<lambda>registered.
     mwhen (\<not> registered)
       (bnd (txc_tx_register_commit_action t (Act_sentinelmgr_commit t) None
               TXC_SENTINELMGR_COMMIT_ACTION_ORDER) (\<lambda>_.
        txd_set t (\<lambda>d. d\<lparr>sentinelmgr_commit_action_registered := True\<rparr>))))"

definition register_sentinelmgr_undo_action :: "addr \<Rightarrow> ('z tx_state_scheme, unit) prog" where
  "register_sentinelmgr_undo_action t =
     bnd (txd_get t sentinelmgr_undo_action_registered) (\<lambda>registered.
     mwhen (\<not> registered)
       (bnd (txc_tx_register_undo_action t (Act_sentinelmgr_undo t) None
               TXC_SENTINELMGR_UNDO_ACTION_ORDER) (\<lambda>_.
        txd_set t (\<lambda>d. d\<lparr>sentinelmgr_undo_action_registered := True\<rparr>))))"

definition txc_sentinel_transaction_postbegin :: "addr \<Rightarrow> ('z tx_state_scheme, unit) prog" where
  "txc_sentinel_transaction_postbegin t =
     bnd (txd_get t sentinel_list) (\<lambda>la.
     mwhen (sl_entries la \<noteq> [])
       (bnd (register_sentinelmgr_commit_action t) (\<lambda>_.
        register_sentinelmgr_undo_action t)))"

section \<open>Acquisition by a running transaction\<close>

definition acquire_on_retry :: "u32 \<Rightarrow> u32" where
  "acquire_on_retry flags =
     (if and flags TXC_SENTINEL_ACQUIREONRETRY > 0 then TXC_SENTINEL_ACQUIREONRETRY else 0)"

definition txc_sentinel_enlist :: "addr \<Rightarrow> addr \<Rightarrow> u32 \<Rightarrow> ('z sentinel_state_scheme, txc_result_t) prog" where
  "txc_sentinel_enlist t a flags =
     bnd (lock_synch a) (\<lambda>_.
     bnd (sentinel_attach a) (\<lambda>_.
     bnd (unlock_synch a) (\<lambda>_.
     bnd (enlist_main t a (acquire_on_retry flags)) (\<lambda>_.
     ret TXC_R_SUCCESS))))"

text \<open>The \<^verbatim>\<open>do\<close> loop: one attempt, and up to \<open>n\<close> more while the sentinel is busy.\<close>

primrec spin_trylock :: "nat \<Rightarrow> addr \<Rightarrow> ('z sentinel_state_scheme, int) prog" where
  "spin_trylock 0 a = trylock_sentinel a"
| "spin_trylock (Suc n) a =
     bnd (trylock_sentinel a) (\<lambda>r. if r \<noteq> 0 then spin_trylock n a else ret r)"

definition sentinel_acquire_retryable :: "addr \<Rightarrow> addr \<Rightarrow> u32 \<Rightarrow> ('z sentinel_state_scheme, txc_result_t) prog" where
  "sentinel_acquire_retryable t a flags =
     bnd (register_sentinelmgr_undo_action t) (\<lambda>_.
     bnd (register_sentinelmgr_commit_action t) (\<lambda>_.
     bnd (gets (\<lambda>s. sentinel_max_spin_retries (runtime_settings s))) (\<lambda>retries.
     bnd (spin_trylock (nat retries) a) (\<lambda>r.
     bnd (lock_synch a) (\<lambda>_.
     bnd (sentinel_attach a) (\<lambda>_.
     bnd (unlock_synch a) (\<lambda>_.
     if r = 0 then
       bnd (sn_set a (\<lambda>sn. sn\<lparr>sn_owner := Some t\<rparr>)) (\<lambda>_.
       bnd (enlist_main t a (or TXC_SENTINEL_ACQUIRED (acquire_on_retry flags))) (\<lambda>_.
       ret TXC_R_SUCCESS))
     else
       bnd (enlist_main t a (acquire_on_retry flags)) (\<lambda>_.
       ret TXC_R_BUSYSENTINEL))))))))"

definition txc_sentinel_tryacquire ::
  "addr option \<Rightarrow> addr option \<Rightarrow> u32 \<Rightarrow> ('z sentinel_state_scheme, txc_result_t) prog" where
  "txc_sentinel_tryacquire txd sentinel flags =
     (case (sentinel, txd) of
        (Some a, Some t) \<Rightarrow>
          bnd (sn_get a sn_owner) (\<lambda>own.
          if own \<noteq> Some t then
            bnd (txc_tx_get_xactstate txd) (\<lambda>st.
            case st of
              TXC_XACTSTATE_NONTRANSACTIONAL \<Rightarrow> throw Exit1
            | TXC_XACTSTATE_TRANSACTIONAL_IRREVOCABLE \<Rightarrow> ret TXC_R_SUCCESS
            | TXC_XACTSTATE_TRANSACTIONAL_RETRYABLE \<Rightarrow> sentinel_acquire_retryable t a flags)
          else
            bnd (txc_sentinel_is_enlisted t a) (\<lambda>r.
            bnd (guard Assert_failed (r = TXC_R_SUCCESS)) (\<lambda>_.
            gets indeterminate)))
      | _ \<Rightarrow> throw Assert_failed)"

section \<open>Growing lists\<close>

definition sl_ready :: "txc_sentinel_list \<Rightarrow> bool" where
  "sl_ready la \<longleftrightarrow> sl_valid la \<and> 0 < sl_size la \<and> length (sl_entries la) \<le> unat (sl_size la)"

text \<open>
  A descriptor with room for \<open>k\<close> more entries in each of its lists, while the
  allocator does not fail.
\<close>

definition tx_ready :: "nat \<Rightarrow> addr \<Rightarrow> 'z tx_state_scheme \<Rightarrow> bool" where
  "tx_ready k t s \<longleftrightarrow>
     (\<forall>n. realloc_ok s n) \<and>
     list_ready (commit_action_list (txds s t)) \<and> list_ready (undo_action_list (txds s t)) \<and>
     sl_ready (sentinel_list (txds s t)) \<and> sl_ready (sentinel_list_preacquire (txds s t)) \<and>
     length (al_entries (commit_action_list (txds s t))) + k < 2 ^ 31 \<and>
     length (al_entries (undo_action_list (txds s t))) + k < 2 ^ 31 \<and>
     length (sl_entries (sentinel_list (txds s t))) + k < 2 ^ 31 \<and>
     length (sl_entries (sentinel_list_preacquire (txds s t))) + k < 2 ^ 31"

lemma enlist_sentinel_ok:
  assumes "sl_ready la" "\<And>k. realloc_ok s k" "length (sl_entries la) < 2 ^ 31"
  shows "\<exists>la' n. enlist_sentinel la a st s = Ok (TXC_R_SUCCESS, la') (s\<lparr>realloc_calls := n\<rparr>) \<and>
    sl_ready la' \<and> sl_entries la' = sl_entries la @ [(a, st)]"
proof (cases "of_nat (length (sl_entries la)) = sl_size la")
  case True
  then have u: "unat (sl_size la) = length (sl_entries la)"
    using assms(3) unat_of_nat_u32 [of "length (sl_entries la)"] by simp
  then have d: "unat (sl_size la * 2) = 2 * length (sl_entries la)"
    using assms(3) double_u32 [of "sl_size la"] by simp
  have pos: "Suc 0 \<le> length (sl_entries la)"
    using u assms(1) by (auto simp: sl_ready_def word_less_nat_alt Suc_le_eq)
  show ?thesis
    by (intro exI [of _ "la\<lparr>sl_size := sl_size la * 2, sl_valid := True,
          sl_entries := sl_entries la @ [(a, st)]\<rparr>"] exI [of _ "Suc (realloc_calls s)"])
      (use True assms d pos in \<open>auto simp: enlist_sentinel_def allocate_sentinel_list_entries_def
        realloc_answer_def prog_simps sl_ready_def word_less_nat_alt Let_def\<close>)
next
  case False
  then have "length (sl_entries la) \<noteq> unat (sl_size la)" by auto
  then show ?thesis
    by (intro exI [of _ "la\<lparr>sl_entries := sl_entries la @ [(a, st)]\<rparr>"] exI [of _ "realloc_calls s"])
      (use False assms(1) in \<open>simp add: enlist_sentinel_def prog_simps sl_ready_def\<close>)
qed

lemma enlist_main_ok:
  assumes "tx_ready (Suc k) t s"
  shows "\<exists>la n. enlist_main t a st s = Ok TXC_R_SUCCESS
      (s\<lparr>realloc_calls := n, txds := (txds s)(t := (txds s t)\<lparr>sentinel_list := la\<rparr>)\<rparr>) \<and>
    sl_entries la = sl_entries (sentinel_list (txds s t)) @ [(a, st)] \<and>
    tx_ready k t (s\<lparr>realloc_calls := n, txds := (txds s)(t := (txds s t)\<lparr>sentinel_list := la\<rparr>)\<rparr>)"
proof -
  obtain la n where "enlist_sentinel (sentinel_list (txds s t)) a st s =
      Ok (TXC_R_SUCCESS, la) (s\<lparr>realloc_calls := n\<rparr>)" "sl_ready la"
    "sl_entries la = sl_entries (sentinel_list (txds s t)) @ [(a, st)]"
    using enlist_sentinel_ok [of "sentinel_list (txds s t)" s a st] assms by (auto simp: tx_ready_def)
  then show ?thesis
    using assms
    by (intro exI [of _ la] exI [of _ n])
      (auto simp: enlist_main_def txd_get_def txd_set_def prog_simps tx_ready_def)
qed

lemma enlist_preacquire_ok:
  assumes "tx_ready (Suc k) t s"
  shows "\<exists>la n. enlist_preacquire t a st s = Ok TXC_R_SUCCESS
      (s\<lparr>realloc_calls := n, txds := (txds s)(t := (txds s t)\<lparr>sentinel_list_preacquire := la\<rparr>)\<rparr>) \<and>
    sl_entries la = sl_entries (sentinel_list_preacquire (txds s t)) @ [(a, st)] \<and>
    tx_ready k t (s\<lparr>realloc_calls := n, txds := (txds s)(t := (txds s t)\<lparr>sentinel_list_preacquire := la\<rparr>)\<rparr>)"
proof -
  obtain la n where "enlist_sentinel (sentinel_list_preacquire (txds s t)) a st s =
      Ok (TXC_R_SUCCESS, la) (s\<lparr>realloc_calls := n\<rparr>)" "sl_ready la"
    "sl_entries la = sl_entries (sentinel_list_preacquire (txds s t)) @ [(a, st)]"
    using enlist_sentinel_ok [of "sentinel_list_preacquire (txds s t)" s a st] assms
    by (auto simp: tx_ready_def)
  then show ?thesis
    using assms
    by (intro exI [of _ la] exI [of _ n])
      (auto simp: enlist_preacquire_def txd_get_def txd_set_def prog_simps tx_ready_def)
qed

section \<open>Registration keeps the sentinel data\<close>

text \<open>The fields of a descriptor that registering actions does not touch.\<close>

definition act_frame :: "txc_tx \<Rightarrow> txc_tx \<Rightarrow> bool" where
  "act_frame d d' \<longleftrightarrow>
     sentinel_list d' = sentinel_list d \<and> sentinel_list_preacquire d' = sentinel_list_preacquire d \<and>
     abort_reason d' = abort_reason d \<and> forced_retries d' = forced_retries d \<and>
     buffer_linear d' = buffer_linear d \<and> itm_td d' = itm_td d"

lemma act_frame_refl [simp]: "act_frame d d"
  by (simp add: act_frame_def)

lemma act_frame_trans: "act_frame d d' \<Longrightarrow> act_frame d' d'' \<Longrightarrow> act_frame d d''"
  by (simp add: act_frame_def)

text \<open>A state that differs from another only in what registration changes.\<close>

definition registered_in :: "addr \<Rightarrow> 'z tx_state_scheme \<Rightarrow> 'z tx_state_scheme \<Rightarrow> bool" where
  "registered_in t s s' \<longleftrightarrow>
     (\<exists>d n ia. s' = s\<lparr>realloc_calls := n, itm_actions := ia, txds := (txds s)(t := d)\<rparr> \<and>
               act_frame (txds s t) d)"

lemma registered_in_refl: "registered_in t s s"
  unfolding registered_in_def
  by (rule exI [of _ "txds s t"], rule exI [of _ "realloc_calls s"], rule exI [of _ "itm_actions s"]) simp

lemma registered_in_trans:
  assumes "registered_in t s s'" "registered_in t s' s''"
  shows "registered_in t s s''"
proof -
  obtain d n ia where 1: "s' = s\<lparr>realloc_calls := n, itm_actions := ia, txds := (txds s)(t := d)\<rparr>"
    "act_frame (txds s t) d"
    using assms(1) by (auto simp: registered_in_def)
  obtain d' n' ia' where 2: "s'' = s'\<lparr>realloc_calls := n', itm_actions := ia', txds := (txds s')(t := d')\<rparr>"
    "act_frame (txds s' t) d'"
    using assms(2) by (auto simp: registered_in_def)
  have "s'' = s\<lparr>realloc_calls := n', itm_actions := ia', txds := (txds s)(t := d')\<rparr>"
    using 1(1) 2(1) by simp
  moreover have "act_frame (txds s t) d'"
    using act_frame_trans [OF 1(2)] 2(2) 1(1) by simp
  ultimately show ?thesis unfolding registered_in_def by blast
qed

lemma registered_inD:
  assumes "registered_in t s s'"
  shows "sentinel_list (txds s' t) = sentinel_list (txds s t)" "u \<noteq> t \<Longrightarrow> txds s' u = txds s u"
    "runtime_settings s' = runtime_settings s" "itm_mode s' = itm_mode s" "bufmgr s' = bufmgr s"
    "l_txd s' = l_txd s" "itm_td (txds s' t) = itm_td (txds s t)"
    "abort_reason (txds s' t) = abort_reason (txds s t)" "tx_state.more s' = tx_state.more s"
    "sentinel_list_preacquire (txds s' t) = sentinel_list_preacquire (txds s t)"
    "buffer_linear (txds s' t) = buffer_linear (txds s t)" "int_mem s' = int_mem s"
  using assms by (auto simp: registered_in_def act_frame_def)

lemma register_undo_in:
  assumes "tx_ready (Suc k) t s"
  shows "\<exists>s'. register_sentinelmgr_undo_action t s = Ok () s' \<and> registered_in t s s' \<and> tx_ready k t s' \<and>
    commit_action_list (txds s' t) = commit_action_list (txds s t) \<and>
    sentinelmgr_undo_action_registered (txds s' t)"
proof (cases "sentinelmgr_undo_action_registered (txds s t)")
  case True
  with assms registered_in_refl [of t s] show ?thesis
    by (auto simp: register_sentinelmgr_undo_action_def txd_get_def prog_simps tx_ready_def)
next
  case False
  obtain la n where r: "txc_tx_register_undo_action t (Act_sentinelmgr_undo t) None 2 s = Ok TXC_R_SUCCESS
      (s\<lparr>realloc_calls := n,
         itm_actions := itm_registered (generic_undo_action_registered (txds s t)) False t s,
         txds := (txds s)(t := (txds s t)\<lparr>undo_action_list := la, generic_undo_action_registered := True\<rparr>)\<rparr>)"
    "list_ready la" "al_entries la = al_entries (undo_action_list (txds s t)) @ [entry_of (Act_sentinelmgr_undo t, None, 2)]"
    using register_undo_exact [of s t "Act_sentinelmgr_undo t" None 2] assms by (auto simp: tx_ready_def)
  let ?d = "(txds s t)\<lparr>undo_action_list := la, generic_undo_action_registered := True,
      sentinelmgr_undo_action_registered := True\<rparr>"
  let ?ia = "itm_registered (generic_undo_action_registered (txds s t)) False t s"
  let ?s' = "s\<lparr>realloc_calls := n, itm_actions := ?ia, txds := (txds s)(t := ?d)\<rparr>"
  have "register_sentinelmgr_undo_action t s = Ok () ?s'"
    using False r(1) by (simp add: register_sentinelmgr_undo_action_def txd_get_def txd_set_def prog_simps)
  moreover have "registered_in t s ?s'"
    unfolding registered_in_def
    by (rule exI [of _ ?d], rule exI [of _ n], rule exI [of _ ?ia]) (simp add: act_frame_def)
  moreover have "tx_ready k t ?s'"
    using assms r(2,3) by (simp add: tx_ready_def)
  ultimately show ?thesis by auto
qed

lemma register_commit_in:
  assumes "tx_ready (Suc k) t s"
  shows "\<exists>s'. register_sentinelmgr_commit_action t s = Ok () s' \<and> registered_in t s s' \<and> tx_ready k t s' \<and>
    undo_action_list (txds s' t) = undo_action_list (txds s t) \<and>
    sentinelmgr_commit_action_registered (txds s' t) \<and>
    sentinelmgr_undo_action_registered (txds s' t) = sentinelmgr_undo_action_registered (txds s t)"
proof (cases "sentinelmgr_commit_action_registered (txds s t)")
  case True
  with assms registered_in_refl [of t s] show ?thesis
    by (auto simp: register_sentinelmgr_commit_action_def txd_get_def prog_simps tx_ready_def)
next
  case False
  obtain la n where r: "txc_tx_register_commit_action t (Act_sentinelmgr_commit t) None 2 s = Ok TXC_R_SUCCESS
      (s\<lparr>realloc_calls := n,
         itm_actions := itm_registered (generic_commit_action_registered (txds s t)) True t s,
         txds := (txds s)(t := (txds s t)\<lparr>commit_action_list := la, generic_commit_action_registered := True\<rparr>)\<rparr>)"
    "list_ready la" "al_entries la = al_entries (commit_action_list (txds s t)) @ [entry_of (Act_sentinelmgr_commit t, None, 2)]"
    using register_commit_exact [of s t "Act_sentinelmgr_commit t" None 2] assms by (auto simp: tx_ready_def)
  let ?d = "(txds s t)\<lparr>commit_action_list := la, generic_commit_action_registered := True,
      sentinelmgr_commit_action_registered := True\<rparr>"
  let ?ia = "itm_registered (generic_commit_action_registered (txds s t)) True t s"
  let ?s' = "s\<lparr>realloc_calls := n, itm_actions := ?ia, txds := (txds s)(t := ?d)\<rparr>"
  have "register_sentinelmgr_commit_action t s = Ok () ?s'"
    using False r(1) by (simp add: register_sentinelmgr_commit_action_def txd_get_def txd_set_def prog_simps)
  moreover have "registered_in t s ?s'"
    unfolding registered_in_def
    by (rule exI [of _ ?d], rule exI [of _ n], rule exI [of _ ?ia]) (simp add: act_frame_def)
  moreover have "tx_ready k t ?s'"
    using assms r(2,3) by (simp add: tx_ready_def)
  ultimately show ?thesis by auto
qed

section \<open>Trying to acquire\<close>

lemma registered_in_sentinels:
  assumes "registered_in t s (s' :: 'z sentinel_state_scheme)"
  shows "sentinels s' = sentinels s" "pool_sentinel s' = pool_sentinel s" "indeterminate s' = indeterminate s"
  using assms by (auto simp: registered_in_def)

lemma spin_free:
  "\<not> sentinel_mutex (sentinels s a) \<Longrightarrow> spin_trylock n a s =
     Ok 0 (s\<lparr>sentinels := (sentinels s)(a := (sentinels s a)\<lparr>sentinel_mutex := True\<rparr>)\<rparr>)"
  by (cases n) (simp_all add: trylock_sentinel_def sn_get_def sn_set_def prog_simps)

lemma spin_busy: "sentinel_mutex (sentinels s a) \<Longrightarrow> spin_trylock n a s = Ok 16 s"
  by (induction n) (simp_all add: trylock_sentinel_def sn_get_def prog_simps)

text \<open>What a successful and an unsuccessful attempt leave of the sentinel.\<close>

definition sn_acquired :: "addr \<Rightarrow> txc_sentinel \<Rightarrow> txc_sentinel" where
  "sn_acquired t sn = sn\<lparr>sentinel_mutex := True, sn_refcnt := sn_refcnt sn + 1,
     synch_mutex := False, sn_owner := Some t\<rparr>"

definition sn_busy :: "txc_sentinel \<Rightarrow> txc_sentinel" where
  "sn_busy sn = sn\<lparr>sn_refcnt := sn_refcnt sn + 1, synch_mutex := False\<rparr>"

lemmas sn_defs = sn_get_def sn_set_def lock_synch_def unlock_synch_def lock_sentinel_def
  unlock_sentinel_def sentinel_attach_def

lemma acquire_retryable:
  assumes ready: "tx_ready (k + 3) t s" and free: "\<not> synch_mutex (sentinels s a)"
  shows "\<exists>s'. sentinel_acquire_retryable t a flags s =
      Ok (if sentinel_mutex (sentinels s a) then TXC_R_BUSYSENTINEL else TXC_R_SUCCESS) s' \<and>
    sentinels s' = (sentinels s)(a :=
      (if sentinel_mutex (sentinels s a) then sn_busy else sn_acquired t) (sentinels s a)) \<and>
    sl_entries (sentinel_list (txds s' t)) = sl_entries (sentinel_list (txds s t)) @
      [(a, if sentinel_mutex (sentinels s a) then acquire_on_retry flags
           else or TXC_SENTINEL_ACQUIRED (acquire_on_retry flags))] \<and>
    (\<forall>u. u \<noteq> t \<longrightarrow> txds s' u = txds s u) \<and> pool_sentinel s' = pool_sentinel s \<and> tx_ready k t s' \<and>
    sentinelmgr_undo_action_registered (txds s' t) \<and> sentinelmgr_commit_action_registered (txds s' t)"
proof -
  have ready': "tx_ready (Suc (k + 2)) t s" using ready by (simp add: eval_nat_numeral)
  obtain s1 where 1: "register_sentinelmgr_undo_action t s = Ok () s1" "registered_in t s s1" "tx_ready (k + 2) t s1"
    "sentinelmgr_undo_action_registered (txds s1 t)"
    using register_undo_in [OF ready'] by blast
  have r1: "tx_ready (Suc (k + 1)) t s1" using 1(3) by (simp add: eval_nat_numeral)
  obtain s2 where 2: "register_sentinelmgr_commit_action t s1 = Ok () s2" "registered_in t s1 s2" "tx_ready (k + 1) t s2"
    "sentinelmgr_commit_action_registered (txds s2 t)" "sentinelmgr_undo_action_registered (txds s2 t)"
    using register_commit_in [OF r1] 1(4) by auto
  note reg = registered_in_trans [OF 1(2) 2(2)]
  note same = registered_in_sentinels [OF reg] registered_inD [OF reg]
  let ?held = "sentinel_mutex (sentinels s a)"
  let ?m = "(sentinels s)(a := (if ?held then sn_busy else sn_acquired t) (sentinels s a))"
  let ?s3 = "s2\<lparr>sentinels := ?m\<rparr>"
  let ?st = "if ?held then acquire_on_retry flags else or TXC_SENTINEL_ACQUIRED (acquire_on_retry flags)"
  have "tx_ready (Suc k) t ?s3" using 2(3) by (simp add: tx_ready_def)
  then obtain la n where e: "enlist_main t a ?st ?s3 = Ok TXC_R_SUCCESS
      (?s3\<lparr>realloc_calls := n, txds := (txds ?s3)(t := (txds ?s3 t)\<lparr>sentinel_list := la\<rparr>)\<rparr>)"
    "sl_entries la = sl_entries (sentinel_list (txds ?s3 t)) @ [(a, ?st)]"
    "tx_ready k t (?s3\<lparr>realloc_calls := n, txds := (txds ?s3)(t := (txds ?s3 t)\<lparr>sentinel_list := la\<rparr>)\<rparr>)"
    using enlist_main_ok by blast
  let ?s4 = "?s3\<lparr>realloc_calls := n, txds := (txds ?s3)(t := (txds ?s3 t)\<lparr>sentinel_list := la\<rparr>)\<rparr>"
  have run: "sentinel_acquire_retryable t a flags s =
      Ok (if ?held then TXC_R_BUSYSENTINEL else TXC_R_SUCCESS) ?s4"
  proof (cases ?held)
    case True
    with 1(1) 2(1) e(1) free same show ?thesis
      by (simp add: sentinel_acquire_retryable_def bnd_def gets_def ret_def guard_def modify_def
          spin_busy sn_defs sn_busy_def)
  next
    case False
    with 1(1) 2(1) e(1) free same show ?thesis
      by (simp add: sentinel_acquire_retryable_def bnd_def gets_def ret_def guard_def modify_def
          spin_free sn_defs sn_acquired_def)
  qed
  show ?thesis
    by (rule exI [of _ ?s4]) (use run e 2(4,5) same in auto)
qed

lemma tryacquire_not_owner:
  assumes "tx_ready 3 t s" "itm_mode s (itm_td (txds s t)) = inRetryableTransaction"
    "sn_owner (sentinels s a) \<noteq> Some t" "\<not> synch_mutex (sentinels s a)"
  shows "txc_sentinel_tryacquire (Some t) (Some a) flags s = sentinel_acquire_retryable t a flags s"
  using assms by (simp add: txc_sentinel_tryacquire_def txc_tx_get_xactstate_def tmsystem_get_xactstate_def
      sn_get_def bnd_def gets_def ret_def)

text \<open>
  C25. In a retryable transaction, a free sentinel is acquired: it is locked, owned
  by the transaction, referenced once more and enlisted as acquired.  A busy one
  is reported busy and stays with its owner, but is referenced and enlisted for
  the restart.  In both cases the release of the sentinels at commit and at
  rollback is registered.
\<close>

theorem tryacquire_acquires_or_reports_busy:
  assumes "tx_ready 3 t s" "itm_mode s (itm_td (txds s t)) = inRetryableTransaction"
    "sn_owner (sentinels s a) \<noteq> Some t" "\<not> synch_mutex (sentinels s a)"
  shows "\<exists>s'. txc_sentinel_tryacquire (Some t) (Some a) flags s =
      Ok (if sentinel_mutex (sentinels s a) then TXC_R_BUSYSENTINEL else TXC_R_SUCCESS) s' \<and>
    sentinels s' = (sentinels s)(a :=
      (if sentinel_mutex (sentinels s a) then sn_busy else sn_acquired t) (sentinels s a)) \<and>
    sl_entries (sentinel_list (txds s' t)) = sl_entries (sentinel_list (txds s t)) @
      [(a, if sentinel_mutex (sentinels s a) then acquire_on_retry flags
           else or TXC_SENTINEL_ACQUIRED (acquire_on_retry flags))] \<and>
    sentinelmgr_undo_action_registered (txds s' t) \<and> sentinelmgr_commit_action_registered (txds s' t)"
  unfolding tryacquire_not_owner [OF assms] using acquire_retryable [of 0 t s a flags] assms(1,4) by auto

section \<open>Releasing\<close>

text \<open>The sentinels that are in use, between two calls: none is latched.\<close>

definition sn_inv :: "'z sentinel_state_scheme \<Rightarrow> bool" where
  "sn_inv s \<longleftrightarrow> pool_ok (pool_sentinel s) \<and> (\<forall>a. \<not> synch_mutex (sentinels s a))"

definition released :: "u32 \<Rightarrow> txc_sentinel \<Rightarrow> txc_sentinel" where
  "released st sn =
     (if and st TXC_SENTINEL_ACQUIRED \<noteq> 0 then sn\<lparr>sn_owner := None, sentinel_mutex := False\<rparr> else sn)"

definition dropped :: "txc_sentinel \<Rightarrow> txc_sentinel" where
  "dropped sn = sn\<lparr>sn_refcnt := sn_refcnt sn - 1\<rparr>"

lemma synch_toggle: "\<not> synch_mutex sn \<Longrightarrow> sn\<lparr>synch_mutex := False\<rparr> = sn"
  by (cases sn) simp

lemma released_simps [simp]:
  "synch_mutex (released st sn) = synch_mutex sn" "sn_refcnt (released st sn) = sn_refcnt sn"
  "sn_id (released st sn) = sn_id sn"
  "sn_refcnt (dropped sn) = sn_refcnt sn - 1" "synch_mutex (dropped sn) = synch_mutex sn"
  "sentinel_mutex (dropped sn) = sentinel_mutex sn" "sn_owner (dropped sn) = sn_owner sn"
  "sn_id (dropped sn) = sn_id sn"
  by (auto simp: released_def dropped_def)

lemma released_synch: "released st (sn\<lparr>synch_mutex := b\<rparr>) = (released st sn)\<lparr>synch_mutex := b\<rparr>"
  by (cases sn) (simp add: released_def)

lemma dropped_synch: "dropped (sn\<lparr>synch_mutex := b\<rparr>) = (dropped sn)\<lparr>synch_mutex := b\<rparr>"
  by (cases sn) (simp add: dropped_def)

lemma detach_ok:
  assumes "pool_ok (pool_sentinel s)" "a \<in> pool_live (pool_sentinel s)"
  shows "\<exists>p. sentinel_detach a s = Ok TXC_R_SUCCESS
      (s\<lparr>sentinels := (sentinels s)(a := dropped (sentinels s a)), pool_sentinel := p\<rparr>) \<and>
    pool_ok p \<and> pool_live p = pool_live (pool_sentinel s) - (if sn_refcnt (sentinels s a) = 1 then {a} else {})"
proof (cases "sn_refcnt (sentinels s a) = 1")
  case True
  obtain p where "txc_pool_object_free (Some a) True (pool_sentinel s) = Ok None p" "pool_ok p"
    "pool_live p = pool_live (pool_sentinel s) - {a}"
    using obj_pool.free_ok [OF assms, of True] by blast
  then show ?thesis
    using True by (intro exI [of _ p]) (simp add: sentinel_detach_def sentinel_destroy_def
        on_pool_sentinel_def sn_defs prog_simps dropped_def)
next
  case False
  then show ?thesis
    using assms by (intro exI [of _ "pool_sentinel s"]) (simp add: sentinel_detach_def
        sn_defs prog_simps dropped_def)
qed

lemma release_entry_unfold:
  assumes "\<not> synch_mutex (sentinels s a)"
  shows "release_entry c (a, st) s =
    bnd (if c \<or> and st TXC_SENTINEL_ACQUIREONRETRY = 0 then bnd (sentinel_detach a) (\<lambda>_. ret ()) else ret ())
      (\<lambda>_. unlock_synch a)
      (s\<lparr>sentinels := (sentinels s)(a := (released st (sentinels s a))\<lparr>synch_mutex := True\<rparr>)\<rparr>)"
proof -
  have comm: "(sn\<lparr>synch_mutex := True, sn_owner := None, sentinel_mutex := False\<rparr>) =
      (sn\<lparr>sn_owner := None, sentinel_mutex := False, synch_mutex := True\<rparr>)" for sn :: txc_sentinel
    by (cases sn) simp
  show ?thesis
    by (cases "and st TXC_SENTINEL_ACQUIRED = 0")
      (use assms in \<open>simp_all add: release_entry_def sn_defs prog_simps released_def comm\<close>)
qed

text \<open>One entry: released, and dropped when the transaction gives up its reference.\<close>

definition entry_effect :: "bool \<Rightarrow> u32 \<Rightarrow> txc_sentinel \<Rightarrow> txc_sentinel" where
  "entry_effect c st sn =
     (if c \<or> and st TXC_SENTINEL_ACQUIREONRETRY = 0 then dropped (released st sn) else released st sn)"

lemma entry_effect_synch [simp]: "synch_mutex (entry_effect c st sn) = synch_mutex sn"
  by (simp add: entry_effect_def)

lemma release_entry_ok:
  assumes inv: "sn_inv s" and live: "a \<in> pool_live (pool_sentinel s)"
  shows "\<exists>p. release_entry c (a, st) s = Ok ()
      (s\<lparr>sentinels := (sentinels s)(a := entry_effect c st (sentinels s a)), pool_sentinel := p\<rparr>) \<and>
    pool_ok p \<and> pool_live p = pool_live (pool_sentinel s) -
      (if (c \<or> and st TXC_SENTINEL_ACQUIREONRETRY = 0) \<and> sn_refcnt (sentinels s a) = 1 then {a} else {})"
proof -
  let ?s1 = "s\<lparr>sentinels := (sentinels s)(a := (released st (sentinels s a))\<lparr>synch_mutex := True\<rparr>)\<rparr>"
  have ns: "\<not> synch_mutex (sentinels s a)" using inv by (simp add: sn_inv_def)
  note u = release_entry_unfold [OF ns, of c st]
  show ?thesis
  proof (cases "c \<or> and st TXC_SENTINEL_ACQUIREONRETRY = 0")
    case True
    obtain p where p: "sentinel_detach a ?s1 = Ok TXC_R_SUCCESS
        (?s1\<lparr>sentinels := (sentinels ?s1)(a := dropped (sentinels ?s1 a)), pool_sentinel := p\<rparr>)"
      "pool_ok p" "pool_live p = pool_live (pool_sentinel ?s1) -
         (if sn_refcnt (sentinels ?s1 a) = 1 then {a} else {})"
      using detach_ok [of ?s1 a] inv live by (auto simp: sn_inv_def)
    have "dropped (released st (sentinels s a))\<lparr>synch_mutex := False\<rparr> = dropped (released st (sentinels s a))"
      by (rule synch_toggle) (simp add: ns)
    with True p u show ?thesis
      by (intro exI [of _ p]) (auto simp: entry_effect_def bnd_def ret_def unlock_synch_def sn_set_def
          modify_def dropped_synch)
  next
    case False
    have "(released st (sentinels s a))\<lparr>synch_mutex := False\<rparr> = released st (sentinels s a)"
      by (rule synch_toggle) (simp add: ns)
    with False u inv show ?thesis
      by (intro exI [of _ "pool_sentinel s"])
        (auto simp: entry_effect_def bnd_def ret_def unlock_synch_def sn_set_def modify_def sn_inv_def)
  qed
qed

definition list_effect :: "bool \<Rightarrow> (addr \<times> u32) list \<Rightarrow> (addr \<Rightarrow> txc_sentinel) \<Rightarrow> addr \<Rightarrow> txc_sentinel" where
  "list_effect c es m = fold (\<lambda>(a, st) m. m(a := entry_effect c st (m a))) es m"

text \<open>The references a transaction gives up when it releases the entries.\<close>

definition dropped_refs :: "bool \<Rightarrow> (addr \<times> u32) list \<Rightarrow> addr \<Rightarrow> nat" where
  "dropped_refs c es a =
     length (filter (\<lambda>(b, st). b = a \<and> (c \<or> and st TXC_SENTINEL_ACQUIREONRETRY = 0)) es)"

lemma list_effect_refcnt:
  "sn_refcnt (list_effect c es m a) = sn_refcnt (m a) - int (dropped_refs c es a)"
  by (induction es arbitrary: m)
    (auto simp: list_effect_def dropped_refs_def entry_effect_def split: if_splits)

lemma entry_effect_mutex:
  "sentinel_mutex (entry_effect c st sn) \<longleftrightarrow> sentinel_mutex sn \<and> and st TXC_SENTINEL_ACQUIRED = 0"
  "sn_owner (entry_effect c st sn) = (if and st TXC_SENTINEL_ACQUIRED \<noteq> 0 then None else sn_owner sn)"
  by (auto simp: entry_effect_def released_def dropped_def)

lemma list_effect_mutex:
  "sentinel_mutex (list_effect c es m a) \<longleftrightarrow>
     sentinel_mutex (m a) \<and> (\<forall>st. (a, st) \<in> set es \<longrightarrow> and st TXC_SENTINEL_ACQUIRED = 0)"
  "sn_owner (list_effect c es m a) =
     (if \<exists>st. (a, st) \<in> set es \<and> and st TXC_SENTINEL_ACQUIRED \<noteq> 0 then None else sn_owner (m a))"
  "synch_mutex (list_effect c es m a) = synch_mutex (m a)"
  "sn_id (list_effect c es m a) = sn_id (m a)"
proof (induction es arbitrary: m)
  case (Cons e es)
  obtain b st where e: "e = (b, st)" by (cases e)
  have step: "list_effect c (e # es) m = list_effect c es (m(b := entry_effect c st (m b)))"
    for m by (simp add: list_effect_def e)
  have id: "sn_id (entry_effect c st sn) = sn_id sn" for sn by (simp add: entry_effect_def)
  {
    case 1
    show ?case unfolding step Cons(1) using e by (auto simp: entry_effect_mutex)
  next
    case 2
    show ?case unfolding step Cons(2) using e by (auto simp: entry_effect_mutex)
  next
    case 3
    show ?case unfolding step Cons(3) by simp
  next
    case 4
    show ?case unfolding step Cons(4) by (simp add: id)
  }
qed (simp_all add: list_effect_def)

text \<open>
  Sentinels that go back to the pool with a list: the one of the first entry, when it
  loses its last reference there, and those of the others.
\<close>

lemma freed_sentinels:
  assumes "p = L - (if freed then {a} else {})" "q = p - {b \<in> A. z b}" "a \<in> A \<Longrightarrow> \<not> freed" "a \<notin> A \<Longrightarrow> z a \<longleftrightarrow> freed"
  shows "q = L - {b \<in> insert a A. z b}"
  using assms by (cases "a \<in> A") (auto split: if_splits)

lemma sentinel_list_release_ok:
  assumes "sn_inv s" "\<And>a. a \<in> fst ` set es \<Longrightarrow> a \<in> pool_live (pool_sentinel s)"
    and "\<And>a. a \<in> fst ` set es \<Longrightarrow> int (length (filter (\<lambda>e. fst e = a) es)) \<le> sn_refcnt (sentinels s a)"
  shows "\<exists>p. sentinel_list_release es c s =
      Ok () (s\<lparr>sentinels := list_effect c es (sentinels s), pool_sentinel := p\<rparr>) \<and> pool_ok p \<and>
    pool_live p = pool_live (pool_sentinel s) -
      {a \<in> fst ` set es. sn_refcnt (list_effect c es (sentinels s) a) = 0}"
  using assms
proof (induction es arbitrary: s)
  case Nil
  then show ?case
    by (intro exI [of _ "pool_sentinel s"]) (simp add: sentinel_list_release_def list_effect_def ret_def sn_inv_def)
next
  case (Cons e es)
  obtain a st where e: "e = (a, st)" by (cases e)
  let ?m1 = "(sentinels s)(a := entry_effect c st (sentinels s a))"
  let ?drop = "c \<or> and st TXC_SENTINEL_ACQUIREONRETRY = 0"
  obtain p where p: "release_entry c (a, st) s = Ok () (s\<lparr>sentinels := ?m1, pool_sentinel := p\<rparr>)" "pool_ok p"
    "pool_live p = pool_live (pool_sentinel s) - (if ?drop \<and> sn_refcnt (sentinels s a) = 1 then {a} else {})"
    using release_entry_ok [OF Cons.prems(1), of a c st] Cons.prems(2) [of a] e by auto
  let ?s1 = "s\<lparr>sentinels := ?m1, pool_sentinel := p\<rparr>"
  have inv: "sn_inv ?s1" using Cons.prems(1) p(2) by (simp add: sn_inv_def)
  have ref: "sn_refcnt (?m1 b) = sn_refcnt (sentinels s b) - (if b = a \<and> ?drop then 1 else 0)" for b
    by (simp add: entry_effect_def)
  have live: "b \<in> pool_live (pool_sentinel ?s1)"
    and cnt: "int (length (filter (\<lambda>e. fst e = b) es)) \<le> sn_refcnt (sentinels ?s1 b)" if "b \<in> fst ` set es" for b
  proof -
    have b: "b \<in> pool_live (pool_sentinel s)"
      "int (length (filter (\<lambda>e. fst e = b) (e # es))) \<le> sn_refcnt (sentinels s b)"
      using Cons.prems(2,3) [of b] that by auto
    have pos: "0 < length (filter (\<lambda>e. fst e = b) es)"
      using that by (auto simp: filter_empty_conv)
    with b p(3) e show "b \<in> pool_live (pool_sentinel ?s1)" by (auto split: if_splits)
    from b(2) ref [of b] e show "int (length (filter (\<lambda>e. fst e = b) es)) \<le> sn_refcnt (sentinels ?s1 b)"
      by (auto split: if_splits)
  qed
  obtain q where q: "sentinel_list_release es c ?s1 =
      Ok () (?s1\<lparr>sentinels := list_effect c es (sentinels ?s1), pool_sentinel := q\<rparr>)" "pool_ok q"
    "pool_live q = pool_live (pool_sentinel ?s1) -
      {a \<in> fst ` set es. sn_refcnt (list_effect c es (sentinels ?s1) a) = 0}"
    using Cons.IH [OF inv live cnt] by blast
  have eff: "list_effect c (e # es) (sentinels s) = list_effect c es ?m1" by (simp add: list_effect_def e)
  have run: "sentinel_list_release (e # es) c s =
      Ok () (s\<lparr>sentinels := list_effect c (e # es) (sentinels s), pool_sentinel := q\<rparr>)"
    using p(1) q(1) e eff by (simp add: sentinel_list_release_def bnd_def)
  have "dropped_refs c es a = 0" if "a \<notin> fst ` set es"
    using that by (force simp: dropped_refs_def filter_empty_conv)
  then have last: "sn_refcnt (list_effect c es ?m1 a) = 0 \<longleftrightarrow> ?drop \<and> sn_refcnt (sentinels s a) = 1"
    if "a \<notin> fst ` set es"
    using that ref [of a] Cons.prems(3) [of a] e by (auto simp: list_effect_refcnt split: if_splits)
  have "\<not> (?drop \<and> sn_refcnt (sentinels s a) = 1)" if "a \<in> fst ` set es"
    using cnt [OF that] ref [of a] that by (force simp: filter_empty_conv split: if_splits)
  note inside = this
  have "pool_live q = pool_live (pool_sentinel s) - {b \<in> insert a (fst ` set es). sn_refcnt (list_effect c es ?m1 b) = 0}"
    by (rule freed_sentinels [OF p(3)]) (use q(3) inside last in simp_all)
  then have "pool_live q = pool_live (pool_sentinel s) -
      {b \<in> fst ` set (e # es). sn_refcnt (list_effect c (e # es) (sentinels s) b) = 0}"
    unfolding eff using e by simp
  with run q(2) show ?case by blast
qed

section \<open>Witnesses\<close>

definition free_sentinel :: "int \<Rightarrow> txc_sentinel" where
  "free_sentinel i = \<lparr>sentinel_mutex = False, synch_mutex = False, sn_id = i, sn_refcnt = 1, sn_owner = None\<rparr>"

text \<open>Sentinel identifiers follow the addresses; the sentinel at 64 belongs to transaction 512.\<close>

definition sample_sentinel_state :: sentinel_state where
  "sample_sentinel_state = \<lparr>txds = (\<lambda>_. sample_txd), l_txd = Some 256, runtime_settings = DEFVALUES,
     bufmgr = sample_linear, int_mem = (\<lambda>_. 0), errno = 0,
     itm_mode = (\<lambda>_. inRetryableTransaction), itm_actions = [],
     realloc_ok = (\<lambda>_. True), realloc_calls = 0,
     pool_sentinel = sample_pool,
     sentinels = (\<lambda>a. free_sentinel (int (unat a)))
       (64 := (free_sentinel 64)\<lparr>sentinel_mutex := True, sn_owner := Some 512\<rparr>),
     indeterminate = 0\<rparr>"

lemma sample_sentinel_ready: "k < 2 ^ 31 \<Longrightarrow> tx_ready k t sample_sentinel_state"
  by (simp add: tx_ready_def sample_sentinel_state_def sample_txd_def list_ready_def sl_ready_def)

theorem tryacquire_acquires_or_reports_busy_witness:
  "(\<exists>s'. txc_sentinel_tryacquire (Some 256) (Some 4096) 2 sample_sentinel_state = Ok TXC_R_SUCCESS s' \<and>
      sn_owner (sentinels s' 4096) = Some 256 \<and> sl_entries (sentinel_list (txds s' 256)) = [(4096, 3)]) \<and>
   (\<exists>s'. txc_sentinel_tryacquire (Some 256) (Some 64) 2 sample_sentinel_state = Ok TXC_R_BUSYSENTINEL s' \<and>
      sn_owner (sentinels s' 64) = Some 512 \<and> sl_entries (sentinel_list (txds s' 256)) = [(64, 2)])"
  (is "?A \<and> ?B")
proof
  have r: "tx_ready 3 256 sample_sentinel_state" by (simp add: sample_sentinel_ready)
  have m: "itm_mode sample_sentinel_state (itm_td (txds sample_sentinel_state 256)) = inRetryableTransaction"
    by (simp add: sample_sentinel_state_def)
  note th = tryacquire_acquires_or_reports_busy [OF r m]
  have f: "acquire_on_retry 2 = 2" by (simp add: acquire_on_retry_def)
  show ?A
    using th [of 4096 2] by (auto simp: f sample_sentinel_state_def sample_txd_def free_sentinel_def sn_acquired_def)
  show ?B
    using th [of 64 2] by (auto simp: f sample_sentinel_state_def sample_txd_def free_sentinel_def sn_busy_def)
qed


section \<open>Identifiers\<close>

lemma zip_same_upt: "zip [0..<n] [0..<n] = map (\<lambda>i. (i, i)) [0..<n]"
  by (simp add: zip_same_conv_map)

text \<open>A loop that updates the cells \<open>f 0, f 1, \<dots>\<close> of a memory, one per round.\<close>

lemma for_each_cells:
  assumes "inj_on f {..<n}"
  shows "\<exists>m'. for_each (map (\<lambda>i. (i, i)) [0..<n]) (\<lambda>(k, i). modify (\<lambda>m. m(f k := g i (m (f k))))) m = Ok () m' \<and>
    (\<forall>i < n. m' (f i) = g i (m (f i))) \<and> (\<forall>a. a \<notin> f ` {..<n} \<longrightarrow> m' a = m a)"
  using assms
proof (induction n)
  case 0
  then show ?case by (simp add: ret_def)
next
  case (Suc n)
  have "inj_on f {..<n}" using Suc.prems by (auto intro: inj_on_subset)
  with Suc.IH obtain m' where m': "for_each (map (\<lambda>i. (i, i)) [0..<n])
      (\<lambda>(k, i). modify (\<lambda>m. m(f k := g i (m (f k))))) m = Ok () m'"
    "\<forall>i < n. m' (f i) = g i (m (f i))" "\<forall>a. a \<notin> f ` {..<n} \<longrightarrow> m' a = m a" by blast
  have fresh: "f i \<noteq> f n" if "i < n" for i using Suc.prems that by (auto simp: inj_on_def)
  then have "f n \<notin> f ` {..<n}" by (metis imageE lessThan_iff)
  then have "m' (f n) = m (f n)" using m'(3) by blast
  then have "\<forall>i < Suc n. (m'(f n := g n (m' (f n)))) (f i) = g i (m (f i))"
    "\<forall>a. a \<notin> f ` {..<Suc n} \<longrightarrow> (m'(f n := g n (m' (f n)))) a = m a"
    using m'(2,3) fresh by (auto simp: less_Suc_eq lessThan_Suc)
  moreover have "for_each (map (\<lambda>i. (i, i)) [0..<Suc n])
      (\<lambda>(k, i). modify (\<lambda>m. m(f k := g i (m (f k))))) m = Ok () (m'(f n := g n (m' (f n))))"
    using m'(1) by (simp add: for_each_append bnd_def ret_def) (simp add: modify_def)
  ultimately show ?case by blast
qed

lemma new_pool_walk:
  assumes "pool_rep p [0..<n] []" "0 < n"
  shows "walk (txc_pool_object_next p) (Some 0) = Some [0..<n]"
proof -
  have d: "dll (pnext p) (pprev p) (obj_free_head p) [0..<n]" using assms(1) by (simp add: pool_rep_def)
  then have "obj_free_head p = Some 0" using assms(2) by (auto simp: dll_def upt_conv_Cons)
  with walk_dll [OF d] show ?thesis by (simp add: txc_pool_object_next_def [abs_def])
qed

text \<open>
  The sentinel manager starts with 512 unlocked sentinels without owner whose
  identifiers are their indices, so that no two sentinels share an identifier.
\<close>

theorem sentinelmgr_assigns_identifiers:
  assumes "pool_fits b sizeof_sentinel TXC_SENTINEL_NUM"
  shows "\<exists>p m'. txc_sentinelmgr_create (Some mgr)
      \<lparr>env_pool = Some x, env_list = Some y, env_buf = Some b, env_mutex = 0\<rparr> m = Ok (TXC_R_SUCCESS, Some p) m' \<and>
    pool_ok p \<and> unat (obj_num p) = 512 \<and> pool_live p = {} \<and>
    (\<forall>i < 512. sn_id (m' (pbuf p i)) = int i \<and> \<not> sentinel_mutex (m' (pbuf p i)) \<and>
       \<not> synch_mutex (m' (pbuf p i)) \<and> sn_owner (m' (pbuf p i)) = None) \<and>
    inj_on (\<lambda>a. sn_id (m' a)) (pbuf p ` {..<512})"
proof -
  obtain p m1 where p: "txc_pool_create (Some x) (Some y) (Some b) 0 sizeof_sentinel TXC_SENTINEL_NUM None m =
      Ok (TXC_R_SUCCESS, Some p) m1"
    "pool_rep p [0..<unat TXC_SENTINEL_NUM] []" "obj_num p = TXC_SENTINEL_NUM" "\<not> pool_mutex p"
    using pool_create_rep [OF assms] by metis
  have rep: "pool_rep p [0..<512] []" using p(2) by simp
  have "pool_geometry p" using rep by (simp add: pool_rep_def)
  then have "inj_on (pbuf p) {..<512}" using pool_buf_inj [of p] p(3) by simp
  from for_each_cells [OF this, of "\<lambda>i. sentinel_init (int i)" m1] obtain m' where
    m': "for_each (map (\<lambda>i. (i, i)) [0..<512])
        (\<lambda>(k, i). modify (\<lambda>m. m(pbuf p k := sentinel_init (int i) (m (pbuf p k))))) m1 = Ok () m'"
    "\<forall>i < 512. m' (pbuf p i) = sentinel_init (int i) (m1 (pbuf p i))" by blast
  have w: "walk (txc_pool_object_next p) (Some 0) = Some [0..<512]"
    by (rule new_pool_walk [OF rep]) simp
  have first: "txc_pool_object_first (and TXC_POOL_OBJECT_ALLOCATED TXC_POOL_OBJECT_FREE) p = Ok (Some 0) p"
    by (simp add: txc_pool_object_first_def ret_def)
  have run: "txc_sentinelmgr_create (Some mgr)
      \<lparr>env_pool = Some x, env_list = Some y, env_buf = Some b, env_mutex = 0\<rparr> m = Ok (TXC_R_SUCCESS, Some p) m'"
    using p(1) m'(1) w first
    by (simp add: txc_sentinelmgr_create_def create_pool_with_def bnd_def loop_result_def ret_def
        txc_pool_object_of_def zip_same_upt del: upt_rec_numeral upt_conv_Cons)
  have ids: "\<forall>i < 512. sn_id (m' (pbuf p i)) = int i" using m'(2) by (simp add: sentinel_init_def)
  then have "inj_on (\<lambda>a. sn_id (m' a)) (pbuf p ` {..<512})" by (auto simp: inj_on_def)
  moreover have "pool_live p = {}" using pool_rep_live [OF rep] by simp
  ultimately show ?thesis
    using run rep p(3,4) m'(2) by (intro exI [of _ p] exI [of _ m']) (auto simp: pool_ok_def sentinel_init_def)
qed

theorem sentinelmgr_assigns_identifiers_witness:
  "\<exists>p m'. txc_sentinelmgr_create (Some 8)
      \<lparr>env_pool = Some 16, env_list = Some 64, env_buf = Some 65536, env_mutex = 0\<rparr> (\<lambda>_. free_sentinel 7) =
      Ok (TXC_R_SUCCESS, Some p) m' \<and> sn_id (m' (pbuf p 511)) = 511"
proof -
  have "pool_fits 65536 sizeof_sentinel TXC_SENTINEL_NUM" by (simp add: pool_fits_def)
  from sentinelmgr_assigns_identifiers [OF this, of 8 16 64 "\<lambda>_. free_sentinel 7"] show ?thesis by fastforce
qed

text \<open>
  A transaction that already owns the sentinel gets it again without any
  change of state, but the returned code is the content of a variable that was
  never assigned.
\<close>

theorem reacquire_returns_indeterminate:
  assumes "sn_owner (sentinels s a) = Some t" "a \<in> fst ` set (sl_entries (sentinel_list (txds s t)))"
  shows "txc_sentinel_tryacquire (Some t) (Some a) flags s = Ok (indeterminate s) s"
  using assms by (simp add: txc_sentinel_tryacquire_def txc_sentinel_is_enlisted_def sn_get_def txd_get_def prog_simps)

theorem reacquire_returns_indeterminate_witness:
  "let s = sample_sentinel_state\<lparr>indeterminate := 49,
       txds := (\<lambda>_. sample_txd\<lparr>sentinel_list := \<lparr>sl_entries = [(64, 1)], sl_size = 32, sl_valid = True\<rparr>\<rparr>)\<rparr>
   in txc_sentinel_tryacquire (Some 512) (Some 64) 2 s = Ok TXC_R_BUSYSENTINEL s"
  using reacquire_returns_indeterminate [of "sample_sentinel_state\<lparr>indeterminate := 49,
       txds := (\<lambda>_. sample_txd\<lparr>sentinel_list := \<lparr>sl_entries = [(64, 1)], sl_size = 32, sl_valid = True\<rparr>\<rparr>)\<rparr>" 64 512 2]
  by (simp add: sample_sentinel_state_def)

end
