(* ===== verification/Sentinel_Protocol.thy ===== *)
theory Sentinel_Protocol
  imports Sentinel
begin

text \<open>
  The protocol that transactions follow on the sentinels, on the functions of
  \<open>Sentinel\<close>: completion releases everything a transaction holds, a restart
  without contention reacquires exactly the marked sentinels, no two transactions
  ever hold the same sentinel, and the ordered reacquisition cannot deadlock.
\<close>

section \<open>Completion\<close>

text \<open>A transaction holds a sentinel when its main list has it with the status acquired.\<close>

definition holds :: "addr \<Rightarrow> addr \<Rightarrow> 'z sentinel_state_scheme \<Rightarrow> bool" where
  "holds t a s \<longleftrightarrow> (\<exists>st. (a, st) \<in> set (sl_entries (sentinel_list (txds s t))) \<and> and st TXC_SENTINEL_ACQUIRED \<noteq> 0)"

definition enlistings :: "addr \<Rightarrow> addr \<Rightarrow> 'z sentinel_state_scheme \<Rightarrow> nat" where
  "enlistings t a s = length (filter (\<lambda>e. fst e = a) (sl_entries (sentinel_list (txds s t))))"

text \<open>The sentinels a transaction lists are live and its entries are among their references.\<close>

definition refs_ok :: "addr \<Rightarrow> 'z sentinel_state_scheme \<Rightarrow> bool" where
  "refs_ok t s \<longleftrightarrow> (\<forall>a \<in> fst ` set (sl_entries (sentinel_list (txds s t))).
     a \<in> pool_live (pool_sentinel s) \<and> int (enlistings t a s) \<le> sn_refcnt (sentinels s a))"

lemma dropped_refs_complete: "dropped_refs True es a = length (filter (\<lambda>e. fst e = a) es)"
  by (simp add: dropped_refs_def split_beta')

lemma list_effect_other: "a \<notin> fst ` set es \<Longrightarrow> list_effect c es m a = m a"
  by (induction es arbitrary: m) (auto simp: list_effect_def)

lemma on_complete_exact:
  assumes "sn_inv s" "refs_ok t s"
  shows "\<exists>p d. sentinelmgr_transaction_on_complete t s = Ok ()
      (s\<lparr>sentinels := list_effect True (sl_entries (sentinel_list (txds s t))) (sentinels s),
         pool_sentinel := p, txds := (txds s)(t := d)\<rparr>) \<and>
    sl_entries (sentinel_list d) = [] \<and> pool_ok p \<and>
    pool_live p = pool_live (pool_sentinel s) -
      {a \<in> fst ` set (sl_entries (sentinel_list (txds s t))). sn_refcnt (sentinels s a) = int (enlistings t a s)}"
proof -
  let ?es = "sl_entries (sentinel_list (txds s t))"
  obtain p where p: "sentinel_list_release ?es True s =
      Ok () (s\<lparr>sentinels := list_effect True ?es (sentinels s), pool_sentinel := p\<rparr>)" "pool_ok p"
    "pool_live p = pool_live (pool_sentinel s) -
      {a \<in> fst ` set ?es. sn_refcnt (list_effect True ?es (sentinels s) a) = 0}"
    using sentinel_list_release_ok [OF assms(1), of ?es True] assms(2)
    by (auto simp: refs_ok_def enlistings_def)
  let ?d = "(txds s t)\<lparr>sentinel_list := txc_sentinel_list_init (sentinel_list (txds s t)),
      sentinelmgr_undo_action_registered := False, sentinelmgr_commit_action_registered := False\<rparr>"
  have "sentinelmgr_transaction_on_complete t s = Ok ()
      (s\<lparr>sentinels := list_effect True ?es (sentinels s), pool_sentinel := p, txds := (txds s)(t := ?d)\<rparr>)"
    using p(1) by (simp add: sentinelmgr_transaction_on_complete_def txd_get_def txd_set_def prog_simps)
  moreover have "sl_entries (sentinel_list ?d) = []" by (simp add: txc_sentinel_list_init_def)
  ultimately show ?thesis
    using p(2,3) by (intro exI [of _ p] exI [of _ ?d])
      (simp add: list_effect_refcnt dropped_refs_complete enlistings_def)
qed


section \<open>Restart\<close>

text \<open>The entries that \<open>before_retry\<close> copies to the preacquire list.\<close>

definition marked :: "(addr \<times> u32) list \<Rightarrow> (addr \<times> u32) list" where
  "marked es = map (\<lambda>(a, _). (a, 0)) (filter (\<lambda>(_, st). and st TXC_SENTINEL_ACQUIREONRETRY \<noteq> 0) es)"

lemma marked_simps [simp]:
  "marked [] = []"
  "marked ((a, st) # es) = (if and st TXC_SENTINEL_ACQUIREONRETRY \<noteq> 0 then (a, 0) # marked es else marked es)"
  by (simp_all add: marked_def)

lemma marked_fst: "a \<in> fst ` set (marked es) \<longleftrightarrow> (\<exists>st. (a, st) \<in> set es \<and> and st TXC_SENTINEL_ACQUIREONRETRY \<noteq> 0)"
  by (force simp: marked_def)

lemma marked_distinct: "distinct (map fst es) \<Longrightarrow> distinct (map fst (marked es))"
proof (induction es)
  case (Cons e es)
  obtain a st where e: "e = (a, st)" by (cases e)
  have "fst ` set (marked es) \<subseteq> fst ` set es" by (force simp: marked_def)
  with Cons e show ?case by auto
qed simp

lemma length_marked: "length (marked es) \<le> length es"
  by (simp add: marked_def)

lemma tx_ready_mono: "tx_ready k t s \<Longrightarrow> j \<le> k \<Longrightarrow> tx_ready j t s"
  by (simp add: tx_ready_def)

lemma collect_preacquire_ok:
  assumes "tx_ready (k + length es) t s"
  shows "\<exists>la n. collect_preacquire t es s = Ok ()
      (s\<lparr>realloc_calls := n, txds := (txds s)(t := (txds s t)\<lparr>sentinel_list_preacquire := la\<rparr>)\<rparr>) \<and>
    sl_entries la = sl_entries (sentinel_list_preacquire (txds s t)) @ marked es \<and>
    tx_ready k t (s\<lparr>realloc_calls := n, txds := (txds s)(t := (txds s t)\<lparr>sentinel_list_preacquire := la\<rparr>)\<rparr>)"
  using assms
proof (induction es arbitrary: s)
  case Nil
  have "s = s\<lparr>realloc_calls := realloc_calls s, txds := (txds s)(t := (txds s t)\<lparr>sentinel_list_preacquire :=
      sentinel_list_preacquire (txds s t)\<rparr>)\<rparr>" by simp
  with Nil show ?case
    by (intro exI [of _ "sentinel_list_preacquire (txds s t)"] exI [of _ "realloc_calls s"])
      (simp add: collect_preacquire_def ret_def)
next
  case (Cons e es)
  obtain a st where e: "e = (a, st)" by (cases e)
  have ready: "tx_ready (Suc (k + length es)) t s" using Cons.prems by simp
  show ?case
  proof (cases "and st TXC_SENTINEL_ACQUIREONRETRY = 0")
    case True
    with Cons.IH [of s] tx_ready_mono [OF ready, of "k + length es"] e show ?thesis
      by (simp add: collect_preacquire_def prog_simps)
  next
    case False
    obtain la n where 1: "enlist_preacquire t a 0 s = Ok TXC_R_SUCCESS
        (s\<lparr>realloc_calls := n, txds := (txds s)(t := (txds s t)\<lparr>sentinel_list_preacquire := la\<rparr>)\<rparr>)"
      "sl_entries la = sl_entries (sentinel_list_preacquire (txds s t)) @ [(a, 0)]"
      "tx_ready (k + length es) t
        (s\<lparr>realloc_calls := n, txds := (txds s)(t := (txds s t)\<lparr>sentinel_list_preacquire := la\<rparr>)\<rparr>)"
      using enlist_preacquire_ok [OF ready] by blast
    let ?s1 = "s\<lparr>realloc_calls := n, txds := (txds s)(t := (txds s t)\<lparr>sentinel_list_preacquire := la\<rparr>)\<rparr>"
    obtain la' n' where 2: "collect_preacquire t es ?s1 = Ok () (?s1\<lparr>realloc_calls := n',
        txds := (txds ?s1)(t := (txds ?s1 t)\<lparr>sentinel_list_preacquire := la'\<rparr>)\<rparr>)"
      "sl_entries la' = sl_entries (sentinel_list_preacquire (txds ?s1 t)) @ marked es"
      "tx_ready k t (?s1\<lparr>realloc_calls := n',
        txds := (txds ?s1)(t := (txds ?s1 t)\<lparr>sentinel_list_preacquire := la'\<rparr>)\<rparr>)"
      using Cons.IH [OF 1(3)] by blast
    have run: "collect_preacquire t (e # es) s = collect_preacquire t es ?s1"
      using 1(1) e False by (simp add: collect_preacquire_def prog_simps)
    have "sl_entries la' = sl_entries (sentinel_list_preacquire (txds s t)) @ marked (e # es)"
      using 1(2) 2(2) e False by simp
    moreover from 2(1,3) have "collect_preacquire t (e # es) s = Ok ()
        (s\<lparr>realloc_calls := n', txds := (txds s)(t := (txds s t)\<lparr>sentinel_list_preacquire := la'\<rparr>)\<rparr>)"
      "tx_ready k t (s\<lparr>realloc_calls := n', txds := (txds s)(t := (txds s t)\<lparr>sentinel_list_preacquire := la'\<rparr>)\<rparr>)"
      unfolding run by simp_all
    ultimately show ?thesis by blast
  qed
qed

text \<open>Whatever the pool does with the sentinels, a release that returns has its exact effect on them.\<close>

lemma detach_partial:
  assumes "sentinel_detach a s = Ok r s'"
  shows "\<exists>p. s' = s\<lparr>sentinels := (sentinels s)(a := dropped (sentinels s a)), pool_sentinel := p\<rparr>"
proof (cases "sn_refcnt (sentinels s a) = 1")
  case True
  with assms show ?thesis
    by (auto simp: sentinel_detach_def sentinel_destroy_def on_pool_sentinel_def sn_defs prog_simps
        dropped_def split: outcome.splits)
next
  case False
  with assms show ?thesis
    by (intro exI [of _ "pool_sentinel s"])
      (auto simp: sentinel_detach_def sn_defs prog_simps dropped_def)
qed

lemma release_entry_partial:
  assumes "release_entry c (a, st) s = Ok () s'"
  shows "\<exists>p. s' = s\<lparr>sentinels := (sentinels s)(a := entry_effect c st (sentinels s a)), pool_sentinel := p\<rparr>"
proof -
  have ns: "\<not> synch_mutex (sentinels s a)"
    using assms by (cases "synch_mutex (sentinels s a)") (simp_all add: release_entry_def sn_defs prog_simps)
  note u = release_entry_unfold [OF ns, of c st]
  show ?thesis
  proof (cases "c \<or> and st TXC_SENTINEL_ACQUIREONRETRY = 0")
    case True
    let ?s1 = "s\<lparr>sentinels := (sentinels s)(a := (released st (sentinels s a))\<lparr>synch_mutex := True\<rparr>)\<rparr>"
    obtain r s2 where 2: "sentinel_detach a ?s1 = Ok r s2" "unlock_synch a s2 = Ok () s'"
      using True u assms by (auto simp: bnd_def ret_def split: outcome.splits)
    from detach_partial [OF 2(1)] obtain p where
      "s2 = ?s1\<lparr>sentinels := (sentinels ?s1)(a := dropped (sentinels ?s1 a)), pool_sentinel := p\<rparr>" by blast
    moreover have "dropped (released st (sentinels s a))\<lparr>synch_mutex := False\<rparr> = dropped (released st (sentinels s a))"
      by (rule synch_toggle) (simp add: ns)
    ultimately show ?thesis
      using 2(2) True by (intro exI [of _ p])
        (auto simp: entry_effect_def unlock_synch_def sn_set_def modify_def dropped_synch)
  next
    case False
    have "(released st (sentinels s a))\<lparr>synch_mutex := False\<rparr> = released st (sentinels s a)"
      by (rule synch_toggle) (simp add: ns)
    with False u assms show ?thesis
      by (intro exI [of _ "pool_sentinel s"])
        (auto simp: entry_effect_def bnd_def ret_def unlock_synch_def sn_set_def modify_def)
  qed
qed

lemma list_release_partial:
  assumes "sentinel_list_release es c s = Ok () s'"
  shows "\<exists>p. s' = s\<lparr>sentinels := list_effect c es (sentinels s), pool_sentinel := p\<rparr>"
  using assms
proof (induction es arbitrary: s)
  case Nil
  then show ?case
    by (intro exI [of _ "pool_sentinel s"]) (simp add: sentinel_list_release_def list_effect_def ret_def)
next
  case (Cons e es)
  obtain a st where e: "e = (a, st)" by (cases e)
  obtain s1 where 1: "release_entry c (a, st) s = Ok () s1" "sentinel_list_release es c s1 = Ok () s'"
    using Cons.prems e by (auto simp: sentinel_list_release_def bnd_def split: outcome.splits)
  from release_entry_partial [OF 1(1)] Cons.IH [OF 1(2)] e show ?case
    by (auto simp: list_effect_def)
qed

definition by_id :: "(addr \<Rightarrow> txc_sentinel) \<Rightarrow> (addr \<times> u32) list \<Rightarrow> (addr \<times> u32) list" where
  "by_id m = sort_entries (\<lambda>(a, _). sn_id (m a))"

text \<open>What the first half of \<open>before_retry\<close> leaves: nothing is held, and the marked sentinels are queued.\<close>

definition retry_queued :: "addr \<Rightarrow> 'z sentinel_state_scheme \<Rightarrow> 'z sentinel_state_scheme \<Rightarrow> bool" where
  "retry_queued t s s' \<longleftrightarrow>
     (\<exists>n p d. s' = s\<lparr>realloc_calls := n, txds := (txds s)(t := d),
          sentinels := list_effect False (sl_entries (sentinel_list (txds s t))) (sentinels s), pool_sentinel := p\<rparr> \<and>
        sl_entries (sentinel_list d) = [] \<and>
        sl_entries (sentinel_list_preacquire d) = by_id (sentinels s) (marked (sl_entries (sentinel_list (txds s t)))))"

lemma sort_entries_length: "length (sort_entries key xs) = length xs"
  using sort_entries_correct [of key xs] by (metis size_mset)

lemma before_retry_release_step:
  assumes "tx_ready (2 * length (sl_entries (sentinel_list (txds s t)))) t s"
  obtains n d where
    "before_retry_release t s =
       bnd (sentinel_list_release (sl_entries (sentinel_list (txds s t))) False) (\<lambda>_.
       txd_set t (\<lambda>d. d\<lparr>sentinel_list := txc_sentinel_list_init (sentinel_list d),
         sentinelmgr_undo_action_registered := False, sentinelmgr_commit_action_registered := False\<rparr>))
       (s\<lparr>realloc_calls := n, txds := (txds s)(t := d)\<rparr>)"
    "sentinel_list d = sentinel_list (txds s t)"
    "sl_entries (sentinel_list_preacquire d) = by_id (sentinels s) (marked (sl_entries (sentinel_list (txds s t))))"
    "tx_ready (length (sl_entries (sentinel_list (txds s t)))) t (s\<lparr>realloc_calls := n, txds := (txds s)(t := d)\<rparr>)"
proof -
  let ?es = "sl_entries (sentinel_list (txds s t))"
  let ?d0 = "(txds s t)\<lparr>sentinel_list_preacquire := (sentinel_list_preacquire (txds s t))\<lparr>sl_entries := []\<rparr>\<rparr>"
  let ?s0 = "s\<lparr>txds := (txds s)(t := ?d0)\<rparr>"
  have "tx_ready (length ?es + length ?es) t ?s0"
    using assms by (auto simp: tx_ready_def sl_ready_def)
  then obtain la n where c: "collect_preacquire t ?es ?s0 = Ok ()
      (?s0\<lparr>realloc_calls := n, txds := (txds ?s0)(t := (txds ?s0 t)\<lparr>sentinel_list_preacquire := la\<rparr>)\<rparr>)"
    "sl_entries la = sl_entries (sentinel_list_preacquire (txds ?s0 t)) @ marked ?es"
    "tx_ready (length ?es) t
      (?s0\<lparr>realloc_calls := n, txds := (txds ?s0)(t := (txds ?s0 t)\<lparr>sentinel_list_preacquire := la\<rparr>)\<rparr>)"
    using collect_preacquire_ok by blast
  let ?d = "(txds s t)\<lparr>sentinel_list_preacquire := la\<lparr>sl_entries := by_id (sentinels s) (marked ?es)\<rparr>\<rparr>"
  have "before_retry_release t s =
       bnd (sentinel_list_release ?es False) (\<lambda>_.
       txd_set t (\<lambda>d. d\<lparr>sentinel_list := txc_sentinel_list_init (sentinel_list d),
         sentinelmgr_undo_action_registered := False, sentinelmgr_commit_action_registered := False\<rparr>))
       (s\<lparr>realloc_calls := n, txds := (txds s)(t := ?d)\<rparr>)"
    using c(1,2) by (simp add: before_retry_release_def txd_get_def txd_set_def bnd_def gets_def modify_def ret_def
        sentinel_list_sort_def by_id_def backoff_def txc_tx_get_forced_retries_def cong: outcome.case_cong)
  moreover have "tx_ready (length ?es) t (s\<lparr>realloc_calls := n, txds := (txds s)(t := ?d)\<rparr>)"
    using c(2,3) by (simp add: tx_ready_def sl_ready_def by_id_def sort_entries_length)
  ultimately show ?thesis by (intro that [where n = n and d = ?d]) simp_all
qed


lemma before_retry_release_partial:
  assumes ready: "tx_ready (2 * length (sl_entries (sentinel_list (txds s t)))) t s"
    and run: "before_retry_release t s = Ok () s'"
  shows "retry_queued t s s'"
proof -
  let ?es = "sl_entries (sentinel_list (txds s t))"
  obtain n d where st: "before_retry_release t s =
       bnd (sentinel_list_release ?es False) (\<lambda>_.
       txd_set t (\<lambda>d. d\<lparr>sentinel_list := txc_sentinel_list_init (sentinel_list d),
         sentinelmgr_undo_action_registered := False, sentinelmgr_commit_action_registered := False\<rparr>))
       (s\<lparr>realloc_calls := n, txds := (txds s)(t := d)\<rparr>)"
    "sentinel_list d = sentinel_list (txds s t)"
    "sl_entries (sentinel_list_preacquire d) = by_id (sentinels s) (marked ?es)"
    using before_retry_release_step [OF ready] by blast
  let ?s1 = "s\<lparr>realloc_calls := n, txds := (txds s)(t := d)\<rparr>"
  obtain s2 where 2: "sentinel_list_release ?es False ?s1 = Ok () s2"
    "s' = s2\<lparr>txds := (txds s2)(t := (txds s2 t)\<lparr>sentinel_list := txc_sentinel_list_init (sentinel_list (txds s2 t)),
         sentinelmgr_undo_action_registered := False, sentinelmgr_commit_action_registered := False\<rparr>)\<rparr>"
    using run unfolding st(1) by (auto simp: bnd_def txd_set_def modify_def split: outcome.splits)
  let ?d' = "d\<lparr>sentinel_list := txc_sentinel_list_init (sentinel_list d),
      sentinelmgr_undo_action_registered := False, sentinelmgr_commit_action_registered := False\<rparr>"
  from list_release_partial [OF 2(1)] obtain p where
    "s2 = ?s1\<lparr>sentinels := list_effect False ?es (sentinels ?s1), pool_sentinel := p\<rparr>" by blast
  with 2(2) have "s' = s\<lparr>realloc_calls := n, txds := (txds s)(t := ?d'),
      sentinels := list_effect False ?es (sentinels s), pool_sentinel := p\<rparr>" by simp
  moreover have "sl_entries (sentinel_list ?d') = []"
    "sl_entries (sentinel_list_preacquire ?d') = by_id (sentinels s) (marked ?es)"
    using st(3) by (simp_all add: txc_sentinel_list_init_def)
  ultimately show ?thesis unfolding retry_queued_def by blast
qed

lemma before_retry_release_total:
  assumes inv: "sn_inv s" "refs_ok t s"
    and ready: "tx_ready (2 * length (sl_entries (sentinel_list (txds s t)))) t s"
  shows "\<exists>s'. before_retry_release t s = Ok () s' \<and>
    tx_ready (length (sl_entries (sentinel_list (txds s t)))) t s'"
proof -
  let ?es = "sl_entries (sentinel_list (txds s t))"
  obtain n d where st: "before_retry_release t s =
       bnd (sentinel_list_release ?es False) (\<lambda>_.
       txd_set t (\<lambda>d. d\<lparr>sentinel_list := txc_sentinel_list_init (sentinel_list d),
         sentinelmgr_undo_action_registered := False, sentinelmgr_commit_action_registered := False\<rparr>))
       (s\<lparr>realloc_calls := n, txds := (txds s)(t := d)\<rparr>)"
    "tx_ready (length ?es) t (s\<lparr>realloc_calls := n, txds := (txds s)(t := d)\<rparr>)"
    using before_retry_release_step [OF ready] by blast
  let ?s1 = "s\<lparr>realloc_calls := n, txds := (txds s)(t := d)\<rparr>"
  have "sn_inv ?s1" using inv(1) by (simp add: sn_inv_def)
  then obtain p where "sentinel_list_release ?es False ?s1 =
      Ok () (?s1\<lparr>sentinels := list_effect False ?es (sentinels ?s1), pool_sentinel := p\<rparr>)"
    using sentinel_list_release_ok [of ?s1 ?es False] inv(2) by (auto simp: refs_ok_def enlistings_def)
  with st show ?thesis
    by (auto simp: bnd_def txd_set_def modify_def tx_ready_def sl_ready_def txc_sentinel_list_init_def)
qed

text \<open>Acquiring one queued sentinel.\<close>

definition relocked :: "addr \<Rightarrow> txc_sentinel \<Rightarrow> txc_sentinel" where
  "relocked t sn = sn\<lparr>sentinel_mutex := True, sn_owner := Some t\<rparr>"

lemma relocked_simps [simp]:
  "sentinel_mutex (relocked t sn)" "sn_owner (relocked t sn) = Some t" "sn_id (relocked t sn) = sn_id sn"
  "synch_mutex (relocked t sn) = synch_mutex sn" "sn_refcnt (relocked t sn) = sn_refcnt sn"
  by (simp_all add: relocked_def)

lemma acquire_entry_free:
  assumes "tx_ready (Suc k) t s" "\<not> sentinel_mutex (sentinels s a)"
  shows "\<exists>la n. acquire_entry t (a, st) s = Ok ()
      (s\<lparr>realloc_calls := n, txds := (txds s)(t := (txds s t)\<lparr>sentinel_list := la\<rparr>),
         sentinels := (sentinels s)(a := relocked t (sentinels s a))\<rparr>) \<and>
    sl_entries la = sl_entries (sentinel_list (txds s t)) @ [(a, 3)] \<and>
    tx_ready k t (s\<lparr>realloc_calls := n, txds := (txds s)(t := (txds s t)\<lparr>sentinel_list := la\<rparr>),
         sentinels := (sentinels s)(a := relocked t (sentinels s a))\<rparr>)"
proof -
  let ?s1 = "s\<lparr>sentinels := (sentinels s)(a := relocked t (sentinels s a))\<rparr>"
  have "tx_ready (Suc k) t ?s1" using assms(1) by (simp add: tx_ready_def)
  then obtain la n where e: "enlist_main t a 3 ?s1 = Ok TXC_R_SUCCESS
      (?s1\<lparr>realloc_calls := n, txds := (txds ?s1)(t := (txds ?s1 t)\<lparr>sentinel_list := la\<rparr>)\<rparr>)"
    "sl_entries la = sl_entries (sentinel_list (txds ?s1 t)) @ [(a, 3)]"
    "tx_ready k t (?s1\<lparr>realloc_calls := n, txds := (txds ?s1)(t := (txds ?s1 t)\<lparr>sentinel_list := la\<rparr>)\<rparr>)"
    using enlist_main_ok by blast
  have "acquire_entry t (a, st) s =
      Ok () (?s1\<lparr>realloc_calls := n, txds := (txds ?s1)(t := (txds ?s1 t)\<lparr>sentinel_list := la\<rparr>)\<rparr>)"
    using e(1) assms(2) by (simp add: acquire_entry_def sn_defs relocked_def bnd_def gets_def guard_def modify_def ret_def)
  with e(2,3) show ?thesis by (intro exI [of _ la] exI [of _ n]) (simp add: tx_ready_def)
qed

lemma acquire_entry_busy: "sentinel_mutex (sentinels s a) \<Longrightarrow> acquire_entry t (a, st) s = Fault Blocked s"
  by (simp add: acquire_entry_def sn_defs prog_simps)

lemma sentinel_list_acquire_ok:
  assumes "tx_ready (k + length es) t s" "distinct (map fst es)"
    and "\<And>a. a \<in> fst ` set es \<Longrightarrow> \<not> sentinel_mutex (sentinels s a)"
  shows "\<exists>s'. sentinel_list_acquire t es s = Ok () s' \<and>
    sl_entries (sentinel_list (txds s' t)) = sl_entries (sentinel_list (txds s t)) @ map (\<lambda>e. (fst e, 3)) es \<and>
    sentinels s' = (\<lambda>a. if a \<in> fst ` set es then relocked t (sentinels s a) else sentinels s a) \<and>
    pool_sentinel s' = pool_sentinel s \<and> (\<forall>u. u \<noteq> t \<longrightarrow> txds s' u = txds s u)"
  using assms
proof (induction es arbitrary: s)
  case Nil
  then show ?case by (simp add: sentinel_list_acquire_def ret_def)
next
  case (Cons e es)
  obtain a st where e: "e = (a, st)" by (cases e)
  have "tx_ready (Suc (k + length es)) t s" using Cons.prems(1) by simp
  from acquire_entry_free [OF this, of a st] obtain la n where
    1: "acquire_entry t (a, st) s = Ok ()
      (s\<lparr>realloc_calls := n, txds := (txds s)(t := (txds s t)\<lparr>sentinel_list := la\<rparr>),
         sentinels := (sentinels s)(a := relocked t (sentinels s a))\<rparr>)"
    "sl_entries la = sl_entries (sentinel_list (txds s t)) @ [(a, 3)]"
    "tx_ready (k + length es) t (s\<lparr>realloc_calls := n, txds := (txds s)(t := (txds s t)\<lparr>sentinel_list := la\<rparr>),
         sentinels := (sentinels s)(a := relocked t (sentinels s a))\<rparr>)"
    using Cons.prems(3) [of a] e by auto
  let ?s1 = "s\<lparr>realloc_calls := n, txds := (txds s)(t := (txds s t)\<lparr>sentinel_list := la\<rparr>),
         sentinels := (sentinels s)(a := relocked t (sentinels s a))\<rparr>"
  have "\<not> sentinel_mutex (sentinels ?s1 b)" if "b \<in> fst ` set es" for b
    using Cons.prems(2,3) e that by auto
  then obtain s' where 2: "sentinel_list_acquire t es ?s1 = Ok () s'"
    "sl_entries (sentinel_list (txds s' t)) = sl_entries (sentinel_list (txds ?s1 t)) @ map (\<lambda>e. (fst e, 3)) es"
    "sentinels s' = (\<lambda>a. if a \<in> fst ` set es then relocked t (sentinels ?s1 a) else sentinels ?s1 a)"
    "pool_sentinel s' = pool_sentinel ?s1" "\<forall>u. u \<noteq> t \<longrightarrow> txds s' u = txds ?s1 u"
    using Cons.IH [OF 1(3)] Cons.prems(2) by auto
  have "sentinel_list_acquire t (e # es) s = Ok () s'"
    using 1(1) 2(1) e by (simp add: sentinel_list_acquire_def bnd_def)
  moreover have "a \<notin> fst ` set es" using Cons.prems(2) e by auto
  ultimately show ?case
    using 1(2) 2(2-5) e by (intro exI [of _ s']) (auto simp: fun_eq_iff)
qed


lemma by_id_set: "set (by_id m es) = set es"
  by (simp add: by_id_def sort_entries_set)

lemma by_id_distinct: "distinct (map fst (by_id m es)) \<longleftrightarrow> distinct (map fst es)"
proof -
  have "mset (map fst (by_id m es)) = mset (map fst es)"
    using sort_entries_correct [of "\<lambda>(a, _). sn_id (m a)" es] by (simp add: by_id_def)
  then show ?thesis by (rule mset_eq_imp_distinct_iff)
qed

lemma by_id_single: "by_id m [e] = [e]"
  using sort_entries_correct [of "\<lambda>(a, _). sn_id (m a)" "[e]"] by (simp add: by_id_def)

lemma by_id_sorted: "sorted (map (\<lambda>e. sn_id (m (fst e))) (by_id m es))"
  using sort_entries_correct [of "\<lambda>(a, _). sn_id (m a)" es] by (simp add: by_id_def case_prod_unfold)

text \<open>
  C24. A transaction that restarts without contention gives back every sentinel
  it held, and reacquires exactly those it marked, in the order of their
  identifiers: afterwards these are locked and owned by it and make up its
  sentinel list, and every other sentinel it held is free.
\<close>

theorem restart_reacquires_marked:
  assumes "sn_inv s" "refs_ok t s" "tx_ready (2 * length (sl_entries (sentinel_list (txds s t)))) t s"
    and "distinct (map fst (sl_entries (sentinel_list (txds s t))))"
    and "\<forall>a \<in> fst ` set (marked (sl_entries (sentinel_list (txds s t)))).
           sentinel_mutex (sentinels s a) \<longrightarrow> holds t a s"
  shows "\<exists>s'. sentinelmgr_transaction_before_retry t s = Ok () s' \<and>
    set (sl_entries (sentinel_list (txds s' t))) =
      (\<lambda>a. (a, 3)) ` fst ` set (marked (sl_entries (sentinel_list (txds s t)))) \<and>
    distinct (sl_entries (sentinel_list (txds s' t))) \<and>
    sorted (map (\<lambda>e. sn_id (sentinels s (fst e))) (sl_entries (sentinel_list (txds s' t)))) \<and>
    (\<forall>a \<in> fst ` set (marked (sl_entries (sentinel_list (txds s t)))).
       sentinel_mutex (sentinels s' a) \<and> sn_owner (sentinels s' a) = Some t) \<and>
    (\<forall>a. holds t a s \<and> a \<notin> fst ` set (marked (sl_entries (sentinel_list (txds s t)))) \<longrightarrow>
       \<not> sentinel_mutex (sentinels s' a) \<and> sn_owner (sentinels s' a) = None)"
proof -
  let ?es = "sl_entries (sentinel_list (txds s t))"
  let ?q = "by_id (sentinels s) (marked ?es)"
  obtain s1 where 1: "before_retry_release t s = Ok () s1" "tx_ready (length ?es) t s1"
    using before_retry_release_total [OF assms(1-3)] by blast
  have q: "sentinels s1 = list_effect False ?es (sentinels s)" "sl_entries (sentinel_list (txds s1 t)) = []"
    "sl_entries (sentinel_list_preacquire (txds s1 t)) = ?q"
    using before_retry_release_partial [OF assms(3) 1(1)] by (auto simp: retry_queued_def)
  have len: "length ?q \<le> length ?es"
    using length_marked [of ?es] by (simp add: by_id_def sort_entries_length)
  have free: "\<not> sentinel_mutex (sentinels s1 a)" if "a \<in> fst ` set ?q" for a
    using assms(5) that by (auto simp: q(1) list_effect_mutex holds_def by_id_set)
  obtain s' where 2: "sentinel_list_acquire t ?q s1 = Ok () s'"
    "sl_entries (sentinel_list (txds s' t)) = map (\<lambda>e. (fst e, 3)) ?q"
    "sentinels s' = (\<lambda>a. if a \<in> fst ` set ?q then relocked t (sentinels s1 a) else sentinels s1 a)"
    using sentinel_list_acquire_ok [of 0 ?q t s1] tx_ready_mono [OF 1(2) len] assms(4) free q(2)
    by (auto simp: by_id_distinct marked_distinct)
  have run: "sentinelmgr_transaction_before_retry t s = Ok () s'"
    using 1(1) 2(1) q(3) by (simp add: sentinelmgr_transaction_before_retry_def bnd_def txd_get_def gets_def)
  have "distinct (map (\<lambda>e. (fst e, 3 :: u32)) ?q)"
    using assms(4) by (simp add: distinct_map [of "\<lambda>a. (a, 3)" "map fst ?q", simplified comp_def map_map]
        by_id_distinct marked_distinct inj_on_def)
  moreover have "sorted (map (\<lambda>e. sn_id (sentinels s (fst e))) (map (\<lambda>e. (fst e, 3 :: u32)) ?q))"
    using by_id_sorted [of "sentinels s" "marked ?es"] by (simp add: comp_def)
  moreover have "set (map (\<lambda>e. (fst e, 3 :: u32)) ?q) = (\<lambda>a. (a, 3)) ` fst ` set (marked ?es)"
    by (simp add: by_id_set image_image)
  ultimately show ?thesis
    using run 2(2,3) q(1) by (intro exI [of _ s']) (auto simp: by_id_set list_effect_mutex holds_def)
qed


text \<open>Transaction 256 holds the sentinels at 4096 and 4112 and marked the second.\<close>

definition busy_pool :: txc_pool where
  "busy_pool = sample_pool\<lparr>
     obj_list := (\<lambda>_. calloc_object)
       (0 := \<lparr>obj_buf = 4096, obj_status = 2, obj_next = Some 1, obj_prev = None\<rparr>,
        1 := \<lparr>obj_buf = 4112, obj_status = 2, obj_next = None, obj_prev = Some 0\<rparr>),
     obj_free_head := None, obj_free_num := 0, obj_allocated_num := 2\<rparr>"

lemma busy_pool_ok: "pool_ok busy_pool" "pool_live busy_pool = {4096, 4112}"
proof -
  have two: "{..<2} = {0, 1 :: nat}" "i < 2 \<longleftrightarrow> i = 0 \<or> i = 1" for i :: nat by auto
  have rep: "pool_rep busy_pool [] [0, 1]"
    unfolding pool_rep_def pool_geometry_def
    by (simp add: busy_pool_def sample_pool_def dll_def pnext_def pprev_def pstatus_def pbuf_def insert_commute two)
  then show "pool_ok busy_pool" by (auto simp: pool_ok_def busy_pool_def sample_pool_def)
  show "pool_live busy_pool = {4096, 4112}"
    using pool_rep_live [OF rep] by (simp add: busy_pool_def pbuf_def)
qed

definition holding_state :: sentinel_state where
  "holding_state = sample_sentinel_state\<lparr>pool_sentinel := busy_pool,
     txds := (\<lambda>_. sample_txd)(256 := sample_txd\<lparr>sentinel_list :=
       \<lparr>sl_entries = [(4096, 1), (4112, 3)], sl_size = 32, sl_valid = True\<rparr>\<rparr>),
     sentinels := (\<lambda>a. (free_sentinel (int (unat a)))\<lparr>sentinel_mutex := a \<in> {4096, 4112},
       sn_owner := if a \<in> {4096, 4112} then Some 256 else None, sn_refcnt := if a = 4112 then 2 else 1\<rparr>)\<rparr>"

lemma holding_state_facts:
  "sn_inv holding_state" "refs_ok 256 holding_state"
  "sl_entries (sentinel_list (txds holding_state 256)) = [(4096, 1), (4112, 3)]"
  "tx_ready 4 256 holding_state"
  by (simp_all add: sn_inv_def holding_state_def busy_pool_ok free_sentinel_def refs_ok_def enlistings_def
      tx_ready_def sample_sentinel_state_def sample_txd_def list_ready_def sl_ready_def)


theorem restart_reacquires_marked_witness:
  "\<exists>s'. sentinelmgr_transaction_before_retry 256 holding_state = Ok () s' \<and>
     set (sl_entries (sentinel_list (txds s' 256))) = {(4112, 3)} \<and>
     sn_owner (sentinels s' 4112) = Some 256 \<and> \<not> sentinel_mutex (sentinels s' 4096)"
proof -
  have "holds 256 4096 holding_state" by (auto simp: holds_def holding_state_facts)
  moreover have "\<forall>a \<in> fst ` set (marked (sl_entries (sentinel_list (txds holding_state 256)))).
      sentinel_mutex (sentinels holding_state a) \<longrightarrow> holds 256 a holding_state"
    by (auto simp: holds_def holding_state_facts)
  ultimately show ?thesis
    using restart_reacquires_marked [OF holding_state_facts(1,2)] holding_state_facts(4)
    by (auto simp: holding_state_facts)
qed


section \<open>Interleaved transactions\<close>

text \<open>
  What a thread is doing: \<open>Running\<close> a transaction or outside one, \<open>Doomed\<close> to abort
  because a sentinel was busy, or restarting and \<open>Waiting\<close> to acquire the listed
  sentinels, the first one next.
\<close>

datatype phase = Running | Doomed | Waiting "(addr \<times> u32) list"

text \<open>
  The steps that threads take in turn, one call at a time; \<open>A\<close> are the sentinels
  of the pool.  A restart is the release of \<open>before_retry\<close>, which queues the
  marked sentinels, followed by one \<open>acquire\<close> per queued sentinel, which is
  possible only while the sentinel is free.
\<close>

inductive proto_step ::
  "addr set \<Rightarrow> (addr \<Rightarrow> phase) \<times> 'z sentinel_state_scheme \<Rightarrow> (addr \<Rightarrow> phase) \<times> 'z sentinel_state_scheme \<Rightarrow> bool"
  for A where
  attempt: "ph t = Running \<Longrightarrow> a \<in> A \<Longrightarrow> tx_ready 3 t s \<Longrightarrow>
    txc_sentinel_tryacquire (Some t) (Some a) flags s = Ok r s' \<Longrightarrow>
    proto_step A (ph, s) (ph(t := if r = TXC_R_BUSYSENTINEL then Doomed else Running), s')"
| complete: "ph t \<in> {Running, Doomed} \<Longrightarrow> sentinelmgr_transaction_on_complete t s = Ok () s' \<Longrightarrow>
    proto_step A (ph, s) (ph(t := Running), s')"
| restart: "ph t \<in> {Running, Doomed} \<Longrightarrow>
    tx_ready (2 * length (sl_entries (sentinel_list (txds s t)))) t s \<Longrightarrow>
    before_retry_release t s = Ok () s' \<Longrightarrow>
    proto_step A (ph, s) (ph(t := Waiting (sl_entries (sentinel_list_preacquire (txds s' t)))), s')"
| acquire: "ph t = Waiting (e # es) \<Longrightarrow> tx_ready 1 t s \<Longrightarrow> acquire_entry t e s = Ok () s' \<Longrightarrow>
    proto_step A (ph, s) (ph(t := Waiting es), s')"
| resume: "ph t = Waiting [] \<Longrightarrow> proto_step A (ph, s) (ph(t := Running), s)"

inductive_cases proto_stepE: "proto_step A c c'"

definition proto_init :: "addr set \<Rightarrow> (addr \<Rightarrow> phase) \<times> 'z sentinel_state_scheme \<Rightarrow> bool" where
  "proto_init A = (\<lambda>(ph, s). (\<forall>t. ph t = Running \<and> sl_entries (sentinel_list (txds s t)) = []) \<and>
     (\<forall>a. \<not> sentinel_mutex (sentinels s a) \<and> \<not> synch_mutex (sentinels s a)) \<and>
     inj_on (\<lambda>a. sn_id (sentinels s a)) A)"

definition proto_reachable :: "addr set \<Rightarrow> (addr \<Rightarrow> phase) \<times> 'z sentinel_state_scheme \<Rightarrow> bool" where
  "proto_reachable A c \<longleftrightarrow> (\<exists>c0. proto_init A c0 \<and> (proto_step A)\<^sup>*\<^sup>* c0 c)"

text \<open>The invariant, on the main lists \<open>L\<close> of the descriptors and the sentinels \<open>m\<close>.\<close>

definition listed :: "(addr \<Rightarrow> (addr \<times> u32) list) \<Rightarrow> addr \<Rightarrow> addr \<Rightarrow> bool" where
  "listed L t a \<longleftrightarrow> (\<exists>st. (a, st) \<in> set (L t) \<and> and st TXC_SENTINEL_ACQUIRED \<noteq> 0)"

definition locks_inv :: "(addr \<Rightarrow> (addr \<times> u32) list) \<Rightarrow> (addr \<Rightarrow> txc_sentinel) \<Rightarrow> bool" where
  "locks_inv L m \<longleftrightarrow>
     (\<forall>t a. listed L t a \<longrightarrow> sentinel_mutex (m a) \<and> sn_owner (m a) = Some t) \<and>
     (\<forall>a. sentinel_mutex (m a) \<longrightarrow> (\<exists>t. listed L t a)) \<and> (\<forall>a. \<not> synch_mutex (m a))"

definition thread_inv :: "addr set \<Rightarrow> (addr \<Rightarrow> int) \<Rightarrow> phase \<Rightarrow> (addr \<times> u32) list \<Rightarrow> bool" where
  "thread_inv A ident ph l \<longleftrightarrow>
     distinct (map fst l) \<and> fst ` set l \<subseteq> A \<and>
     (ph \<noteq> Doomed \<longrightarrow> (\<forall>e \<in> set l. and (snd e) TXC_SENTINEL_ACQUIRED \<noteq> 0)) \<and>
     (\<forall>es. ph = Waiting es \<longrightarrow> distinct (map fst (l @ es)) \<and> fst ` set es \<subseteq> A \<and>
        sorted (map (ident \<circ> fst) (l @ es)))"

definition proto_inv ::
  "addr set \<Rightarrow> (addr \<Rightarrow> phase) \<Rightarrow> (addr \<Rightarrow> (addr \<times> u32) list) \<Rightarrow> (addr \<Rightarrow> txc_sentinel) \<Rightarrow> bool" where
  "proto_inv A ph L m \<longleftrightarrow> inj_on (\<lambda>a. sn_id (m a)) A \<and> locks_inv L m \<and>
     (\<forall>t. thread_inv A (\<lambda>a. sn_id (m a)) (ph t) (L t))"

definition main_lists :: "'z tx_state_scheme \<Rightarrow> addr \<Rightarrow> (addr \<times> u32) list" where
  "main_lists s t = sl_entries (sentinel_list (txds s t))"

lemma holds_listed: "holds t a s \<longleftrightarrow> listed (main_lists s) t a"
  by (simp add: holds_def listed_def main_lists_def)

lemma listed_upd: "listed (L(t := l)) u a \<longleftrightarrow>
    (if u = t then \<exists>st. (a, st) \<in> set l \<and> and st TXC_SENTINEL_ACQUIRED \<noteq> 0 else listed L u a)"
  by (simp add: listed_def)

text \<open>Adding an entry for a sentinel the transaction did not lock.\<close>

lemma locks_inv_busy:
  assumes "locks_inv L m" "and st TXC_SENTINEL_ACQUIRED = 0"
  shows "locks_inv (L(t := L t @ [(a, st)])) (m(a := sn_busy (m a)))"
proof -
  have "listed (L(t := L t @ [(a, st)])) u b \<longleftrightarrow> listed L u b" for u b
    using assms(2) by (auto simp: listed_def)
  with assms(1) show ?thesis by (auto simp: locks_inv_def sn_busy_def)
qed

text \<open>Locking a free sentinel and entering it as acquired.\<close>

lemma locks_inv_lock:
  assumes "locks_inv L m" "\<not> sentinel_mutex (m a)" "and st TXC_SENTINEL_ACQUIRED \<noteq> 0"
    and "sentinel_mutex sn" "sn_owner sn = Some t" "\<not> synch_mutex sn"
  shows "locks_inv (L(t := L t @ [(a, st)])) (m(a := sn))"
proof -
  have l: "listed (L(t := L t @ [(a, st)])) u b \<longleftrightarrow> listed L u b \<or> (u = t \<and> b = a)" for u b
    using assms(3) by (auto simp: listed_def)
  have "\<not> listed L u a" for u using assms(1,2) by (auto simp: locks_inv_def)
  with assms(1,4-6) show ?thesis unfolding locks_inv_def l by auto
qed

text \<open>Releasing every sentinel of a transaction.\<close>

lemma locks_inv_release:
  assumes "locks_inv L m"
  shows "locks_inv (L(t := [])) (list_effect c (L t) m)"
proof -
  have l: "listed (L(t := [])) u b \<longleftrightarrow> u \<noteq> t \<and> listed L u b" for u b by (auto simp: listed_def)
  have mine: "(\<exists>st. (a, st) \<in> set (L t) \<and> and st TXC_SENTINEL_ACQUIRED \<noteq> 0) \<longleftrightarrow> listed L t a" for a
    by (simp add: listed_def)
  then have free: "(\<forall>st. (a, st) \<in> set (L t) \<longrightarrow> and st TXC_SENTINEL_ACQUIRED = 0) \<longleftrightarrow> \<not> listed L t a" for a
    by blast
  have "\<not> listed L t a" if "listed L u a" "u \<noteq> t" for u a
    using assms that unfolding locks_inv_def by (metis option.inject)
  moreover have "\<exists>u. u \<noteq> t \<and> listed L u a" if "sentinel_mutex (m a)" "\<not> listed L t a" for a
    using assms that unfolding locks_inv_def by metis
  ultimately show ?thesis
    using assms unfolding locks_inv_def l list_effect_mutex mine free by auto
qed


text \<open>Identifiers never change.\<close>

lemma proto_inv_ids:
  assumes "proto_inv A ph L m" "\<And>a. sn_id (m' a) = sn_id (m a)"
    and "locks_inv L' m'" "\<And>u. u \<noteq> t \<Longrightarrow> L' u = L u" "\<And>u. u \<noteq> t \<Longrightarrow> ph' u = ph u"
    and "thread_inv A (\<lambda>a. sn_id (m a)) (ph' t) (L' t)"
  shows "proto_inv A ph' L' m'"
proof -
  have "thread_inv A (\<lambda>a. sn_id (m a)) (ph' u) (L' u)" for u
    using assms(1,4,5,6) by (cases "u = t") (simp_all add: proto_inv_def)
  with assms(1,2,3) show ?thesis by (simp add: proto_inv_def)
qed

lemma sn_change_id [simp]: "sn_id (sn_busy sn) = sn_id sn" "sn_id (sn_acquired t sn) = sn_id sn"
  by (simp_all add: sn_busy_def sn_acquired_def)

lemma acquire_on_retry_bit: "and (acquire_on_retry flags) TXC_SENTINEL_ACQUIRED = 0"
  "and (or TXC_SENTINEL_ACQUIRED (acquire_on_retry flags)) TXC_SENTINEL_ACQUIRED \<noteq> 0"
  by (simp_all add: acquire_on_retry_def)

lemma not_enlisted:
  assumes "locks_inv L m" "thread_inv A ident ph (L t)" "ph \<noteq> Doomed" "sn_owner (m a) \<noteq> Some t"
  shows "a \<notin> fst ` set (L t)"
proof
  assume "a \<in> fst ` set (L t)"
  then obtain st where "(a, st) \<in> set (L t)" by auto
  with assms(2,3) have "listed L t a" by (force simp: thread_inv_def listed_def)
  with assms(1,4) show False by (auto simp: locks_inv_def)
qed

lemma tryacquire_trivial:
  assumes "txc_sentinel_tryacquire (Some t) (Some a) flags s = Ok r s'"
    and "sn_owner (sentinels s a) = Some t \<or> itm_mode s (itm_td (txds s t)) \<noteq> inRetryableTransaction"
  shows "s' = s"
  using assms
  by (auto simp: txc_sentinel_tryacquire_def txc_tx_get_xactstate_def tmsystem_get_xactstate_def sn_get_def
      txc_sentinel_is_enlisted_def txd_get_def prog_simps split: if_splits itm_howExecuting.splits)

lemma tryacquire_unlatched:
  assumes "txc_sentinel_tryacquire (Some t) (Some a) flags s = Ok r s'" "tx_ready 3 t s"
    "\<not> synch_mutex (sentinels s a)"
    and "sn_owner (sentinels s a) \<noteq> Some t" "itm_mode s (itm_td (txds s t)) = inRetryableTransaction"
  shows "r = (if sentinel_mutex (sentinels s a) then TXC_R_BUSYSENTINEL else TXC_R_SUCCESS) \<and>
    sentinels s' = (sentinels s)(a :=
      (if sentinel_mutex (sentinels s a) then sn_busy else sn_acquired t) (sentinels s a)) \<and>
    main_lists s' = (main_lists s)(t := main_lists s t @
      [(a, if sentinel_mutex (sentinels s a) then acquire_on_retry flags
           else or TXC_SENTINEL_ACQUIRED (acquire_on_retry flags))])"
proof -
  obtain s'' where "Ok r s' = Ok (if sentinel_mutex (sentinels s a) then TXC_R_BUSYSENTINEL else TXC_R_SUCCESS) s''"
    "sentinels s'' = (sentinels s)(a :=
      (if sentinel_mutex (sentinels s a) then sn_busy else sn_acquired t) (sentinels s a))"
    "sl_entries (sentinel_list (txds s'' t)) = sl_entries (sentinel_list (txds s t)) @
      [(a, if sentinel_mutex (sentinels s a) then acquire_on_retry flags
           else or TXC_SENTINEL_ACQUIRED (acquire_on_retry flags))]"
    "\<forall>u. u \<noteq> t \<longrightarrow> txds s'' u = txds s u"
    using acquire_retryable [of 0, simplified, OF assms(2,3), of flags] tryacquire_not_owner [OF assms(2,5,4,3), of flags] assms(1)
    by metis
  then show ?thesis by (auto simp: main_lists_def fun_eq_iff)
qed

lemma inv_attempt:
  assumes inv: "proto_inv A ph (main_lists s) (sentinels s)"
    and ph: "ph t = Running" "a \<in> A" and ready: "tx_ready 3 t s"
    and run: "txc_sentinel_tryacquire (Some t) (Some a) flags s = Ok r s'"
  shows "proto_inv A (ph(t := if r = TXC_R_BUSYSENTINEL then Doomed else Running)) (main_lists s') (sentinels s')"
proof (cases "sn_owner (sentinels s a) = Some t \<or> itm_mode s (itm_td (txds s t)) \<noteq> inRetryableTransaction")
  case True
  with tryacquire_trivial [OF run] have "s' = s" by simp
  moreover have "thread_inv A (\<lambda>a. sn_id (sentinels s a)) Running (main_lists s t)"
    using inv ph(1) by (auto simp: proto_inv_def dest: spec [of _ t])
  then have "thread_inv A (\<lambda>a. sn_id (sentinels s a)) p (main_lists s t)" if "p \<in> {Running, Doomed}" for p
    using that by (auto simp: thread_inv_def)
  ultimately show ?thesis
    using inv by (intro proto_inv_ids [OF inv, where t = t]) (simp_all add: proto_inv_def)
next
  case False
  let ?L = "main_lists s" and ?m = "sentinels s"
  have li: "locks_inv ?L ?m" and ti: "thread_inv A (\<lambda>a. sn_id (?m a)) Running (?L t)"
    using inv ph(1) by (auto simp: proto_inv_def dest: spec [of _ t])
  have fresh: "a \<notin> fst ` set (?L t)" using not_enlisted [OF li ti] False by simp
  have un: "\<not> synch_mutex (?m a)" using li by (simp add: locks_inv_def)
  note eff = tryacquire_unlatched [OF run ready un]
  show ?thesis
  proof (cases "sentinel_mutex (?m a)")
    case True
    with eff False have e: "r = TXC_R_BUSYSENTINEL" "sentinels s' = ?m(a := sn_busy (?m a))"
      "main_lists s' = ?L(t := ?L t @ [(a, acquire_on_retry flags)])" by auto
    show ?thesis
      by (rule proto_inv_ids [OF inv, where t = t])
        (use e ti fresh ph(2) locks_inv_busy [OF li acquire_on_retry_bit(1)] in \<open>auto simp: thread_inv_def\<close>)
  next
    case free: False
    with eff False have e: "r = TXC_R_SUCCESS" "sentinels s' = ?m(a := sn_acquired t (?m a))"
      "main_lists s' = ?L(t := ?L t @ [(a, or TXC_SENTINEL_ACQUIRED (acquire_on_retry flags))])" by auto
    have "locks_inv (main_lists s') (sentinels s')"
      unfolding e using locks_inv_lock [OF li free acquire_on_retry_bit(2)] by (simp add: sn_acquired_def)
    then show ?thesis
      by (intro proto_inv_ids [OF inv, where t = t])
        (use e ti fresh ph(2) acquire_on_retry_bit(2) in \<open>auto simp: thread_inv_def\<close>)
  qed
qed


lemma on_complete_partial:
  assumes "sentinelmgr_transaction_on_complete t s = Ok () s'"
  shows "sentinels s' = list_effect True (main_lists s t) (sentinels s)"
    "main_lists s' = (main_lists s)(t := [])"
proof -
  obtain s1 where 1: "sentinel_list_release (main_lists s t) True s = Ok () s1"
    "s' = s1\<lparr>txds := (txds s1)(t := (txds s1 t)\<lparr>sentinel_list := txc_sentinel_list_init (sentinel_list (txds s1 t)),
       sentinelmgr_undo_action_registered := False, sentinelmgr_commit_action_registered := False\<rparr>)\<rparr>"
    using assms by (auto simp: sentinelmgr_transaction_on_complete_def main_lists_def txd_get_def txd_set_def
        prog_simps split: outcome.splits)
  from list_release_partial [OF 1(1)] 1(2) show "sentinels s' = list_effect True (main_lists s t) (sentinels s)"
    "main_lists s' = (main_lists s)(t := [])"
    by (auto simp: main_lists_def fun_eq_iff txc_sentinel_list_init_def)
qed

lemma inv_complete:
  assumes inv: "proto_inv A ph (main_lists s) (sentinels s)"
    and run: "sentinelmgr_transaction_on_complete t s = Ok () s'"
  shows "proto_inv A (ph(t := Running)) (main_lists s') (sentinels s')"
  using inv locks_inv_release [of "main_lists s" "sentinels s" t True] on_complete_partial [OF run]
  by (intro proto_inv_ids [OF inv, where t = t]) (auto simp: proto_inv_def thread_inv_def list_effect_mutex)

lemma inv_restart:
  assumes inv: "proto_inv A ph (main_lists s) (sentinels s)"
    and ready: "tx_ready (2 * length (sl_entries (sentinel_list (txds s t)))) t s"
    and run: "before_retry_release t s = Ok () s'"
  shows "proto_inv A (ph(t := Waiting (sl_entries (sentinel_list_preacquire (txds s' t)))))
    (main_lists s') (sentinels s')"
proof -
  let ?es = "main_lists s t" and ?m = "sentinels s"
  have q: "sentinels s' = list_effect False ?es ?m" "main_lists s' = (main_lists s)(t := [])"
    "sl_entries (sentinel_list_preacquire (txds s' t)) = by_id ?m (marked ?es)"
    using before_retry_release_partial [OF ready run] by (auto simp: retry_queued_def main_lists_def fun_eq_iff)
  have ti: "thread_inv A (\<lambda>a. sn_id (?m a)) (ph t) ?es" and li: "locks_inv (main_lists s) ?m"
    using inv by (auto simp: proto_inv_def)
  have "fst ` set (marked ?es) \<subseteq> fst ` set ?es" by (force simp: marked_def)
  then have "thread_inv A (\<lambda>a. sn_id (?m a)) (Waiting (by_id ?m (marked ?es))) []"
    using ti by_id_sorted [of ?m "marked ?es"]
    by (auto simp: thread_inv_def by_id_distinct marked_distinct by_id_set comp_def)
  then show ?thesis
    using q locks_inv_release [OF li, of t False]
    by (intro proto_inv_ids [OF inv, where t = t]) (simp_all add: list_effect_mutex)
qed

lemma inv_acquire:
  assumes inv: "proto_inv A ph (main_lists s) (sentinels s)"
    and ph: "ph t = Waiting (e # es)" and ready: "tx_ready 1 t s" and run: "acquire_entry t e s = Ok () s'"
  shows "proto_inv A (ph(t := Waiting es)) (main_lists s') (sentinels s')"
proof -
  let ?L = "main_lists s" and ?m = "sentinels s"
  obtain a st where e: "e = (a, st)" by (cases e)
  have free: "\<not> sentinel_mutex (?m a)" using run e acquire_entry_busy [of s a t st] by auto
  have "tx_ready (Suc 0) t s" using ready by simp
  from acquire_entry_free [OF this free, of st] run e have
    q: "sentinels s' = ?m(a := relocked t (?m a))" "main_lists s' = ?L(t := ?L t @ [(a, 3)])"
    by (auto simp: main_lists_def fun_eq_iff)
  have ti: "thread_inv A (\<lambda>a. sn_id (?m a)) (Waiting (e # es)) (?L t)" and li: "locks_inv ?L ?m"
    using inv ph by (auto simp: proto_inv_def dest: spec [of _ t])
  then have "thread_inv A (\<lambda>a. sn_id (?m a)) (Waiting es) (?L t @ [(a, 3)])"
    using e by (auto simp: thread_inv_def sorted_append)
  moreover have "locks_inv (main_lists s') (sentinels s')"
    unfolding q by (rule locks_inv_lock [OF li free]) (use li in \<open>simp_all add: locks_inv_def\<close>)
  ultimately show ?thesis
    using q by (intro proto_inv_ids [OF inv, where t = t]) simp_all
qed

definition proto_ok :: "addr set \<Rightarrow> (addr \<Rightarrow> phase) \<times> 'z sentinel_state_scheme \<Rightarrow> bool" where
  "proto_ok A = (\<lambda>(ph, s). proto_inv A ph (main_lists s) (sentinels s))"

lemma proto_step_ok: "proto_step A c c' \<Longrightarrow> proto_ok A c \<Longrightarrow> proto_ok A c'"
proof (induction rule: proto_step.induct)
  case (attempt ph t a s flags r s')
  then show ?case using inv_attempt [of A ph s t a flags r s'] by (simp add: proto_ok_def)
next
  case (complete ph t s s')
  then show ?case by (auto simp: proto_ok_def intro: inv_complete)
next
  case (restart ph t s s')
  then show ?case by (auto simp: proto_ok_def intro: inv_restart)
next
  case (acquire ph t e es s s')
  then show ?case by (auto simp: proto_ok_def intro: inv_acquire)
next
  case (resume ph t s)
  then have inv: "proto_inv A ph (main_lists s) (sentinels s)" by (simp add: proto_ok_def)
  have "thread_inv A (\<lambda>a. sn_id (sentinels s a)) (Waiting []) (main_lists s t)"
    using inv resume.hyps by (auto simp: proto_inv_def dest: spec [of _ t])
  then have "thread_inv A (\<lambda>a. sn_id (sentinels s a)) Running (main_lists s t)" by (simp add: thread_inv_def)
  with inv show ?case
    by (auto simp: proto_ok_def proto_inv_def)
qed

lemma proto_reachable_ok: "proto_reachable A c \<Longrightarrow> proto_ok A c"
proof -
  assume "proto_reachable A c"
  then obtain c0 where 0: "proto_init A c0" "(proto_step A)\<^sup>*\<^sup>* c0 c" by (auto simp: proto_reachable_def)
  have "proto_ok A c0"
    using 0(1) by (auto simp: proto_init_def proto_ok_def proto_inv_def locks_inv_def thread_inv_def
        listed_def main_lists_def)
  with 0(2) show ?thesis by (induction rule: rtranclp_induct) (auto intro: proto_step_ok)
qed


section \<open>Ordered locking\<close>

text \<open>
  Threads that take locks in a strict order.  \<open>wants c t\<close> is the lock that a
  blocked thread waits for and \<open>holder c l t\<close> says that \<open>t\<close> has lock \<open>l\<close>.
\<close>

locale ordered_locking =
  fixes inv :: "'c \<Rightarrow> bool" and wants :: "'c \<Rightarrow> 't \<Rightarrow> 'l option"
    and holder :: "'c \<Rightarrow> 'l \<Rightarrow> 't \<Rightarrow> bool" and rank :: "'c \<Rightarrow> 'l \<Rightarrow> int"
  assumes in_order: "inv c \<Longrightarrow> holder c l u \<Longrightarrow> wants c u = Some m \<Longrightarrow> rank c l < rank c m"
    and finite_wants: "finite {l. \<exists>t. wants c t = Some l}"
begin

text \<open>Some wanted lock is not held by any thread that itself waits.\<close>

lemma some_can_proceed:
  assumes "inv c" "wants c t = Some l"
  shows "\<exists>u m. wants c u = Some m \<and> (\<forall>v. holder c m v \<longrightarrow> wants c v = None)"
proof -
  let ?W = "{l. \<exists>t. wants c t = Some l}"
  have "finite (rank c ` ?W)" "rank c ` ?W \<noteq> {}" using finite_wants assms(2) by auto
  then have "Max (rank c ` ?W) \<in> rank c ` ?W" by (rule Max_in)
  then obtain m where "m \<in> ?W" and max: "Max (rank c ` ?W) = rank c m" by (rule imageE)
  then obtain u where m: "wants c u = Some m" "rank c m = Max (rank c ` ?W)" by auto
  have "wants c v = None" if "holder c m v" for v
  proof (rule ccontr)
    assume "wants c v \<noteq> None"
    then obtain k where k: "wants c v = Some k" by auto
    then have "rank c k \<le> Max (rank c ` ?W)" by (intro Max_ge finite_imageI finite_wants imageI) auto
    with in_order [OF assms(1) that k] m(2) show False by simp
  qed
  with m(1) show ?thesis by blast
qed

end

definition sn_wants :: "(addr \<Rightarrow> phase) \<times> 'z sentinel_state_scheme \<Rightarrow> addr \<Rightarrow> addr option" where
  "sn_wants = (\<lambda>(ph, _) t. case ph t of Waiting (e # _) \<Rightarrow> Some (fst e) | _ \<Rightarrow> None)"

lemma sn_wants_iff: "sn_wants (ph, s) t = Some a \<longleftrightarrow> (\<exists>e es. ph t = Waiting (e # es) \<and> a = fst e)"
  by (auto simp: sn_wants_def split: phase.splits list.splits)

interpretation sn_lock: ordered_locking
  "proto_ok A" sn_wants "\<lambda>(_, s) a t. holds t a s" "\<lambda>(_, s) a. sn_id (sentinels s a)"
proof
  fix c :: "(addr \<Rightarrow> phase) \<times> 'z sentinel_state_scheme" and l u m
  assume ok: "proto_ok A c" and h: "(\<lambda>(_, s) a t. holds t a s) c l u" and w: "sn_wants c u = Some m"
  obtain ph s where c: "c = (ph, s)" by (cases c)
  obtain e es where ph: "ph u = Waiting (e # es)" and m: "m = fst e" using w c by (auto simp: sn_wants_iff)
  let ?i = "\<lambda>a. sn_id (sentinels s a)"
  have inj: "inj_on ?i A" and ti: "thread_inv A ?i (Waiting (e # es)) (main_lists s u)"
    using ok c ph by (auto simp: proto_ok_def proto_inv_def dest: spec [of _ u])
  obtain st where l: "(l, st) \<in> set (main_lists s u)" using h c by (auto simp: holds_listed listed_def)
  have "?i l \<le> ?i m" "l \<noteq> m" "l \<in> A" "m \<in> A"
    using ti l m by (auto simp: thread_inv_def sorted_append image_iff)
  with inj have "?i l < ?i m" by (metis inj_on_def order_le_less)
  then show "(\<lambda>(_, s) a. sn_id (sentinels s a)) c l < (\<lambda>(_, s) a. sn_id (sentinels s a)) c m"
    using c by simp
next
  show "finite {l. \<exists>t. sn_wants c t = Some l}" for c :: "(addr \<Rightarrow> phase) \<times> 'z sentinel_state_scheme"
    by simp
qed

text \<open>
  C5. However transactions interleave their attempts, completions and restarts,
  no two of them hold the same sentinel, and a sentinel that a transaction holds
  is locked and owned by it.
\<close>

theorem sentinels_mutually_exclusive:
  assumes "proto_reachable A (ph, s)" "holds t a s"
  shows "sentinel_mutex (sentinels s a) \<and> sn_owner (sentinels s a) = Some t \<and> (\<forall>u. holds u a s \<longrightarrow> u = t)"
proof -
  have "locks_inv (main_lists s) (sentinels s)"
    using proto_reachable_ok [OF assms(1)] by (simp add: proto_ok_def proto_inv_def)
  then have h: "sentinel_mutex (sentinels s a) \<and> sn_owner (sentinels s a) = Some u" if "holds u a s" for u
    using that by (simp add: locks_inv_def holds_listed)
  with assms(2) show ?thesis by (metis option.inject)
qed



section \<open>Witnesses of the protocol\<close>

definition idle_state :: sentinel_state where
  "idle_state = sample_sentinel_state\<lparr>sentinels := (\<lambda>a. free_sentinel (int (unat a)))\<rparr>"

lemma idle_reachable: "proto_reachable UNIV ((\<lambda>_. Running), idle_state)"
  unfolding proto_reachable_def
  by (rule exI [of _ "((\<lambda>_. Running), idle_state)"])
    (simp add: proto_init_def idle_state_def sample_sentinel_state_def sample_txd_def free_sentinel_def inj_on_def
      flip: word_uint_eq_iff)

lemma proto_reachable_step: "proto_reachable A c \<Longrightarrow> proto_step A c c' \<Longrightarrow> proto_reachable A c'"
  unfolding proto_reachable_def by (meson rtranclp.rtrancl_into_rtrancl)

lemma idle_acquire:
  "\<exists>s'. txc_sentinel_tryacquire (Some 256) (Some 4096) 2 idle_state = Ok TXC_R_SUCCESS s' \<and>
     sentinels s' = (sentinels idle_state)(4096 := sn_acquired 256 (free_sentinel 4096)) \<and>
     main_lists s' 256 = [(4096, 3)] \<and> pool_sentinel s' = sample_pool \<and>
     (\<forall>u. u \<noteq> 256 \<longrightarrow> txds s' u = sample_txd) \<and> tx_ready 2 256 s'"
proof -
  have r: "tx_ready (2 + 3) 256 idle_state" "tx_ready 3 256 idle_state"
    by (simp_all add: idle_state_def tx_ready_def sample_sentinel_state_def sample_txd_def list_ready_def sl_ready_def)
  have i: "itm_mode idle_state (itm_td (txds idle_state 256)) = inRetryableTransaction"
    "sn_owner (sentinels idle_state 4096) \<noteq> Some 256" "\<not> synch_mutex (sentinels idle_state 4096)"
    "\<not> sentinel_mutex (sentinels idle_state 4096)" "sentinels idle_state 4096 = free_sentinel 4096"
    "pool_sentinel idle_state = sample_pool" "txds idle_state = (\<lambda>_. sample_txd)"
    by (simp_all add: idle_state_def sample_sentinel_state_def free_sentinel_def)
  have "acquire_on_retry 2 = 2" "sl_entries (sentinel_list sample_txd) = []"
    by (simp_all add: acquire_on_retry_def sample_txd_def)
  with acquire_retryable [OF r(1) i(3), of 2] tryacquire_not_owner [OF r(2) i(1-3), of 2] i(4-7) show ?thesis
    by (auto simp: main_lists_def)
qed

theorem sentinels_mutually_exclusive_witness:
  "\<exists>s'. proto_reachable UNIV ((\<lambda>_. Running), s') \<and> holds 256 4096 (s' :: sentinel_state) \<and>
     sn_owner (sentinels s' 4096) = Some 256 \<and> \<not> holds 512 4096 s'"
proof -
  obtain s' where s': "txc_sentinel_tryacquire (Some 256) (Some 4096) 2 idle_state = Ok TXC_R_SUCCESS s'"
    "main_lists s' 256 = [(4096, 3)]" using idle_acquire by blast
  have "tx_ready 3 256 idle_state"
    by (simp add: idle_state_def tx_ready_def sample_sentinel_state_def sample_txd_def list_ready_def sl_ready_def)
  from proto_step.attempt [OF _ _ this s'(1), of "\<lambda>_. Running" UNIV]
  have "proto_step UNIV ((\<lambda>_. Running), idle_state) ((\<lambda>_. Running), s')"
    by (simp add: fun_upd_idem)
  then have r: "proto_reachable UNIV ((\<lambda>_. Running), s')" by (rule proto_reachable_step [OF idle_reachable])
  have h: "holds 256 4096 s'" using s'(2) by (simp add: holds_listed listed_def)
  note x = sentinels_mutually_exclusive [OF r h]
  have "\<not> holds 512 4096 s'"
  proof
    assume "holds 512 4096 s'"
    with x have "(512 :: addr) = 256" by blast
    then show False by simp
  qed
  with x r h show ?thesis by blast
qed


end
