(* ===== verification/Stats.thy ===== *)
theory Stats
  imports Sentinel Hash_Table
begin

text \<open>
  The statistics collector, \<^verbatim>\<open>src/src/core/stats.h\<close> and \<^verbatim>\<open>src/src/core/stats.c\<close>: the
  counters of a running transaction, the containers that accumulate them per
  atomic block and per thread when it commits, and the summary over all threads.
  The theory shows that after any series of commits every container holds the
  exact number, sum, minimum and maximum of what was recorded.
\<close>

section \<open>Data\<close>

datatype txc_stats_statentry_t =
    x_close_stat | x_create_stat | x_dup_stat | x_fdatasync_stat | x_fsync_stat
  | x_lseek_stat | x_open_stat | x_pipe_stat | x_printf_stat | x_read_stat
  | x_read_pipe_stat | x_recvmsg_stat | x_rename_stat | x_sendmsg_stat | x_socket_stat
  | x_unlink_stat | x_write_ovr_stat | x_write_ovr_ignore_stat | x_write_pipe_stat | x_write_seq_stat

record txc_stats_stat =
  stat_max :: u32
  stat_min :: u32
  stat_total :: u32

type_synonym stat_array = "txc_stats_statentry_t \<Rightarrow> txc_stats_stat"

text \<open>File, function and line; the strings are compared by address only.\<close>

type_synonym txc_tx_srcloc_t = "addr \<times> addr \<times> int"

record txc_stats_txstat =
  ts_srcloc_str :: addr
  ts_srcloc :: txc_tx_srcloc_t
  ts_count :: u32
  ts_stats :: stat_array

record txc_stats_threadstat =
  th_count :: u32
  th_stats :: stat_array
  th_tx_stats :: "addr txc_hash_table option"
  th_next :: "addr option"
  th_prev :: "addr option"
  th_txd :: addr

text \<open>
  The manager's fields, the memory of the statistics blocks, the stack variable
  \<^verbatim>\<open>summary\<close> of \<^verbatim>\<open>txc_stats_print\<close> and the allocator's answers, by the number of
  the call.
\<close>

record stats_state = sentinel_state +
  statsmgr_mutex :: bool
  alloc_threadstat_num :: u32
  alloc_threadstat_list_head :: "addr option"
  alloc_threadstat_list_tail :: "addr option"
  threadstats :: "addr \<Rightarrow> txc_stats_threadstat"
  txstats :: "addr \<Rightarrow> txc_stats_txstat"
  stats_summary :: txc_stats_threadstat
  malloc_answer :: "nat \<Rightarrow> addr option"
  malloc_calls :: nat

definition ts_set :: "addr \<Rightarrow> (txc_stats_txstat \<Rightarrow> txc_stats_txstat) \<Rightarrow> ('z stats_state_scheme, unit) prog" where
  "ts_set a f = modify (\<lambda>s. s\<lparr>txstats := (txstats s)(a := f (txstats s a))\<rparr>)"

definition th_set :: "addr \<Rightarrow> (txc_stats_threadstat \<Rightarrow> txc_stats_threadstat) \<Rightarrow> ('z stats_state_scheme, unit) prog" where
  "th_set a f = modify (\<lambda>s. s\<lparr>threadstats := (threadstats s)(a := f (threadstats s a))\<rparr>)"

definition MALLOC :: "('z stats_state_scheme, addr option) prog" where
  "MALLOC =
     bnd (gets (\<lambda>s. malloc_answer s (malloc_calls s))) (\<lambda>p.
     bnd (modify (\<lambda>s. s\<lparr>malloc_calls := Suc (malloc_calls s)\<rparr>)) (\<lambda>_.
     ret p))"

definition deref :: "'a option \<Rightarrow> ('s, 'a) prog" where
  [prog_simps]: "deref p = (case p of None \<Rightarrow> throw Undefined | Some a \<Rightarrow> ret a)"

section \<open>Probes\<close>

definition txc_stats_txstat_set :: "addr \<Rightarrow> txc_stats_statentry_t \<Rightarrow> u32 \<Rightarrow> ('z stats_state_scheme, unit) prog" where
  "txc_stats_txstat_set t entry val =
     bnd (txd_get t txstat) (\<lambda>a.
     ts_set a (\<lambda>x. x\<lparr>ts_stats := (ts_stats x)(entry := (ts_stats x entry)\<lparr>stat_total := val\<rparr>)\<rparr>))"

definition txc_stats_txstat_get :: "addr \<Rightarrow> txc_stats_statentry_t \<Rightarrow> ('z stats_state_scheme, u32) prog" where
  "txc_stats_txstat_get t entry =
     bnd (txd_get t txstat) (\<lambda>a.
     gets (\<lambda>s. stat_total (ts_stats (txstats s a) entry)))"

definition txc_stats_txstat_increment ::
  "addr \<Rightarrow> txc_stats_statentry_t \<Rightarrow> u32 \<Rightarrow> ('z stats_state_scheme, unit) prog" where
  "txc_stats_txstat_increment t entry val =
     bnd (gets (\<lambda>s. statistics (runtime_settings s))) (\<lambda>b.
     mwhen b (bnd (txc_stats_txstat_get t entry) (\<lambda>v. txc_stats_txstat_set t entry (v + val))))"

definition txc_stats_txstat_decrement ::
  "addr \<Rightarrow> txc_stats_statentry_t \<Rightarrow> u32 \<Rightarrow> ('z stats_state_scheme, unit) prog" where
  "txc_stats_txstat_decrement t entry val =
     bnd (gets (\<lambda>s. statistics (runtime_settings s))) (\<lambda>b.
     mwhen b (bnd (txc_stats_txstat_get t entry) (\<lambda>v. txc_stats_txstat_set t entry (v - val))))"

section \<open>The manager and the blocks\<close>

text \<open>\<open>p\<close> is the result of the \<^verbatim>\<open>MALLOC\<close> of the manager.\<close>

definition txc_statsmgr_create :: "addr option \<Rightarrow> ('z stats_state_scheme, txc_result_t) prog" where
  "txc_statsmgr_create p =
     (case p of
        None \<Rightarrow> ret TXC_R_NOMEMORY
      | Some _ \<Rightarrow>
          bnd (modify (\<lambda>s. s\<lparr>alloc_threadstat_num := 0, alloc_threadstat_list_head := None,
                            alloc_threadstat_list_tail := None, statsmgr_mutex := False\<rparr>)) (\<lambda>_.
          ret TXC_R_SUCCESS))"

text \<open>The blocks that are freed.\<close>

definition txc_statsmgr_destroy :: "('z stats_state_scheme, txc_result_t \<times> addr list) prog" where
  "txc_statsmgr_destroy =
     bnd (gets (\<lambda>s. walk (\<lambda>a. th_next (threadstats s a)) (alloc_threadstat_list_head s))) (\<lambda>w.
     bnd (loop_result w) (\<lambda>ths.
     ret (TXC_R_SUCCESS, ths)))"

definition new_stat :: txc_stats_stat where
  "new_stat = \<lparr>stat_max = 0, stat_min = 0xFFFFFFFF, stat_total = 0\<rparr>"

text \<open>
  A new block is linked at the tail of the list.  \<^verbatim>\<open>next\<close> is assigned only when
  the list was empty: otherwise it keeps what the memory held.
\<close>

definition threadstat_link :: "addr \<Rightarrow> ('z stats_state_scheme, unit) prog" where
  "threadstat_link th =
     bnd (gets alloc_threadstat_list_head) (\<lambda>head.
     bnd (gets alloc_threadstat_list_tail) (\<lambda>tail.
     if head = None then
       bnd (guard Assert_failed (tail = None)) (\<lambda>_.
       bnd (modify (\<lambda>s. s\<lparr>alloc_threadstat_list_head := Some th, alloc_threadstat_list_tail := Some th\<rparr>)) (\<lambda>_.
       th_set th (\<lambda>x. x\<lparr>th_next := None, th_prev := None\<rparr>)))
     else
       bnd (deref tail) (\<lambda>last.
       bnd (th_set last (\<lambda>x. x\<lparr>th_next := Some th\<rparr>)) (\<lambda>_.
       bnd (th_set th (\<lambda>x. x\<lparr>th_prev := Some last\<rparr>)) (\<lambda>_.
       modify (\<lambda>s. s\<lparr>alloc_threadstat_list_tail := Some th\<rparr>))))))"

text \<open>\<open>heap\<close> is the memory from which the buckets of the new hash table come.\<close>

definition txc_stats_threadstat_create ::
  "(addr \<Rightarrow> addr txc_hash_table_bucket) \<Rightarrow> addr \<Rightarrow> ('z stats_state_scheme, txc_result_t \<times> addr) prog" where
  "txc_stats_threadstat_create heap t =
     bnd MALLOC (\<lambda>p.
     bnd (txc_mutex_lock statsmgr_mutex (\<lambda>b s. s\<lparr>statsmgr_mutex := b\<rparr>)) (\<lambda>_.
     bnd (deref p) (\<lambda>th.
     bnd (threadstat_link th) (\<lambda>_.
     bnd (modify (\<lambda>s. s\<lparr>alloc_threadstat_num := alloc_threadstat_num s + 1\<rparr>)) (\<lambda>_.
     bnd (txc_mutex_unlock (\<lambda>b s. s\<lparr>statsmgr_mutex := b\<rparr>)) (\<lambda>_.
     bnd (th_set th (\<lambda>x. x\<lparr>th_count := 0, th_txd := t\<rparr>)) (\<lambda>_.
     bnd MALLOC (\<lambda>hp.
     bnd MALLOC (\<lambda>tbl0.
     bnd (th_set th (\<lambda>x. x\<lparr>th_tx_stats :=
            snd (txc_hash_table_create hp tbl0 heap 512 False)\<rparr>)) (\<lambda>_.
     bnd (th_set th (\<lambda>x. x\<lparr>th_stats := (\<lambda>_. new_stat)\<rparr>)) (\<lambda>_.
     ret (TXC_R_SUCCESS, th))))))))))))"

definition txc_stats_txstat_create :: "('z stats_state_scheme, txc_result_t \<times> addr) prog" where
  "txc_stats_txstat_create =
     bnd MALLOC (\<lambda>p.
     bnd (deref p) (\<lambda>a.
     bnd (ts_set a (\<lambda>x. x\<lparr>ts_count := 0\<rparr>)) (\<lambda>_.
     ret (TXC_R_SUCCESS, a))))"

text \<open>The freed block and the caller's pointer after the call.\<close>

definition txc_stats_txstat_destroy :: "addr option \<Rightarrow> txc_result_t \<times> addr option \<times> addr option" where
  "txc_stats_txstat_destroy p = (TXC_R_SUCCESS, p, None)"

definition stats_txstat_reset :: "addr \<Rightarrow> ('z stats_state_scheme, unit) prog" where
  "stats_txstat_reset a = ts_set a (\<lambda>x. x\<lparr>ts_stats := (\<lambda>_. new_stat)\<rparr>)"

definition txc_stats_txstat_init ::
  "addr \<Rightarrow> addr \<Rightarrow> txc_tx_srcloc_t \<Rightarrow> ('z stats_state_scheme, txc_result_t) prog" where
  "txc_stats_txstat_init a srcloc_str srcloc =
     bnd (gets (\<lambda>s. statistics (runtime_settings s))) (\<lambda>b.
     bnd (mwhen b
       (bnd (ts_set a (\<lambda>x. x\<lparr>ts_count := 1, ts_srcloc_str := srcloc_str, ts_srcloc := srcloc\<rparr>)) (\<lambda>_.
        stats_txstat_reset a))) (\<lambda>_.
     ret TXC_R_SUCCESS))"

section \<open>Containers\<close>

text \<open>The table of a thread's block, or of the summary.\<close>

datatype table_ref = Thread_table addr | Summary_table

fun get_table :: "table_ref \<Rightarrow> 'z stats_state_scheme \<Rightarrow> addr txc_hash_table option" where
  "get_table (Thread_table th) s = th_tx_stats (threadstats s th)"
| "get_table Summary_table s = th_tx_stats (stats_summary s)"

fun put_table :: "table_ref \<Rightarrow> addr txc_hash_table \<Rightarrow> 'z stats_state_scheme \<Rightarrow> 'z stats_state_scheme" where
  "put_table (Thread_table th) h s =
     s\<lparr>threadstats := (threadstats s)(th := (threadstats s th)\<lparr>th_tx_stats := Some h\<rparr>)\<rparr>"
| "put_table Summary_table h s = s\<lparr>stats_summary := (stats_summary s)\<lparr>th_tx_stats := Some h\<rparr>\<rparr>"

definition on_table :: "table_ref \<Rightarrow> (addr txc_hash_table, 'a) prog \<Rightarrow> ('z stats_state_scheme, 'a) prog" where
  "on_table r m s =
     (case get_table r s of
        None \<Rightarrow> Fault Undefined s
      | Some h \<Rightarrow> (case m h of Ok a h' \<Rightarrow> Ok a (put_table r h' s) | Fault e h' \<Rightarrow> Fault e (put_table r h' s)))"

definition stats_get_txstat_container :: "table_ref \<Rightarrow> addr \<Rightarrow> ('z stats_state_scheme, addr) prog" where
  "stats_get_txstat_container r a =
     bnd (gets (\<lambda>s. ts_srcloc_str (txstats s a))) (\<lambda>key.
     bnd (on_table r (txc_hash_table_lookup key)) (\<lambda>(result, v).
     if result = TXC_R_SUCCESS then deref v
     else
       bnd MALLOC (\<lambda>p.
       bnd (deref p) (\<lambda>c.
       bnd (stats_txstat_reset c) (\<lambda>_.
       bnd (ts_set c (\<lambda>x. x\<lparr>ts_count := 0\<rparr>)) (\<lambda>_.
       bnd (gets (\<lambda>s. txstats s a)) (\<lambda>src.
       bnd (ts_set c (\<lambda>x. x\<lparr>ts_srcloc_str := ts_srcloc_str src, ts_srcloc := ts_srcloc src\<rparr>)) (\<lambda>_.
       bnd MALLOC (\<lambda>b.
       bnd (on_table r (txc_hash_table_add b key c)) (\<lambda>_.
       ret c))))))))))"

text \<open>Adding one value, or another counter, to a counter.\<close>

definition stat_collect :: "txc_stats_stat \<Rightarrow> u32 \<Rightarrow> txc_stats_stat" where
  "stat_collect st x =
     st\<lparr>stat_total := stat_total st + x,
        stat_min := (if stat_min st < x then stat_min st else x),
        stat_max := (if stat_max st > x then stat_max st else x)\<rparr>"

definition stat_merge :: "txc_stats_stat \<Rightarrow> txc_stats_stat \<Rightarrow> txc_stats_stat" where
  "stat_merge st x =
     st\<lparr>stat_total := stat_total st + stat_total x,
        stat_min := (if stat_min st < stat_min x then stat_min st else stat_min x),
        stat_max := (if stat_max st > stat_max x then stat_max st else stat_max x)\<rparr>"

section \<open>Commit and undo\<close>

definition statsmgr_commit_action :: "addr \<Rightarrow> ('z stats_state_scheme, int) prog" where
  "statsmgr_commit_action t =
     bnd (txd_get t txstat) (\<lambda>a.
     bnd (txd_get t threadstat) (\<lambda>th.
     bnd (stats_get_txstat_container (Thread_table th) a) (\<lambda>c.
     bnd (ts_set c (\<lambda>x. x\<lparr>ts_count := ts_count x + 1\<rparr>)) (\<lambda>_.
     bnd (gets (\<lambda>s. txstats s a)) (\<lambda>one.
     bnd (ts_set c (\<lambda>x. x\<lparr>ts_stats := (\<lambda>i. stat_collect (ts_stats x i) (stat_total (ts_stats one i)))\<rparr>)) (\<lambda>_.
     bnd (th_set th (\<lambda>x. x\<lparr>th_count := th_count x + 1\<rparr>)) (\<lambda>_.
     bnd (th_set th (\<lambda>x. x\<lparr>th_stats := (\<lambda>i. stat_collect (th_stats x i) (stat_total (ts_stats one i)))\<rparr>)) (\<lambda>_.
     ret 0))))))))"

definition statsmgr_undo_action :: "addr \<Rightarrow> ('z stats_state_scheme, int) prog" where
  "statsmgr_undo_action t =
     bnd (txd_get t txstat) (\<lambda>a.
     bnd (stats_txstat_reset a) (\<lambda>_.
     ret 0))"

definition register_statsmgr_commit_action :: "addr \<Rightarrow> ('z tx_state_scheme, unit) prog" where
  "register_statsmgr_commit_action t =
     bnd (txd_get t statsmgr_commit_action_registered) (\<lambda>registered.
     mwhen (\<not> registered)
       (bnd (txc_tx_register_commit_action t (Act_statsmgr_commit t) None TXC_STATSMGR_COMMIT_ACTION_ORDER) (\<lambda>_.
        txd_set t (\<lambda>d. d\<lparr>statsmgr_commit_action_registered := True\<rparr>))))"

definition register_statsmgr_undo_action :: "addr \<Rightarrow> ('z tx_state_scheme, unit) prog" where
  "register_statsmgr_undo_action t =
     bnd (txd_get t statsmgr_undo_action_registered) (\<lambda>registered.
     mwhen (\<not> registered)
       (bnd (txc_tx_register_undo_action t (Act_statsmgr_undo t) None TXC_STATSMGR_UNDO_ACTION_ORDER) (\<lambda>_.
        txd_set t (\<lambda>d. d\<lparr>statsmgr_undo_action_registered := True\<rparr>))))"

definition txc_stats_transaction_postbegin :: "addr \<Rightarrow> ('z tx_state_scheme, unit) prog" where
  "txc_stats_transaction_postbegin t =
     bnd (gets (\<lambda>s. statistics (runtime_settings s))) (\<lambda>b.
     mwhen b
       (bnd (register_statsmgr_commit_action t) (\<lambda>_.
        register_statsmgr_undo_action t)))"

section \<open>The report\<close>

text \<open>
  What the report shows of a block of counters: its source location if it is
  printed, the number of transactions and the counters.  The text layout and
  the printed mean are left out.
\<close>

type_synonym stat_lines = "txc_tx_srcloc_t option \<times> u32 \<times> stat_array"

definition stats_txstat_print :: "txc_stats_txstat \<Rightarrow> bool \<Rightarrow> stat_lines" where
  "stats_txstat_print x print_srcloc =
     (if print_srcloc then Some (ts_srcloc x) else None, ts_count x, ts_stats x)"

definition table_values :: "addr txc_hash_table option \<Rightarrow> ('s, addr list) prog" where
  "table_values p =
     bnd (deref p) (\<lambda>h.
     bnd (loop_result (iter_collect h (txc_hash_table_iter_init h))) (\<lambda>es.
     bnd (guard Undefined (\<forall>e \<in> set es. snd e \<noteq> None)) (\<lambda>_.
     ret (map (\<lambda>e. the (snd e)) es))))"

definition stats_threadstat_print :: "addr \<Rightarrow> ('z stats_state_scheme, u32 \<times> stat_lines \<times> stat_lines list) prog" where
  "stats_threadstat_print th =
     bnd (gets (\<lambda>s. threadstats s th)) (\<lambda>x.
     bnd (txd_get (th_txd x) tid) (\<lambda>n.
     bnd (table_values (th_tx_stats x)) (\<lambda>cs.
     bnd (gets txstats) (\<lambda>m.
     ret (n, (None, th_count x, th_stats x), map (\<lambda>c. stats_txstat_print (m c) True) cs)))))"

definition summarize_entry :: "addr \<Rightarrow> ('z stats_state_scheme, unit) prog" where
  "summarize_entry a =
     bnd (stats_get_txstat_container Summary_table a) (\<lambda>c.
     bnd (gets (\<lambda>s. txstats s a)) (\<lambda>x.
     bnd (ts_set c (\<lambda>y. y\<lparr>ts_count := ts_count y + ts_count x\<rparr>)) (\<lambda>_.
     bnd (modify (\<lambda>s. s\<lparr>stats_summary := (stats_summary s)\<lparr>th_count := th_count (stats_summary s) + ts_count x\<rparr>\<rparr>)) (\<lambda>_.
     bnd (ts_set c (\<lambda>y. y\<lparr>ts_stats := (\<lambda>i. stat_merge (ts_stats y i) (ts_stats x i))\<rparr>)) (\<lambda>_.
     modify (\<lambda>s. s\<lparr>stats_summary := (stats_summary s)\<lparr>th_stats :=
       (\<lambda>i. stat_merge (th_stats (stats_summary s) i) (ts_stats x i))\<rparr>\<rparr>))))))"

definition thread_list :: "('z stats_state_scheme, addr list) prog" where
  "thread_list =
     bnd (gets (\<lambda>s. walk (\<lambda>a. th_next (threadstats s a)) (alloc_threadstat_list_head s))) loop_result"

definition stats_summarize_all :: "('z stats_state_scheme, unit) prog" where
  "stats_summarize_all =
     bnd thread_list (\<lambda>ths.
     for_each ths (\<lambda>th.
       bnd (gets (\<lambda>s. th_tx_stats (threadstats s th))) (\<lambda>p.
       bnd (table_values p) (\<lambda>cs.
       for_each cs summarize_entry))))"

text \<open>
  \<open>fopen_ok\<close> says whether the statistics file could be opened; the code does not
  check.  The result is \<open>None\<close> when statistics are switched off, and otherwise the
  sections per thread, per transaction and for the grand total.
\<close>

definition txc_stats_print ::
  "bool \<Rightarrow> (addr \<Rightarrow> addr txc_hash_table_bucket) \<Rightarrow>
   ('z stats_state_scheme, ((u32 \<times> stat_lines \<times> stat_lines list) list \<times> stat_lines list \<times> stat_lines) option) prog" where
  "txc_stats_print fopen_ok heap =
     bnd (gets (\<lambda>s. statistics (runtime_settings s))) (\<lambda>b.
     if \<not> b then ret None
     else
       bnd (guard Undefined fopen_ok) (\<lambda>_.
       bnd thread_list (\<lambda>ths.
       bnd (map_prog stats_threadstat_print ths) (\<lambda>sections.
       bnd MALLOC (\<lambda>hp.
       bnd MALLOC (\<lambda>tbl0.
       bnd (modify (\<lambda>s. s\<lparr>stats_summary := (stats_summary s)\<lparr>
              th_tx_stats := snd (txc_hash_table_create hp tbl0 heap 512 False),
              th_stats := (\<lambda>_. \<lparr>stat_max = 0, stat_min = 0, stat_total = 0\<rparr>), th_count := 0\<rparr>\<rparr>)) (\<lambda>_.
       bnd stats_summarize_all (\<lambda>_.
       bnd (gets stats_summary) (\<lambda>sum.
       bnd (table_values (th_tx_stats sum)) (\<lambda>cs.
       bnd (gets txstats) (\<lambda>m.
       ret (Some (sections, map (\<lambda>c. stats_txstat_print (m c) True) cs,
                  (None, th_count sum, th_stats sum))))))))))))))"

section \<open>Exactness of the counters\<close>

text \<open>The number, sum, minimum and maximum of a list of recorded values.\<close>

definition summary_of :: "u32 list \<Rightarrow> txc_stats_stat" where
  "summary_of xs = \<lparr>stat_max = fold max xs 0, stat_min = fold min xs 0xFFFFFFFF, stat_total = sum_list xs\<rparr>"

lemma summary_of_Nil: "summary_of [] = new_stat"
  by (simp add: summary_of_def new_stat_def)

lemma stat_collect_summary: "stat_collect (summary_of xs) x = summary_of (xs @ [x])"
proof -
  have "(if m > x then m else x) = max x m" "(if m < x then m else x) = min x m" for m :: u32
    by (auto simp: max_def min_def)
  then show ?thesis by (simp add: stat_collect_def summary_of_def)
qed

lemma stat_collect_new: "stat_collect new_stat x = summary_of [x]"
  using stat_collect_summary [of "[]" x] by (simp add: summary_of_Nil)

text \<open>What a thread committed: the key of the atomic block and the recorded values, in order.\<close>

type_synonym stat_log = "(addr \<times> (txc_stats_statentry_t \<Rightarrow> u32)) list"

definition log_of :: "addr \<Rightarrow> stat_log \<Rightarrow> stat_log" where
  "log_of k l = filter (\<lambda>e. fst e = k) l"

definition container_rep :: "txc_stats_txstat \<Rightarrow> stat_log \<Rightarrow> bool" where
  "container_rep x l \<longleftrightarrow> ts_count x = of_nat (length l) \<and>
     (\<forall>i. ts_stats x i = summary_of (map (\<lambda>e. snd e i) l))"

definition stats_rep :: "addr \<Rightarrow> stat_log \<Rightarrow> 'z stats_state_scheme \<Rightarrow> bool" where
  "stats_rep th l s \<longleftrightarrow>
     th_count (threadstats s th) = of_nat (length l) \<and>
     (\<forall>i. th_stats (threadstats s th) i = summary_of (map (\<lambda>e. snd e i) l)) \<and>
     (\<exists>h. th_tx_stats (threadstats s th) = Some h \<and> ht_ok h \<and> dom (ht_map h) = fst ` set l \<and>
        inj_on (ht_map h) (dom (ht_map h)) \<and>
        (\<forall>k c. ht_map h k = Some c \<longrightarrow> container_rep (txstats s c) (log_of k l)))"

text \<open>The blocks that the next two allocations return are not in use.\<close>

definition malloc_fresh :: "addr \<Rightarrow> addr \<Rightarrow> 'z stats_state_scheme \<Rightarrow> bool" where
  "malloc_fresh th a s \<longleftrightarrow>
     (\<exists>c b h. malloc_answer s (malloc_calls s) = Some c \<and> malloc_answer s (Suc (malloc_calls s)) = Some b \<and>
        th_tx_stats (threadstats s th) = Some h \<and>
        c \<noteq> a \<and> Some c \<notin> range (ht_map h) \<and> Some a \<notin> range (ht_map h) \<and> b \<notin> ht_buckets h)"

lemma container_rep_collect:
  assumes "container_rep x l"
  shows "container_rep (x\<lparr>ts_count := ts_count x + 1,
     ts_stats := (\<lambda>i. stat_collect (ts_stats x i) (v i))\<rparr>) (l @ [(k, v)])"
  using assms by (simp add: container_rep_def stat_collect_summary)

lemma container_found:
  assumes "th_tx_stats (threadstats s th) = Some h" "ht_ok h" "ht_map h (ts_srcloc_str (txstats s a)) = Some c"
  shows "stats_get_txstat_container (Thread_table th) a s = Ok c s"
proof -
  have "th_tx_stats_update (\<lambda>_. Some h) (threadstats s th) = threadstats s th"
    using assms(1) by (cases "threadstats s th") simp
  then have "put_table (Thread_table th) h s = s" by (simp add: fun_upd_idem)
  with assms ht.lookup [OF assms(2), of "ts_srcloc_str (txstats s a)"] show ?thesis
    by (simp add: stats_get_txstat_container_def on_table_def prog_simps del: put_table.simps)
qed

lemma container_new:
  assumes "th_tx_stats (threadstats s th) = Some h" "ht_ok h" "ht_map h (ts_srcloc_str (txstats s a)) = None"
    and "malloc_answer s (malloc_calls s) = Some c" "malloc_answer s (Suc (malloc_calls s)) = Some b"
    and "c \<noteq> a" "b \<notin> ht_buckets h"
  shows "\<exists>h'. stats_get_txstat_container (Thread_table th) a s = Ok c
      (s\<lparr>malloc_calls := malloc_calls s + 2,
         txstats := (txstats s)(c := (txstats s c)\<lparr>ts_stats := (\<lambda>_. new_stat), ts_count := 0,
           ts_srcloc_str := ts_srcloc_str (txstats s a), ts_srcloc := ts_srcloc (txstats s a)\<rparr>),
         threadstats := (threadstats s)(th := (threadstats s th)\<lparr>th_tx_stats := Some h'\<rparr>)\<rparr>) \<and>
    ht_ok h' \<and> ht_map h' = (ht_map h)(ts_srcloc_str (txstats s a) \<mapsto> c)"
proof -
  let ?k = "ts_srcloc_str (txstats s a)"
  have same: "th_tx_stats_update (\<lambda>_. Some h) (threadstats s th) = threadstats s th"
    using assms(1) by (cases "threadstats s th") simp
  then have put: "put_table (Thread_table th) h s = s" by (simp add: fun_upd_idem)
  obtain h' where h': "txc_hash_table_add (Some b) ?k c h = Ok TXC_R_SUCCESS h'" "ht_ok h'"
    "ht_map h' = (ht_map h)(?k \<mapsto> c)"
    using ht.add_new [OF assms(2,3), of "Some b"] assms(7) by (auto simp: ht_fresh_def)
  have l: "on_table (Thread_table th) (txc_hash_table_lookup ?k) s = Ok (TXC_R_NOTEXISTS, None) s"
    using assms(1,3) ht.lookup [OF assms(2), of ?k] put by (simp add: on_table_def del: put_table.simps)
  have "stats_get_txstat_container (Thread_table th) a s = Ok c
      (s\<lparr>malloc_calls := malloc_calls s + 2,
         txstats := (txstats s)(c := (txstats s c)\<lparr>ts_stats := (\<lambda>_. new_stat), ts_count := 0,
           ts_srcloc_str := ?k, ts_srcloc := ts_srcloc (txstats s a)\<rparr>),
         threadstats := (threadstats s)(th := (threadstats s th)\<lparr>th_tx_stats := Some h'\<rparr>)\<rparr>)"
    using assms l h'(1)
    by (simp add: stats_get_txstat_container_def bnd_def gets_def MALLOC_def modify_def ret_def deref_def
        stats_txstat_reset_def ts_set_def on_table_def)
  with h'(2,3) show ?thesis by blast
qed

text \<open>The part of the commit action after the container is found.\<close>

lemma commit_action_collect:
  assumes "stats_get_txstat_container (Thread_table (threadstat (txds s t))) (txstat (txds s t)) s = Ok c s1"
    and "txds s1 = txds s" "c \<noteq> txstat (txds s t)"
  shows "statsmgr_commit_action t s = Ok 0 (s1\<lparr>
      txstats := (txstats s1)(c := (txstats s1 c)\<lparr>ts_count := ts_count (txstats s1 c) + 1,
        ts_stats := (\<lambda>i. stat_collect (ts_stats (txstats s1 c) i) (stat_total (ts_stats (txstats s1 (txstat (txds s t))) i)))\<rparr>),
      threadstats := (threadstats s1)(threadstat (txds s t) := (threadstats s1 (threadstat (txds s t)))\<lparr>
        th_count := th_count (threadstats s1 (threadstat (txds s t))) + 1,
        th_stats := (\<lambda>i. stat_collect (th_stats (threadstats s1 (threadstat (txds s t))) i)
          (stat_total (ts_stats (txstats s1 (txstat (txds s t))) i)))\<rparr>)\<rparr>)"
  using assms by (simp add: statsmgr_commit_action_def txd_get_def bnd_def gets_def ts_set_def th_set_def
      modify_def ret_def)


lemma stats_repD:
  assumes "stats_rep th l s" and tbl: "th_tx_stats (threadstats s th) = Some h"
  shows "th_tx_stats (threadstats s th) = Some h" "ht_ok h" "dom (ht_map h) = fst ` set l"
    "inj_on (ht_map h) (dom (ht_map h))"
    "\<And>k c. ht_map h k = Some c \<Longrightarrow> container_rep (txstats s c) (log_of k l)"
    "th_count (threadstats s th) = of_nat (length l)"
    "\<And>i. th_stats (threadstats s th) i = summary_of (map (\<lambda>e. snd e i) l)"
  using assms by (auto simp: stats_rep_def)

lemma log_of_snoc: "log_of k (l @ [(k', v)]) = log_of k l @ (if k = k' then [(k', v)] else [])"
  by (simp add: log_of_def)

text \<open>A transaction at a source location that has committed before, and one at a new location.\<close>

lemma commit_known_location:
  assumes rep: "stats_rep th l s" and fresh: "malloc_fresh th a s"
    and txd: "txstat (txds s t) = a" "threadstat (txds s t) = th"
    and tbl: "th_tx_stats (threadstats s th) = Some h" and Some: "ht_map h (ts_srcloc_str (txstats s a)) = Some c"
  shows "\<exists>s'. statsmgr_commit_action t s = Ok 0 s' \<and> txds s' = txds s \<and>
    stats_rep th (l @ [(ts_srcloc_str (txstats s a), \<lambda>i. stat_total (ts_stats (txstats s a) i))]) s'"
proof -
  let ?k = "ts_srcloc_str (txstats s a)" and ?v = "\<lambda>i. stat_total (ts_stats (txstats s a) i)"
  let ?l = "l @ [(?k, ?v)]"
  note h = stats_repD [OF rep tbl] and log = log_of_snoc [of _ l ?k ?v]
  have ca: "c \<noteq> a" using fresh h(1) Some by (auto simp: malloc_fresh_def) (metis rangeI)
  have found: "stats_get_txstat_container (Thread_table th) a s = Ok c s"
    by (rule container_found [OF h(1,2) Some])
  let ?x = "(txstats s c)\<lparr>ts_count := ts_count (txstats s c) + 1,
    ts_stats := (\<lambda>i. stat_collect (ts_stats (txstats s c) i) (?v i))\<rparr>"
  let ?y = "(threadstats s th)\<lparr>th_count := th_count (threadstats s th) + 1,
    th_stats := (\<lambda>i. stat_collect (th_stats (threadstats s th) i) (?v i))\<rparr>"
  let ?s' = "s\<lparr>txstats := (txstats s)(c := ?x), threadstats := (threadstats s)(th := ?y)\<rparr>"
  have run: "statsmgr_commit_action t s = Ok 0 ?s'"
    using commit_action_collect [of s t c s] found ca txd by simp
  have "container_rep (txstats ?s' d) (log_of k ?l)" if "ht_map h k = Some d" for k d
  proof (cases "d = c")
    case True
    then have "k = ?k" using h(4) Some that by (auto simp: inj_on_def dom_def)
    with True container_rep_collect [OF h(5) [OF Some], of ?v ?k] show ?thesis by (simp add: log)
  next
    case False
    then have "k \<noteq> ?k" using Some that by auto
    with False h(5) [OF that] show ?thesis by (simp add: log)
  qed
  moreover have "?k \<in> fst ` set l" using h(3) Some by (metis domI)
  ultimately have "stats_rep th ?l ?s'"
    using h(1-4,6,7) by (simp add: stats_rep_def stat_collect_summary insert_absorb)
  with run show ?thesis by (intro exI [of _ ?s']) simp
qed

lemma commit_new_location:
  assumes rep: "stats_rep th l s" and fresh: "malloc_fresh th a s"
    and txd: "txstat (txds s t) = a" "threadstat (txds s t) = th"
    and tbl: "th_tx_stats (threadstats s th) = Some h" and None: "ht_map h (ts_srcloc_str (txstats s a)) = None"
  shows "\<exists>s'. statsmgr_commit_action t s = Ok 0 s' \<and> txds s' = txds s \<and>
    stats_rep th (l @ [(ts_srcloc_str (txstats s a), \<lambda>i. stat_total (ts_stats (txstats s a) i))]) s'"
proof -
  let ?k = "ts_srcloc_str (txstats s a)" and ?v = "\<lambda>i. stat_total (ts_stats (txstats s a) i)"
  let ?l = "l @ [(?k, ?v)]"
  note h = stats_repD [OF rep tbl] and log = log_of_snoc [of _ l ?k ?v]
  obtain c b where m: "malloc_answer s (malloc_calls s) = Some c" "malloc_answer s (Suc (malloc_calls s)) = Some b"
    "c \<noteq> a" "Some c \<notin> range (ht_map h)" "b \<notin> ht_buckets h"
    using fresh h(1) by (auto simp: malloc_fresh_def)
  obtain h' where n: "stats_get_txstat_container (Thread_table th) a s = Ok c
      (s\<lparr>malloc_calls := malloc_calls s + 2,
         txstats := (txstats s)(c := (txstats s c)\<lparr>ts_stats := (\<lambda>_. new_stat), ts_count := 0,
           ts_srcloc_str := ?k, ts_srcloc := ts_srcloc (txstats s a)\<rparr>),
         threadstats := (threadstats s)(th := (threadstats s th)\<lparr>th_tx_stats := Some h'\<rparr>)\<rparr>)"
    "ht_ok h'" "ht_map h' = (ht_map h)(?k \<mapsto> c)"
    using container_new [OF h(1,2) None m(1,2,3,5)] by blast
  let ?x0 = "(txstats s c)\<lparr>ts_stats := (\<lambda>_. new_stat), ts_count := 0,
    ts_srcloc_str := ?k, ts_srcloc := ts_srcloc (txstats s a)\<rparr>"
  let ?x = "?x0\<lparr>ts_count := ts_count ?x0 + 1, ts_stats := (\<lambda>i. stat_collect (ts_stats ?x0 i) (?v i))\<rparr>"
  let ?y = "(threadstats s th)\<lparr>th_tx_stats := Some h', th_count := th_count (threadstats s th) + 1,
    th_stats := (\<lambda>i. stat_collect (th_stats (threadstats s th) i) (?v i))\<rparr>"
  let ?s' = "s\<lparr>malloc_calls := malloc_calls s + 2, txstats := (txstats s)(c := ?x),
    threadstats := (threadstats s)(th := ?y)\<rparr>"
  have run: "statsmgr_commit_action t s = Ok 0 ?s'"
    using commit_action_collect [OF n(1) [folded txd]] m(3) txd by simp
  have "log_of ?k l = []" using None h(3) by (force simp: log_of_def filter_empty_conv dom_def)
  then have new: "container_rep ?x (log_of ?k ?l)"
    using container_rep_collect [of ?x0 "[]" ?v ?k] by (simp add: container_rep_def log summary_of_Nil stat_collect_new)
  have "container_rep (txstats ?s' d) (log_of k ?l)" if "ht_map h' k = Some d" for k d
  proof (cases "k = ?k")
    case True
    with that n(3) have "d = c" by simp
    with True new show ?thesis by simp
  next
    case False
    with that n(3) have "ht_map h k = Some d" by simp
    moreover from this have "d \<noteq> c" using m(4) by (metis rangeI)
    ultimately show ?thesis using False h(5) [of k d] by (simp add: log)
  qed
  moreover have "inj_on (ht_map h') (dom (ht_map h'))"
    unfolding n(3) using h(4) m(4) by (auto simp: inj_on_def) (metis rangeI)+
  moreover have "dom (ht_map h') = fst ` set ?l" unfolding n(3) using h(3) by auto
  ultimately have "stats_rep th ?l ?s'"
    using n(2) h(6,7) by (simp add: stats_rep_def stat_collect_summary)
  with run show ?thesis by (intro exI [of _ ?s']) simp
qed

text \<open>
  C30. Committing a transaction records it exactly: if a thread's blocks hold the
  number, sum (modulo \<open>2^32\<close>), minimum and maximum of every counter over the
  committed transactions, per atomic block and in total, then they do so after
  the commit action with the new transaction added.
\<close>

theorem commit_statistics_exact:
  assumes rep: "stats_rep th l s" and fresh: "malloc_fresh th a s"
    and txd: "txstat (txds s t) = a" "threadstat (txds s t) = th"
  shows "\<exists>s'. statsmgr_commit_action t s = Ok 0 s' \<and> txds s' = txds s \<and>
    stats_rep th (l @ [(ts_srcloc_str (txstats s a), \<lambda>i. stat_total (ts_stats (txstats s a) i))]) s'"
proof -
  obtain h where h: "th_tx_stats (threadstats s th) = Some h" using rep by (auto simp: stats_rep_def)
  show ?thesis
    using commit_known_location [OF rep fresh txd h] commit_new_location [OF rep fresh txd h]
    by (cases "ht_map h (ts_srcloc_str (txstats s a))") auto
qed


section \<open>The grand total\<close>

definition zero_min :: "'z stats_state_scheme \<Rightarrow> bool" where
  "zero_min s \<longleftrightarrow> (\<forall>i. stat_min (th_stats (stats_summary s) i) = 0)"

lemma wp_on_table_summary:
  assumes "zero_min s"
  shows "wp (on_table Summary_table m) (\<lambda>_. zero_min) (\<lambda>_ _. True) s"
  using assms by (auto simp: wp_def on_table_def zero_min_def split: option.splits outcome.splits)

lemma wp_forget: "(\<And>a u. wp (f a) Q (\<lambda>_ _. True) u) \<Longrightarrow> wp (bnd m f) Q (\<lambda>_ _. True) s"
  unfolding wp_bnd by (auto simp: wp_def split: outcome.split)

lemma zero_min_updates:
  "zero_min (s\<lparr>txstats := m\<rparr>) = zero_min s" "zero_min (s\<lparr>malloc_calls := n\<rparr>) = zero_min s"
  by (simp_all add: zero_min_def)

lemma summary_container_min:
  assumes "zero_min s"
  shows "wp (stats_get_txstat_container Summary_table a) (\<lambda>_. zero_min) (\<lambda>_ _. True) s"
proof -
  have tab: "wp (on_table Summary_table m) (\<lambda>r. wp (f r) (\<lambda>_. zero_min) (\<lambda>_ _. True)) (\<lambda>_ _. True) u"
    if "zero_min u" "\<And>r v. zero_min v \<Longrightarrow> wp (f r) (\<lambda>_. zero_min) (\<lambda>_ _. True) v" for m f u
    by (rule wp_mono [OF wp_on_table_summary [OF that(1)]]) (use that(2) in auto)
  show ?thesis
    unfolding stats_get_txstat_container_def wp_bnd wp_gets
    by (rule tab [OF assms])
      (auto simp: MALLOC_def stats_txstat_reset_def ts_set_def zero_min_updates deref_def
        split: option.split intro!: wp_on_table_summary)
qed

lemma summarize_entry_min:
  assumes "zero_min s"
  shows "wp (summarize_entry a) (\<lambda>_. zero_min) (\<lambda>_ _. True) s"
proof -
  have "wp (bnd (gets (\<lambda>s. txstats s a)) (\<lambda>x.
     bnd (ts_set c (\<lambda>y. y\<lparr>ts_count := ts_count y + ts_count x\<rparr>)) (\<lambda>_.
     bnd (modify (\<lambda>s. s\<lparr>stats_summary := (stats_summary s)\<lparr>th_count := th_count (stats_summary s) + ts_count x\<rparr>\<rparr>)) (\<lambda>_.
     bnd (ts_set c (\<lambda>y. y\<lparr>ts_stats := (\<lambda>i. stat_merge (ts_stats y i) (ts_stats x i))\<rparr>)) (\<lambda>_.
     modify (\<lambda>s. s\<lparr>stats_summary := (stats_summary s)\<lparr>th_stats :=
       (\<lambda>i. stat_merge (th_stats (stats_summary s) i) (ts_stats x i))\<rparr>\<rparr>)))))) (\<lambda>_. zero_min) (\<lambda>_ _. True) u"
    if "zero_min u" for c and u :: "'a stats_state_scheme"
    using that by (simp add: ts_set_def zero_min_def stat_merge_def word_gt_0)
  then show ?thesis
    unfolding summarize_entry_def wp_bnd
    by (intro wp_mono [OF summary_container_min [OF assms]]) simp_all
qed

lemma summarize_all_min:
  assumes "zero_min s"
  shows "wp stats_summarize_all (\<lambda>_. zero_min) (\<lambda>_ _. True) s"
proof -
  have inner: "wp (bnd (gets (\<lambda>s. th_tx_stats (threadstats s th))) (\<lambda>p.
       bnd (table_values p) (\<lambda>cs. for_each cs summarize_entry))) (\<lambda>_. zero_min) (\<lambda>_ _. True) u"
    if "zero_min u" for th and u :: "'a stats_state_scheme"
    using that
    by (auto simp: table_values_def deref_def split: option.split intro!: wp_for_each summarize_entry_min)
  show ?thesis
    unfolding stats_summarize_all_def thread_list_def wp_bnd
    using assms by (auto split: option.split intro!: wp_for_each inner [unfolded wp_bnd wp_gets])
qed

text \<open>
  In every report, the minimum of every counter in the grand total is 0,
  whatever the transactions recorded: \<^verbatim>\<open>txc_stats_print\<close> starts the minima of the
  summary at 0 instead of the largest value.
\<close>

theorem grand_total_minimum_zero:
  assumes "txc_stats_print fopen_ok heap s = Ok (Some (sections, totals, loc, n, stats)) s'"
  shows "stat_min (stats i) = 0"
proof -
  have sum: "wp (bnd (modify (\<lambda>s. s\<lparr>stats_summary := (stats_summary s)\<lparr>
              th_tx_stats := snd (txc_hash_table_create hp tbl0 heap 512 False),
              th_stats := (\<lambda>_. \<lparr>stat_max = 0, stat_min = 0, stat_total = 0\<rparr>), th_count := 0\<rparr>\<rparr>)) (\<lambda>_.
       bnd stats_summarize_all (\<lambda>_.
       bnd (gets stats_summary) (\<lambda>sum.
       bnd (table_values (th_tx_stats sum)) (\<lambda>cs.
       bnd (gets txstats) (\<lambda>m.
       ret (Some (x, map (\<lambda>c. stats_txstat_print (m c) True) cs, (None, th_count sum, th_stats sum)))))))))
    (\<lambda>r _. \<forall>y tt lc k st. r = Some (y, tt, lc, k, st) \<longrightarrow> stat_min (st i) = 0) (\<lambda>_ _. True) u"
    for hp tbl0 x and u :: "'a stats_state_scheme"
    unfolding wp_bnd wp_modify
    by (rule wp_mono [OF summarize_all_min])
      (auto simp: zero_min_def table_values_def deref_def split: option.split)
  have "wp (txc_stats_print fopen_ok heap)
      (\<lambda>r _. \<forall>y tt lc k st. r = Some (y, tt, lc, k, st) \<longrightarrow> stat_min (st i) = 0) (\<lambda>_ _. True) s"
  proof (cases "statistics (runtime_settings s)")
    case True
    show ?thesis
      unfolding txc_stats_print_def wp_bnd [of "gets _"] wp_gets
      by (subst if_not_P, simp add: True, rule wp_forget, rule wp_forget, rule wp_forget, rule wp_forget, rule wp_forget, rule sum)
  next
    case False
    then show ?thesis by (simp add: txc_stats_print_def)
  qed
  from wp_OkD [OF this assms] show ?thesis by blast
qed


section \<open>Witnesses\<close>

definition empty_table :: "addr txc_hash_table" where
  "empty_table = the (snd (txc_hash_table_create (Some 8) (Some 16)
     (\<lambda>_. \<lparr>bkt_next = None, bkt_prev = None, bkt_key = 0, bkt_value = 0\<rparr>) 512 False))"

lemma empty_table_ok: "ht_ok empty_table" "ht_map empty_table = Map.empty" "ht_buckets empty_table = {}"
  using ht_create_ok [of 8 16 "\<lambda>_. \<lparr>bkt_next = None, bkt_prev = None, bkt_key = 0, bkt_value = 0\<rparr>"
      512 False empty_table]
  by (simp_all add: empty_table_def txc_hash_table_create_def)

text \<open>A thread without committed transactions, whose current transaction read three times.\<close>

definition sample_stats_state :: stats_state where
  "sample_stats_state = \<lparr>txds = (\<lambda>_. sample_txd\<lparr>txstat := 64, threadstat := 128\<rparr>),
     l_txd = Some 256, runtime_settings = DEFVALUES\<lparr>statistics := True\<rparr>,
     bufmgr = sample_linear, int_mem = (\<lambda>_. 0), errno = 0,
     itm_mode = (\<lambda>_. inRetryableTransaction), itm_actions = [],
     realloc_ok = (\<lambda>_. True), realloc_calls = 0,
     pool_sentinel = sample_pool, sentinels = (\<lambda>a. free_sentinel (int (unat a))), indeterminate = 0,
     statsmgr_mutex = False, alloc_threadstat_num = 1,
     alloc_threadstat_list_head = Some 128, alloc_threadstat_list_tail = Some 128,
     threadstats = (\<lambda>_. \<lparr>th_count = 0, th_stats = (\<lambda>_. new_stat), th_tx_stats = Some empty_table,
       th_next = None, th_prev = None, th_txd = 256\<rparr>),
     txstats = (\<lambda>_. \<lparr>ts_srcloc_str = 5000, ts_srcloc = (1, 2, 3), ts_count = 1,
       ts_stats = (\<lambda>_. new_stat)(x_read_stat := new_stat\<lparr>stat_total := 3\<rparr>)\<rparr>),
     stats_summary = \<lparr>th_count = 0, th_stats = (\<lambda>_. new_stat), th_tx_stats = None,
       th_next = None, th_prev = None, th_txd = 0\<rparr>,
     malloc_answer = (\<lambda>n. Some (of_nat (8192 + 64 * n))), malloc_calls = 0\<rparr>"

theorem commit_statistics_exact_witness:
  "\<exists>s'. statsmgr_commit_action 256 sample_stats_state = Ok 0 s' \<and>
     th_stats (threadstats s' 128) x_read_stat = \<lparr>stat_max = 3, stat_min = 3, stat_total = 3\<rparr>"
proof -
  have rep: "stats_rep 128 [] sample_stats_state"
    by (simp add: stats_rep_def sample_stats_state_def summary_of_Nil empty_table_ok)
  have fresh: "malloc_fresh 128 64 sample_stats_state"
    by (auto simp: malloc_fresh_def sample_stats_state_def empty_table_ok)
  from commit_statistics_exact [OF rep fresh, of 256] obtain s' where
    s': "statsmgr_commit_action 256 sample_stats_state = Ok 0 s'"
    "stats_rep 128 [(ts_srcloc_str (txstats sample_stats_state 64),
       \<lambda>i. stat_total (ts_stats (txstats sample_stats_state 64) i))] s'"
    by (auto simp: sample_stats_state_def)
  then have "th_stats (threadstats s' 128) x_read_stat = \<lparr>stat_max = 3, stat_min = 3, stat_total = 3\<rparr>"
    by (auto simp: stats_rep_def summary_of_def sample_stats_state_def new_stat_def min_def)
  with s'(1) show ?thesis by blast
qed

theorem grand_total_minimum_zero_witness:
  "\<exists>sections totals loc n stats s'.
     txc_stats_print True (\<lambda>_. \<lparr>bkt_next = None, bkt_prev = None, bkt_key = 0, bkt_value = 0\<rparr>)
       (sample_stats_state\<lparr>alloc_threadstat_list_head := None\<rparr>) = Ok (Some (sections, totals, loc, n, stats)) s' \<and>
     stat_min (stats x_open_stat) = 0"
proof -
  let ?s = "sample_stats_state\<lparr>alloc_threadstat_list_head := None\<rparr>"
  let ?heap = "\<lambda>_. \<lparr>bkt_next = None, bkt_prev = None, bkt_key = 0, bkt_value = 0\<rparr>"
  have "iter_collect h (txc_hash_table_iter_init h) = Some []"
    if "h = the (snd (txc_hash_table_create (Some x) (Some y) ?heap 512 False))" for h :: "addr txc_hash_table" and x y
    unfolding txc_hash_table_iter_init_def
    by (rule iter_collect_null)
      (use that in \<open>auto simp: iter_seek_def first_used_def txc_hash_table_create_def find_None_iff split: option.split\<close>)
  then obtain sections totals loc n stats s' where
    r: "txc_stats_print True ?heap ?s = Ok (Some (sections, totals, loc, n, stats)) s'"
    by (fastforce simp: txc_stats_print_def thread_list_def walk.simps MALLOC_def table_values_def
        stats_summarize_all_def sample_stats_state_def txc_hash_table_create_def prog_simps)
  from grand_total_minimum_zero [OF r, of x_open_stat] r show ?thesis by blast
qed

end
