(* ===== verification/Koa.thy ===== *)
theory Koa
  imports Stats
begin

text \<open>
  Kernel object abstractions (KOAs), \<^verbatim>\<open>src/src/core/koa.c\<close>: the user-level
  objects that stand for files, pipes and sockets.  A KOA has a sentinel, a count
  of references and the list of the file descriptors that refer to it; the
  manager maps descriptors to KOAs and keeps an alias cache from inode numbers to
  the KOAs of live files.  The theory models every function of the file and
  shows how references, the descriptor map and the alias cache move together.
\<close>

section \<open>Data\<close>

abbreviation (input) TXC_KOA_IS_SOCK_DGRAM :: int where "TXC_KOA_IS_SOCK_DGRAM \<equiv> 1"

abbreviation (input) TXC_KOA_IS_PIPE_READ_END :: int where "TXC_KOA_IS_PIPE_READ_END \<equiv> 3"

abbreviation (input) TXC_KOA_IS_PIPE_WRITE_END :: int where "TXC_KOA_IS_PIPE_WRITE_END \<equiv> 4"

abbreviation (input) TXC_KOA_IS_FILE :: int where "TXC_KOA_IS_FILE \<equiv> 5"

abbreviation (input) TXC_KOA_NUM :: u32 where "TXC_KOA_NUM \<equiv> 512"

abbreviation (input) TXC_KOA_MAP_SIZE :: int where "TXC_KOA_MAP_SIZE \<equiv> 1024"

abbreviation (input) TXC_KOA_CACHE_HASHTBL_SIZE :: u32 where "TXC_KOA_CACHE_HASHTBL_SIZE \<equiv> 256"

abbreviation (input) TXC_MAX_NUM_FDREFS_PER_KOA :: int where "TXC_MAX_NUM_FDREFS_PER_KOA \<equiv> 8"

abbreviation (input) sizeof_koa :: u32 where "sizeof_koa \<equiv> 96"

text \<open>
  \<open>koa_fd\<close> and \<open>koa_fdrefcnt\<close> are the array and the counter of \<^verbatim>\<open>fdref\<close>.  The union
  is a field for the inode number of a file and one for the input buffer of a
  socket or pipe.
\<close>

record txc_koa =
  koa_mutex :: bool
  koa_sentinel :: addr
  koa_fd :: "nat \<Rightarrow> int"
  koa_fdrefcnt :: int
  koa_refcnt :: int
  koa_type :: int
  koa_st_ino :: u32
  koa_buffer :: addr

text \<open>The descriptor map is indexed by descriptors in the range of the array.\<close>

record koa_state = stats_state +
  alias_mutex :: bool
  alias_cache :: "addr txc_hash_table"
  map_mutex :: "int \<Rightarrow> bool"
  map_koa :: "int \<Rightarrow> addr option"
  pool_koa_obj :: txc_pool
  koas :: "addr \<Rightarrow> txc_koa"

definition koa_get :: "addr \<Rightarrow> (txc_koa \<Rightarrow> 'a) \<Rightarrow> ('z koa_state_scheme, 'a) prog" where
  "koa_get k f = gets (\<lambda>s. f (koas s k))"

definition koa_set :: "addr \<Rightarrow> (txc_koa \<Rightarrow> txc_koa) \<Rightarrow> ('z koa_state_scheme, unit) prog" where
  "koa_set k f = modify (\<lambda>s. s\<lparr>koas := (koas s)(k := f (koas s k))\<rparr>)"

definition on_pool_koa :: "(txc_pool, 'a) prog \<Rightarrow> ('z koa_state_scheme, 'a) prog" where
  "on_pool_koa = zoom pool_koa_obj (\<lambda>p s. s\<lparr>pool_koa_obj := p\<rparr>)"

definition on_alias_cache :: "(addr txc_hash_table, 'a) prog \<Rightarrow> ('z koa_state_scheme, 'a) prog" where
  "on_alias_cache = zoom alias_cache (\<lambda>h s. s\<lparr>alias_cache := h\<rparr>)"

text \<open>Reading and writing the descriptor map outside its bounds is undefined.\<close>

definition map_bounds :: "int \<Rightarrow> ('z koa_state_scheme, unit) prog" where
  "map_bounds fd = guard Undefined (0 \<le> fd \<and> fd < TXC_KOA_MAP_SIZE)"

definition map_lock :: "int \<Rightarrow> ('z koa_state_scheme, unit) prog" where
  "map_lock fd =
     bnd (map_bounds fd) (\<lambda>_.
     txc_mutex_lock (\<lambda>s. map_mutex s fd) (\<lambda>b s. s\<lparr>map_mutex := (map_mutex s)(fd := b)\<rparr>))"

definition map_unlock :: "int \<Rightarrow> ('z koa_state_scheme, unit) prog" where
  "map_unlock fd =
     bnd (map_bounds fd) (\<lambda>_.
     txc_mutex_unlock (\<lambda>b s. s\<lparr>map_mutex := (map_mutex s)(fd := b)\<rparr>))"

section \<open>Alias cache\<close>

definition txc_koa_lock_alias_cache :: "('z koa_state_scheme, txc_result_t) prog" where
  "txc_koa_lock_alias_cache =
     bnd (txc_mutex_lock alias_mutex (\<lambda>b s. s\<lparr>alias_mutex := b\<rparr>)) (\<lambda>_. ret TXC_R_SUCCESS)"

definition txc_koa_unlock_alias_cache :: "('z koa_state_scheme, txc_result_t) prog" where
  "txc_koa_unlock_alias_cache =
     bnd (txc_mutex_unlock (\<lambda>b s. s\<lparr>alias_mutex := b\<rparr>)) (\<lambda>_. ret TXC_R_SUCCESS)"

definition alias_cache_insert :: "addr \<Rightarrow> ('z koa_state_scheme, txc_result_t) prog" where
  "alias_cache_insert k =
     bnd (koa_get k koa_st_ino) (\<lambda>inode_number.
     bnd (koa_get k koa_type) (\<lambda>ty.
     bnd (guard Assert_failed (ty = TXC_KOA_IS_FILE)) (\<lambda>_.
     bnd MALLOC (\<lambda>bucket.
     on_alias_cache (txc_hash_table_add bucket inode_number k)))))"

definition alias_cache_remove :: "addr \<Rightarrow> ('z koa_state_scheme, txc_result_t) prog" where
  "alias_cache_remove k =
     bnd (koa_get k koa_st_ino) (\<lambda>inode_number.
     bnd (on_alias_cache (txc_hash_table_remove inode_number)) (\<lambda>(r, _).
     ret r))"

definition txc_koa_alias_cache_lookup_inode ::
  "u32 \<Rightarrow> ('z koa_state_scheme, txc_result_t \<times> addr option) prog" where
  "txc_koa_alias_cache_lookup_inode inode_number =
     bnd (on_alias_cache (txc_hash_table_lookup inode_number)) (\<lambda>(r, v).
     if r \<noteq> TXC_R_SUCCESS then ret (TXC_R_NOTEXISTS, None) else ret (TXC_R_SUCCESS, v))"

section \<open>Creation and destruction\<close>

text \<open>\<open>ino\<close> is the argument \<^verbatim>\<open>args\<close> read as an inode number.\<close>

definition txc_koa_create :: "int \<Rightarrow> u32 \<Rightarrow> ('z koa_state_scheme, txc_result_t \<times> addr) prog" where
  "txc_koa_create ty ino =
     bnd (on_pool_koa (txc_pool_object_alloc True)) (\<lambda>(r, p).
     if r \<noteq> TXC_R_SUCCESS then throw Exit1
     else
       bnd (deref p) (\<lambda>k.
       bnd txc_sentinel_create (\<lambda>(r, sn).
       if r \<noteq> TXC_R_SUCCESS then throw Exit1
       else
         bnd (koa_set k (\<lambda>x. x\<lparr>koa_mutex := False, koa_sentinel := sn, koa_type := ty,
                             koa_refcnt := 0, koa_fdrefcnt := 0\<rparr>)) (\<lambda>_.
         bnd (if ty = TXC_KOA_IS_FILE then koa_set k (\<lambda>x. x\<lparr>koa_st_ino := ino\<rparr>)
              else if ty = TXC_KOA_IS_SOCK_DGRAM \<or> ty = TXC_KOA_IS_PIPE_READ_END then
                bnd (on_bufmgr txc_buffer_circular_create) (\<lambda>(_, b).
                koa_set k (\<lambda>x. x\<lparr>koa_buffer := b\<rparr>))
              else ret ()) (\<lambda>_.
         ret (TXC_R_SUCCESS, k))))))"

definition txc_koa_destroy :: "addr \<Rightarrow> ('z koa_state_scheme, unit) prog" where
  "txc_koa_destroy k =
     bnd (koa_get k koa_sentinel) (\<lambda>sn.
     bnd (txc_sentinel_detach sn) (\<lambda>_.
     bnd (koa_get k koa_type) (\<lambda>ty.
     bnd (if ty = TXC_KOA_IS_SOCK_DGRAM \<or> ty = TXC_KOA_IS_PIPE_READ_END then
            bnd (koa_get k koa_buffer) (\<lambda>b.
            bnd (on_bufmgr (txc_buffer_circular_destroy (Some b))) (\<lambda>_. ret ()))
          else ret ()) (\<lambda>_.
     bnd (on_pool_koa (txc_pool_object_free (Some k) True)) (\<lambda>_.
     ret ())))))"

section \<open>References\<close>

text \<open>The part that attaching shares: one reference more, and a file enters the alias cache with its first.\<close>

definition koa_ref :: "addr \<Rightarrow> ('z koa_state_scheme, unit) prog" where
  "koa_ref k =
     bnd (koa_set k (\<lambda>x. x\<lparr>koa_refcnt := koa_refcnt x + 1\<rparr>)) (\<lambda>_.
     bnd (koa_get k koa_refcnt) (\<lambda>n.
     bnd (koa_get k koa_type) (\<lambda>ty.
     mwhen (n = 1 \<and> ty = TXC_KOA_IS_FILE) (bnd (alias_cache_insert k) (\<lambda>_. ret ())))))"

text \<open>The part that detaching shares: with the last reference the KOA is destroyed.\<close>

definition koa_unref :: "addr \<Rightarrow> ('z koa_state_scheme, unit) prog" where
  "koa_unref k =
     bnd (koa_set k (\<lambda>x. x\<lparr>koa_refcnt := koa_refcnt x - 1\<rparr>)) (\<lambda>_.
     bnd (koa_get k koa_refcnt) (\<lambda>n.
     bnd (koa_get k koa_type) (\<lambda>ty.
     mwhen (n = 0)
       (bnd (mwhen (ty = TXC_KOA_IS_FILE) (bnd (alias_cache_remove k) (\<lambda>_. ret ()))) (\<lambda>_.
        txc_koa_destroy k)))))"

definition txc_koa_attach_fd :: "addr option \<Rightarrow> int \<Rightarrow> bool \<Rightarrow> ('z koa_state_scheme, txc_result_t) prog" where
  "txc_koa_attach_fd koa fd lock =
     (case koa of
        None \<Rightarrow> throw Assert_failed
      | Some k \<Rightarrow>
          bnd (guard Assert_failed (fd < TXC_KOA_MAP_SIZE)) (\<lambda>_.
          bnd (mwhen lock (map_lock fd)) (\<lambda>_.
          bnd (map_bounds fd) (\<lambda>_.
          bnd (gets (\<lambda>s. map_koa s fd)) (\<lambda>old.
          bnd (guard Assert_failed (old = None)) (\<lambda>_.
          bnd (modify (\<lambda>s. s\<lparr>map_koa := (map_koa s)(fd := Some k)\<rparr>)) (\<lambda>_.
          bnd (koa_ref k) (\<lambda>_.
          bnd (koa_get k koa_fdrefcnt) (\<lambda>n.
          bnd (guard Exit1 (n < TXC_MAX_NUM_FDREFS_PER_KOA)) (\<lambda>_.
          bnd (guard Undefined (0 \<le> n)) (\<lambda>_.
          bnd (koa_set k (\<lambda>x. x\<lparr>koa_fd := (koa_fd x)(nat n := fd), koa_fdrefcnt := n + 1\<rparr>)) (\<lambda>_.
          bnd (mwhen lock (map_unlock fd)) (\<lambda>_.
          ret TXC_R_SUCCESS)))))))))))))"

definition fd_index :: "txc_koa \<Rightarrow> int \<Rightarrow> nat option" where
  "fd_index x fd = List.find (\<lambda>i. koa_fd x i = fd) [0..<nat (koa_fdrefcnt x)]"

text \<open>
  The early return for an unmapped descriptor leaves the descriptor locked, and
  the slot of the removed descriptor is filled from the slot \<^emph>\<open>behind\<close> the last
  one, as the source has it.
\<close>

definition txc_koa_detach_fd :: "addr option \<Rightarrow> int \<Rightarrow> bool \<Rightarrow> ('z koa_state_scheme, txc_result_t) prog" where
  "txc_koa_detach_fd koa fd lock =
     (case koa of
        None \<Rightarrow> throw Assert_failed
      | Some k \<Rightarrow>
          bnd (guard Assert_failed (fd < TXC_KOA_MAP_SIZE)) (\<lambda>_.
          bnd (mwhen lock (map_lock fd)) (\<lambda>_.
          bnd (map_bounds fd) (\<lambda>_.
          bnd (gets (\<lambda>s. map_koa s fd)) (\<lambda>old.
          if old = None then ret TXC_R_FAILURE
          else
            bnd (modify (\<lambda>s. s\<lparr>map_koa := (map_koa s)(fd := None)\<rparr>)) (\<lambda>_.
            bnd (koa_get k (\<lambda>x. fd_index x fd)) (\<lambda>found.
            case found of
              None \<Rightarrow> bnd (mwhen lock (map_unlock fd)) (\<lambda>_. ret TXC_R_FAILURE)
            | Some index \<Rightarrow>
                bnd (koa_get k koa_fdrefcnt) (\<lambda>n.
                bnd (guard Undefined (0 \<le> n \<and> n < TXC_MAX_NUM_FDREFS_PER_KOA)) (\<lambda>_.
                bnd (koa_set k (\<lambda>x. x\<lparr>koa_fd := (koa_fd x)(index := koa_fd x (nat n)),
                                    koa_fdrefcnt := n - 1\<rparr>)) (\<lambda>_.
                bnd (koa_unref k) (\<lambda>_.
                bnd (mwhen lock (map_unlock fd)) (\<lambda>_.
                ret TXC_R_SUCCESS))))))))))))"

definition txc_koa_attach :: "addr option \<Rightarrow> ('z koa_state_scheme, txc_result_t) prog" where
  "txc_koa_attach koa =
     (case koa of
        None \<Rightarrow> throw Assert_failed
      | Some k \<Rightarrow>
          bnd (txc_mutex_lock (\<lambda>s. koa_mutex (koas s k))
                 (\<lambda>b s. s\<lparr>koas := (koas s)(k := (koas s k)\<lparr>koa_mutex := b\<rparr>)\<rparr>)) (\<lambda>_.
          bnd (koa_ref k) (\<lambda>_.
          bnd (txc_mutex_unlock (\<lambda>b s. s\<lparr>koas := (koas s)(k := (koas s k)\<lparr>koa_mutex := b\<rparr>)\<rparr>)) (\<lambda>_.
          ret TXC_R_SUCCESS))))"

definition txc_koa_detach :: "addr option \<Rightarrow> ('z koa_state_scheme, txc_result_t) prog" where
  "txc_koa_detach koa =
     (case koa of
        None \<Rightarrow> throw Assert_failed
      | Some k \<Rightarrow>
          bnd (txc_mutex_lock (\<lambda>s. koa_mutex (koas s k))
                 (\<lambda>b s. s\<lparr>koas := (koas s)(k := (koas s k)\<lparr>koa_mutex := b\<rparr>)\<rparr>)) (\<lambda>_.
          bnd (koa_unref k) (\<lambda>_.
          bnd (txc_mutex_unlock (\<lambda>b s. s\<lparr>koas := (koas s)(k := (koas s k)\<lparr>koa_mutex := b\<rparr>)\<rparr>)) (\<lambda>_.
          ret TXC_R_SUCCESS))))"

section \<open>Descriptors\<close>

definition txc_koa_lookup_fd2koa :: "int \<Rightarrow> ('z koa_state_scheme, txc_result_t \<times> addr option) prog" where
  "txc_koa_lookup_fd2koa fd =
     bnd (guard Assert_failed (fd < TXC_KOA_MAP_SIZE)) (\<lambda>_.
     bnd (map_bounds fd) (\<lambda>_.
     bnd (gets (\<lambda>s. map_koa s fd)) (\<lambda>k.
     ret (if k = None then TXC_R_FAILURE else TXC_R_SUCCESS, k))))"

definition txc_koa_lock_fd :: "int \<Rightarrow> ('z koa_state_scheme, txc_result_t) prog" where
  "txc_koa_lock_fd fd = bnd (map_lock fd) (\<lambda>_. ret TXC_R_SUCCESS)"

definition txc_koa_unlock_fd :: "int \<Rightarrow> ('z koa_state_scheme, txc_result_t) prog" where
  "txc_koa_unlock_fd fd = bnd (map_unlock fd) (\<lambda>_. ret TXC_R_SUCCESS)"

definition koa_fds :: "txc_koa \<Rightarrow> int list" where
  "koa_fds x = map (koa_fd x) [0..<nat (koa_fdrefcnt x)]"

definition txc_koa_lock_fds_refby_koa :: "addr \<Rightarrow> ('z koa_state_scheme, txc_result_t) prog" where
  "txc_koa_lock_fds_refby_koa k =
     bnd (koa_get k koa_fds) (\<lambda>fds.
     bnd (for_each fds map_lock) (\<lambda>_.
     ret TXC_R_SUCCESS))"

definition txc_koa_unlock_fds_refby_koa :: "addr \<Rightarrow> ('z koa_state_scheme, txc_result_t) prog" where
  "txc_koa_unlock_fds_refby_koa k =
     bnd (koa_get k koa_fds) (\<lambda>fds.
     bnd (for_each fds map_unlock) (\<lambda>_.
     ret TXC_R_SUCCESS))"

text \<open>\<open>st\<close> is the inode number that \<^verbatim>\<open>stat\<close> finds for the path, if it succeeds.\<close>

definition txc_koa_path2inode :: "u32 option \<Rightarrow> txc_result_t \<times> u32" where
  "txc_koa_path2inode st = (TXC_R_SUCCESS, case st of None \<Rightarrow> 0 | Some ino \<Rightarrow> ino)"

definition txc_koa_get_sentinel :: "addr \<Rightarrow> ('z koa_state_scheme, addr) prog" where
  "txc_koa_get_sentinel k = koa_get k koa_sentinel"

text \<open>For the other types the result is a variable that was never assigned.\<close>

definition txc_koa_get_buffer :: "addr \<Rightarrow> ('z koa_state_scheme, addr) prog" where
  "txc_koa_get_buffer k =
     bnd (koa_get k koa_type) (\<lambda>ty.
     if ty = TXC_KOA_IS_SOCK_DGRAM \<or> ty = TXC_KOA_IS_PIPE_READ_END then koa_get k koa_buffer
     else throw Undefined)"

section \<open>The manager\<close>

text \<open>
  \<open>mgr\<close> is the \<^verbatim>\<open>MALLOC\<close> of the manager, \<open>env\<close> the allocations of the pool, and
  \<open>hp\<close>, \<open>tbl0\<close> and \<open>heap\<close> those of the hash table.
\<close>

definition txc_koamgr_create ::
  "addr option \<Rightarrow> pool_env \<Rightarrow> addr option \<Rightarrow> addr option \<Rightarrow> (addr \<Rightarrow> addr txc_hash_table_bucket) \<Rightarrow>
   ('z koa_state_scheme, txc_result_t) prog" where
  "txc_koamgr_create mgr env hp tbl0 heap =
     (case mgr of
        None \<Rightarrow> ret TXC_R_NOMEMORY
      | Some _ \<Rightarrow>
          bnd (create_pool_with env sizeof_koa TXC_KOA_NUM None) (\<lambda>(r, p).
          if r \<noteq> TXC_R_SUCCESS then ret r
          else
            bnd (deref p) (\<lambda>pool.
            bnd (modify (\<lambda>s. s\<lparr>pool_koa_obj := pool\<rparr>)) (\<lambda>_.
            (case txc_hash_table_create hp tbl0 heap TXC_KOA_CACHE_HASHTBL_SIZE False of (r, h) \<Rightarrow>
             if r \<noteq> TXC_R_SUCCESS then ret r
             else
               bnd (deref h) (\<lambda>h.
               bnd (modify (\<lambda>s. s\<lparr>alias_cache := h, map_mutex := (\<lambda>_. False), map_koa := (\<lambda>_. None)\<rparr>)) (\<lambda>_.
               bnd (txc_koa_create TXC_KOA_IS_PIPE_READ_END 0) (\<lambda>(_, k0).
               bnd (txc_koa_attach_fd (Some k0) 0 False) (\<lambda>_.
               bnd (txc_koa_create TXC_KOA_IS_PIPE_WRITE_END 0) (\<lambda>(_, k1).
               bnd (txc_koa_attach_fd (Some k1) 1 False) (\<lambda>_.
               bnd (txc_koa_create TXC_KOA_IS_PIPE_WRITE_END 0) (\<lambda>(_, k2).
               bnd (txc_koa_attach_fd (Some k2) 2 False) (\<lambda>_.
               ret TXC_R_SUCCESS)))))))))))))"

text \<open>The buckets that the destruction of the alias cache frees.\<close>

definition txc_koamgr_destroy :: "('z koa_state_scheme, addr list) prog" where
  "txc_koamgr_destroy =
     bnd (gets pool_koa_obj) (\<lambda>p.
     case txc_pool_destroy (Some p) of
       Fault e _ \<Rightarrow> throw e
     | Ok _ _ \<Rightarrow>
         bnd (gets alias_cache) (\<lambda>h.
         bnd (txc_hash_table_destroy (Some h)) (\<lambda>(_, bs).
         ret bs)))"


section \<open>Behaviour of the references\<close>

lemmas koa_defs = koa_get_def koa_set_def on_pool_koa_def on_alias_cache_def

definition koa_plus :: "int \<Rightarrow> txc_koa \<Rightarrow> txc_koa" where
  "koa_plus d x = x\<lparr>koa_refcnt := koa_refcnt x + d\<rparr>"

lemma koa_plus_simps [simp]:
  "koa_refcnt (koa_plus d x) = koa_refcnt x + d" "koa_type (koa_plus d x) = koa_type x"
  "koa_st_ino (koa_plus d x) = koa_st_ino x" "koa_sentinel (koa_plus d x) = koa_sentinel x"
  "koa_fd (koa_plus d x) = koa_fd x" "koa_fdrefcnt (koa_plus d x) = koa_fdrefcnt x"
  "koa_buffer (koa_plus d x) = koa_buffer x" "koa_mutex (koa_plus d x) = koa_mutex x"
  by (simp_all add: koa_plus_def)

definition bucket_fresh :: "'z koa_state_scheme \<Rightarrow> bool" where
  "bucket_fresh s \<longleftrightarrow> ht_fresh (malloc_answer s (malloc_calls s)) (alias_cache s)"

lemma koa_ref_again:
  assumes "koa_refcnt (koas s k) \<noteq> 0 \<or> koa_type (koas s k) \<noteq> TXC_KOA_IS_FILE"
  shows "koa_ref k s = Ok () (s\<lparr>koas := (koas s)(k := koa_plus 1 (koas s k))\<rparr>)"
  using assms by (auto simp: koa_ref_def koa_defs koa_plus_def prog_simps)

lemma koa_ref_first:
  assumes "koa_refcnt (koas s k) = 0" "koa_type (koas s k) = TXC_KOA_IS_FILE" "ht_ok (alias_cache s)"
    "ht_map (alias_cache s) (koa_st_ino (koas s k)) = None" "bucket_fresh s"
  shows "\<exists>h. koa_ref k s = Ok () (s\<lparr>koas := (koas s)(k := koa_plus 1 (koas s k)),
      malloc_calls := Suc (malloc_calls s), alias_cache := h\<rparr>) \<and> ht_ok h \<and>
    ht_map h = (ht_map (alias_cache s))(koa_st_ino (koas s k) \<mapsto> k)"
proof -
  obtain h where h: "txc_hash_table_add (malloc_answer s (malloc_calls s)) (koa_st_ino (koas s k)) k (alias_cache s) =
      Ok TXC_R_SUCCESS h" "ht_ok h" "ht_map h = (ht_map (alias_cache s))(koa_st_ino (koas s k) \<mapsto> k)"
    using ht.add_new [OF assms(3,4)] assms(5) unfolding bucket_fresh_def by blast
  with assms(1,2) show ?thesis
    by (intro exI [of _ h]) (simp add: koa_ref_def alias_cache_insert_def koa_defs koa_plus_def MALLOC_def prog_simps)
qed

lemma sentinel_detach_ok:
  assumes "pool_ok (pool_sentinel s)" "a \<in> pool_live (pool_sentinel s)" "\<not> synch_mutex (sentinels s a)"
  shows "\<exists>p. txc_sentinel_detach a s = Ok TXC_R_SUCCESS
      (s\<lparr>sentinels := (sentinels s)(a := dropped (sentinels s a)), pool_sentinel := p\<rparr>) \<and> pool_ok p \<and>
    pool_live p = pool_live (pool_sentinel s) - (if sn_refcnt (sentinels s a) = 1 then {a} else {})"
proof -
  let ?s1 = "s\<lparr>sentinels := (sentinels s)(a := (sentinels s a)\<lparr>synch_mutex := True\<rparr>)\<rparr>"
  obtain p where p: "sentinel_detach a ?s1 = Ok TXC_R_SUCCESS
      (?s1\<lparr>sentinels := (sentinels ?s1)(a := dropped (sentinels ?s1 a)), pool_sentinel := p\<rparr>)" "pool_ok p"
    "pool_live p = pool_live (pool_sentinel ?s1) - (if sn_refcnt (sentinels ?s1 a) = 1 then {a} else {})"
    using detach_ok [of ?s1 a] assms by auto
  have tog: "(dropped (sentinels s a))\<lparr>synch_mutex := False\<rparr> = dropped (sentinels s a)"
    by (rule synch_toggle) (simp add: assms(3))
  show ?thesis
    by (rule exI [of _ p]) (use p assms(3) in \<open>simp add: txc_sentinel_detach_def sn_defs bnd_def gets_def guard_def
        modify_def ret_def dropped_synch tog\<close>)
qed

text \<open>What the destruction of a KOA relies on: its parts are live objects of their pools.\<close>

definition koa_has_buffer :: "txc_koa \<Rightarrow> bool" where
  "koa_has_buffer x \<longleftrightarrow> koa_type x = TXC_KOA_IS_SOCK_DGRAM \<or> koa_type x = TXC_KOA_IS_PIPE_READ_END"

definition koa_live :: "addr \<Rightarrow> 'z koa_state_scheme \<Rightarrow> bool" where
  "koa_live k s \<longleftrightarrow>
     pool_ok (pool_koa_obj s) \<and> k \<in> pool_live (pool_koa_obj s) \<and>
     pool_ok (pool_sentinel s) \<and> koa_sentinel (koas s k) \<in> pool_live (pool_sentinel s) \<and>
     \<not> synch_mutex (sentinels s (koa_sentinel (koas s k))) \<and>
     (koa_has_buffer (koas s k) \<longrightarrow> pool_ok (pool_buffer_circular (bufmgr s)) \<and>
        koa_buffer (koas s k) \<in> pool_live (pool_buffer_circular (bufmgr s)))"

lemma koa_destroy_ok:
  assumes "koa_live k s"
  shows "\<exists>p m q. txc_koa_destroy k s = Ok () (s\<lparr>sentinels := (sentinels s)(koa_sentinel (koas s k) :=
        dropped (sentinels s (koa_sentinel (koas s k)))), pool_sentinel := p, bufmgr := m, pool_koa_obj := q\<rparr>) \<and>
    pool_ok p \<and> pool_live p = pool_live (pool_sentinel s) -
      (if sn_refcnt (sentinels s (koa_sentinel (koas s k))) = 1 then {koa_sentinel (koas s k)} else {}) \<and>
    pool_ok q \<and> pool_live q = pool_live (pool_koa_obj s) - {k} \<and>
    (if koa_has_buffer (koas s k)
     then pool_live (pool_buffer_circular m) = pool_live (pool_buffer_circular (bufmgr s)) - {koa_buffer (koas s k)}
     else m = bufmgr s)"
proof -
  let ?a = "koa_sentinel (koas s k)"
  obtain p where p: "txc_sentinel_detach ?a s = Ok TXC_R_SUCCESS
      (s\<lparr>sentinels := (sentinels s)(?a := dropped (sentinels s ?a)), pool_sentinel := p\<rparr>)" "pool_ok p"
    "pool_live p = pool_live (pool_sentinel s) - (if sn_refcnt (sentinels s ?a) = 1 then {?a} else {})"
    using sentinel_detach_ok [of s ?a] assms by (auto simp: koa_live_def)
  obtain q where q: "txc_pool_object_free (Some k) True (pool_koa_obj s) = Ok None q" "pool_ok q"
    "pool_live q = pool_live (pool_koa_obj s) - {k}"
    using obj_pool.free_ok [of "pool_koa_obj s" k True] assms by (auto simp: koa_live_def)
  show ?thesis
  proof (cases "koa_has_buffer (koas s k)")
    case True
    obtain b where b: "txc_pool_object_free (Some (koa_buffer (koas s k))) True (pool_buffer_circular (bufmgr s)) =
        Ok None b"
      "pool_live b = pool_live (pool_buffer_circular (bufmgr s)) - {koa_buffer (koas s k)}"
      using obj_pool.free_ok [of "pool_buffer_circular (bufmgr s)" "koa_buffer (koas s k)" True] assms True
      by (auto simp: koa_live_def)
    have ty: "koa_type (koas s k) = 1 \<or> koa_type (koas s k) = 3" using True by (simp add: koa_has_buffer_def)
    show ?thesis
      by (rule exI [of _ p], rule exI [of _ "(bufmgr s)\<lparr>pool_buffer_circular := b\<rparr>"], rule exI [of _ q])
        (use True p q b ty in \<open>simp add: txc_koa_destroy_def koa_defs on_bufmgr_def txc_buffer_circular_destroy_def
          zoom_pool_circular_def bnd_def gets_def zoom_def ret_def\<close>)
  next
    case False
    then have ty: "koa_type (koas s k) \<noteq> 1" "koa_type (koas s k) \<noteq> 3" by (auto simp: koa_has_buffer_def)
    show ?thesis
      by (rule exI [of _ p], rule exI [of _ "bufmgr s"], rule exI [of _ q])
        (use False p q ty in \<open>simp add: txc_koa_destroy_def koa_defs bnd_def gets_def zoom_def ret_def\<close>)
  qed
qed


section \<open>The alias cache tracks the live files\<close>

definition referenced_file :: "'z koa_state_scheme \<Rightarrow> u32 \<Rightarrow> addr \<Rightarrow> bool" where
  "referenced_file s ino k \<longleftrightarrow> k \<in> pool_live (pool_koa_obj s) \<and> koa_type (koas s k) = TXC_KOA_IS_FILE \<and>
     0 < koa_refcnt (koas s k) \<and> koa_st_ino (koas s k) = ino"

definition alias_inv :: "'z koa_state_scheme \<Rightarrow> bool" where
  "alias_inv s \<longleftrightarrow> ht_ok (alias_cache s) \<and> (\<forall>ino k. ht_map (alias_cache s) ino = Some k \<longleftrightarrow> referenced_file s ino k)"

lemma referenced_file_unique:
  "alias_inv s \<Longrightarrow> referenced_file s ino a \<Longrightarrow> referenced_file s ino b \<Longrightarrow> a = b"
  unfolding alias_inv_def by (metis option.inject)

text \<open>Only the alias cache, the pool and the type, count and inode number of the KOAs matter.\<close>

lemma alias_inv_cong:
  assumes "alias_cache s' = alias_cache s" "pool_live (pool_koa_obj s') = pool_live (pool_koa_obj s)"
    and "\<And>a. koa_type (koas s' a) = koa_type (koas s a)" "\<And>a. koa_refcnt (koas s' a) = koa_refcnt (koas s a)"
      "\<And>a. koa_st_ino (koas s' a) = koa_st_ino (koas s a)"
  shows "alias_inv s' = alias_inv s"
  using assms by (simp add: alias_inv_def referenced_file_def)

text \<open>A KOA that may get a reference: if it is a file without references, no other live file has its inode.\<close>

definition can_ref :: "addr \<Rightarrow> 'z koa_state_scheme \<Rightarrow> bool" where
  "can_ref k s \<longleftrightarrow> alias_inv s \<and> bucket_fresh s \<and> k \<in> pool_live (pool_koa_obj s) \<and> 0 \<le> koa_refcnt (koas s k) \<and>
     (koa_type (koas s k) = TXC_KOA_IS_FILE \<longrightarrow> koa_refcnt (koas s k) = 0 \<longrightarrow>
        ht_map (alias_cache s) (koa_st_ino (koas s k)) = None)"

lemma koa_ref_alias:
  assumes "can_ref k s"
  shows "\<exists>n h. koa_ref k s = Ok () (s\<lparr>koas := (koas s)(k := koa_plus 1 (koas s k)), malloc_calls := n, alias_cache := h\<rparr>) \<and>
    alias_inv (s\<lparr>koas := (koas s)(k := koa_plus 1 (koas s k)), malloc_calls := n, alias_cache := h\<rparr>)"
proof (cases "koa_refcnt (koas s k) = 0 \<and> koa_type (koas s k) = TXC_KOA_IS_FILE")
  case True
  then obtain h where h: "koa_ref k s = Ok () (s\<lparr>koas := (koas s)(k := koa_plus 1 (koas s k)),
      malloc_calls := Suc (malloc_calls s), alias_cache := h\<rparr>)" "ht_ok h"
    "ht_map h = (ht_map (alias_cache s))(koa_st_ino (koas s k) \<mapsto> k)"
    using koa_ref_first [of s k] assms by (auto simp: can_ref_def alias_inv_def)
  have "\<not> referenced_file s (koa_st_ino (koas s k)) a" for a
    using assms True unfolding can_ref_def alias_inv_def by (metis option.distinct(1))
  then have "ht_map h ino = Some a \<longleftrightarrow> referenced_file
      (s\<lparr>koas := (koas s)(k := koa_plus 1 (koas s k)), malloc_calls := n, alias_cache := h\<rparr>) ino a" for ino a n
    using assms True unfolding h(3)
    by (cases "a = k"; cases "ino = koa_st_ino (koas s k)")
      (auto simp: can_ref_def alias_inv_def referenced_file_def)
  with h(1,2) show ?thesis
    by (intro exI [of _ "Suc (malloc_calls s)"] exI [of _ h]) (simp add: alias_inv_def)
next
  case False
  let ?m = "(koas s)(k := koa_plus 1 (koas s k))"
  have "koa_ref k s = Ok () (s\<lparr>koas := ?m, malloc_calls := malloc_calls s, alias_cache := alias_cache s\<rparr>)"
    using koa_ref_again [of s k] False by auto
  moreover have "referenced_file (s\<lparr>koas := ?m\<rparr>) ino a = referenced_file s ino a" for ino a
    using assms False by (auto simp: referenced_file_def can_ref_def)
  ultimately show ?thesis
    using assms by (intro exI [of _ "malloc_calls s"] exI [of _ "alias_cache s"])
      (auto simp: alias_inv_def can_ref_def)
qed

definition unref_done :: "addr \<Rightarrow> 'z koa_state_scheme \<Rightarrow> 'z koa_state_scheme \<Rightarrow> bool" where
  "unref_done k s s' \<longleftrightarrow> alias_inv s' \<and> koas s' = (koas s)(k := koa_plus (- 1) (koas s k)) \<and>
     map_koa s' = map_koa s \<and> map_mutex s' = map_mutex s \<and> txds s' = txds s \<and>
     (let last = koa_refcnt (koas s k) = 1; sn = koa_sentinel (koas s k) in
      pool_live (pool_koa_obj s') = pool_live (pool_koa_obj s) - (if last then {k} else {}) \<and>
      sentinels s' = (if last then (sentinels s)(sn := dropped (sentinels s sn)) else sentinels s) \<and>
      pool_live (pool_sentinel s') = pool_live (pool_sentinel s) -
        (if last \<and> sn_refcnt (sentinels s sn) = 1 then {sn} else {}))"

text \<open>With its last reference a file leaves the alias cache before the KOA is destroyed.\<close>

lemma koa_unref_last:
  fixes s :: "'z koa_state_scheme"
  assumes "alias_inv s" "k \<in> pool_live (pool_koa_obj s)" "koa_refcnt (koas s k) = 1"
  defines "ino \<equiv> koa_st_ino (koas s k)"
  shows "\<exists>h. koa_unref k s =
      txc_koa_destroy k (s\<lparr>koas := (koas s)(k := koa_plus (- 1) (koas s k)), alias_cache := h\<rparr>) \<and> ht_ok h \<and>
    ht_map h = (if koa_type (koas s k) = TXC_KOA_IS_FILE then (ht_map (alias_cache s))(ino := None)
                else ht_map (alias_cache s))"
proof (cases "koa_type (koas s k) = TXC_KOA_IS_FILE")
  case isfile: True
  then have "ht_map (alias_cache s) ino = Some k"
    using assms(1) assms(2,3) by (auto simp: ino_def alias_inv_def referenced_file_def)
  then obtain h where "txc_hash_table_remove ino (alias_cache s) = Ok (TXC_R_SUCCESS, Some k) h" "ht_ok h"
    "ht_map h = (ht_map (alias_cache s))(ino := None)"
    using ht.remove_present [of "alias_cache s" ino k] assms(1) by (auto simp: alias_inv_def)
  with assms(3) isfile show ?thesis
    by (intro exI [of _ h]) (simp add: ino_def koa_unref_def alias_cache_remove_def koa_defs koa_plus_def bnd_def
        modify_def gets_def mwhen_def zoom_def ret_def)
next
  case False
  with assms(1,3) show ?thesis
    by (intro exI [of _ "alias_cache s"]) (simp add: koa_unref_def koa_defs koa_plus_def bnd_def
        modify_def gets_def mwhen_def ret_def alias_inv_def)
qed

lemma koa_unref_alias:
  assumes "alias_inv s" "koa_live k s" "1 \<le> koa_refcnt (koas s k)"
  shows "\<exists>s'. koa_unref k s = Ok () s' \<and> unref_done k s s'"
proof (cases "koa_refcnt (koas s k) = 1")
  case False
  let ?m = "(koas s)(k := koa_plus (- 1) (koas s k))"
  have "koa_unref k s = Ok () (s\<lparr>koas := ?m\<rparr>)"
    using False by (simp add: koa_unref_def koa_defs koa_plus_def prog_simps)
  moreover have "referenced_file (s\<lparr>koas := ?m\<rparr>) ino a = referenced_file s ino a" for ino a
    using assms(3) False by (auto simp: referenced_file_def)
  ultimately show ?thesis
    using assms(1) False by (auto simp: unref_done_def alias_inv_def Let_def)
next
  case True
  let ?m = "(koas s)(k := koa_plus (- 1) (koas s k))" and ?ino = "koa_st_ino (koas s k)"
  have live: "k \<in> pool_live (pool_koa_obj s)" using assms(2) by (simp add: koa_live_def)
  from koa_unref_last [OF assms(1) live True] obtain h where h: "koa_unref k s = txc_koa_destroy k (s\<lparr>koas := ?m, alias_cache := h\<rparr>)" "ht_ok h"
    "ht_map h = (if koa_type (koas s k) = TXC_KOA_IS_FILE then (ht_map (alias_cache s))(?ino := None)
                 else ht_map (alias_cache s))" by blast
  let ?s1 = "s\<lparr>koas := ?m, alias_cache := h\<rparr>" and ?sn = "koa_sentinel (koas s k)"
  have "koa_live k ?s1" using assms(2) by (simp add: koa_live_def koa_has_buffer_def)
  from koa_destroy_ok [OF this] obtain p mm q where
    d: "txc_koa_destroy k ?s1 = Ok () (?s1\<lparr>sentinels := (sentinels s)(?sn := dropped (sentinels s ?sn)),
         pool_sentinel := p, bufmgr := mm, pool_koa_obj := q\<rparr>)"
      "pool_live p = pool_live (pool_sentinel s) - (if sn_refcnt (sentinels s ?sn) = 1 then {?sn} else {})"
      "pool_live q = pool_live (pool_koa_obj s) - {k}"
    by auto
  let ?s2 = "?s1\<lparr>sentinels := (sentinels s)(?sn := dropped (sentinels s ?sn)),
         pool_sentinel := p, bufmgr := mm, pool_koa_obj := q\<rparr>"
  have "a = k" if "koa_type (koas s k) = TXC_KOA_IS_FILE" "referenced_file s ?ino a" for a
    by (rule referenced_file_unique [OF assms(1) that(2)]) (use that True live in \<open>simp add: referenced_file_def\<close>)
  then have "ht_map h ino = Some a \<longleftrightarrow> referenced_file ?s2 ino a" for ino a
    using assms(1) True d(3) h(3) live by (auto simp: alias_inv_def referenced_file_def)
  then have "alias_inv ?s2" using h(2) by (simp add: alias_inv_def)
  with d h(1) True show ?thesis by (intro exI [of _ ?s2]) (simp add: unref_done_def Let_def)
qed


lemma koa_mutex_toggle: "\<not> koa_mutex x \<Longrightarrow> x\<lparr>koa_mutex := False\<rparr> = x"
  by (cases x) simp

lemma koa_plus_mutex: "koa_plus d (x\<lparr>koa_mutex := b\<rparr>) = (koa_plus d x)\<lparr>koa_mutex := b\<rparr>"
  by (cases x) (simp add: koa_plus_def)

definition koa_latched :: "addr \<Rightarrow> 'z koa_state_scheme \<Rightarrow> 'z koa_state_scheme" where
  "koa_latched k s = s\<lparr>koas := (koas s)(k := (koas s k)\<lparr>koa_mutex := True\<rparr>)\<rparr>"

lemma koa_latched_simps [simp]:
  "koas (koa_latched k s) = (koas s)(k := (koas s k)\<lparr>koa_mutex := True\<rparr>)"
  "alias_cache (koa_latched k s) = alias_cache s" "pool_koa_obj (koa_latched k s) = pool_koa_obj s"
  "bucket_fresh (koa_latched k s) = bucket_fresh s" "map_koa (koa_latched k s) = map_koa s"
  "pool_sentinel (koa_latched k s) = pool_sentinel s" "sentinels (koa_latched k s) = sentinels s"
  "bufmgr (koa_latched k s) = bufmgr s"
  by (simp_all add: koa_latched_def bucket_fresh_def)

lemma koa_latched_inv: "alias_inv (koa_latched k s) = alias_inv s"
  by (rule alias_inv_cong) simp_all

lemma koa_latched_ref: "can_ref k (koa_latched k s) = can_ref k s"
  by (simp add: can_ref_def koa_latched_inv)

lemma koa_latched_live: "koa_live k (koa_latched k s) = koa_live k s"
  by (simp add: koa_live_def koa_has_buffer_def)

text \<open>
  C29. Attaching to a KOA adds one reference, and the alias cache keeps holding
  exactly the live files that are referenced: a file enters it with its first
  reference.
\<close>

theorem attach_tracks_live_files:
  assumes "can_ref k s" "\<not> koa_mutex (koas s k)"
  shows "\<exists>s'. txc_koa_attach (Some k) s = Ok TXC_R_SUCCESS s' \<and> alias_inv s' \<and>
    koas s' = (koas s)(k := koa_plus 1 (koas s k)) \<and>
    (koa_type (koas s k) = TXC_KOA_IS_FILE \<longrightarrow>
       txc_koa_alias_cache_lookup_inode (koa_st_ino (koas s k)) s' = Ok (TXC_R_SUCCESS, Some k) s')"
proof -
  let ?x = "koas s k"
  obtain n h where r: "koa_ref k (koa_latched k s) = Ok () ((koa_latched k s)\<lparr>koas := (koas s)(k :=
        (koa_plus 1 ?x)\<lparr>koa_mutex := True\<rparr>), malloc_calls := n, alias_cache := h\<rparr>)"
    "alias_inv ((koa_latched k s)\<lparr>koas := (koas s)(k := (koa_plus 1 ?x)\<lparr>koa_mutex := True\<rparr>),
        malloc_calls := n, alias_cache := h\<rparr>)"
    using koa_ref_alias [of k "koa_latched k s"] assms(1) by (auto simp: koa_latched_ref koa_plus_mutex)
  have tog: "(koa_plus 1 ?x)\<lparr>koa_mutex := False\<rparr> = koa_plus 1 ?x" by (rule koa_mutex_toggle) (simp add: assms(2))
  let ?s' = "s\<lparr>koas := (koas s)(k := koa_plus 1 ?x), malloc_calls := n, alias_cache := h\<rparr>"
  have "txc_koa_attach (Some k) s = bnd (koa_ref k) (\<lambda>_.
      bnd (txc_mutex_unlock (\<lambda>b s. s\<lparr>koas := (koas s)(k := (koas s k)\<lparr>koa_mutex := b\<rparr>)\<rparr>)) (\<lambda>_.
      ret TXC_R_SUCCESS)) (koa_latched k s)"
    using assms(2) by (simp add: txc_koa_attach_def bnd_def txc_mutex_lock_def koa_latched_def)
  also have "\<dots> = Ok TXC_R_SUCCESS ((koa_latched k s)\<lparr>koas := (koas s)(k := koa_plus 1 ?x),
      malloc_calls := n, alias_cache := h\<rparr>)"
    using r(1) by (simp add: bnd_def txc_mutex_unlock_def modify_def ret_def tog)
  also have "\<dots> = Ok TXC_R_SUCCESS ?s'" by (simp add: koa_latched_def)
  finally have run: "txc_koa_attach (Some k) s = Ok TXC_R_SUCCESS ?s'" .
  have inv: "alias_inv ?s'"
    by (rule iffD1 [OF alias_inv_cong r(2)]) (simp_all add: koa_latched_def)
  then have l: "ht_ok h" "koa_type ?x = TXC_KOA_IS_FILE \<Longrightarrow> ht_map h (koa_st_ino ?x) = Some k"
    using assms(1) by (auto simp: alias_inv_def referenced_file_def can_ref_def)
  have "txc_koa_alias_cache_lookup_inode (koa_st_ino ?x) ?s' = Ok (TXC_R_SUCCESS, Some k) ?s'"
    if "koa_type ?x = TXC_KOA_IS_FILE"
    using ht.lookup [OF l(1), of "koa_st_ino ?x"] l(2) [OF that]
    by (simp add: txc_koa_alias_cache_lookup_inode_def koa_defs prog_simps)
  with run inv show ?thesis by (intro exI [of _ ?s']) simp
qed

text \<open>
  C38. Detaching drops one reference.  With the last one the KOA is destroyed: it
  returns to the pool, its sentinel loses a reference (and returns to its pool
  with the last), and a file leaves the alias cache, which keeps holding exactly
  the referenced live files.
\<close>

theorem detach_destroys_with_last_reference:
  assumes "alias_inv s" "koa_live k s" "1 \<le> koa_refcnt (koas s k)" "\<not> koa_mutex (koas s k)"
  shows "\<exists>s'. txc_koa_detach (Some k) s = Ok TXC_R_SUCCESS s' \<and> unref_done k s s'"
proof -
  let ?x = "koas s k"
  obtain s1 where r: "koa_unref k (koa_latched k s) = Ok () s1" "unref_done k (koa_latched k s) s1"
    using koa_unref_alias [of "koa_latched k s" k] assms(1-3) by (auto simp: koa_latched_inv koa_latched_live)
  have tog: "(koa_plus (- 1) ?x)\<lparr>koa_mutex := False\<rparr> = koa_plus (- 1) ?x"
    by (rule koa_mutex_toggle) (simp add: assms(4))
  let ?s' = "s1\<lparr>koas := (koas s)(k := koa_plus (- 1) ?x)\<rparr>"
  have k1: "koas s1 = (koas s)(k := (koa_plus (- 1) ?x)\<lparr>koa_mutex := True\<rparr>)"
    using r(2) by (simp add: unref_done_def koa_plus_mutex)
  have "txc_koa_detach (Some k) s = bnd (koa_unref k) (\<lambda>_.
      bnd (txc_mutex_unlock (\<lambda>b s. s\<lparr>koas := (koas s)(k := (koas s k)\<lparr>koa_mutex := b\<rparr>)\<rparr>)) (\<lambda>_.
      ret TXC_R_SUCCESS)) (koa_latched k s)"
    using assms(4) by (simp add: txc_koa_detach_def bnd_def txc_mutex_lock_def koa_latched_def)
  also have "\<dots> = Ok TXC_R_SUCCESS ?s'"
    using r(1) k1 by (simp add: bnd_def txc_mutex_unlock_def modify_def ret_def tog)
  finally have run: "txc_koa_detach (Some k) s = Ok TXC_R_SUCCESS ?s'" .
  have "alias_inv s1" using r(2) by (simp add: unref_done_def)
  then have "alias_inv ?s'" by (rule iffD1 [OF alias_inv_cong, rotated -1]) (simp_all add: k1)
  with r(2) run show ?thesis
    by (intro exI [of _ ?s']) (simp add: unref_done_def Let_def koa_latched_def split: if_splits)
qed


section \<open>Attaching and detaching descriptors\<close>

lemma wp_koa_ref:
  assumes "can_ref k s"
    and "\<And>n h. alias_inv (s\<lparr>koas := (koas s)(k := koa_plus 1 (koas s k)), malloc_calls := n, alias_cache := h\<rparr>) \<Longrightarrow>
      Q () (s\<lparr>koas := (koas s)(k := koa_plus 1 (koas s k)), malloc_calls := n, alias_cache := h\<rparr>)"
  shows "wp (koa_ref k) Q E s"
  using koa_ref_alias [OF assms(1)] assms(2) by (auto simp: wp_def)

lemma wp_koa_get [simp]: "wp (koa_get k f) Q E s \<longleftrightarrow> Q (f (koas s k)) s"
  by (simp add: koa_get_def)

lemma wp_koa_set [simp]: "wp (koa_set k f) Q E s \<longleftrightarrow> Q () (s\<lparr>koas := (koas s)(k := f (koas s k))\<rparr>)"
  by (simp add: koa_set_def)

lemma can_ref_map [simp]: "can_ref k (s\<lparr>map_mutex := m\<rparr>) = can_ref k s"
    "can_ref k (s\<lparr>map_koa := f\<rparr>) = can_ref k s"
  unfolding can_ref_def bucket_fresh_def by (subst alias_inv_cong [where s = s]; simp)+

lemma alias_inv_map: "alias_inv (s\<lparr>map_mutex := m\<rparr>) = alias_inv s" "alias_inv (s\<lparr>map_koa := f\<rparr>) = alias_inv s"
  by (rule alias_inv_cong; simp)+

definition push_fd :: "int \<Rightarrow> txc_koa \<Rightarrow> txc_koa" where
  "push_fd fd x = x\<lparr>koa_fd := (koa_fd x)(nat (koa_fdrefcnt x) := fd), koa_fdrefcnt := koa_fdrefcnt x + 1\<rparr>"

lemma push_fd_simps [simp]:
  "koa_fdrefcnt (push_fd fd x) = koa_fdrefcnt x + 1" "koa_refcnt (push_fd fd x) = koa_refcnt x"
  "koa_type (push_fd fd x) = koa_type x" "koa_st_ino (push_fd fd x) = koa_st_ino x"
  "koa_sentinel (push_fd fd x) = koa_sentinel x" "koa_buffer (push_fd fd x) = koa_buffer x"
  by (simp_all add: push_fd_def)

lemma koa_fds_plus [simp]: "koa_fds (koa_plus d x) = koa_fds x" "fd_index (koa_plus d x) = fd_index x"
  by (simp_all add: koa_fds_def fd_index_def fun_eq_iff)

lemma koa_fds_push: "0 \<le> koa_fdrefcnt x \<Longrightarrow> koa_fds (push_fd fd x) = koa_fds x @ [fd]"
  by (auto simp: koa_fds_def push_fd_def nat_add_distrib)

text \<open>What attaching a descriptor changes.\<close>

definition fd_attached :: "addr \<Rightarrow> int \<Rightarrow> 'z koa_state_scheme \<Rightarrow> 'z koa_state_scheme \<Rightarrow> bool" where
  "fd_attached k fd s s' \<longleftrightarrow> alias_inv s' \<and> koas s' = (koas s)(k := push_fd fd (koa_plus 1 (koas s k))) \<and>
     map_koa s' = (map_koa s)(fd \<mapsto> k) \<and> map_mutex s' = map_mutex s \<and>
     pool_koa_obj s' = pool_koa_obj s \<and> pool_sentinel s' = pool_sentinel s \<and> sentinels s' = sentinels s \<and>
     bufmgr s' = bufmgr s \<and> txds s' = txds s"

lemma attach_fd_ok:
  assumes "can_ref k s" "0 \<le> fd" "fd < TXC_KOA_MAP_SIZE" "map_koa s fd = None" "\<not> map_mutex s fd"
    "0 \<le> koa_fdrefcnt (koas s k)" "koa_fdrefcnt (koas s k) < TXC_MAX_NUM_FDREFS_PER_KOA"
  shows "\<exists>s'. txc_koa_attach_fd (Some k) fd lock s = Ok TXC_R_SUCCESS s' \<and> fd_attached k fd s s'"
proof -
  have mm: "(map_mutex s)(fd := False) = map_mutex s" using assms(5) by (auto simp: fun_upd_idem_iff)
  have "wp (txc_koa_attach_fd (Some k) fd lock) (\<lambda>r s'. r = TXC_R_SUCCESS \<and> fd_attached k fd s s') (\<lambda>_ _. False) s"
    unfolding txc_koa_attach_fd_def option.case wp_bnd wp_guard wp_mwhen map_lock_def map_bounds_def wp_mutex_lock
      wp_gets wp_modify
    by (cases lock; use assms mm in \<open>simp add: map_unlock_def map_bounds_def alias_inv_map\<close>;
      rule wp_koa_ref; simp add: map_unlock_def map_bounds_def fd_attached_def push_fd_def alias_inv_def referenced_file_def)
  then show ?thesis unfolding wp_total by blast
qed

definition drop_fd :: "nat \<Rightarrow> txc_koa \<Rightarrow> txc_koa" where
  "drop_fd i x = x\<lparr>koa_fd := (koa_fd x)(i := koa_fd x (nat (koa_fdrefcnt x))), koa_fdrefcnt := koa_fdrefcnt x - 1\<rparr>"

lemma drop_fd_simps [simp]:
  "koa_fdrefcnt (drop_fd i x) = koa_fdrefcnt x - 1" "koa_refcnt (drop_fd i x) = koa_refcnt x"
  "koa_type (drop_fd i x) = koa_type x" "koa_st_ino (drop_fd i x) = koa_st_ino x"
  "koa_sentinel (drop_fd i x) = koa_sentinel x" "koa_buffer (drop_fd i x) = koa_buffer x"
  by (simp_all add: drop_fd_def)

lemma detach_fd_ok:
  assumes "alias_inv s" "koa_live k s" "1 \<le> koa_refcnt (koas s k)"
    "0 \<le> fd" "fd < TXC_KOA_MAP_SIZE" "map_koa s fd \<noteq> None" "\<not> map_mutex s fd" "fd_index (koas s k) fd = Some i"
    "0 \<le> koa_fdrefcnt (koas s k)" "koa_fdrefcnt (koas s k) < TXC_MAX_NUM_FDREFS_PER_KOA"
  shows "\<exists>s'. txc_koa_detach_fd (Some k) fd lock s = Ok TXC_R_SUCCESS s' \<and>
    unref_done k (s\<lparr>map_koa := (map_koa s)(fd := None), koas := (koas s)(k := drop_fd i (koas s k))\<rparr>) s'"
proof -
  let ?s1 = "s\<lparr>map_mutex := if lock then (map_mutex s)(fd := True) else map_mutex s,
      map_koa := (map_koa s)(fd := None), koas := (koas s)(k := drop_fd i (koas s k))\<rparr>"
  let ?s2 = "s\<lparr>map_koa := (map_koa s)(fd := None), koas := (koas s)(k := drop_fd i (koas s k))\<rparr>"
  have mm: "(map_mutex s)(fd := False) = map_mutex s" using assms(7) by (auto simp: fun_upd_idem_iff)
  have "alias_inv ?s1" using assms(1) by (simp add: alias_inv_def referenced_file_def drop_fd_def)
  moreover have "koa_live k ?s1" using assms(2) by (simp add: koa_live_def koa_has_buffer_def drop_fd_def)
  ultimately obtain s' where r: "koa_unref k ?s1 = Ok () s'" "unref_done k ?s1 s'"
    using koa_unref_alias [of ?s1 k] assms(3) by (auto simp: drop_fd_def)
  let ?s' = "if lock then s'\<lparr>map_mutex := (map_mutex s')(fd := False)\<rparr> else s'"
  have "txc_koa_detach_fd (Some k) fd lock s = bnd (koa_unref k) (\<lambda>_.
      bnd (mwhen lock (map_unlock fd)) (\<lambda>_. ret TXC_R_SUCCESS)) ?s1"
    using assms by (cases lock) (auto simp: txc_koa_detach_fd_def map_lock_def map_bounds_def koa_defs bnd_def guard_def
        txc_mutex_lock_def mwhen_def gets_def modify_def drop_fd_def)
  also have "\<dots> = Ok TXC_R_SUCCESS ?s'"
    using r(1) assms(4,5) by (simp add: map_unlock_def map_bounds_def prog_simps)
  finally have run: "txc_koa_detach_fd (Some k) fd lock s = Ok TXC_R_SUCCESS ?s'" .
  have "unref_done k ?s2 ?s'"
    using r(2) by (cases lock) (simp_all add: unref_done_def Let_def mm alias_inv_map drop_fd_def)
  with run show ?thesis by blast
qed

lemma find_upt: "i < n \<Longrightarrow> P i \<Longrightarrow> (\<And>j. j < i \<Longrightarrow> \<not> P j) \<Longrightarrow> List.find P [0..<n] = Some i"
  by (auto simp: find_Some_iff)

lemma fd_index_nth:
  assumes "i < nat (koa_fdrefcnt x)" "distinct (koa_fds x)"
  shows "fd_index x (koa_fds x ! i) = Some i"
  unfolding fd_index_def
proof (rule find_upt [OF assms(1)])
  show "koa_fd x i = koa_fds x ! i" using assms(1) by (simp add: koa_fds_def)
  show "koa_fd x j \<noteq> koa_fds x ! i" if "j < i" for j
    using assms that nth_eq_iff_index_eq [OF assms(2), of j i] by (simp add: koa_fds_def)
qed

lemma fd_index_None: "fd_index x fd = None \<longleftrightarrow> fd \<notin> set (koa_fds x)"
  by (auto simp: fd_index_def koa_fds_def find_None_iff)

lemma koa_fds_drop_last:
  "0 \<le> koa_fdrefcnt x \<Longrightarrow> koa_fds (drop_fd (nat (koa_fdrefcnt x)) (push_fd fd x)) = koa_fds x"
  by (auto simp: koa_fds_def drop_fd_def push_fd_def)

lemma koa_fds_drop:
  assumes "i < nat (koa_fdrefcnt x)"
  shows "koa_fds (drop_fd i x) = (butlast (koa_fds x))[i := koa_fd x (nat (koa_fdrefcnt x))]"
  using assms by (intro nth_equalityI) (auto simp: koa_fds_def drop_fd_def nth_list_update nth_butlast nat_diff_distrib)

text \<open>
  Attaching a descriptor to a KOA maps the descriptor to it, and detaching
  the descriptor again undoes all of it: the descriptor map, its locks, the
  references and the list of descriptors are those before, and a KOA that had no
  reference before is destroyed.
\<close>

theorem attach_detach_fd_roundtrip:
  assumes "can_ref k s" "koa_live k s" "0 \<le> fd" "fd < TXC_KOA_MAP_SIZE" "map_koa s fd = None" "\<not> map_mutex s fd"
    "0 \<le> koa_fdrefcnt (koas s k)" "koa_fdrefcnt (koas s k) + 1 < TXC_MAX_NUM_FDREFS_PER_KOA"
    "distinct (koa_fds (koas s k))" "fd \<notin> set (koa_fds (koas s k))"
  shows "\<exists>s1 s2. txc_koa_attach_fd (Some k) fd lock s = Ok TXC_R_SUCCESS s1 \<and>
    txc_koa_lookup_fd2koa fd s1 = Ok (TXC_R_SUCCESS, Some k) s1 \<and>
    txc_koa_detach_fd (Some k) fd lock s1 = Ok TXC_R_SUCCESS s2 \<and>
    map_koa s2 = map_koa s \<and> map_mutex s2 = map_mutex s \<and> alias_inv s2 \<and>
    koa_refcnt (koas s2 k) = koa_refcnt (koas s k) \<and> koa_fds (koas s2 k) = koa_fds (koas s k) \<and>
    pool_live (pool_koa_obj s2) = pool_live (pool_koa_obj s) - (if koa_refcnt (koas s k) = 0 then {k} else {})"
proof -
  let ?x = "koas s k" and ?n = "nat (koa_fdrefcnt (koas s k))"
  obtain s1 where s1: "txc_koa_attach_fd (Some k) fd lock s = Ok TXC_R_SUCCESS s1" "fd_attached k fd s s1"
    using attach_fd_ok [of k s fd lock] assms by auto
  have x: "koas s1 k = push_fd fd (koa_plus 1 ?x)" "map_koa s1 fd = Some k" "map_mutex s1 = map_mutex s" "alias_inv s1"
    using s1(2) by (simp_all add: fd_attached_def)
  have ix: "fd_index (koas s1 k) fd = Some ?n"
    using fd_index_nth [of ?n "koas s1 k"] x(1) assms(7,9,10)
    by (simp add: koa_fds_push nth_append) (simp add: koa_fds_def)
  have "koa_live k s1" using assms(2) s1(2)
    by (simp add: fd_attached_def koa_live_def koa_has_buffer_def)
  then obtain s2 where s2: "txc_koa_detach_fd (Some k) fd lock s1 = Ok TXC_R_SUCCESS s2"
    "unref_done k (s1\<lparr>map_koa := (map_koa s1)(fd := None), koas := (koas s1)(k := drop_fd ?n (koas s1 k))\<rparr>) s2"
    using detach_fd_ok [of s1 k fd ?n lock] x ix assms by (auto simp: can_ref_def)
  have "koas s2 k = koa_plus (- 1) (drop_fd ?n (push_fd fd (koa_plus 1 ?x)))"
    using s2(2) x(1) by (simp add: unref_done_def)
  then have "koa_refcnt (koas s2 k) = koa_refcnt ?x" "koa_fds (koas s2 k) = koa_fds ?x"
    using koa_fds_drop_last [of "koa_plus 1 ?x" fd] assms(7) by simp_all
  moreover have "txc_koa_lookup_fd2koa fd s1 = Ok (TXC_R_SUCCESS, Some k) s1"
    using x(2) assms by (simp add: txc_koa_lookup_fd2koa_def map_bounds_def prog_simps)
  moreover have "(map_koa s1)(fd := None) = map_koa s" "pool_koa_obj s1 = pool_koa_obj s"
    using s1(2) assms(5) by (auto simp: fd_attached_def)
  ultimately show ?thesis
    using s1(1) s2 x by (intro exI [of _ s1] exI [of _ s2]) (simp add: unref_done_def Let_def)
qed

text \<open>
  C39. Detaching a descriptor that is not the last in the list of its KOA loses
  the last one: the slot is refilled from behind the list.  Detaching the lost
  descriptor afterwards fails and drops no reference, so the KOA stays
  allocated.
\<close>

theorem detach_fd_loses_last_descriptor:
  assumes "alias_inv s" "koa_live k s" "2 \<le> koa_refcnt (koas s k)" "koa_fds (koas s k) = xs @ fd # ys @ [g]"
    "distinct (xs @ fd # ys @ [g])" "\<forall>f \<in> {fd, g}. 0 \<le> f \<and> f < TXC_KOA_MAP_SIZE \<and> map_koa s f = Some k \<and> \<not> map_mutex s f"
    "length (xs @ ys) + 2 < 8" "koa_fd (koas s k) (length (xs @ ys) + 2) \<noteq> g"
  shows "\<exists>s1 s2. txc_koa_detach_fd (Some k) fd True s = Ok TXC_R_SUCCESS s1 \<and>
    koa_fds (koas s1 k) = xs @ koa_fd (koas s k) (length (xs @ ys) + 2) # ys \<and>
    txc_koa_detach_fd (Some k) g True s1 = Ok TXC_R_FAILURE s2 \<and>
    koa_refcnt (koas s2 k) = koa_refcnt (koas s k) - 1 \<and> k \<in> pool_live (pool_koa_obj s2)"
proof -
  let ?x = "koas s k" and ?i = "length xs" and ?z = "koa_fd (koas s k) (length (xs @ ys) + 2)"
  have "length (koa_fds ?x) = length xs + length ys + 2" using assms(4) by simp
  then have n: "koa_fdrefcnt ?x = int (length xs + length ys + 2)" by (simp add: koa_fds_def)
  have "fd_index ?x fd = Some ?i"
    using fd_index_nth [of ?i ?x] n assms(4,5) by (simp add: nth_append)
  then obtain s1 where s1: "txc_koa_detach_fd (Some k) fd True s = Ok TXC_R_SUCCESS s1"
    "unref_done k (s\<lparr>map_koa := (map_koa s)(fd := None), koas := (koas s)(k := drop_fd ?i ?x)\<rparr>) s1"
    using detach_fd_ok [of s k fd ?i True] assms(1-3,6,7) n by auto
  have x1: "koas s1 k = koa_plus (- 1) (drop_fd ?i ?x)" using s1(2) by (simp add: unref_done_def)
  have "butlast (xs @ fd # ys @ [g]) = xs @ fd # ys" by (simp add: butlast_append)
  moreover have "nat (koa_fdrefcnt ?x) = length (xs @ ys) + 2" using n by simp
  ultimately have fds: "koa_fds (koas s1 k) = xs @ ?z # ys"
    using koa_fds_drop [of ?i ?x] assms(4) x1 n by (simp add: list_update_append)
  then have "fd_index (koas s1 k) g = None" using assms(5,8) by (simp add: fd_index_None)
  moreover have m: "map_koa s1 g = Some k" "\<not> map_mutex s1 g" "pool_live (pool_koa_obj s1) = pool_live (pool_koa_obj s)"
    using s1(2) assms(3,5,6) by (auto simp: unref_done_def Let_def)
  ultimately obtain s2 where "txc_koa_detach_fd (Some k) g True s1 = Ok TXC_R_FAILURE s2"
    "koas s2 = koas s1" "pool_koa_obj s2 = pool_koa_obj s1"
    using assms(6) by (auto simp: txc_koa_detach_fd_def map_lock_def map_unlock_def map_bounds_def koa_defs prog_simps)
  with s1(1) fds x1 m(3) assms(2) show ?thesis
    by (intro exI [of _ s1] exI [of _ s2]) (simp add: koa_live_def)
qed

section \<open>Locking the descriptors of a KOA\<close>

definition set_map_mutex :: "int list \<Rightarrow> bool \<Rightarrow> 'z koa_state_scheme \<Rightarrow> 'z koa_state_scheme" where
  "set_map_mutex fds b s = s\<lparr>map_mutex := (\<lambda>fd. if fd \<in> set fds then b else map_mutex s fd)\<rparr>"

lemma set_map_mutex_Cons:
  "set_map_mutex fds b (s\<lparr>map_mutex := (map_mutex s)(fd := b)\<rparr>) = set_map_mutex (fd # fds) b s"
  by (auto simp: set_map_mutex_def fun_eq_iff)

lemma map_lock_step:
  assumes "0 \<le> fd \<and> fd < TXC_KOA_MAP_SIZE"
  shows "map_lock fd s = (if map_mutex s fd then Fault Blocked s else Ok () (s\<lparr>map_mutex := (map_mutex s)(fd := True)\<rparr>))"
    "map_unlock fd s = Ok () (s\<lparr>map_mutex := (map_mutex s)(fd := False)\<rparr>)"
  using assms by (simp_all add: map_lock_def map_unlock_def map_bounds_def prog_simps)

lemma lock_all:
  assumes "\<forall>fd \<in> set fds. 0 \<le> fd \<and> fd < TXC_KOA_MAP_SIZE \<and> \<not> map_mutex s fd" "distinct fds"
  shows "for_each fds map_lock s = Ok () (set_map_mutex fds True s)"
  using assms
proof (induction fds arbitrary: s)
  case (Cons fd fds)
  let ?s = "s\<lparr>map_mutex := (map_mutex s)(fd := True)\<rparr>"
  have "\<forall>f \<in> set fds. 0 \<le> f \<and> f < TXC_KOA_MAP_SIZE \<and> \<not> map_mutex ?s f" using Cons.prems by auto
  then have "for_each fds map_lock ?s = Ok () (set_map_mutex fds True ?s)" using Cons.IH Cons.prems(2) by simp
  with Cons.prems(1) show ?case by (simp add: bnd_def map_lock_step set_map_mutex_Cons)
qed (simp add: set_map_mutex_def prog_simps)

lemma unlock_all:
  assumes "\<forall>fd \<in> set fds. 0 \<le> fd \<and> fd < TXC_KOA_MAP_SIZE"
  shows "for_each fds map_unlock s = Ok () (set_map_mutex fds False s)"
  using assms
proof (induction fds arbitrary: s)
  case (Cons fd fds)
  then show ?case
    using Cons.IH [of "s\<lparr>map_mutex := (map_mutex s)(fd := False)\<rparr>"]
    by (simp add: bnd_def map_lock_step set_map_mutex_Cons)
qed (simp add: set_map_mutex_def prog_simps)

lemma lock_blocked:
  assumes "\<forall>fd \<in> set fds. 0 \<le> fd \<and> fd < TXC_KOA_MAP_SIZE" "\<exists>fd \<in> set fds. map_mutex s fd"
  shows "\<exists>s'. for_each fds map_lock s = Fault Blocked s'"
  using assms
proof (induction fds arbitrary: s)
  case (Cons fd fds)
  show ?case
  proof (cases "map_mutex s fd")
    case False
    then have "\<exists>f \<in> set fds. map_mutex (s\<lparr>map_mutex := (map_mutex s)(fd := True)\<rparr>) f"
      using Cons.prems(2) by auto
    with Cons.IH [of "s\<lparr>map_mutex := (map_mutex s)(fd := True)\<rparr>"] False Cons.prems(1) show ?thesis
      by (simp add: bnd_def map_lock_step)
  qed (use Cons.prems(1) in \<open>simp add: bnd_def map_lock_step\<close>)
qed simp

text \<open>
  Locking the descriptors of a KOA locks exactly those and unlocking them
  restores the state; while one of them is held the call blocks.
\<close>

theorem lock_fds_roundtrip:
  assumes "\<forall>fd \<in> set (koa_fds (koas s k)). 0 \<le> fd \<and> fd < TXC_KOA_MAP_SIZE" "distinct (koa_fds (koas s k))"
  shows "if \<exists>fd \<in> set (koa_fds (koas s k)). map_mutex s fd
    then \<exists>s'. txc_koa_lock_fds_refby_koa k s = Fault Blocked s'
    else \<exists>s'. txc_koa_lock_fds_refby_koa k s = Ok TXC_R_SUCCESS s' \<and>
      {fd. map_mutex s' fd} = {fd. map_mutex s fd} \<union> set (koa_fds (koas s k)) \<and>
      txc_koa_unlock_fds_refby_koa k s' = Ok TXC_R_SUCCESS s"
proof (cases "\<exists>fd \<in> set (koa_fds (koas s k)). map_mutex s fd")
  case True
  then obtain s' where "for_each (koa_fds (koas s k)) map_lock s = Fault Blocked s'"
    using lock_blocked [OF assms(1)] by blast
  with True show ?thesis by (simp add: txc_koa_lock_fds_refby_koa_def koa_defs bnd_def gets_def)
next
  case False
  let ?fds = "koa_fds (koas s k)"
  have "(\<lambda>fd. if fd \<in> set ?fds then False else map_mutex s fd) = map_mutex s" using False by auto
  then have restored: "set_map_mutex ?fds False (set_map_mutex ?fds True s) = s"
    by (simp add: set_map_mutex_def cong: if_cong)
  have keep: "koas (set_map_mutex ?fds True s) = koas s" by (simp add: set_map_mutex_def)
  have "txc_koa_lock_fds_refby_koa k s = Ok TXC_R_SUCCESS (set_map_mutex ?fds True s)"
    using lock_all [of ?fds s] assms False
    by (simp add: txc_koa_lock_fds_refby_koa_def koa_defs bnd_def gets_def ret_def)
  moreover have "txc_koa_unlock_fds_refby_koa k (set_map_mutex ?fds True s) = Ok TXC_R_SUCCESS s"
    using restored keep by (simp add: unlock_all [OF assms(1)]
        txc_koa_unlock_fds_refby_koa_def koa_defs bnd_def gets_def ret_def)
  ultimately show ?thesis
    using False by (auto simp: set_map_mutex_def)
qed

section \<open>Witnesses\<close>

text \<open>A manager with one KOA, at address 4096, and no descriptor attached.\<close>

definition sample_koa :: "int \<Rightarrow> int \<Rightarrow> int list \<Rightarrow> txc_koa" where
  "sample_koa ty refs fds = \<lparr>koa_mutex = False, koa_sentinel = 4096,
     koa_fd = (\<lambda>i. if i < length fds then fds ! i else - 1), koa_fdrefcnt = int (length fds), koa_refcnt = refs,
     koa_type = ty, koa_st_ino = 7, koa_buffer = 0\<rparr>"

definition sample_koa_state :: "txc_koa \<Rightarrow> koa_state" where
  "sample_koa_state x = stats_state.extend sample_stats_state
     (koa_state.fields False empty_table (\<lambda>_. False)
        (\<lambda>fd. if fd \<in> set (koa_fds x) then Some 4096 else None) sample_pool (\<lambda>_. x))"

lemma sample_koa_state_simps [simp]:
  "alias_cache (sample_koa_state x) = empty_table" "koas (sample_koa_state x) = (\<lambda>_. x)"
  "map_mutex (sample_koa_state x) = (\<lambda>_. False)" "pool_koa_obj (sample_koa_state x) = sample_pool"
  "map_koa (sample_koa_state x) = (\<lambda>fd. if fd \<in> set (koa_fds x) then Some 4096 else None)"
  "pool_sentinel (sample_koa_state x) = sample_pool"
  "sentinels (sample_koa_state x) = (\<lambda>a. free_sentinel (int (unat a)))"
  "malloc_answer (sample_koa_state x) = (\<lambda>n. Some (of_nat (8192 + 64 * n)))" "malloc_calls (sample_koa_state x) = 0"
  by (simp_all add: sample_koa_state_def stats_state.defs koa_state.defs sample_stats_state_def)

lemma sample_koa_simps [simp]:
  "koa_type (sample_koa ty refs fds) = ty" "koa_refcnt (sample_koa ty refs fds) = refs"
  "koa_fdrefcnt (sample_koa ty refs fds) = int (length fds)" "\<not> koa_mutex (sample_koa ty refs fds)"
  "koa_sentinel (sample_koa ty refs fds) = 4096" "koa_st_ino (sample_koa ty refs fds) = 7"
  "koa_fds (sample_koa ty refs fds) = fds"
  "koa_fd (sample_koa ty refs fds) i = (if i < length fds then fds ! i else - 1)"
  by (auto simp: sample_koa_def koa_fds_def intro: nth_equalityI)

lemma sample_pool_live: "pool_ok sample_pool" "pool_live sample_pool = {4096}"
proof -
  have two: "{..<2} = {0, 1 :: nat}" by auto
  show "pool_live sample_pool = {4096}"
    by (auto simp: pool_live_def sample_pool_def pbuf_def pstatus_def two)
  show "pool_ok sample_pool" using sample_pool_rep by (auto simp: pool_ok_def)
qed

lemma sample_koa_inv: "ty \<noteq> TXC_KOA_IS_FILE \<or> refs = 0 \<Longrightarrow> alias_inv (sample_koa_state (sample_koa ty refs fds))"
  by (auto simp: alias_inv_def referenced_file_def empty_table_ok)

lemma sample_koa_can_ref:
  "ty \<noteq> TXC_KOA_IS_FILE \<or> refs = 0 \<Longrightarrow> 0 \<le> refs \<Longrightarrow> can_ref 4096 (sample_koa_state (sample_koa ty refs fds))"
  by (simp add: can_ref_def sample_koa_inv bucket_fresh_def ht_fresh_def empty_table_ok sample_pool_live)

lemma sample_koa_live: "ty = TXC_KOA_IS_FILE \<or> ty = TXC_KOA_IS_PIPE_WRITE_END \<Longrightarrow>
    koa_live 4096 (sample_koa_state (sample_koa ty refs fds))"
  by (auto simp: koa_live_def koa_has_buffer_def sample_pool_live free_sentinel_def)

theorem attach_tracks_live_files_witness:
  "let s = sample_koa_state (sample_koa TXC_KOA_IS_FILE 0 []) in
   \<exists>s'. txc_koa_attach (Some 4096) s = Ok TXC_R_SUCCESS s' \<and> koa_refcnt (koas s' 4096) = 1 \<and>
     txc_koa_alias_cache_lookup_inode 7 s' = Ok (TXC_R_SUCCESS, Some 4096) s'"
  using attach_tracks_live_files [OF sample_koa_can_ref, of 5 0 "[]"] by (auto simp: Let_def)

theorem detach_destroys_with_last_reference_witness:
  "let s = sample_koa_state (sample_koa TXC_KOA_IS_PIPE_WRITE_END 1 []) in
   \<exists>s'. txc_koa_detach (Some 4096) s = Ok TXC_R_SUCCESS s' \<and> 4096 \<notin> pool_live (pool_koa_obj s')"
  using detach_destroys_with_last_reference [OF sample_koa_inv sample_koa_live, of 4 1 "[]"]
  by (auto simp: Let_def unref_done_def)

theorem attach_detach_fd_roundtrip_witness:
  "let s = sample_koa_state (sample_koa TXC_KOA_IS_FILE 0 []) in
   \<exists>s1 s2. txc_koa_attach_fd (Some 4096) 9 True s = Ok TXC_R_SUCCESS s1 \<and>
     txc_koa_detach_fd (Some 4096) 9 True s1 = Ok TXC_R_SUCCESS s2 \<and> map_koa s2 9 = None \<and>
     4096 \<notin> pool_live (pool_koa_obj s2)"
  using attach_detach_fd_roundtrip [OF sample_koa_can_ref [of 5 0 "[]"] sample_koa_live, of 9 True]
  by (auto simp: Let_def)

theorem detach_fd_loses_last_descriptor_witness:
  "let s = sample_koa_state (sample_koa TXC_KOA_IS_PIPE_WRITE_END 2 [5, 6]) in
   \<exists>s1 s2. txc_koa_detach_fd (Some 4096) 5 True s = Ok TXC_R_SUCCESS s1 \<and>
     txc_koa_detach_fd (Some 4096) 6 True s1 = Ok TXC_R_FAILURE s2 \<and> koa_refcnt (koas s2 4096) = 1"
  using detach_fd_loses_last_descriptor [OF sample_koa_inv sample_koa_live, of 4 2 "[5, 6]" "[]" 5 "[]" 6]
  by (auto simp: Let_def)

theorem lock_fds_roundtrip_witness:
  "let s = sample_koa_state (sample_koa TXC_KOA_IS_PIPE_WRITE_END 2 [5, 6]) in
   \<exists>s'. txc_koa_lock_fds_refby_koa 4096 s = Ok TXC_R_SUCCESS s' \<and> {fd. map_mutex s' fd} = {5, 6} \<and>
     txc_koa_unlock_fds_refby_koa 4096 s' = Ok TXC_R_SUCCESS s"
  using lock_fds_roundtrip [of "sample_koa_state (sample_koa TXC_KOA_IS_PIPE_WRITE_END 2 [5, 6])" 4096]
  by (simp add: Let_def)

end
