(* ===== verification/Txmgr.thy ===== *)
theory Txmgr
  imports Koa
begin

text \<open>
  The transaction manager, the second part of \<^verbatim>\<open>src/src/core/tx.c\<close>: the pool of
  transaction descriptors, the list of the descriptors in use, and the hooks that
  run before and after a transaction begins.  The theory shows that the list is
  maintained by creation and destruction, that searching it ends with the right
  answer, and what happens when a recycled descriptor is appended.
\<close>

section \<open>State\<close>

abbreviation (input) TXC_MAX_NUM_THREADS :: u32 where "TXC_MAX_NUM_THREADS \<equiv> 32"

abbreviation (input) sizeof_txd :: u32 where "sizeof_txd \<equiv> 96"

record txmgr_state = koa_state +
  txmgr_mutex :: bool
  alloc_txd_num :: u32
  alloc_txd_list_head :: "addr option"
  alloc_txd_list_tail :: "addr option"
  pool_txd :: txc_pool

definition on_pool_txd :: "(txc_pool, 'a) prog \<Rightarrow> ('z txmgr_state_scheme, 'a) prog" where
  "on_pool_txd = zoom pool_txd (\<lambda>p s. s\<lparr>pool_txd := p\<rparr>)"

definition txmgr_lock :: "('z txmgr_state_scheme, unit) prog" where
  "txmgr_lock = txc_mutex_lock txmgr_mutex (\<lambda>b s. s\<lparr>txmgr_mutex := b\<rparr>)"

definition txmgr_unlock :: "('z txmgr_state_scheme, unit) prog" where
  "txmgr_unlock = txc_mutex_unlock (\<lambda>b s. s\<lparr>txmgr_mutex := b\<rparr>)"

section \<open>The manager\<close>

text \<open>
  The part of the loop of \<^verbatim>\<open>txc_txmgr_create\<close> that prepares one descriptor.  The
  results of the allocations are not checked by the source; the model stops at a
  failed one, whose pointer the descriptor would keep and use.
\<close>

definition txd_prepare :: "addr \<Rightarrow> ('z stats_state_scheme, unit) prog" where
  "txd_prepare t =
     bnd MALLOC (\<lambda>p.
     bnd (txc_sentinel_list_create p) (\<lambda>(_, l).
     bnd (deref l) (\<lambda>l.
     bnd (txd_set t (\<lambda>d. d\<lparr>sentinel_list := l\<rparr>)) (\<lambda>_.
     bnd MALLOC (\<lambda>p.
     bnd (txc_sentinel_list_create p) (\<lambda>(_, l).
     bnd (deref l) (\<lambda>l.
     bnd (txd_set t (\<lambda>d. d\<lparr>sentinel_list_preacquire := l\<rparr>)) (\<lambda>_.
     bnd MALLOC (\<lambda>c.
     bnd MALLOC (\<lambda>u.
     bnd (deref c) (\<lambda>_.
     bnd (deref u) (\<lambda>_.
     bnd (allocate_action_list_entries
            \<lparr>al_entries = [], al_size = TXC_ACTION_LIST_SIZE, al_valid = False\<rparr> False) (\<lambda>(_, la).
     bnd (txd_set t (\<lambda>d. d\<lparr>commit_action_list := la\<rparr>)) (\<lambda>_.
     bnd (allocate_action_list_entries
            \<lparr>al_entries = [], al_size = TXC_ACTION_LIST_SIZE, al_valid = False\<rparr> False) (\<lambda>(_, la).
     bnd (txd_set t (\<lambda>d. d\<lparr>undo_action_list := la\<rparr>)) (\<lambda>_.
     bnd (on_bufmgr txc_buffer_linear_create) (\<lambda>(_, b).
     txd_set t (\<lambda>d. d\<lparr>buffer_linear := b\<rparr>))))))))))))))))))"

definition txc_txmgr_create :: "addr option \<Rightarrow> pool_env \<Rightarrow> ('z txmgr_state_scheme, txc_result_t) prog" where
  "txc_txmgr_create mgr env =
     (case mgr of
        None \<Rightarrow> ret TXC_R_NOMEMORY
      | Some _ \<Rightarrow>
          bnd (create_pool_with env sizeof_txd TXC_MAX_NUM_THREADS None) (\<lambda>(r, p).
          if r \<noteq> TXC_R_SUCCESS then ret r
          else
            bnd (deref p) (\<lambda>pool.
            bnd (modify (\<lambda>s. s\<lparr>pool_txd := pool\<rparr>)) (\<lambda>_.
            bnd (on_pool_txd (txc_pool_object_first (and TXC_POOL_OBJECT_ALLOCATED TXC_POOL_OBJECT_FREE))) (\<lambda>first.
            bnd (loop_result (walk (txc_pool_object_next pool) first)) (\<lambda>objs.
            bnd (for_each objs (\<lambda>obj. txd_prepare (txc_pool_object_of pool obj))) (\<lambda>_.
            bnd (modify (\<lambda>s. s\<lparr>alloc_txd_num := 0, alloc_txd_list_head := None,
                              alloc_txd_list_tail := None, txmgr_mutex := False\<rparr>)) (\<lambda>_.
            ret TXC_R_SUCCESS))))))))"

definition txd_release :: "addr \<Rightarrow> ('z tx_state_scheme, unit) prog" where
  "txd_release t =
     bnd (txd_set t (\<lambda>d. d\<lparr>commit_action_list := snd (deallocate_action_list_entries (commit_action_list d)),
            undo_action_list := snd (deallocate_action_list_entries (undo_action_list d)),
            sentinel_list := snd (deallocate_sentinel_list_entries (sentinel_list d)),
            sentinel_list_preacquire := snd (deallocate_sentinel_list_entries (sentinel_list_preacquire d))\<rparr>)) (\<lambda>_.
     bnd (txd_get t buffer_linear) (\<lambda>b.
     bnd (on_bufmgr (txc_buffer_linear_destroy (Some b))) (\<lambda>_.
     ret ())))"

text \<open>
  The iteration over \<^verbatim>\<open>ALLOCATED & FREE\<close> starts at the first object of the pool and
  follows the list that object is on.
\<close>

definition txc_txmgr_destroy :: "('z txmgr_state_scheme, txc_result_t) prog" where
  "txc_txmgr_destroy =
     bnd (on_pool_txd (txc_pool_object_first (and TXC_POOL_OBJECT_ALLOCATED TXC_POOL_OBJECT_FREE))) (\<lambda>first.
     bnd (gets pool_txd) (\<lambda>pool.
     bnd (loop_result (walk (txc_pool_object_next pool) first)) (\<lambda>objs.
     bnd (for_each objs (\<lambda>obj. txd_release (txc_pool_object_of pool obj))) (\<lambda>_.
     (case txc_pool_destroy (Some pool) of
        Fault e _ \<Rightarrow> throw e
      | Ok _ _ \<Rightarrow> ret TXC_R_SUCCESS)))))"

section \<open>Descriptors\<close>

text \<open>
  A descriptor is appended to the list of those in use.  \<^verbatim>\<open>next\<close> is assigned only
  when the list was empty: otherwise it keeps its value from the last use.
\<close>

definition txd_link :: "addr \<Rightarrow> ('z txmgr_state_scheme, unit) prog" where
  "txd_link t =
     bnd (gets alloc_txd_list_head) (\<lambda>head.
     bnd (gets alloc_txd_list_tail) (\<lambda>tail.
     if head = None then
       bnd (guard Assert_failed (tail = None)) (\<lambda>_.
       bnd (modify (\<lambda>s. s\<lparr>alloc_txd_list_head := Some t, alloc_txd_list_tail := Some t\<rparr>)) (\<lambda>_.
       txd_set t (\<lambda>d. d\<lparr>txd_next := None, txd_prev := None\<rparr>)))
     else
       bnd (deref tail) (\<lambda>last.
       bnd (txd_set last (\<lambda>d. d\<lparr>txd_next := Some t\<rparr>)) (\<lambda>_.
       bnd (txd_set t (\<lambda>d. d\<lparr>txd_prev := Some last\<rparr>)) (\<lambda>_.
       modify (\<lambda>s. s\<lparr>alloc_txd_list_tail := Some t\<rparr>))))))"

text \<open>
  \<open>self\<close> is what \<^verbatim>\<open>pthread_self\<close> returns, \<open>td\<close> and \<open>thread\<close> what the TM runtime
  returns, and \<open>heap\<close> the memory of the buckets of the new thread's statistics.
\<close>

definition txc_tx_create ::
  "u32 \<Rightarrow> u32 \<Rightarrow> u32 \<Rightarrow> (addr \<Rightarrow> addr txc_hash_table_bucket) \<Rightarrow> ('z txmgr_state_scheme, txc_result_t \<times> addr) prog" where
  "txc_tx_create self td thread heap =
     bnd (on_pool_txd (txc_pool_object_alloc True)) (\<lambda>(r, p).
     if r \<noteq> TXC_R_SUCCESS then throw Exit1
     else
       bnd (deref p) (\<lambda>t.
       bnd txmgr_lock (\<lambda>_.
       bnd (txd_link t) (\<lambda>_.
       bnd (modify (\<lambda>s. s\<lparr>alloc_txd_num := alloc_txd_num s + 1\<rparr>)) (\<lambda>_.
       bnd txmgr_unlock (\<lambda>_.
       bnd (txd_set t (\<lambda>d. d\<lparr>tid_pthread := self, forced_retries := 0\<rparr>)) (\<lambda>_.
       bnd (txc_tx_init t) (\<lambda>_.
       bnd (txd_set t (\<lambda>d. d\<lparr>sentinel_list := txc_sentinel_list_init (sentinel_list d),
              sentinel_list_preacquire := txc_sentinel_list_init (sentinel_list_preacquire d)\<rparr>)) (\<lambda>_.
       bnd (tmsystem_tx_init td thread t) (\<lambda>_.
       bnd (txc_fm_init t) (\<lambda>_.
       bnd (gets (\<lambda>s. statistics (runtime_settings s))) (\<lambda>stats.
       bnd (mwhen stats
              (bnd (txc_stats_threadstat_create heap t) (\<lambda>(_, th).
               bnd (txd_set t (\<lambda>d. d\<lparr>threadstat := th\<rparr>)) (\<lambda>_.
               bnd txc_stats_txstat_create (\<lambda>(_, ts).
               txd_set t (\<lambda>d. d\<lparr>txstat := ts\<rparr>)))))) (\<lambda>_.
       ret (TXC_R_SUCCESS, t))))))))))))))"

text \<open>The pointer surgery of \<^verbatim>\<open>txc_tx_destroy\<close>.\<close>

definition txd_unlink :: "addr \<Rightarrow> ('z txmgr_state_scheme, unit) prog" where
  "txd_unlink t =
     bnd (gets alloc_txd_list_head) (\<lambda>head.
     bnd (txd_get t txd_next) (\<lambda>nx.
     bnd (mwhen (head = Some t) (modify (\<lambda>s. s\<lparr>alloc_txd_list_head := nx\<rparr>))) (\<lambda>_.
     bnd (gets alloc_txd_list_tail) (\<lambda>tail.
     bnd (txd_get t txd_prev) (\<lambda>pv.
     bnd (mwhen (tail = Some t) (modify (\<lambda>s. s\<lparr>alloc_txd_list_tail := pv\<rparr>))) (\<lambda>_.
     bnd (case pv of None \<Rightarrow> ret () | Some a \<Rightarrow> txd_set a (\<lambda>d. d\<lparr>txd_next := nx\<rparr>)) (\<lambda>_.
     bnd (txd_get t txd_next) (\<lambda>nx.
     bnd (txd_get t txd_prev) (\<lambda>pv.
     (case nx of None \<Rightarrow> ret () | Some b \<Rightarrow> txd_set b (\<lambda>d. d\<lparr>txd_prev := pv\<rparr>)))))))))))"

definition txc_tx_destroy :: "addr \<Rightarrow> ('z txmgr_state_scheme, txc_result_t) prog" where
  "txc_tx_destroy t =
     bnd txmgr_lock (\<lambda>_.
     bnd (gets alloc_txd_list_head) (\<lambda>head.
     bnd (guard Assert_failed (head \<noteq> None)) (\<lambda>_.
     bnd (gets alloc_txd_list_tail) (\<lambda>tail.
     bnd (guard Assert_failed (tail \<noteq> None)) (\<lambda>_.
     bnd (txd_unlink t) (\<lambda>_.
     bnd (modify (\<lambda>s. s\<lparr>alloc_txd_num := alloc_txd_num s - 1\<rparr>)) (\<lambda>_.
     bnd txmgr_unlock (\<lambda>_.
     bnd (on_pool_txd (txc_pool_object_free (Some t) True)) (\<lambda>_.
     ret TXC_R_SUCCESS)))))))))"

section \<open>Beginning a transaction\<close>

definition tx_pre_outerbegin :: "addr \<Rightarrow> addr \<Rightarrow> txc_tx_srcloc_t \<Rightarrow> ('z stats_state_scheme, unit) prog" where
  "tx_pre_outerbegin t srcloc_str srcloc =
     bnd (txc_tx_init t) (\<lambda>_.
     bnd (txc_fm_init t) (\<lambda>_.
     bnd (gets (\<lambda>s. statistics (runtime_settings s))) (\<lambda>stats.
     bnd (txd_get t txstat) (\<lambda>ts.
     bnd (mwhen stats (bnd (txc_stats_txstat_init ts srcloc_str srcloc) (\<lambda>_. ret ()))) (\<lambda>_.
     txd_set t (\<lambda>d. d\<lparr>forced_retries := 0\<rparr>))))))"

definition tx_pre_innerbegin :: "addr \<Rightarrow> addr \<Rightarrow> txc_tx_srcloc_t \<Rightarrow> ('z stats_state_scheme, unit) prog" where
  "tx_pre_innerbegin t srcloc_str srcloc = ret ()"

definition txc_tx_pre_begin :: "addr option \<Rightarrow> addr \<Rightarrow> txc_tx_srcloc_t \<Rightarrow> ('z stats_state_scheme, unit) prog" where
  "txc_tx_pre_begin p srcloc_str srcloc =
     bnd (txc_tx_get_xactstate p) (\<lambda>st.
     bnd (deref p) (\<lambda>t.
     if st = TXC_XACTSTATE_NONTRANSACTIONAL then tx_pre_outerbegin t srcloc_str srcloc
     else tx_pre_innerbegin t srcloc_str srcloc))"

definition txc_tx_post_begin :: "addr \<Rightarrow> ('z stats_state_scheme, unit) prog" where
  "txc_tx_post_begin t =
     bnd (txc_sentinel_transaction_postbegin t) (\<lambda>_.
     bnd (gets (\<lambda>s. statistics (runtime_settings s))) (\<lambda>stats.
     bnd (mwhen stats (txc_stats_transaction_postbegin t)) (\<lambda>_.
     txc_fm_transaction_postbegin t)))"

section \<open>Searching and printing the list\<close>

text \<open>What is printed of each descriptor in use.\<close>

definition txc_txmgr_print ::
  "('z txmgr_state_scheme, (addr option \<times> addr option) \<times> (addr \<times> u32 \<times> u32 \<times> addr option \<times> addr option) list) prog" where
  "txc_txmgr_print =
     bnd txmgr_lock (\<lambda>_.
     bnd (gets (\<lambda>s. (alloc_txd_list_head s, alloc_txd_list_tail s))) (\<lambda>ends.
     bnd (gets (\<lambda>s. walk (\<lambda>a. txd_next (txds s a)) (fst ends))) (\<lambda>w.
     bnd (loop_result w) (\<lambda>ts.
     bnd (gets txds) (\<lambda>m.
     bnd txmgr_unlock (\<lambda>_.
     ret (ends, map (\<lambda>t. (t, tid (m t), tid_pthread (m t), txd_next (m t), txd_prev (m t))) ts)))))))"

definition txc_tx_exists :: "addr \<Rightarrow> ('z txmgr_state_scheme, txc_result_t) prog" where
  "txc_tx_exists t =
     bnd txmgr_lock (\<lambda>_.
     bnd (gets (\<lambda>s. find_node (\<lambda>a. txd_next (txds s a)) (\<lambda>a. a = t) (alloc_txd_list_head s))) (\<lambda>w.
     bnd (loop_result w) (\<lambda>found.
     bnd txmgr_unlock (\<lambda>_.
     ret (if found = None then TXC_R_NOTEXISTS else TXC_R_SUCCESS)))))"


section \<open>The list of descriptors\<close>

lemmas txmgr_defs = on_pool_txd_def txmgr_lock_def txmgr_unlock_def

definition nexts :: "(addr \<Rightarrow> txc_tx) \<Rightarrow> addr \<Rightarrow> addr option" where
  "nexts m a = txd_next (m a)"

definition prevs :: "(addr \<Rightarrow> txc_tx) \<Rightarrow> addr \<Rightarrow> addr option" where
  "prevs m a = txd_prev (m a)"

lemma links_upd [simp]:
  "nexts (m(t := d)) = (nexts m)(t := txd_next d)" "prevs (m(t := d)) = (prevs m)(t := txd_prev d)"
  by (simp_all add: fun_eq_iff nexts_def prevs_def)

lemma links_same: "txd_next (m t) = nexts m t" "txd_prev (m t) = prevs m t"
  by (simp_all add: nexts_def prevs_def)

definition txd_list :: "'z txmgr_state_scheme \<Rightarrow> addr list \<Rightarrow> bool" where
  "txd_list s xs \<longleftrightarrow>
     dll (nexts (txds s)) (prevs (txds s)) (alloc_txd_list_head s) xs \<and>
     alloc_txd_list_tail s = (if xs = [] then None else Some (last xs)) \<and> alloc_txd_num s = of_nat (length xs)"

text \<open>The statistics part of a new descriptor: enough memory, and a list of threads that is empty at both ends or at none.\<close>

definition stats_ready :: "'z stats_state_scheme \<Rightarrow> bool" where
  "stats_ready s \<longleftrightarrow> statistics (runtime_settings s) \<longrightarrow>
     (\<forall>n. malloc_answer s n \<noteq> None) \<and> \<not> statsmgr_mutex s \<and>
     (alloc_threadstat_list_head s = None \<longleftrightarrow> alloc_threadstat_list_tail s = None)"

lemma txd_list_ends:
  assumes "txd_list s xs"
  shows "alloc_txd_list_head s = None \<longleftrightarrow> xs = []" "alloc_txd_list_tail s = None \<longleftrightarrow> xs = []"
  using assms by (auto simp: txd_list_def dest: dll_head split: list.splits)

text \<open>
  Searching the list of descriptors in use ends, and answers whether the
  descriptor is on it.
\<close>

theorem tx_exists_decides_membership:
  assumes "txd_list s xs" "\<not> txmgr_mutex s"
  shows "txc_tx_exists t s = Ok (if t \<in> set xs then TXC_R_SUCCESS else TXC_R_NOTEXISTS) s"
proof -
  have "lchain (nexts (txds s)) (alloc_txd_list_head s) xs None"
    using assms(1) by (simp add: txd_list_def dll_def)
  from find_node_chain [OF this, of "\<lambda>a. a = t"]
  have f: "find_node (\<lambda>a. txd_next (txds s a)) (\<lambda>a. a = t) (alloc_txd_list_head s) = Some (List.find (\<lambda>a. a = t) xs)"
    by (simp add: nexts_def [abs_def])
  have "List.find (\<lambda>a. a = t) xs = None \<longleftrightarrow> t \<notin> set xs" by (auto simp: find_None_iff)
  then show ?thesis using f assms(2) by (simp add: txc_tx_exists_def txmgr_defs prog_simps)
qed

lemma wp_eqI: "wp m (\<lambda>r s'. s' = u) E s \<Longrightarrow> Q () u \<Longrightarrow> wp m Q E s"
  by (auto simp: wp_def split: outcome.splits)

lemma wp_txd_link:
  assumes l: "txd_list s xs" and t: "t \<notin> set xs" and nx: "xs \<noteq> [] \<Longrightarrow> txd_next (txds s t) = None"
    and Q: "\<And>m h. dll (nexts m) (prevs m) h (xs @ [t]) \<Longrightarrow>
      (\<And>a. commit_action_list (m a) = commit_action_list (txds s a) \<and> undo_action_list (m a) = undo_action_list (txds s a) \<and>
        buffer_linear (m a) = buffer_linear (txds s a)) \<Longrightarrow>
      Q () (s\<lparr>alloc_txd_list_head := h, alloc_txd_list_tail := Some t, txds := m\<rparr>)"
  shows "wp (txd_link t) Q E s"
proof (cases "xs = []")
  case True
  have "wp (txd_link t) (\<lambda>r s'. s' = s\<lparr>alloc_txd_list_head := Some t, alloc_txd_list_tail := Some t,
      txds := (txds s)(t := (txds s t)\<lparr>txd_next := None, txd_prev := None\<rparr>)\<rparr>) E s"
    using True txd_list_ends [OF l] by (simp add: txd_link_def)
  then show ?thesis
    by (rule wp_eqI, intro Q) (use True in \<open>auto simp: dll_def\<close>)
next
  case False
  let ?l = "last xs"
  let ?m = "(txds s)(?l := (txds s ?l)\<lparr>txd_next := Some t\<rparr>, t := (txds s t)\<lparr>txd_prev := Some ?l\<rparr>)"
  have ne: "t \<noteq> ?l" using False t by auto
  have tail: "alloc_txd_list_tail s = Some ?l" using l False by (simp add: txd_list_def)
  have "dll ((nexts (txds s))(?l := Some t)) ((prevs (txds s))(t := Some ?l)) (alloc_txd_list_head s) (xs @ [t])"
    by (rule dll_snoc [OF _ t False refl _ refl]) (use l nx False in \<open>simp_all add: txd_list_def links_same\<close>)
  moreover have "((nexts (txds s))(?l := Some t))(t := nexts (txds s) t) = (nexts (txds s))(?l := Some t)"
    "((prevs (txds s))(?l := prevs (txds s) ?l))(t := Some ?l) = (prevs (txds s))(t := Some ?l)"
    using ne by (auto simp: fun_eq_iff)
  ultimately have d: "dll (nexts ?m) (prevs ?m) (alloc_txd_list_head s) (xs @ [t])"
    by (simp add: links_same)
  have "wp (txd_link t) (\<lambda>r s'. s' = s\<lparr>alloc_txd_list_head := alloc_txd_list_head s,
      alloc_txd_list_tail := Some t, txds := ?m\<rparr>) E s"
    using False ne tail txd_list_ends [OF l] by (auto simp: txd_link_def deref_def)
  then show ?thesis
    by (rule wp_eqI, intro Q) (use d in simp_all)
qed

lemma wp_txd_unlink:
  assumes l: "txd_list s (xs @ t # ys)"
    and Q: "\<And>m h. dll (nexts m) (prevs m) h (xs @ ys) \<Longrightarrow> txd_next (m t) = txd_next (txds s t) \<Longrightarrow>
      (\<And>a. m a = (txds s a)\<lparr>txd_next := txd_next (m a), txd_prev := txd_prev (m a)\<rparr>) \<Longrightarrow>
      Q () (s\<lparr>alloc_txd_list_head := h,
        alloc_txd_list_tail := (if xs @ ys = [] then None else Some (last (xs @ ys))), txds := m\<rparr>)"
  shows "wp (txd_unlink t) Q E s"
proof -
  let ?nx = "nexts (txds s)" and ?pv = "prevs (txds s)"
  have d: "dll ?nx ?pv (alloc_txd_list_head s) (xs @ t # ys)" using l by (simp add: txd_list_def)
  note links = dll_links [OF d]
  let ?nx' = "case ?pv t of None \<Rightarrow> ?nx | Some a \<Rightarrow> ?nx(a := ?nx t)"
  let ?pv' = "case ?nx t of None \<Rightarrow> ?pv | Some b \<Rightarrow> ?pv(b := ?pv t)"
  let ?h' = "case ?pv t of None \<Rightarrow> ?nx t | Some _ \<Rightarrow> alloc_txd_list_head s"
  let ?m1 = "case ?pv t of None \<Rightarrow> txds s | Some a \<Rightarrow> (txds s)(a := (txds s a)\<lparr>txd_next := ?nx t\<rparr>)"
  let ?m2 = "case ?nx t of None \<Rightarrow> ?m1 | Some b \<Rightarrow> ?m1(b := (?m1 b)\<lparr>txd_prev := ?pv t\<rparr>)"
  have d': "dll ?nx' ?pv' ?h' (xs @ ys)" by (rule dll_unlink [OF d refl refl refl])
  have ne: "?pv t \<noteq> Some t" "?nx t \<noteq> Some t"
    using links by (auto split: list.splits if_splits)
  have m1: "nexts ?m1 = ?nx'" "prevs ?m1 = ?pv" by (auto simp: links_same split: option.split)
  have m2: "nexts ?m2 = ?nx'" "prevs ?m2 = ?pv'" using m1 by (auto simp: links_same split: option.split)
  have t: "txd_next (?m1 t) = ?nx t" "txd_prev (?m1 t) = ?pv t" "txd_next (?m2 t) = txd_next (txds s t)"
    using ne by (auto simp: links_same m1 m2 split: option.split)
  have m: "?m2 a = (txds s a)\<lparr>txd_next := txd_next (?m2 a), txd_prev := txd_prev (?m2 a)\<rparr>" for a
    by (auto split: option.split)
  have head: "alloc_txd_list_head s = Some t \<longleftrightarrow> xs = []"
    using d links(3) by (cases xs) (auto dest: dll_Cons_head)
  have tail: "alloc_txd_list_tail s = Some t \<longleftrightarrow> ys = []"
    using l links(4) by (cases ys rule: rev_cases) (auto simp: txd_list_def)
  have pt: "?pv t = None \<longleftrightarrow> xs = []" using links(2) by simp
  have tail': "(if ys = [] then ?pv t else alloc_txd_list_tail s) =
      (if xs @ ys = [] then None else Some (last (xs @ ys)))"
    using l links(2) by (auto simp: txd_list_def)
  have "wp (txd_unlink t) (\<lambda>r s'. s' = s\<lparr>alloc_txd_list_head := ?h', alloc_txd_list_tail :=
      (if ys = [] then ?pv t else alloc_txd_list_tail s), txds := ?m2\<rparr>) E s"
    using t(1,2) head tail pt
    by (cases "?pv t"; cases "?nx t") (simp_all add: txd_unlink_def links_same)
  then have "wp (txd_unlink t) (\<lambda>r s'. s' = s\<lparr>alloc_txd_list_head := ?h', alloc_txd_list_tail :=
      (if xs @ ys = [] then None else Some (last (xs @ ys))), txds := ?m2\<rparr>) E s"
    unfolding tail' .
  then show ?thesis
    by (rule wp_eqI, intro Q) (use d' m2 in simp, rule t(3), rule m)
qed

text \<open>What destroying a descriptor leaves; its own links are not cleared and it is the next one allocated.\<close>

lemma tx_destroy_ok:
  assumes l: "txd_list s (xs @ t # ys)" and m: "\<not> txmgr_mutex s" and p: "pool_ok (pool_txd s)" "t \<in> pool_live (pool_txd s)"
  shows "\<exists>s'. txc_tx_destroy t s = Ok TXC_R_SUCCESS s' \<and> txd_list s' (xs @ ys) \<and> \<not> txmgr_mutex s' \<and>
    txd_next (txds s' t) = txd_next (txds s t) \<and> pool_ok (pool_txd s') \<and>
    pool_live (pool_txd s') = pool_live (pool_txd s) - {t} \<and> (stats_ready s' \<longleftrightarrow> stats_ready s) \<and>
    txc_pool_object_free (Some t) True (pool_txd s) = Ok None (pool_txd s')"
proof -
  obtain q where q: "txc_pool_object_free (Some t) True (pool_txd s) = Ok None q" "pool_ok q"
    "pool_live q = pool_live (pool_txd s) - {t}"
    using obj_pool.free_ok [of "pool_txd s" t True] p by auto
  have ends: "alloc_txd_list_head s \<noteq> None" "alloc_txd_list_tail s \<noteq> None"
    using txd_list_ends [OF l] by simp_all
  have n: "alloc_txd_num s - 1 = of_nat (length (xs @ ys))" using l by (simp add: txd_list_def)
  have "wp (txc_tx_destroy t) (\<lambda>r s'. r = TXC_R_SUCCESS \<and> txd_list s' (xs @ ys) \<and> \<not> txmgr_mutex s' \<and>
      txd_next (txds s' t) = txd_next (txds s t) \<and> pool_txd s' = q \<and> (stats_ready s' \<longleftrightarrow> stats_ready s))
      (\<lambda>_ _. False) s"
    unfolding txc_tx_destroy_def wp_bnd txmgr_lock_def wp_mutex_lock wp_gets wp_guard
    using m ends
  proof (simp, intro wp_txd_unlink [of _ xs t ys], goal_cases)
    case 1
    then show ?case using l by (simp add: txd_list_def)
  next
    case (2 m h)
    have "wp (on_pool_txd (txc_pool_object_free (Some t) True)) (\<lambda>_. Q) (\<lambda>_ _. False) u \<longleftrightarrow> Q (u\<lparr>pool_txd := q\<rparr>)"
      if "pool_txd u = pool_txd s" for u :: "'a txmgr_state_scheme" and Q
      using q(1) that by (simp add: on_pool_txd_def wp_def zoom_def)
    with 2 n show ?case by (simp add: txmgr_unlock_def txd_list_def stats_ready_def)
  qed
  then show ?thesis using q unfolding wp_total by blast
qed

lemma pool_realloc:
  assumes "pool_ok p" "a \<in> pool_live p" "txc_pool_object_free (Some a) True p = Ok None q"
  shows "\<exists>r. txc_pool_object_alloc True q = Ok (TXC_R_SUCCESS, Some a) r"
proof -
  obtain fs as where r: "pool_rep p fs as" using assms(1) by (auto simp: pool_ok_def)
  then obtain i where i: "i \<in> set as" "a = pbuf p i" using assms(2) pool_rep_live by auto
  have "0 < unat (obj_size p)" "pool_enter p True"
    using r assms(1) by (auto simp: pool_rep_def pool_geometry_def word_less_nat_alt pool_ok_def pool_enter_def)
  then have q: "q = pool_object_put i p"
    using free_allocated [OF r i(1), of 0 True] i assms(3) by simp
  have "pool_rep q (i # fs) (remove1 i as)" "same_pool p q"
    using pool_live_put(1) [OF r i(1)] q by simp_all
  with alloc_Cons [of q i fs "remove1 i as" True] i \<open>pool_enter p True\<close>
  show ?thesis by (auto simp: pool_enter_def same_pool_def)
qed

lemma wp_MALLOC [simp]: "wp MALLOC Q E s \<longleftrightarrow> Q (malloc_answer s (malloc_calls s)) (s\<lparr>malloc_calls := Suc (malloc_calls s)\<rparr>)"
  by (simp add: MALLOC_def)

lemma wp_th_set [simp]: "wp (th_set a f) Q E s \<longleftrightarrow> Q () (s\<lparr>threadstats := (threadstats s)(a := f (threadstats s a))\<rparr>)"
  by (simp add: th_set_def)

lemma wp_ts_set [simp]: "wp (ts_set a f) Q E s \<longleftrightarrow> Q () (s\<lparr>txstats := (txstats s)(a := f (txstats s a))\<rparr>)"
  by (simp add: ts_set_def)

lemma wp_deref [simp]: "wp (deref p) Q E s \<longleftrightarrow> (case p of None \<Rightarrow> E Undefined s | Some a \<Rightarrow> Q a s)"
  by (simp add: deref_def split: option.split)

lemma threadstat_create_frame:
  assumes "stats_ready s" "statistics (runtime_settings s)"
  shows "wp (txc_stats_threadstat_create heap t) (\<lambda>_ s'. txds s' = txds s \<and> malloc_answer s' = malloc_answer s \<and>
    stats_state.more s' = stats_state.more s) (\<lambda>_ _. False) s"
proof -
  have "malloc_answer s = (\<lambda>n. Some (the (malloc_answer s n)))" using assms by (simp add: stats_ready_def)
  then obtain f where f: "malloc_answer s = (\<lambda>n. Some (f n))" by (rule that)
  have m: "\<not> statsmgr_mutex s" using assms by (simp add: stats_ready_def)
  have link: "wp (threadstat_link th) (\<lambda>_ s'. txds s' = txds s \<and> malloc_answer s' = malloc_answer s \<and>
      stats_state.more s' = stats_state.more s) (\<lambda>_ _. False) u"
    if "txds u = txds s" "malloc_answer u = malloc_answer s" "stats_state.more u = stats_state.more s"
      "alloc_threadstat_list_head u = alloc_threadstat_list_head s"
      "alloc_threadstat_list_tail u = alloc_threadstat_list_tail s" for th u
    using that assms unfolding threadstat_link_def stats_ready_def
    by (cases "alloc_threadstat_list_head s"; cases "alloc_threadstat_list_tail s") simp_all
  show ?thesis
    using m f unfolding txc_stats_threadstat_create_def
    by (simp add: split_beta) (rule wp_mono, rule link, simp_all)
qed

lemma mgr_fields_more:
  assumes "stats_state.more s' = stats_state.more s"
  shows "alloc_txd_list_head s' = alloc_txd_list_head s" "alloc_txd_list_tail s' = alloc_txd_list_tail s"
    "alloc_txd_num s' = alloc_txd_num s" "txmgr_mutex s' = txmgr_mutex s" "pool_txd s' = pool_txd s"
  using assms by (cases s; cases s'; simp)+

text \<open>A new descriptor: appended to the list in use, with empty action lists and nothing registered.\<close>

definition fresh_txd :: "txc_tx \<Rightarrow> bool" where
  "fresh_txd d \<longleftrightarrow> al_entries (commit_action_list d) = [] \<and> al_entries (undo_action_list d) = [] \<and>
     sl_entries (sentinel_list d) = [] \<and> sl_entries (sentinel_list_preacquire d) = [] \<and>
     \<not> generic_commit_action_registered d \<and> \<not> generic_undo_action_registered d \<and>
     \<not> sentinelmgr_commit_action_registered d \<and> \<not> sentinelmgr_undo_action_registered d \<and>
     \<not> statsmgr_commit_action_registered d \<and> \<not> statsmgr_undo_action_registered d \<and>
     forced_retries d = 0 \<and> fm_error_result d = None \<and> \<not> fm_abort d"

lemma tx_create_wp:
  assumes p: "txc_pool_object_alloc True (pool_txd s) = Ok (TXC_R_SUCCESS, Some t) q" and m: "\<not> txmgr_mutex s"
    and st: "stats_ready s"
    and link: "wp (txd_link t) (\<lambda>_ s'. I (nexts (txds s')) (prevs (txds s')) (alloc_txd_list_head s') (alloc_txd_list_tail s') (alloc_txd_num s') \<and>
      \<not> statsmgr_mutex s' = (\<not> statsmgr_mutex s) \<and> pool_txd s' = q \<and>
      malloc_answer s' = malloc_answer s \<and> runtime_settings s' = runtime_settings s \<and>
      alloc_threadstat_list_head s' = alloc_threadstat_list_head s \<and> alloc_threadstat_list_tail s' = alloc_threadstat_list_tail s)
      (\<lambda>_ _. False) (s\<lparr>pool_txd := q, txmgr_mutex := True\<rparr>)"
  shows "\<exists>s'. txc_tx_create self td thread heap s = Ok (TXC_R_SUCCESS, t) s' \<and> fresh_txd (txds s' t) \<and> \<not> txmgr_mutex s' \<and>
    pool_txd s' = q \<and> I (nexts (txds s')) (prevs (txds s')) (alloc_txd_list_head s') (alloc_txd_list_tail s') (alloc_txd_num s' - 1)"
proof -
  have "wp (txc_tx_create self td thread heap) (\<lambda>r s'. r = (TXC_R_SUCCESS, t) \<and> fresh_txd (txds s' t) \<and> \<not> txmgr_mutex s' \<and>
    pool_txd s' = q \<and> I (nexts (txds s')) (prevs (txds s')) (alloc_txd_list_head s') (alloc_txd_list_tail s') (alloc_txd_num s' - 1))
    (\<lambda>_ _. False) s"
    unfolding txc_tx_create_def
  proof (simp add: on_pool_txd_def, simp add: wp_def [of "txc_pool_object_alloc _"] p txmgr_lock_def m,
      rule wp_mono [OF link], goal_cases)
    case (1 r u)
    note U = 1
    have nx: "txd_next (txds u t) = nexts (txds u) t" "txd_prev (txds u t) = prevs (txds u) t"
      by (simp_all add: links_same)
    have ready: "stats_ready u" using st 1 by (simp add: stats_ready_def)
    show ?case
    proof (simp add: txmgr_unlock_def txc_tx_init_def on_bufmgr_def txc_buffer_linear_init_def tmsystem_tx_init_def
        txc_fm_init_def, intro conjI impI, goal_cases)
      case 1
      then have mal: "\<forall>n. malloc_answer s n \<noteq> None" using st U by (simp add: stats_ready_def)
      show ?case
      proof (rule wp_mono [OF threadstat_create_frame], goal_cases)
        case (3 r v)
        moreover obtain a where "malloc_answer v (malloc_calls v) = Some a"
          using 3 U mal by auto
        ultimately show ?case
          using U mgr_fields_more [of v] by (simp add: txc_stats_txstat_create_def split_beta fresh_txd_def
              txc_sentinel_list_init_def nx)
      qed (use ready U 1 in \<open>simp_all add: stats_ready_def\<close>)
    qed (use 1 in \<open>simp_all add: fresh_txd_def txc_sentinel_list_init_def nx\<close>)
  qed simp
  then show ?thesis by (simp add: wp_total)
qed

text \<open>
  Creating a descriptor takes an unused one from the pool, clears its lists
  and registrations and appends it to the list of those in use, provided that the
  link fields of the unused descriptors are still clear.
\<close>

theorem tx_create_appends:
  assumes "txd_list s xs" "\<not> txmgr_mutex s" "pool_ok (pool_txd s)" "set xs \<subseteq> pool_live (pool_txd s)"
    "card (pool_live (pool_txd s)) < unat (obj_num (pool_txd s))" "stats_ready s"
    "\<forall>a. a \<notin> pool_live (pool_txd s) \<longrightarrow> txd_next (txds s a) = None"
  shows "\<exists>t s'. txc_tx_create self td thread heap s = Ok (TXC_R_SUCCESS, t) s' \<and> t \<notin> set xs \<and>
    txd_list s' (xs @ [t]) \<and> fresh_txd (txds s' t) \<and> pool_live (pool_txd s') = insert t (pool_live (pool_txd s))"
proof -
  obtain t q where q: "txc_pool_object_alloc True (pool_txd s) = Ok (TXC_R_SUCCESS, Some t) q" "t \<notin> pool_live (pool_txd s)"
    "pool_live q = insert t (pool_live (pool_txd s))"
    using obj_pool.alloc_ok [OF assms(3,5), of True] by blast
  have t: "t \<notin> set xs" using q(2) assms(4) by auto
  let ?I = "\<lambda>nx pv h tl n. dll nx pv h (xs @ [t]) \<and> tl = Some t \<and> n = (of_nat (length xs) :: u32)"
  have "wp (txd_link t) (\<lambda>_ s'. ?I (nexts (txds s')) (prevs (txds s')) (alloc_txd_list_head s') (alloc_txd_list_tail s') (alloc_txd_num s') \<and>
      \<not> statsmgr_mutex s' = (\<not> statsmgr_mutex s) \<and> pool_txd s' = q \<and>
      malloc_answer s' = malloc_answer s \<and> runtime_settings s' = runtime_settings s \<and>
      alloc_threadstat_list_head s' = alloc_threadstat_list_head s \<and> alloc_threadstat_list_tail s' = alloc_threadstat_list_tail s)
      (\<lambda>_ _. False) (s\<lparr>pool_txd := q, txmgr_mutex := True\<rparr>)"
    by (rule wp_txd_link [of _ xs]) (use assms t q(2) in \<open>simp_all add: txd_list_def\<close>)
  from tx_create_wp [OF q(1) assms(2,6) this] q(3) t show ?thesis
    by (fastforce simp: txd_list_def algebra_simps)
qed

lemma dll_next_in:
  assumes "dll nx pv h zs" "z \<in> set zs" "z \<noteq> last zs"
  shows "\<exists>y \<in> set zs. nx z = Some y"
proof -
  obtain as bs where zs: "zs = as @ z # bs" using split_list [OF assms(2)] by blast
  with assms(3) obtain b cs where "bs = b # cs" by (cases bs) auto
  with dll_links(1) [of nx pv h as z bs] assms(1) zs show ?thesis by auto
qed

lemma txd_link_recycled:
  assumes l: "txd_list s zs" and "zs \<noteq> []" and t: "t \<notin> set zs" and ty: "txd_next (txds s t) = Some y" "y \<in> set zs"
  shows "\<exists>m. txd_link t s = Ok () (s\<lparr>txds := m, alloc_txd_list_tail := Some t\<rparr>) \<and>
    (\<forall>x \<in> insert t (set zs). \<exists>y \<in> insert t (set zs). nexts m x = Some y) \<and>
    (\<exists>a \<in> set zs. alloc_txd_list_head s = Some a)"
proof -
  have d: "dll (nexts (txds s)) (prevs (txds s)) (alloc_txd_list_head s) zs"
    and tl: "alloc_txd_list_tail s = Some (last zs)"
    using l assms(2) by (auto simp: txd_list_def)
  obtain h where h: "alloc_txd_list_head s = Some h" "h \<in> set zs" using dll_head [OF d] assms(2) by (cases zs) auto
  let ?l = "last zs"
  let ?m = "(txds s)(?l := (txds s ?l)\<lparr>txd_next := Some t\<rparr>, t := (txds s t)\<lparr>txd_prev := Some ?l\<rparr>)"
  have ne: "t \<noteq> ?l" using t assms(2) by auto
  have "\<exists>y \<in> insert t (set zs). ((nexts (txds s))(?l \<mapsto> t)) x = Some y" if "x \<in> insert t (set zs)" for x
    using that dll_next_in [OF d, of x] ty by (cases "x = ?l"; cases "x = t") (auto simp: nexts_def)
  moreover have "nexts ?m = (nexts (txds s))(?l \<mapsto> t)" using ne by (auto simp: nexts_def fun_eq_iff)
  ultimately have "\<forall>x \<in> insert t (set zs). \<exists>y \<in> insert t (set zs). nexts ?m x = Some y" by metis
  moreover have "txd_link t s = Ok () (s\<lparr>txds := ?m, alloc_txd_list_tail := Some t\<rparr>)"
    using h tl ne by (simp add: txd_link_def txd_set_def prog_simps)
  ultimately show ?thesis using h by blast
qed

text \<open>
  C40. Destroying a descriptor that is not the last on the list and then creating
  one links the list into a cycle: the descriptor comes back with its old next
  link.  Searching the list for a descriptor that is not on it does not end.
\<close>

theorem recycled_descriptor_makes_list_cyclic:
  assumes "txd_list s (xs @ t # y # ys)" "\<not> txmgr_mutex s" "pool_ok (pool_txd s)" "t \<in> pool_live (pool_txd s)"
    "stats_ready s" "u \<notin> set (xs @ t # y # ys)"
  shows "\<exists>s1 s2 s3. txc_tx_destroy t s = Ok TXC_R_SUCCESS s1 \<and>
    txc_tx_create self td thread heap s1 = Ok (TXC_R_SUCCESS, t) s2 \<and>
    txc_tx_exists u s2 = Fault Diverges s3"
proof -
  let ?zs = "xs @ y # ys" and ?C = "set (xs @ t # y # ys)"
  obtain s1 where s1: "txc_tx_destroy t s = Ok TXC_R_SUCCESS s1" "txd_list s1 ?zs" "\<not> txmgr_mutex s1"
    "txd_next (txds s1 t) = txd_next (txds s t)" "stats_ready s1"
    "txc_pool_object_free (Some t) True (pool_txd s) = Ok None (pool_txd s1)"
    using tx_destroy_ok [OF assms(1-4)] assms(5) by auto
  obtain q where q: "txc_pool_object_alloc True (pool_txd s1) = Ok (TXC_R_SUCCESS, Some t) q"
    using pool_realloc [OF assms(3,4) s1(6)] by blast
  let ?u = "s1\<lparr>pool_txd := q, txmgr_mutex := True\<rparr>"
  have d: "dll (nexts (txds s)) (prevs (txds s)) (alloc_txd_list_head s) (xs @ t # y # ys)"
    using assms(1) by (simp add: txd_list_def)
  have "txd_list ?u ?zs" "t \<notin> set ?zs" "txd_next (txds ?u t) = Some y"
    using s1(2,4) dll_links [OF d] by (auto simp: txd_list_def nexts_def)
  then obtain m where m: "txd_link t ?u = Ok () (?u\<lparr>txds := m, alloc_txd_list_tail := Some t\<rparr>)"
    "\<forall>x \<in> ?C. \<exists>y \<in> ?C. nexts m x = Some y" "\<exists>a \<in> ?C. alloc_txd_list_head s1 = Some a"
    using txd_link_recycled [of ?u ?zs t y] by auto
  let ?I = "\<lambda>nx pv h tl n. (\<forall>x \<in> ?C. \<exists>y \<in> ?C. nx x = Some y) \<and> (\<exists>a \<in> ?C. h = Some a)"
  have "wp (txd_link t) (\<lambda>_ s'. ?I (nexts (txds s')) (prevs (txds s')) (alloc_txd_list_head s') (alloc_txd_list_tail s') (alloc_txd_num s') \<and>
      \<not> statsmgr_mutex s' = (\<not> statsmgr_mutex s1) \<and> pool_txd s' = q \<and>
      malloc_answer s' = malloc_answer s1 \<and> runtime_settings s' = runtime_settings s1 \<and>
      alloc_threadstat_list_head s' = alloc_threadstat_list_head s1 \<and> alloc_threadstat_list_tail s' = alloc_threadstat_list_tail s1)
      (\<lambda>_ _. False) ?u"
    using m(2,3) unfolding wp_def m(1) by simp
  then obtain s2 where s2: "txc_tx_create self td thread heap s1 = Ok (TXC_R_SUCCESS, t) s2" "\<not> txmgr_mutex s2"
    "\<forall>x \<in> ?C. \<exists>y \<in> ?C. nexts (txds s2) x = Some y" "\<exists>a \<in> ?C. alloc_txd_list_head s2 = Some a"
    using tx_create_wp [OF q s1(3,5), where I = ?I and self = self and td = td and thread = thread and heap = heap] by blast
  then obtain a where a: "a \<in> ?C" "alloc_txd_list_head s2 = Some a" by blast
  have "find_node (nexts (txds s2)) (\<lambda>a. a = u) (Some a) = None"
    by (rule find_node_diverges [OF a(1)]) (use s2(3) assms(6) in blast)
  then have "\<exists>s3. txc_tx_exists u s2 = Fault Diverges s3"
    using a(2) s2(2) by (simp add: txc_tx_exists_def txmgr_defs prog_simps nexts_def [abs_def])
  with s1(1) s2(1) show ?thesis by blast
qed

text \<open>
  Destroying a descriptor on the list takes it off the list wherever it
  stands and returns it to the pool; searching for it then reports that it does
  not exist.
\<close>

theorem tx_destroy_unlinks:
  assumes "txd_list s xs" "t \<in> set xs" "\<not> txmgr_mutex s" "pool_ok (pool_txd s)" "t \<in> pool_live (pool_txd s)"
  shows "\<exists>s'. txc_tx_destroy t s = Ok TXC_R_SUCCESS s' \<and> txd_list s' (remove1 t xs) \<and>
    pool_live (pool_txd s') = pool_live (pool_txd s) - {t} \<and> txc_tx_exists t s' = Ok TXC_R_NOTEXISTS s'"
proof -
  obtain as bs where xs: "xs = as @ t # bs" "t \<notin> set as" using split_list_first [OF assms(2)] by blast
  have "t \<notin> set bs" using assms(1) dll_links(4) unfolding xs(1) txd_list_def by fastforce
  then have rem: "remove1 t xs = as @ bs" "t \<notin> set (as @ bs)" using xs by (simp_all add: remove1_append)
  obtain s' where s': "txc_tx_destroy t s = Ok TXC_R_SUCCESS s'" "txd_list s' (as @ bs)" "\<not> txmgr_mutex s'"
    "pool_live (pool_txd s') = pool_live (pool_txd s) - {t}"
    using tx_destroy_ok [of s as t bs] assms xs(1) by auto
  have "lchain (nexts (txds s')) (alloc_txd_list_head s') (as @ bs) None"
    using s'(2) by (simp add: txd_list_def dll_def)
  from find_node_chain [OF this, of "\<lambda>a. a = t"] rem(2)
  have "find_node (\<lambda>a. txd_next (txds s' a)) (\<lambda>a. a = t) (alloc_txd_list_head s') = Some None"
    by (simp add: nexts_def [abs_def] find_None_iff)
  then have "txc_tx_exists t s' = Ok TXC_R_NOTEXISTS s'"
    using s'(3) by (simp add: txc_tx_exists_def txmgr_defs prog_simps)
  with s' rem show ?thesis by auto
qed

section \<open>Witnesses\<close>

text \<open>A pool of two descriptors that are both in use.\<close>

definition full_pool :: txc_pool where
  "full_pool = \<lparr>pool_mutex = False, full_buf = 4096,
     obj_list = (\<lambda>_. calloc_object)
       (0 := \<lparr>obj_buf = 4096, obj_status = 2, obj_next = Some 1, obj_prev = None\<rparr>,
        1 := \<lparr>obj_buf = 4112, obj_status = 2, obj_next = None, obj_prev = Some 0\<rparr>),
     obj_free_head = None, obj_allocated_head = Some 0,
     obj_free_num = 0, obj_allocated_num = 2, obj_size = 16, obj_num = 2\<rparr>"

lemma full_pool_ok: "pool_ok full_pool" "pool_live full_pool = {4096, 4112}"
proof -
  have two: "{..<2} = {0, 1 :: nat}" "i < 2 \<longleftrightarrow> i = 0 \<or> i = 1" for i :: nat by auto
  have "pool_rep full_pool [] [0, 1]"
    unfolding pool_rep_def pool_geometry_def
    by (simp add: full_pool_def dll_def pnext_def pprev_def pstatus_def pbuf_def insert_commute two)
  then show "pool_ok full_pool" by (auto simp: pool_ok_def full_pool_def)
  show "pool_live full_pool = {4096, 4112}"
    by (auto simp: pool_live_def full_pool_def pbuf_def pstatus_def two)
qed

definition sample_txmgr_state :: "addr list \<Rightarrow> (addr \<Rightarrow> addr option) \<Rightarrow> (addr \<Rightarrow> addr option) \<Rightarrow> txc_pool \<Rightarrow> txmgr_state" where
  "sample_txmgr_state xs nx pv p = koa_state.extend
     ((sample_koa_state (sample_koa TXC_KOA_IS_FILE 0 []))\<lparr>txds := (\<lambda>a. sample_txd\<lparr>txd_next := nx a, txd_prev := pv a\<rparr>)\<rparr>)
     (txmgr_state.fields False (of_nat (length xs)) (Some (hd xs)) (Some (last xs)) p)"

lemma sample_txmgr_simps [simp]:
  "txds (sample_txmgr_state xs nx pv p) = (\<lambda>a. sample_txd\<lparr>txd_next := nx a, txd_prev := pv a\<rparr>)"
  "alloc_txd_list_head (sample_txmgr_state xs nx pv p) = Some (hd xs)"
  "alloc_txd_list_tail (sample_txmgr_state xs nx pv p) = Some (last xs)"
  "alloc_txd_num (sample_txmgr_state xs nx pv p) = of_nat (length xs)" "\<not> txmgr_mutex (sample_txmgr_state xs nx pv p)"
  "pool_txd (sample_txmgr_state xs nx pv p) = p" "stats_ready (sample_txmgr_state xs nx pv p)"
  by (simp_all add: sample_txmgr_state_def koa_state.defs txmgr_state.defs stats_ready_def sample_koa_state_def
      stats_state.defs sample_stats_state_def)

definition two_descriptors :: txmgr_state where
  "two_descriptors = sample_txmgr_state [4096, 4112] [4096 \<mapsto> 4112] [4112 \<mapsto> 4096] full_pool"

lemma two_descriptors_list: "txd_list two_descriptors [4096, 4112]"
  by (simp add: two_descriptors_def txd_list_def dll_def nexts_def prevs_def)

theorem tx_exists_decides_membership_witness:
  "txc_tx_exists 4112 two_descriptors = Ok TXC_R_SUCCESS two_descriptors \<and>
   txc_tx_exists 8 two_descriptors = Ok TXC_R_NOTEXISTS two_descriptors"
  using tx_exists_decides_membership [OF two_descriptors_list, of 4112]
    tx_exists_decides_membership [OF two_descriptors_list, of 8] by (simp add: two_descriptors_def)

theorem tx_create_appends_witness:
  "let s = sample_txmgr_state [4096] Map.empty Map.empty sample_pool in
   \<exists>t s'. txc_tx_create 7 0 1 (\<lambda>_. undefined) s = Ok (TXC_R_SUCCESS, t) s' \<and> t \<noteq> 4096 \<and> txd_list s' [4096, t]"
proof -
  let ?s = "sample_txmgr_state [4096] Map.empty Map.empty sample_pool"
  have "txd_list ?s [4096]" by (simp add: txd_list_def dll_def nexts_def prevs_def)
  from tx_create_appends [OF this, of 7 0 1 "\<lambda>_. undefined"] show ?thesis
    by (auto simp: sample_pool_live sample_pool_def [THEN arg_cong [of _ _ obj_num]] Let_def)
qed

theorem recycled_descriptor_makes_list_cyclic_witness:
  "\<exists>s1 s2 s3. txc_tx_destroy 4096 two_descriptors = Ok TXC_R_SUCCESS s1 \<and>
    txc_tx_create 7 0 1 (\<lambda>_. undefined) s1 = Ok (TXC_R_SUCCESS, 4096) s2 \<and>
    txc_tx_exists 8 s2 = Fault Diverges s3"
  by (rule recycled_descriptor_makes_list_cyclic [of _ "[]" _ 4112 "[]"])
    (use two_descriptors_list full_pool_ok in \<open>simp_all add: two_descriptors_def\<close>)

theorem tx_destroy_unlinks_witness:
  "\<exists>s'. txc_tx_destroy 4112 two_descriptors = Ok TXC_R_SUCCESS s' \<and> txd_list s' [4096] \<and>
    txc_tx_exists 4112 s' = Ok TXC_R_NOTEXISTS s'"
  using tx_destroy_unlinks [OF two_descriptors_list, of 4112] full_pool_ok by (auto simp: two_descriptors_def)

end
