(* ===== verification/Memory.thy ===== *)
theory Memory
  imports Prelude
begin

text \<open>
  Memory as the C code sees it, byte by byte: a function from addresses to bytes,
  the reads and writes of whole regions, and the layout of 32-bit integers and
  pointers (little endian).  The message xCalls, whose argument blocks are built by
  address arithmetic, and the string functions are written over it.
\<close>

unbundle bit_operations_syntax

section \<open>Regions\<close>

type_synonym memory = "addr \<Rightarrow> byte"

definition bytes_at :: "memory \<Rightarrow> addr \<Rightarrow> nat \<Rightarrow> byte list" where
  "bytes_at m a n = map (\<lambda>i. m (a + of_nat i)) [0..<n]"

text \<open>Storing a list of bytes.  Addresses wrap around at the end of the address space.\<close>

primrec store_at :: "memory \<Rightarrow> addr \<Rightarrow> byte list \<Rightarrow> memory" where
  "store_at m a [] = m"
| "store_at m a (b # bs) = (store_at m (a + 1) bs)(a := b)"

lemma length_bytes_at [simp]: "length (bytes_at m a n) = n"
  by (simp add: bytes_at_def)

lemma bytes_at_0 [simp]: "bytes_at m a 0 = []"
  by (simp add: bytes_at_def)

lemma bytes_at_Suc: "bytes_at m a (Suc n) = m a # bytes_at m (a + 1) n"
  by (simp add: bytes_at_def map_upt_Suc algebra_simps del: upt_Suc)

lemma nth_bytes_at: "i < n \<Longrightarrow> bytes_at m a n ! i = m (a + of_nat i)"
  by (simp add: bytes_at_def)

text \<open>The distance between two addresses decides whether one lies in a region that starts at the other.\<close>

lemma store_at_outside: "length bs \<le> unat (x - a) \<Longrightarrow> store_at m a bs x = m x"
proof (induction bs arbitrary: a)
  case (Cons b bs)
  then have "x - a \<noteq> 0" by auto
  then have "unat (x - (a + 1)) = unat (x - a) - 1"
    by (simp add: diff_diff_eq [symmetric] unat_minus_one)
  with Cons \<open>x - a \<noteq> 0\<close> show ?case by auto
qed simp

lemma store_at_inside:
  "unat (x - a) < length bs \<Longrightarrow> length bs \<le> 2 ^ 32 \<Longrightarrow> store_at m a bs x = bs ! unat (x - a)"
proof (induction bs arbitrary: a)
  case (Cons b bs)
  show ?case
  proof (cases "x = a")
    case False
    then have "x - a \<noteq> 0" by simp
    then have u: "unat (x - (a + 1)) = unat (x - a) - 1" "0 < unat (x - a)"
      by (simp_all add: diff_diff_eq [symmetric] unat_minus_one unat_gt_0)
    with Cons False show ?thesis by (simp add: nth_Cons')
  qed simp
qed simp

lemma store_at_eq:
  "length bs \<le> 2 ^ 32 \<Longrightarrow> store_at m a bs x = (if unat (x - a) < length bs then bs ! unat (x - a) else m x)"
  by (simp add: store_at_inside store_at_outside)

lemma bytes_at_store_at:
  assumes "length bs \<le> 2 ^ 32"
  shows "bytes_at (store_at m a bs) a (length bs) = bs"
proof (rule nth_equalityI)
  fix i
  assume "i < length (bytes_at (store_at m a bs) a (length bs))"
  then have i: "i < length bs" by simp
  with assms have "unat (of_nat i :: addr) = i" by (simp add: unat_of_nat_u32)
  with i assms show "bytes_at (store_at m a bs) a (length bs) ! i = bs ! i"
    by (simp add: nth_bytes_at store_at_eq)
qed simp

text \<open>Two regions of the address space that have no address in common.\<close>

definition apart :: "addr \<Rightarrow> nat \<Rightarrow> addr \<Rightarrow> nat \<Rightarrow> bool" where
  "apart a n b k \<longleftrightarrow> (\<forall>i < n. \<forall>j < k. a + of_nat i \<noteq> b + of_nat j)"

lemma apart_store:
  assumes "apart a n b (length bs)" "length bs \<le> 2 ^ 32"
  shows "bytes_at (store_at m b bs) a n = bytes_at m a n"
proof (rule nth_equalityI)
  fix i
  assume "i < length (bytes_at (store_at m b bs) a n)"
  then have i: "i < n" by simp
  have "length bs \<le> unat (a + of_nat i - b)"
  proof (rule ccontr)
    assume "\<not> length bs \<le> unat (a + of_nat i - b)"
    moreover have "a + of_nat i = b + of_nat (unat (a + of_nat i - b))" by simp
    ultimately show False using assms(1) i unfolding apart_def by (meson not_le)
  qed
  with i show "bytes_at (store_at m b bs) a n ! i = bytes_at m a n ! i"
    by (simp add: nth_bytes_at store_at_outside)
qed simp

section \<open>32-bit words\<close>

definition word_of_bytes :: "byte \<Rightarrow> byte \<Rightarrow> byte \<Rightarrow> byte \<Rightarrow> u32" where
  "word_of_bytes b0 b1 b2 b3 = ucast b0 OR push_bit 8 (ucast b1) OR push_bit 16 (ucast b2) OR push_bit 24 (ucast b3)"

definition bytes_of_word :: "u32 \<Rightarrow> byte list" where
  "bytes_of_word w = [ucast w, ucast (drop_bit 8 w), ucast (drop_bit 16 w), ucast (drop_bit 24 w)]"

lemma length_bytes_of_word [simp]: "length (bytes_of_word w) = 4"
  by (simp add: bytes_of_word_def)

lemma word_of_bytes_of_word:
  "word_of_bytes (ucast w) (ucast (drop_bit 8 w)) (ucast (drop_bit 16 w)) (ucast (drop_bit 24 w)) = w"
proof (rule bit_word_eqI)
  fix n
  assume "n < LENGTH(32)"
  then consider "n < 8" | "8 \<le> n" "n < 16" | "16 \<le> n" "n < 24" | "24 \<le> n" "n < 32" by fastforce
  then show "bit (word_of_bytes (ucast w) (ucast (drop_bit 8 w)) (ucast (drop_bit 16 w)) (ucast (drop_bit 24 w))) n = bit w n"
    by cases (simp_all add: word_of_bytes_def bit_simps less_diff_conv2)
qed

definition load32 :: "memory \<Rightarrow> addr \<Rightarrow> u32" where
  "load32 m a = word_of_bytes (m a) (m (a + 1)) (m (a + 2)) (m (a + 3))"

definition store32 :: "memory \<Rightarrow> addr \<Rightarrow> u32 \<Rightarrow> memory" where
  "store32 m a w = store_at m a (bytes_of_word w)"

lemma load32_bytes_at: "load32 m a = word_of_bytes (bytes_at m a 4 ! 0) (bytes_at m a 4 ! 1) (bytes_at m a 4 ! 2) (bytes_at m a 4 ! 3)"
  by (simp add: load32_def nth_bytes_at)

lemma load32_store32 [simp]: "load32 (store32 m a w) a = w"
  by (simp add: load32_bytes_at store32_def bytes_at_store_at [of "bytes_of_word w", simplified])
    (simp add: bytes_of_word_def word_of_bytes_of_word)

lemma load32_apart: "apart a 4 b (length bs) \<Longrightarrow> length bs \<le> 2 ^ 32 \<Longrightarrow> load32 (store_at m b bs) a = load32 m a"
  by (simp add: load32_bytes_at apart_store)

end
