(* ===== verification/Syscalls.thy ===== *)
theory Syscalls
  imports Txmgr Memory
begin

text \<open>
  What all xCalls share: the kernel as a parameter, the system call wrappers of
  \<^verbatim>\<open>src/src/libc/syscalls.h\<close>, the state the xCalls work on, and the steps every
  xCall repeats (finding and acquiring the KOA of a descriptor, allocating the
  argument block of an action, registering it, storing the error).

  The kernel is a record of functions on its own state \<open>'k\<close>; nothing is assumed
  about them here.  A call that fails returns \<open>Inl\<close> of the error number (in C it
  returns \<open>-1\<close> and sets \<^verbatim>\<open>errno\<close>), one that succeeds \<open>Inr\<close> of its result.
\<close>

section \<open>Constants\<close>

abbreviation (input) ENOENT :: int where "ENOENT \<equiv> 2"

abbreviation (input) EBADF :: int where "EBADF \<equiv> 9"

abbreviation (input) ENOMEM :: int where "ENOMEM \<equiv> 12"

abbreviation (input) EACCES :: int where "EACCES \<equiv> 13"

abbreviation (input) EBUSY :: int where "EBUSY \<equiv> 16"

abbreviation (input) EINVAL :: int where "EINVAL \<equiv> 22"

abbreviation (input) SEEK_SET :: int where "SEEK_SET \<equiv> 0"

abbreviation (input) SEEK_CUR :: int where "SEEK_CUR \<equiv> 1"

abbreviation (input) SEEK_END :: int where "SEEK_END \<equiv> 2"

abbreviation (input) O_RDWR :: u32 where "O_RDWR \<equiv> 2"

text \<open>\<^verbatim>\<open>O_CREAT | O_NOCTTY | O_TRUNC | O_RDWR\<close> on Linux.\<close>

abbreviation (input) creation_flags :: u32 where "creation_flags \<equiv> 834"

abbreviation (input) TXC_MAX_LEN_PATHNAME :: nat where "TXC_MAX_LEN_PATHNAME \<equiv> 128"

section \<open>The kernel\<close>

type_synonym ('k, 'a) syscall = "'k \<Rightarrow> (int + 'a) \<times> 'k"

text \<open>
  \<open>sys_stat\<close> returns the inode number, \<open>sys_read\<close> the bytes read, \<open>sys_pipe\<close> the two
  descriptors, \<open>sys_mktemp\<close> the name that \<^verbatim>\<open>mktemp\<close> makes of its template, and
  \<open>sys_user\<close> is the effect of a commit or undo function of the application on the
  world outside the library, with the error it reports.
\<close>

text \<open>
  What \<^verbatim>\<open>sendmsg\<close> takes out of the caller's memory: the address, the pieces of the
  scatter list, the control data and the flags of the header.  What \<^verbatim>\<open>recvmsg\<close>
  delivers: the address, the data, the control data and the flags.
\<close>

record message =
  m_name :: "byte list"
  m_data :: "byte list list"
  m_control :: "byte list"
  m_flags :: u32

record datagram =
  d_name :: "byte list"
  d_data :: "byte list"
  d_control :: "byte list"
  d_flags :: u32

text \<open>
  The arguments of \<open>sys_recvmsg\<close> are the descriptor, the room for the address, the
  lengths of the scatter list, the room for control data, and the flags.
\<close>

record 'k kernel =
  sys_open :: "string \<Rightarrow> u32 \<Rightarrow> u32 \<Rightarrow> ('k, int) syscall"
  sys_close :: "int \<Rightarrow> ('k, int) syscall"
  sys_rename :: "string \<Rightarrow> string \<Rightarrow> ('k, int) syscall"
  sys_stat :: "string \<Rightarrow> ('k, u32) syscall"
  sys_unlink :: "string \<Rightarrow> ('k, int) syscall"
  sys_write :: "int \<Rightarrow> byte list \<Rightarrow> ('k, int) syscall"
  sys_read :: "int \<Rightarrow> u32 \<Rightarrow> ('k, byte list) syscall"
  sys_lseek :: "int \<Rightarrow> int \<Rightarrow> int \<Rightarrow> ('k, int) syscall"
  sys_pwrite :: "int \<Rightarrow> byte list \<Rightarrow> int \<Rightarrow> ('k, int) syscall"
  sys_ftruncate :: "int \<Rightarrow> int \<Rightarrow> ('k, int) syscall"
  sys_link :: "string \<Rightarrow> string \<Rightarrow> ('k, int) syscall"
  sys_dup :: "int \<Rightarrow> ('k, int) syscall"
  sys_pipe :: "('k, int \<times> int) syscall"
  sys_socket :: "int \<Rightarrow> int \<Rightarrow> int \<Rightarrow> ('k, int) syscall"
  sys_sendmsg :: "int \<Rightarrow> message \<Rightarrow> int \<Rightarrow> ('k, int) syscall"
  sys_recvmsg :: "int \<Rightarrow> u32 \<Rightarrow> u32 list \<Rightarrow> u32 \<Rightarrow> int \<Rightarrow> ('k, datagram) syscall"
  sys_fsync :: "int \<Rightarrow> ('k, int) syscall"
  sys_fdatasync :: "int \<Rightarrow> ('k, int) syscall"
  sys_mktemp :: "'k \<Rightarrow> string"
  sys_user :: "addr \<Rightarrow> addr \<Rightarrow> 'k \<Rightarrow> int \<times> 'k"

section \<open>State\<close>

text \<open>
  The control block of a thread that \<^verbatim>\<open>x_pthread_create\<close> starts: the lock the new
  thread waits for, and its start function and argument.
\<close>

record control_block =
  start_lock :: bool
  start_routine :: "addr option"
  start_arg :: addr

text \<open>
  \<open>kern\<close> is the state of the kernel, \<open>app_mutex\<close> the mutexes of the application,
  \<open>control_blocks\<close> those of the threads created inside transactions,
  \<open>started\<close> the start functions (with their arguments) that threads got to run, and
  \<open>mem\<close> the memory that holds message headers and what they point to.
\<close>

record 'k x_state = txmgr_state +
  kern :: 'k
  app_mutex :: "addr \<Rightarrow> bool"
  control_blocks :: "addr \<Rightarrow> control_block"
  started :: "(addr \<times> addr) list"
  mem :: memory

section \<open>System call wrappers\<close>

definition libc_call :: "('k, 'a) syscall \<Rightarrow> (('k, 'z) x_state_scheme, int + 'a) prog" where
  "libc_call f = (\<lambda>s. case f (kern s) of (r, k) \<Rightarrow>
     Ok r (s\<lparr>errno := (case r of Inl e \<Rightarrow> e | Inr _ \<Rightarrow> errno s), kern := k\<rparr>))"

definition txc_libc_open :: "'k kernel \<Rightarrow> string \<Rightarrow> u32 \<Rightarrow> u32 \<Rightarrow> (('k, 'z) x_state_scheme, int + int) prog" where
  "txc_libc_open K pathname flags mode = libc_call (sys_open K pathname flags mode)"

definition txc_libc_close :: "'k kernel \<Rightarrow> int \<Rightarrow> (('k, 'z) x_state_scheme, int + int) prog" where
  "txc_libc_close K fd = libc_call (sys_close K fd)"

definition txc_libc_rename :: "'k kernel \<Rightarrow> string \<Rightarrow> string \<Rightarrow> (('k, 'z) x_state_scheme, int + int) prog" where
  "txc_libc_rename K oldpath newpath = libc_call (sys_rename K oldpath newpath)"

definition txc_libc_stat :: "'k kernel \<Rightarrow> string \<Rightarrow> (('k, 'z) x_state_scheme, int + u32) prog" where
  "txc_libc_stat K path = libc_call (sys_stat K path)"

definition txc_libc_unlink :: "'k kernel \<Rightarrow> string \<Rightarrow> (('k, 'z) x_state_scheme, int + int) prog" where
  "txc_libc_unlink K path = libc_call (sys_unlink K path)"

definition txc_libc_write :: "'k kernel \<Rightarrow> int \<Rightarrow> byte list \<Rightarrow> (('k, 'z) x_state_scheme, int + int) prog" where
  "txc_libc_write K fd buf = libc_call (sys_write K fd buf)"

definition txc_libc_read :: "'k kernel \<Rightarrow> int \<Rightarrow> u32 \<Rightarrow> (('k, 'z) x_state_scheme, int + byte list) prog" where
  "txc_libc_read K fd nbyte = libc_call (sys_read K fd nbyte)"

definition txc_libc_lseek :: "'k kernel \<Rightarrow> int \<Rightarrow> int \<Rightarrow> int \<Rightarrow> (('k, 'z) x_state_scheme, int + int) prog" where
  "txc_libc_lseek K fd offset whence = libc_call (sys_lseek K fd offset whence)"

definition txc_libc_pwrite :: "'k kernel \<Rightarrow> int \<Rightarrow> byte list \<Rightarrow> int \<Rightarrow> (('k, 'z) x_state_scheme, int + int) prog" where
  "txc_libc_pwrite K fd buf offset = libc_call (sys_pwrite K fd buf offset)"

definition txc_libc_ftruncate :: "'k kernel \<Rightarrow> int \<Rightarrow> int \<Rightarrow> (('k, 'z) x_state_scheme, int + int) prog" where
  "txc_libc_ftruncate K fd len = libc_call (sys_ftruncate K fd len)"

definition txc_libc_link :: "'k kernel \<Rightarrow> string \<Rightarrow> string \<Rightarrow> (('k, 'z) x_state_scheme, int + int) prog" where
  "txc_libc_link K oldpath newpath = libc_call (sys_link K oldpath newpath)"

definition txc_libc_dup :: "'k kernel \<Rightarrow> int \<Rightarrow> (('k, 'z) x_state_scheme, int + int) prog" where
  "txc_libc_dup K oldfd = libc_call (sys_dup K oldfd)"

definition txc_libc_pipe :: "'k kernel \<Rightarrow> (('k, 'z) x_state_scheme, int + int \<times> int) prog" where
  "txc_libc_pipe K = libc_call (sys_pipe K)"

definition txc_libc_socket :: "'k kernel \<Rightarrow> int \<Rightarrow> int \<Rightarrow> int \<Rightarrow> (('k, 'z) x_state_scheme, int + int) prog" where
  "txc_libc_socket K domain ty protocol = libc_call (sys_socket K domain ty protocol)"

text \<open>
  A \<^verbatim>\<open>struct msghdr\<close> has the fields \<^verbatim>\<open>msg_name\<close>, \<^verbatim>\<open>msg_namelen\<close>, \<^verbatim>\<open>msg_iov\<close>,
  \<^verbatim>\<open>msg_iovlen\<close>, \<^verbatim>\<open>msg_control\<close>, \<^verbatim>\<open>msg_controllen\<close> and \<^verbatim>\<open>msg_flags\<close>, of four bytes each; a
  \<^verbatim>\<open>struct iovec\<close> is a pointer and a length.
\<close>

definition gather :: "memory \<Rightarrow> addr \<Rightarrow> message" where
  "gather m p =
     \<lparr>m_name = bytes_at m (load32 m p) (unat (load32 m (p + 4))),
      m_data = map (\<lambda>i. let e = load32 m (p + 8) + 8 * of_nat i in bytes_at m (load32 m e) (unat (load32 m (e + 4))))
                 [0..<unat (load32 m (p + 12))],
      m_control = bytes_at m (load32 m (p + 16)) (unat (load32 m (p + 20))),
      m_flags = load32 m (p + 24)\<rparr>"

definition txc_libc_sendmsg :: "'k kernel \<Rightarrow> int \<Rightarrow> addr \<Rightarrow> int \<Rightarrow> (('k, 'z) x_state_scheme, int + int) prog" where
  "txc_libc_sendmsg K fd msg flags = bnd (gets mem) (\<lambda>m. libc_call (sys_sendmsg K fd (gather m msg) flags))"

definition txc_libc_recvmsg ::
  "'k kernel \<Rightarrow> int \<Rightarrow> u32 \<Rightarrow> u32 list \<Rightarrow> u32 \<Rightarrow> int \<Rightarrow> (('k, 'z) x_state_scheme, int + datagram) prog" where
  "txc_libc_recvmsg K fd namelen lens controllen flags = libc_call (sys_recvmsg K fd namelen lens controllen flags)"

text \<open>The wrappers that no xCall uses, with the system call as an argument.\<close>

definition txc_libc_creat ::
  "(string \<Rightarrow> u32 \<Rightarrow> ('k, int) syscall) \<Rightarrow> string \<Rightarrow> u32 \<Rightarrow> (('k, 'z) x_state_scheme, int + int) prog" where
  "txc_libc_creat sys pathname mode = libc_call (sys pathname mode)"

definition txc_libc_pread ::
  "(int \<Rightarrow> u32 \<Rightarrow> int \<Rightarrow> ('k, byte list) syscall) \<Rightarrow> int \<Rightarrow> u32 \<Rightarrow> int \<Rightarrow> (('k, 'z) x_state_scheme, int + byte list) prog" where
  "txc_libc_pread sys fd nbyte offset = libc_call (sys fd nbyte offset)"

definition txc_libc_recv ::
  "(int \<Rightarrow> u32 \<Rightarrow> int \<Rightarrow> ('k, byte list) syscall) \<Rightarrow> int \<Rightarrow> u32 \<Rightarrow> int \<Rightarrow> (('k, 'z) x_state_scheme, int + byte list) prog" where
  "txc_libc_recv sys s len flags = libc_call (sys s len flags)"

definition txc_libc_recvfrom ::
  "(int \<Rightarrow> u32 \<Rightarrow> int \<Rightarrow> ('k, byte list \<times> byte list) syscall) \<Rightarrow> int \<Rightarrow> u32 \<Rightarrow> int \<Rightarrow>
   (('k, 'z) x_state_scheme, int + byte list \<times> byte list) prog" where
  "txc_libc_recvfrom sys s len flags = libc_call (sys s len flags)"

definition txc_libc_send ::
  "(int \<Rightarrow> byte list \<Rightarrow> int \<Rightarrow> ('k, int) syscall) \<Rightarrow> int \<Rightarrow> byte list \<Rightarrow> int \<Rightarrow> (('k, 'z) x_state_scheme, int + int) prog" where
  "txc_libc_send sys s buf flags = libc_call (sys s buf flags)"

definition txc_libc_sendto ::
  "(int \<Rightarrow> byte list \<Rightarrow> int \<Rightarrow> byte list \<Rightarrow> ('k, int) syscall) \<Rightarrow> int \<Rightarrow> byte list \<Rightarrow> int \<Rightarrow> byte list \<Rightarrow>
   (('k, 'z) x_state_scheme, int + int) prog" where
  "txc_libc_sendto sys s buf flags dest = libc_call (sys s buf flags dest)"

definition txc_libc_fsync :: "'k kernel \<Rightarrow> int \<Rightarrow> (('k, 'z) x_state_scheme, int + int) prog" where
  "txc_libc_fsync K fd = libc_call (sys_fsync K fd)"

definition txc_libc_fdatasync :: "'k kernel \<Rightarrow> int \<Rightarrow> (('k, 'z) x_state_scheme, int + int) prog" where
  "txc_libc_fdatasync K fd = libc_call (sys_fdatasync K fd)"

section \<open>Steps that xCalls share\<close>

text \<open>The end of every xCall: the error goes to the variable the caller passed, if any.\<close>

definition finish :: "addr option \<Rightarrow> int \<Rightarrow> 'a \<Rightarrow> (('k, 'z) x_state_scheme, 'a) prog" where
  "finish result local_result r = bnd (store_int result local_result) (\<lambda>_. ret r)"

text \<open>The error number of a call and the value C code sees as its result.\<close>

definition err_of :: "int + 'a \<Rightarrow> int" where
  "err_of r = (case r of Inl e \<Rightarrow> e | Inr _ \<Rightarrow> 0)"

definition val_of :: "int + int \<Rightarrow> int" where
  "val_of r = (case r of Inl _ \<Rightarrow> - 1 | Inr v \<Rightarrow> v)"

text \<open>
  Locking the descriptor, finding its KOA and trying to acquire the sentinel: no
  KOA is reported as \<open>None\<close>, a busy sentinel aborts the transaction.
\<close>

definition fd_acquire :: "addr \<Rightarrow> int \<Rightarrow> (('k, 'z) x_state_scheme, addr option) prog" where
  "fd_acquire t fd =
     bnd (txc_koa_lock_fd fd) (\<lambda>_.
     bnd (txc_koa_lookup_fd2koa fd) (\<lambda>(xret, koa).
     if xret = TXC_R_FAILURE then bnd (txc_koa_unlock_fd fd) (\<lambda>_. ret None)
     else
       bnd (deref koa) (\<lambda>k.
       bnd (txc_koa_get_sentinel k) (\<lambda>sn.
       bnd (txc_sentinel_tryacquire (Some t) (Some sn) TXC_SENTINEL_ACQUIREONRETRY) (\<lambda>xret.
       bnd (txc_koa_unlock_fd fd) (\<lambda>_.
       if xret = TXC_R_BUSYSENTINEL then txc_tx_abort_transaction t TXC_ABORTREASON_BUSYSENTINEL
       else ret (Some k)))))))"

text \<open>The sentinel of a KOA that the transaction has just created must be free.\<close>

definition acquire_new :: "addr \<Rightarrow> addr \<Rightarrow> (('k, 'z) x_state_scheme, unit) prog" where
  "acquire_new t k =
     bnd (txc_koa_get_sentinel k) (\<lambda>sn.
     bnd (txc_sentinel_tryacquire (Some t) (Some sn) 0) (\<lambda>xret.
     guard Exit1 (xret = TXC_R_SUCCESS)))"

definition linear_malloc :: "addr \<Rightarrow> u32 \<Rightarrow> (('k, 'z) x_state_scheme, addr option) prog" where
  "linear_malloc t n = bnd (txd_get t buffer_linear) (\<lambda>b. on_bufmgr (txc_buffer_linear_malloc b n))"

definition linear_free :: "addr \<Rightarrow> u32 \<Rightarrow> (('k, 'z) x_state_scheme, unit) prog" where
  "linear_free t n = bnd (txd_get t buffer_linear) (\<lambda>b. on_bufmgr (txc_buffer_linear_free b n))"

text \<open>An allocation whose failure is an internal error.\<close>

definition linear_malloc_or_exit :: "addr \<Rightarrow> u32 \<Rightarrow> (('k, 'z) x_state_scheme, unit) prog" where
  "linear_malloc_or_exit t n = bnd (linear_malloc t n) (\<lambda>p. guard Exit1 (p \<noteq> None))"

text \<open>A \<^verbatim>\<open>strcpy\<close> into an array of \<^verbatim>\<open>TXC_MAX_LEN_PATHNAME\<close> characters.\<close>

definition strcpy_path :: "string \<Rightarrow> ('s, unit) prog" where
  "strcpy_path path = guard Undefined (length path < TXC_MAX_LEN_PATHNAME)"

definition path2inode :: "'k kernel \<Rightarrow> string \<Rightarrow> (('k, 'z) x_state_scheme, u32) prog" where
  "path2inode K path =
     bnd (txc_libc_stat K path) (\<lambda>r.
     ret (snd (txc_koa_path2inode (case r of Inl _ \<Rightarrow> None | Inr ino \<Rightarrow> Some ino))))"

text \<open>The state of the calling thread; every xCall starts by asking for it.\<close>

definition with_xactstate ::
  "(addr option \<Rightarrow> (('k, 'z) x_state_scheme, 'a) prog) \<Rightarrow> (addr \<Rightarrow> (('k, 'z) x_state_scheme, 'a) prog) \<Rightarrow>
   (('k, 'z) x_state_scheme, 'a) prog" where
  "with_xactstate direct retryable =
     bnd txc_tx_get_txd (\<lambda>txd.
     bnd (txc_tx_get_xactstate txd) (\<lambda>st.
     case st of
       TXC_XACTSTATE_TRANSACTIONAL_RETRYABLE \<Rightarrow> bnd (deref txd) retryable
     | TXC_XACTSTATE_TRANSACTIONAL_IRREVOCABLE \<Rightarrow> direct txd
     | TXC_XACTSTATE_NONTRANSACTIONAL \<Rightarrow> direct txd))"

lemma wp_libc_call [simp]:
  "wp (libc_call f) Q E s \<longleftrightarrow> (case f (kern s) of (r, k) \<Rightarrow>
     Q r (s\<lparr>errno := (case r of Inl e \<Rightarrow> e | Inr _ \<Rightarrow> errno s), kern := k\<rparr>))"
  by (simp add: wp_def libc_call_def split: prod.split)

end
