(* ===== verification/Xfile.thy ===== *)
theory Xfile
  imports Syscalls
begin

text \<open>
  The xCalls on open files: \<^verbatim>\<open>x_lseek\<close>, \<^verbatim>\<open>x_read\<close>, the \<^verbatim>\<open>x_write\<close> family, \<^verbatim>\<open>x_fsync\<close> and
  \<^verbatim>\<open>x_fdatasync\<close> (\<^verbatim>\<open>src/src/xcalls\<close>), with the functions that undo or complete them.
  Reads and writes happen in place and register the action that compensates
  them; synchronisation is deferred to the commit.
\<close>

section \<open>x_lseek\<close>

definition x_lseek_undo :: "'k kernel \<Rightarrow> int \<Rightarrow> int \<Rightarrow> (('k, 'z) x_state_scheme, int) prog" where
  "x_lseek_undo K fd old_position =
     bnd (txc_libc_lseek K fd old_position SEEK_SET) (\<lambda>r.
     ret (err_of r))"

definition x_lseek :: "'k kernel \<Rightarrow> int \<Rightarrow> int \<Rightarrow> int \<Rightarrow> addr option \<Rightarrow> (('k, 'z) x_state_scheme, int) prog" where
  "x_lseek K fd offset whence result =
     with_xactstate
       (\<lambda>_. bnd (txc_libc_lseek K fd offset whence) (\<lambda>r. finish result (err_of r) (val_of r)))
       (\<lambda>t.
        bnd (fd_acquire t fd) (\<lambda>koa.
        if koa = None then finish result EBADF (- 1)
        else
          bnd (linear_malloc t 8) (\<lambda>args.
          if args = None then finish result ENOMEM (- 1)
          else
            bnd (if whence = SEEK_CUR then
                   bnd (txc_libc_lseek K fd offset whence) (\<lambda>r. ret (r, val_of r - offset))
                 else
                   bnd (txc_libc_lseek K fd 0 SEEK_CUR) (\<lambda>old.
                   bnd (txc_libc_lseek K fd offset whence) (\<lambda>r. ret (r, val_of old)))) (\<lambda>(r, old_position).
            case r of
              Inl e \<Rightarrow> bnd (linear_free t 8) (\<lambda>_. finish result e (- 1))
            | Inr pos \<Rightarrow>
                bnd (txc_tx_register_undo_action t (Act_x_lseek_undo fd old_position) result
                       TXC_TX_REGULAR_UNDO_ACTION_ORDER) (\<lambda>_.
                bnd (txc_stats_txstat_increment t x_lseek_stat 1) (\<lambda>_.
                finish result 0 pos))))))"

section \<open>x_read\<close>

definition x_read_undo :: "'k kernel \<Rightarrow> int \<Rightarrow> int \<Rightarrow> (('k, 'z) x_state_scheme, int) prog" where
  "x_read_undo K fd nbyte =
     bnd (txc_libc_lseek K fd (- nbyte) SEEK_CUR) (\<lambda>r.
     ret (err_of r))"

text \<open>The result is the number of bytes and the bytes the call stored in the caller's buffer.\<close>

definition read_result :: "int + byte list \<Rightarrow> int \<times> byte list" where
  "read_result r = (case r of Inl _ \<Rightarrow> (- 1, []) | Inr bs \<Rightarrow> (int (length bs), bs))"

definition x_read :: "'k kernel \<Rightarrow> int \<Rightarrow> u32 \<Rightarrow> addr option \<Rightarrow> (('k, 'z) x_state_scheme, int \<times> byte list) prog" where
  "x_read K fd nbyte result =
     with_xactstate
       (\<lambda>_. bnd (txc_libc_read K fd nbyte) (\<lambda>r. finish result (err_of r) (read_result r)))
       (\<lambda>t.
        bnd (fd_acquire t fd) (\<lambda>koa.
        if koa = None then finish result EBADF (- 1, [])
        else
          bnd (linear_malloc t 8) (\<lambda>args.
          if args = None then finish result ENOMEM (- 1, [])
          else
            bnd (txc_libc_read K fd nbyte) (\<lambda>r.
            case r of
              Inl e \<Rightarrow> bnd (linear_free t 8) (\<lambda>_. finish result e (- 1, []))
            | Inr bs \<Rightarrow>
                bnd (txc_tx_register_undo_action t (Act_x_read_undo fd (int (length bs))) result
                       TXC_TX_REGULAR_UNDO_ACTION_ORDER) (\<lambda>_.
                bnd (txc_stats_txstat_increment t x_read_stat 1) (\<lambda>_.
                finish result 0 (read_result r)))))))"

section \<open>x_write\<close>

abbreviation (input) TXC_WRITE_SEQ :: int where "TXC_WRITE_SEQ \<equiv> 1"

abbreviation (input) TXC_WRITE_OVR_SAVE :: int where "TXC_WRITE_OVR_SAVE \<equiv> 2"

abbreviation (input) TXC_WRITE_OVR_IGNORE :: int where "TXC_WRITE_OVR_IGNORE \<equiv> 3"

definition x_write_seq_undo :: "'k kernel \<Rightarrow> int \<Rightarrow> int \<Rightarrow> (('k, 'z) x_state_scheme, int) prog" where
  "x_write_seq_undo K fd nbyte_new =
     bnd (txc_libc_lseek K fd (- nbyte_new) SEEK_CUR) (\<lambda>r.
     case r of
       Inl e \<Rightarrow> ret e
     | Inr offset \<Rightarrow> bnd (txc_libc_ftruncate K fd offset) (\<lambda>r. ret (err_of r)))"

text \<open>\<open>buf\<close> are the saved bytes, \<open>nbyte_old\<close> of them; \<open>None\<close> when nothing was saved.\<close>

definition x_write_ovr_undo ::
  "'k kernel \<Rightarrow> int \<Rightarrow> byte list option \<Rightarrow> int \<Rightarrow> (('k, 'z) x_state_scheme, int) prog" where
  "x_write_ovr_undo K fd buf nbyte_new =
     bnd (txc_libc_lseek K fd (- nbyte_new) SEEK_CUR) (\<lambda>r.
     case r of
       Inl e \<Rightarrow> ret e
     | Inr offset \<Rightarrow>
         (case buf of
            None \<Rightarrow> ret 0
          | Some old \<Rightarrow>
              bnd (if int (length old) < nbyte_new then txc_libc_ftruncate K fd offset else ret (Inr 0)) (\<lambda>r.
              case r of
                Inl e \<Rightarrow> ret e
              | Inr _ \<Rightarrow> bnd (txc_libc_pwrite K fd old offset) (\<lambda>r. ret (err_of r)))))"

text \<open>The branch \<^verbatim>\<open>TXC_WRITE_SEQ\<close>.\<close>

definition write_seq :: "'k kernel \<Rightarrow> addr \<Rightarrow> int \<Rightarrow> byte list \<Rightarrow> addr option \<Rightarrow> (('k, 'z) x_state_scheme, int) prog" where
  "write_seq K t fd buf result =
     bnd (linear_malloc t 16) (\<lambda>args.
     if args = None then finish result ENOMEM (- 1)
     else
       bnd (txc_libc_write K fd buf) (\<lambda>r.
       case r of
         Inl e \<Rightarrow> bnd (linear_free t 16) (\<lambda>_. finish result e (- 1))
       | Inr n \<Rightarrow>
           bnd (txc_tx_register_undo_action t (Act_x_write_seq_undo fd n) result
                  TXC_TX_REGULAR_UNDO_ACTION_ORDER) (\<lambda>_.
           bnd (txc_stats_txstat_increment t x_write_seq_stat 1) (\<lambda>_.
           finish result 0 n))))"

text \<open>
  The branches \<^verbatim>\<open>TXC_WRITE_OVR_SAVE\<close> and \<^verbatim>\<open>TXC_WRITE_OVR_IGNORE\<close>.  \<open>Inl\<close> is the error
  of the part that saves the old data, with what has to be freed by then.
\<close>

definition save_old :: "'k kernel \<Rightarrow> addr \<Rightarrow> int \<Rightarrow> u32 \<Rightarrow> bool \<Rightarrow>
  (('k, 'z) x_state_scheme, (int \<times> bool) + byte list option) prog" where
  "save_old K t fd nbyte save =
     (if save then
        bnd (linear_malloc t nbyte) (\<lambda>old_data.
        if old_data = None then ret (Inl (ENOMEM, False))
        else
          bnd (txc_libc_read K fd nbyte) (\<lambda>r.
          ret (case r of Inl e \<Rightarrow> Inl (e, True) | Inr old \<Rightarrow> Inr (Some old))))
      else ret (Inr None))"

definition write_ovr ::
  "'k kernel \<Rightarrow> addr \<Rightarrow> int \<Rightarrow> byte list \<Rightarrow> addr option \<Rightarrow> bool \<Rightarrow> (('k, 'z) x_state_scheme, int) prog" where
  "write_ovr K t fd buf result save =
     (let nbyte = of_nat (length buf);
          fail = (\<lambda>e saved. bnd (mwhen saved (linear_free t nbyte)) (\<lambda>_.
                            bnd (linear_free t 16) (\<lambda>_.
                            finish result e (- 1))))
      in
      bnd (linear_malloc t 16) (\<lambda>args.
      if args = None then finish result ENOMEM (- 1)
      else
        bnd (save_old K t fd nbyte save) (\<lambda>saved.
        case saved of
          Inl (e, allocated) \<Rightarrow> fail e allocated
        | Inr old \<Rightarrow>
            let nbyte_old = (case old of None \<Rightarrow> 0 | Some bs \<Rightarrow> int (length bs)) in
            bnd (mwhen (nbyte_old > 0) (bnd (txc_libc_lseek K fd (- nbyte_old) SEEK_CUR) (\<lambda>_. ret ()))) (\<lambda>_.
            bnd (txc_libc_write K fd buf) (\<lambda>r.
            case r of
              Inl e \<Rightarrow> fail e (old \<noteq> None)
            | Inr n \<Rightarrow>
                bnd (txc_tx_register_undo_action t (Act_x_write_ovr_undo fd old n) result
                       TXC_TX_REGULAR_UNDO_ACTION_ORDER) (\<lambda>_.
                bnd (txc_stats_txstat_increment t (if save then x_write_ovr_stat else x_write_ovr_ignore_stat) 1) (\<lambda>_.
                finish result 0 n)))))))"

definition x_write :: "'k kernel \<Rightarrow> int \<Rightarrow> byte list \<Rightarrow> addr option \<Rightarrow> int \<Rightarrow> (('k, 'z) x_state_scheme, int) prog" where
  "x_write K fd buf result flags =
     with_xactstate
       (\<lambda>_. bnd (txc_libc_write K fd buf) (\<lambda>r. finish result (err_of r) (val_of r)))
       (\<lambda>t.
        bnd (fd_acquire t fd) (\<lambda>koa.
        if koa = None then finish result EBADF (- 1)
        else if flags = TXC_WRITE_SEQ then write_seq K t fd buf result
        else if flags = TXC_WRITE_OVR_IGNORE \<or> flags = TXC_WRITE_OVR_SAVE then
          write_ovr K t fd buf result (flags = TXC_WRITE_OVR_SAVE)
        else throw Exit1))"

definition x_write_seq :: "'k kernel \<Rightarrow> int \<Rightarrow> byte list \<Rightarrow> addr option \<Rightarrow> (('k, 'z) x_state_scheme, int) prog" where
  "x_write_seq K fd buf result = x_write K fd buf result TXC_WRITE_SEQ"

definition x_write_ovr_ignore :: "'k kernel \<Rightarrow> int \<Rightarrow> byte list \<Rightarrow> addr option \<Rightarrow> (('k, 'z) x_state_scheme, int) prog" where
  "x_write_ovr_ignore K fd buf result = x_write K fd buf result TXC_WRITE_OVR_IGNORE"

definition x_write_ovr_save :: "'k kernel \<Rightarrow> int \<Rightarrow> byte list \<Rightarrow> addr option \<Rightarrow> (('k, 'z) x_state_scheme, int) prog" where
  "x_write_ovr_save K fd buf result = x_write K fd buf result TXC_WRITE_OVR_SAVE"

definition x_write_ovr :: "'k kernel \<Rightarrow> int \<Rightarrow> byte list \<Rightarrow> addr option \<Rightarrow> (('k, 'z) x_state_scheme, int) prog" where
  "x_write_ovr K fd buf result = x_write K fd buf result TXC_WRITE_OVR_SAVE"

section \<open>x_fsync and x_fdatasync\<close>

definition x_fsync_commit :: "'k kernel \<Rightarrow> int \<Rightarrow> (('k, 'z) x_state_scheme, int) prog" where
  "x_fsync_commit K fd = bnd (txc_libc_fsync K fd) (\<lambda>r. ret (err_of r))"

definition x_fdatasync_commit :: "'k kernel \<Rightarrow> int \<Rightarrow> (('k, 'z) x_state_scheme, int) prog" where
  "x_fdatasync_commit K fd = bnd (txc_libc_fdatasync K fd) (\<lambda>r. ret (err_of r))"

text \<open>The descriptor is unlocked a second time after the registration, as in the source.\<close>

definition x_fsync :: "'k kernel \<Rightarrow> int \<Rightarrow> addr option \<Rightarrow> (('k, 'z) x_state_scheme, int) prog" where
  "x_fsync K fildes result =
     with_xactstate
       (\<lambda>_. bnd (txc_libc_fsync K fildes) (\<lambda>r. finish result (err_of r) (val_of r)))
       (\<lambda>t.
        bnd (fd_acquire t fildes) (\<lambda>koa.
        if koa = None then finish result EBADF (- 1)
        else
          bnd (linear_malloc_or_exit t 4) (\<lambda>_.
          bnd (txc_tx_register_commit_action t (Act_x_fsync_commit fildes) result
                 TXC_TX_REGULAR_COMMIT_ACTION_ORDER) (\<lambda>_.
          bnd (txc_koa_unlock_fd fildes) (\<lambda>_.
          bnd (txc_stats_txstat_increment t x_fsync_stat 1) (\<lambda>_.
          finish result 0 0))))))"

definition x_fdatasync :: "'k kernel \<Rightarrow> int \<Rightarrow> addr option \<Rightarrow> (('k, 'z) x_state_scheme, int) prog" where
  "x_fdatasync K fildes result =
     with_xactstate
       (\<lambda>_. bnd (txc_libc_fdatasync K fildes) (\<lambda>r. finish result (err_of r) (val_of r)))
       (\<lambda>t.
        bnd (fd_acquire t fildes) (\<lambda>koa.
        if koa = None then finish result EBADF (- 1)
        else
          bnd (linear_malloc_or_exit t 4) (\<lambda>_.
          bnd (txc_tx_register_commit_action t (Act_x_fdatasync_commit fildes) result
                 TXC_TX_REGULAR_COMMIT_ACTION_ORDER) (\<lambda>_.
          bnd (txc_koa_unlock_fd fildes) (\<lambda>_.
          bnd (txc_stats_txstat_increment t x_fdatasync_stat 1) (\<lambda>_.
          finish result 0 0))))))"

end
