(* ===== verification/Xdir.thy ===== *)
theory Xdir
  imports Syscalls
begin

text \<open>
  The xCalls that open, create, close and duplicate descriptors and that change
  directories: \<^verbatim>\<open>x_open\<close>, \<^verbatim>\<open>x_close\<close>, \<^verbatim>\<open>x_dup\<close>, \<^verbatim>\<open>x_create\<close>, \<^verbatim>\<open>x_unlink\<close> and \<^verbatim>\<open>x_rename\<close>
  (\<^verbatim>\<open>src/src/xcalls\<close>), with their commit and undo functions.  They are serialised
  by the lock of the alias cache.
\<close>

section \<open>Shared steps\<close>

definition unlock_alias :: "(('k, 'z) x_state_scheme, unit) prog" where
  "unlock_alias = bnd txc_koa_unlock_alias_cache (\<lambda>_. ret ())"

definition lock_alias :: "(('k, 'z) x_state_scheme, unit) prog" where
  "lock_alias = bnd txc_koa_lock_alias_cache (\<lambda>_. ret ())"

text \<open>A new KOA for a file that has just been opened, whose sentinel must be free.\<close>

definition attach_new_file :: "u32 \<Rightarrow> int \<Rightarrow> (('k, 'z) x_state_scheme, addr) prog" where
  "attach_new_file inode fildes =
     bnd (txc_koa_create TXC_KOA_IS_FILE inode) (\<lambda>(_, k).
     bnd (txc_koa_lock_fd fildes) (\<lambda>_.
     bnd (txc_koa_attach_fd (Some k) fildes False) (\<lambda>_.
     ret k)))"

section \<open>x_open\<close>

definition x_open_undo :: "'k kernel \<Rightarrow> int \<Rightarrow> addr \<Rightarrow> (('k, 'z) x_state_scheme, int) prog" where
  "x_open_undo K fd k =
     bnd lock_alias (\<lambda>_.
     bnd (txc_koa_lock_fd fd) (\<lambda>_.
     bnd (txc_koa_detach_fd (Some k) fd False) (\<lambda>_.
     bnd (txc_libc_close K fd) (\<lambda>r.
     bnd (txc_koa_unlock_fd fd) (\<lambda>_.
     bnd unlock_alias (\<lambda>_.
     ret (err_of r)))))))"

text \<open>The file has a KOA in the alias cache.\<close>

definition open_case1 :: "'k kernel \<Rightarrow> addr \<Rightarrow> addr \<Rightarrow> int \<Rightarrow> addr option \<Rightarrow> (('k, 'z) x_state_scheme, unit) prog" where
  "open_case1 K t k fildes result =
     bnd (txc_koa_lock_fds_refby_koa k) (\<lambda>_.
     bnd (txc_koa_lock_fd fildes) (\<lambda>_.
     bnd (txc_koa_attach_fd (Some k) fildes False) (\<lambda>_.
     bnd (txc_koa_get_sentinel k) (\<lambda>sn.
     bnd (txc_sentinel_tryacquire (Some t) (Some sn) 0) (\<lambda>xret.
     if xret = TXC_R_BUSYSENTINEL then
       bnd (txc_libc_close K fildes) (\<lambda>_.
       bnd (txc_koa_detach_fd (Some k) fildes False) (\<lambda>_.
       bnd (txc_koa_unlock_fd fildes) (\<lambda>_.
       bnd (txc_koa_unlock_fds_refby_koa k) (\<lambda>_.
       bnd unlock_alias (\<lambda>_.
       txc_tx_abort_transaction t TXC_ABORTREASON_BUSYSENTINEL)))))
     else
       bnd (linear_malloc_or_exit t 8) (\<lambda>_.
       bnd (txc_tx_register_undo_action t (Act_x_open_undo fildes k) result TXC_KOA_CREATE_UNDO_ACTION_ORDER) (\<lambda>_.
       bnd (txc_koa_unlock_fds_refby_koa k) (\<lambda>_.
       unlock_alias))))))))"

text \<open>The file has no KOA yet.\<close>

definition open_case2 :: "addr \<Rightarrow> u32 \<Rightarrow> int \<Rightarrow> addr option \<Rightarrow> (('k, 'z) x_state_scheme, unit) prog" where
  "open_case2 t inode fildes result =
     bnd (attach_new_file inode fildes) (\<lambda>k.
     bnd (acquire_new t k) (\<lambda>_.
     bnd (linear_malloc_or_exit t 8) (\<lambda>_.
     bnd (txc_tx_register_undo_action t (Act_x_open_undo fildes k) result TXC_KOA_CREATE_UNDO_ACTION_ORDER) (\<lambda>_.
     bnd (txc_koa_unlock_fd fildes) (\<lambda>_.
     unlock_alias)))))"

definition x_open :: "'k kernel \<Rightarrow> string \<Rightarrow> u32 \<Rightarrow> u32 \<Rightarrow> addr option \<Rightarrow> (('k, 'z) x_state_scheme, int) prog" where
  "x_open K pathname flags mode result =
     with_xactstate
       (\<lambda>_.
        bnd lock_alias (\<lambda>_.
        bnd (txc_libc_open K pathname (or O_RDWR flags) mode) (\<lambda>r.
        case r of
          Inl e \<Rightarrow> bnd unlock_alias (\<lambda>_. finish result e (- 1))
        | Inr fildes \<Rightarrow>
            bnd (path2inode K pathname) (\<lambda>inode.
            bnd (txc_koa_alias_cache_lookup_inode inode) (\<lambda>(xret, koa).
            bnd (if xret \<noteq> TXC_R_SUCCESS then bnd (txc_koa_create TXC_KOA_IS_FILE inode) (\<lambda>(_, k). ret (Some k))
                 else ret koa) (\<lambda>koa.
            bnd (txc_koa_lock_fd fildes) (\<lambda>_.
            bnd (txc_koa_attach_fd koa fildes False) (\<lambda>_.
            bnd (txc_koa_unlock_fd fildes) (\<lambda>_.
            bnd unlock_alias (\<lambda>_.
            finish result 0 fildes))))))))))
       (\<lambda>t.
        bnd lock_alias (\<lambda>_.
        bnd (path2inode K pathname) (\<lambda>inode.
        if inode = 0 then bnd unlock_alias (\<lambda>_. finish result EACCES (- 1))
        else
          bnd (txc_libc_open K pathname (or O_RDWR flags) mode) (\<lambda>r.
          case r of
            Inl e \<Rightarrow> bnd unlock_alias (\<lambda>_. finish result e (- 1))
          | Inr fildes \<Rightarrow>
              bnd (txc_koa_alias_cache_lookup_inode inode) (\<lambda>(xret, koa).
              bnd (if xret = TXC_R_SUCCESS then bnd (deref koa) (\<lambda>k. open_case1 K t k fildes result)
                   else open_case2 t inode fildes result) (\<lambda>_.
              bnd (txc_stats_txstat_increment t x_open_stat 1) (\<lambda>_.
              finish result 0 fildes)))))))"

section \<open>x_close\<close>

definition x_close_commit :: "'k kernel \<Rightarrow> int \<Rightarrow> addr \<Rightarrow> (('k, 'z) x_state_scheme, int) prog" where
  "x_close_commit K fd k =
     bnd lock_alias (\<lambda>_.
     bnd (txc_koa_lock_fd fd) (\<lambda>_.
     bnd (txc_koa_detach_fd (Some k) fd False) (\<lambda>xret.
     bnd (if xret = TXC_R_SUCCESS then bnd (txc_libc_close K fd) (\<lambda>r. ret (err_of r))
          else ret EBADF) (\<lambda>e.
     bnd (txc_koa_unlock_fd fd) (\<lambda>_.
     bnd unlock_alias (\<lambda>_.
     ret e))))))"

definition x_close :: "'k kernel \<Rightarrow> int \<Rightarrow> addr option \<Rightarrow> (('k, 'z) x_state_scheme, int) prog" where
  "x_close K fildes result =
     with_xactstate
       (\<lambda>_.
        bnd lock_alias (\<lambda>_.
        bnd (txc_libc_close K fildes) (\<lambda>r.
        case r of
          Inl e \<Rightarrow> bnd unlock_alias (\<lambda>_. finish result e (- 1))
        | Inr _ \<Rightarrow>
            bnd (txc_koa_lookup_fd2koa fildes) (\<lambda>(_, koa).
            bnd (txc_koa_detach_fd koa fildes True) (\<lambda>_.
            bnd unlock_alias (\<lambda>_.
            finish result 0 0))))))
       (\<lambda>t.
        bnd (fd_acquire t fildes) (\<lambda>koa.
        case koa of
          None \<Rightarrow> finish result EBADF (- 1)
        | Some k \<Rightarrow>
            bnd (linear_malloc_or_exit t 8) (\<lambda>_.
            bnd (txc_tx_register_commit_action t (Act_x_close_commit fildes k) result
                   TXC_KOA_DESTROY_COMMIT_ACTION_ORDER) (\<lambda>_.
            bnd (txc_koa_unlock_fd fildes) (\<lambda>_.
            bnd (txc_stats_txstat_increment t x_close_stat 1) (\<lambda>_.
            finish result 0 0))))))"

section \<open>x_dup\<close>

definition x_dup_undo :: "'k kernel \<Rightarrow> int \<Rightarrow> addr \<Rightarrow> (('k, 'z) x_state_scheme, int) prog" where
  "x_dup_undo K fd k =
     bnd (txc_koa_lock_fd fd) (\<lambda>_.
     bnd (txc_koa_detach_fd (Some k) fd False) (\<lambda>_.
     bnd (txc_libc_close K fd) (\<lambda>r.
     bnd (txc_koa_unlock_fd fd) (\<lambda>_.
     ret (err_of r)))))"

text \<open>
  \<open>local_result\<close> is what the local variable of that name holds before it is
  assigned: outside transactions a successful call stores it.  The error paths
  leave the locks they hold.
\<close>

definition x_dup :: "'k kernel \<Rightarrow> int \<Rightarrow> int \<Rightarrow> addr option \<Rightarrow> (('k, 'z) x_state_scheme, int) prog" where
  "x_dup K local_result oldfd result =
     with_xactstate
       (\<lambda>_.
        bnd (txc_koa_lookup_fd2koa oldfd) (\<lambda>(xret, koa).
        if xret = TXC_R_FAILURE then finish result EBADF (- 1)
        else
          bnd (deref koa) (\<lambda>k.
          bnd (txc_libc_dup K oldfd) (\<lambda>r.
          case r of
            Inl _ \<Rightarrow> ret (- 1)
          | Inr fildes \<Rightarrow>
              bnd (txc_koa_lock_fds_refby_koa k) (\<lambda>_.
              bnd (txc_koa_attach_fd (Some k) fildes False) (\<lambda>_.
              bnd (txc_koa_unlock_fds_refby_koa k) (\<lambda>_.
              finish result local_result fildes)))))))
       (\<lambda>t.
        bnd (txc_koa_lock_fd oldfd) (\<lambda>_.
        bnd (txc_koa_lookup_fd2koa oldfd) (\<lambda>(xret, koa).
        if xret = TXC_R_FAILURE then finish result EBADF (- 1)
        else
          bnd (txc_koa_unlock_fd oldfd) (\<lambda>_.
          bnd (deref koa) (\<lambda>k.
          bnd (txc_koa_lock_fds_refby_koa k) (\<lambda>_.
          bnd (txc_koa_lookup_fd2koa oldfd) (\<lambda>(xret, koa2).
          if xret = TXC_R_FAILURE \<or> koa2 \<noteq> Some k then finish result EBADF (- 1)
          else
            bnd (txc_koa_get_sentinel k) (\<lambda>sn.
            bnd (txc_sentinel_tryacquire (Some t) (Some sn) TXC_SENTINEL_ACQUIREONRETRY) (\<lambda>xret.
            if xret = TXC_R_BUSYSENTINEL then
              bnd (txc_koa_unlock_fds_refby_koa k) (\<lambda>_.
              txc_tx_abort_transaction t TXC_ABORTREASON_BUSYSENTINEL)
            else
              bnd (txc_libc_dup K oldfd) (\<lambda>r.
              case r of
                Inl e \<Rightarrow> bnd (txc_koa_unlock_fds_refby_koa k) (\<lambda>_. finish result e (- 1))
              | Inr fildes \<Rightarrow>
                  bnd (linear_malloc t 8) (\<lambda>args.
                  if args = None then
                    bnd (txc_libc_close K fildes) (\<lambda>_.
                    bnd (txc_koa_unlock_fds_refby_koa k) (\<lambda>_.
                    finish result ENOMEM (- 1)))
                  else
                    bnd (txc_koa_attach_fd (Some k) fildes False) (\<lambda>_.
                    bnd (txc_koa_unlock_fds_refby_koa k) (\<lambda>_.
                    bnd (txc_tx_register_undo_action t (Act_x_dup_undo fildes k) result
                           TXC_TX_REGULAR_UNDO_ACTION_ORDER) (\<lambda>_.
                    bnd (txc_stats_txstat_increment t x_dup_stat 1) (\<lambda>_.
                    finish result 0 fildes)))))))))))))))"


section \<open>x_create\<close>

definition x_create_case1_undo :: "'k kernel \<Rightarrow> int \<Rightarrow> addr \<Rightarrow> string \<Rightarrow> (('k, 'z) x_state_scheme, int) prog" where
  "x_create_case1_undo K fd k pathname =
     bnd lock_alias (\<lambda>_.
     bnd (txc_libc_unlink K pathname) (\<lambda>r1.
     bnd (txc_koa_detach_fd (Some k) fd True) (\<lambda>_.
     bnd (txc_libc_close K fd) (\<lambda>r.
     bnd unlock_alias (\<lambda>_.
     ret (case r1 of Inl e \<Rightarrow> e | Inr _ \<Rightarrow> err_of r))))))"

definition x_create_case2_commit :: "'k kernel \<Rightarrow> string \<Rightarrow> (('k, 'z) x_state_scheme, int) prog" where
  "x_create_case2_commit K temp_pathname =
     bnd (txc_libc_unlink K temp_pathname) (\<lambda>r.
     ret (err_of r))"

definition x_create_case2_undo ::
  "'k kernel \<Rightarrow> int \<Rightarrow> addr \<Rightarrow> string \<Rightarrow> string \<Rightarrow> (('k, 'z) x_state_scheme, int) prog" where
  "x_create_case2_undo K fd k temp_pathname original_pathname =
     bnd lock_alias (\<lambda>_.
     bnd (txc_libc_unlink K original_pathname) (\<lambda>r1.
     bnd (txc_libc_rename K temp_pathname original_pathname) (\<lambda>r2.
     bnd (txc_koa_detach_fd (Some k) fd True) (\<lambda>_.
     bnd (txc_libc_close K fd) (\<lambda>r.
     bnd unlock_alias (\<lambda>_.
     ret (case r1 of Inl e \<Rightarrow> e | Inr _ \<Rightarrow> (case r2 of Inl e \<Rightarrow> e | Inr _ \<Rightarrow> err_of r))))))))"

text \<open>CASE 1: the file does not exist.\<close>

definition create_case1 :: "'k kernel \<Rightarrow> addr \<Rightarrow> string \<Rightarrow> u32 \<Rightarrow> addr option \<Rightarrow> (('k, 'z) x_state_scheme, int) prog" where
  "create_case1 K t pathname mode result =
     bnd (txc_koa_alias_cache_lookup_inode 0) (\<lambda>(xret, _).
     bnd (guard Assert_failed (xret = TXC_R_NOTEXISTS)) (\<lambda>_.
     bnd (txc_libc_open K pathname creation_flags mode) (\<lambda>r.
     case r of
       Inl e \<Rightarrow> bnd unlock_alias (\<lambda>_. finish result e (- 1))
     | Inr fildes \<Rightarrow>
         bnd (path2inode K pathname) (\<lambda>inode.
         bnd (attach_new_file inode fildes) (\<lambda>k.
         bnd (acquire_new t k) (\<lambda>_.
         bnd (linear_malloc_or_exit t 136) (\<lambda>_.
         bnd (strcpy_path pathname) (\<lambda>_.
         bnd (txc_tx_register_undo_action t (Act_x_create_case1_undo fildes k pathname) result
                TXC_KOA_CREATE_UNDO_ACTION_ORDER) (\<lambda>_.
         bnd (txc_koa_unlock_fd fildes) (\<lambda>_.
         bnd unlock_alias (\<lambda>_.
         bnd (txc_stats_txstat_increment t x_create_stat 1) (\<lambda>_.
         finish result 0 fildes))))))))))))"

text \<open>CASE 2a: another transaction may operate on the file that is overwritten.\<close>

definition create_case2a :: "addr \<Rightarrow> addr \<Rightarrow> (('k, 'z) x_state_scheme, unit) prog" where
  "create_case2a t koa_old =
     bnd (txc_koa_lock_fds_refby_koa koa_old) (\<lambda>_.
     bnd (txc_koa_get_sentinel koa_old) (\<lambda>sn.
     bnd (txc_sentinel_tryacquire (Some t) (Some sn) 0) (\<lambda>xret.
     bnd (txc_koa_unlock_fds_refby_koa koa_old) (\<lambda>_.
     mwhen (xret = TXC_R_BUSYSENTINEL)
       (bnd unlock_alias (\<lambda>_.
        txc_tx_abort_transaction t TXC_ABORTREASON_BUSYSENTINEL))))))"

text \<open>
  CASE 2: the existing file is renamed out of the way.  When the new file cannot
  be opened the reported error is \<^verbatim>\<open>errno\<close> after the file has been renamed back.
\<close>

definition create_case2 ::
  "'k kernel \<Rightarrow> addr \<Rightarrow> u32 \<Rightarrow> string \<Rightarrow> u32 \<Rightarrow> addr option \<Rightarrow> (('k, 'z) x_state_scheme, int) prog" where
  "create_case2 K t inode pathname mode result =
     bnd (txc_koa_alias_cache_lookup_inode inode) (\<lambda>(xret, koa_old).
     bnd (if xret = TXC_R_SUCCESS then bnd (deref koa_old) (create_case2a t) else ret ()) (\<lambda>_.
     bnd (gets (\<lambda>s. sys_mktemp K (kern s))) (\<lambda>temp_pathname.
     bnd (txc_libc_rename K pathname temp_pathname) (\<lambda>_.
     bnd (txc_libc_open K pathname creation_flags mode) (\<lambda>r.
     case r of
       Inl _ \<Rightarrow>
         bnd (txc_libc_rename K temp_pathname pathname) (\<lambda>_.
         bnd unlock_alias (\<lambda>_.
         bnd (gets errno) (\<lambda>e.
         finish result e (- 1))))
     | Inr fildes \<Rightarrow>
         bnd (path2inode K pathname) (\<lambda>inode.
         bnd (attach_new_file inode fildes) (\<lambda>k.
         bnd (txc_koa_alias_cache_lookup_inode inode) (\<lambda>(xret, _).
         bnd (guard Assert_failed (xret = TXC_R_SUCCESS)) (\<lambda>_.
         bnd (acquire_new t k) (\<lambda>_.
         bnd (linear_malloc_or_exit t 264) (\<lambda>_.
         bnd (strcpy_path temp_pathname) (\<lambda>_.
         bnd (strcpy_path pathname) (\<lambda>_.
         bnd (txc_tx_register_commit_action t (Act_x_create_case2_commit fildes k temp_pathname pathname) result
                TXC_KOA_CREATE_COMMIT_ACTION_ORDER) (\<lambda>_.
         bnd (txc_tx_register_undo_action t (Act_x_create_case2_undo fildes k temp_pathname pathname) result
                TXC_KOA_CREATE_UNDO_ACTION_ORDER) (\<lambda>_.
         bnd (txc_koa_unlock_fd fildes) (\<lambda>_.
         bnd unlock_alias (\<lambda>_.
         bnd (txc_stats_txstat_increment t x_create_stat 1) (\<lambda>_.
         finish result 0 fildes))))))))))))))))))"

text \<open>Outside transactions the alias cache stays locked when the file cannot be opened.\<close>

definition x_create :: "'k kernel \<Rightarrow> string \<Rightarrow> u32 \<Rightarrow> addr option \<Rightarrow> (('k, 'z) x_state_scheme, int) prog" where
  "x_create K pathname mode result =
     with_xactstate
       (\<lambda>_.
        bnd lock_alias (\<lambda>_.
        bnd (txc_libc_open K pathname creation_flags mode) (\<lambda>r.
        case r of
          Inl e \<Rightarrow> finish result e (- 1)
        | Inr fildes \<Rightarrow>
            bnd (path2inode K pathname) (\<lambda>inode.
            bnd (attach_new_file inode fildes) (\<lambda>_.
            bnd (txc_koa_unlock_fd fildes) (\<lambda>_.
            bnd unlock_alias (\<lambda>_.
            finish result 0 fildes)))))))
       (\<lambda>t.
        bnd lock_alias (\<lambda>_.
        bnd (path2inode K pathname) (\<lambda>inode.
        if inode = 0 then create_case1 K t pathname mode result
        else create_case2 K t inode pathname mode result)))"

section \<open>x_unlink\<close>

text \<open>Acquiring a path: a reference to its KOA, which may have to be created, and the sentinel.\<close>

definition acquire_live_koa :: "addr \<Rightarrow> addr \<Rightarrow> u32 \<Rightarrow> (('k, 'z) x_state_scheme, unit) prog" where
  "acquire_live_koa t k flags =
     bnd (txc_koa_lock_fds_refby_koa k) (\<lambda>_.
     bnd (txc_koa_attach (Some k)) (\<lambda>_.
     bnd (txc_koa_get_sentinel k) (\<lambda>sn.
     bnd (txc_sentinel_tryacquire (Some t) (Some sn) flags) (\<lambda>xret.
     if xret = TXC_R_BUSYSENTINEL then
       bnd (txc_koa_detach (Some k)) (\<lambda>_.
       bnd (txc_koa_unlock_fds_refby_koa k) (\<lambda>_.
       bnd unlock_alias (\<lambda>_.
       txc_tx_abort_transaction t TXC_ABORTREASON_BUSYSENTINEL)))
     else bnd (txc_koa_unlock_fds_refby_koa k) (\<lambda>_. ret ())))))"

definition acquire_path :: "addr \<Rightarrow> u32 \<Rightarrow> u32 \<Rightarrow> (('k, 'z) x_state_scheme, addr) prog" where
  "acquire_path t inode flags =
     bnd (txc_koa_alias_cache_lookup_inode inode) (\<lambda>(xret, koa).
     if xret = TXC_R_SUCCESS then
       bnd (deref koa) (\<lambda>k.
       bnd (acquire_live_koa t k flags) (\<lambda>_. ret k))
     else
       bnd (txc_koa_create TXC_KOA_IS_FILE inode) (\<lambda>(_, k).
       bnd (txc_koa_attach (Some k)) (\<lambda>_.
       bnd (acquire_new t k) (\<lambda>_. ret k))))"

definition x_unlink_commit :: "'k kernel \<Rightarrow> addr \<Rightarrow> string \<Rightarrow> (('k, 'z) x_state_scheme, int) prog" where
  "x_unlink_commit K k pathname =
     bnd lock_alias (\<lambda>_.
     bnd (txc_koa_lock_fds_refby_koa k) (\<lambda>_.
     bnd (txc_koa_detach (Some k)) (\<lambda>xret.
     bnd (if xret = TXC_R_SUCCESS then bnd (txc_libc_unlink K pathname) (\<lambda>r. ret (err_of r))
          else ret EBADF) (\<lambda>e.
     bnd (txc_koa_unlock_fds_refby_koa k) (\<lambda>_.
     bnd unlock_alias (\<lambda>_.
     ret e))))))"

text \<open>Outside transactions the call returns 0 even when it fails.\<close>

definition x_unlink :: "'k kernel \<Rightarrow> string \<Rightarrow> addr option \<Rightarrow> (('k, 'z) x_state_scheme, int) prog" where
  "x_unlink K pathname result =
     with_xactstate
       (\<lambda>_. bnd (txc_libc_unlink K pathname) (\<lambda>r. finish result (err_of r) 0))
       (\<lambda>t.
        bnd lock_alias (\<lambda>_.
        bnd (path2inode K pathname) (\<lambda>inode.
        if inode = 0 then bnd unlock_alias (\<lambda>_. finish result EACCES (- 1))
        else
          bnd (acquire_path t inode TXC_SENTINEL_ACQUIREONRETRY) (\<lambda>k.
          bnd (linear_malloc_or_exit t 136) (\<lambda>_.
          bnd (strcpy_path pathname) (\<lambda>_.
          bnd (txc_tx_register_commit_action t (Act_x_unlink_commit k pathname) result
                 TXC_KOA_DESTROY_COMMIT_ACTION_ORDER) (\<lambda>_.
          bnd unlock_alias (\<lambda>_.
          bnd (txc_stats_txstat_increment t x_unlink_stat 1) (\<lambda>_.
          finish result 0 0)))))))))"

section \<open>x_rename\<close>

definition lock_fds_opt :: "addr option \<Rightarrow> (('k, 'z) x_state_scheme, unit) prog" where
  "lock_fds_opt p = (case p of None \<Rightarrow> ret () | Some k \<Rightarrow> bnd (txc_koa_lock_fds_refby_koa k) (\<lambda>_. ret ()))"

definition unlock_fds_opt :: "addr option \<Rightarrow> (('k, 'z) x_state_scheme, unit) prog" where
  "unlock_fds_opt p = (case p of None \<Rightarrow> ret () | Some k \<Rightarrow> bnd (txc_koa_unlock_fds_refby_koa k) (\<lambda>_. ret ()))"

definition detach_opt :: "addr option \<Rightarrow> (('k, 'z) x_state_scheme, unit) prog" where
  "detach_opt p = (case p of None \<Rightarrow> ret () | Some k \<Rightarrow> bnd (txc_koa_detach (Some k)) (\<lambda>_. ret ()))"

text \<open>\<open>newpath_koa\<close> is \<open>None\<close> when \<^verbatim>\<open>newpath_koa_is_valid\<close> is 0.\<close>

definition x_rename_commit :: "'k kernel \<Rightarrow> addr \<Rightarrow> addr option \<Rightarrow> string \<Rightarrow> (('k, 'z) x_state_scheme, int) prog" where
  "x_rename_commit K oldpath_koa newpath_koa oldpath =
     bnd lock_alias (\<lambda>_.
     bnd (txc_koa_lock_fds_refby_koa oldpath_koa) (\<lambda>_.
     bnd (lock_fds_opt newpath_koa) (\<lambda>_.
     bnd (txc_koa_detach (Some oldpath_koa)) (\<lambda>_.
     bnd (detach_opt newpath_koa) (\<lambda>_.
     bnd (txc_libc_unlink K oldpath) (\<lambda>r.
     bnd (unlock_fds_opt newpath_koa) (\<lambda>_.
     bnd (txc_koa_unlock_fds_refby_koa oldpath_koa) (\<lambda>_.
     bnd unlock_alias (\<lambda>_.
     ret (err_of r))))))))))"

definition x_rename_undo ::
  "'k kernel \<Rightarrow> addr \<Rightarrow> addr option \<Rightarrow> string \<Rightarrow> string \<Rightarrow> (('k, 'z) x_state_scheme, int) prog" where
  "x_rename_undo K oldpath_koa newpath_koa newpath temppath =
     bnd lock_alias (\<lambda>_.
     bnd (txc_koa_lock_fds_refby_koa oldpath_koa) (\<lambda>_.
     bnd (lock_fds_opt newpath_koa) (\<lambda>_.
     bnd (txc_koa_detach (Some oldpath_koa)) (\<lambda>_.
     bnd (detach_opt newpath_koa) (\<lambda>_.
     bnd (txc_libc_unlink K newpath) (\<lambda>r.
     bnd (if newpath_koa \<noteq> None then txc_libc_rename K temppath newpath else ret (Inr 0)) (\<lambda>r2.
     bnd (unlock_fds_opt newpath_koa) (\<lambda>_.
     bnd (txc_koa_unlock_fds_refby_koa oldpath_koa) (\<lambda>_.
     bnd unlock_alias (\<lambda>_.
     ret (case r2 of Inl e \<Rightarrow> e | Inr _ \<Rightarrow> err_of r)))))))))))"

text \<open>
  \<open>stack\<close> is the string that the array \<^verbatim>\<open>temppath\<close> on the stack happens to hold: it is
  copied into the argument block unassigned when \<open>newpath\<close> does not exist.
\<close>

definition x_rename ::
  "'k kernel \<Rightarrow> string \<Rightarrow> string \<Rightarrow> string \<Rightarrow> addr option \<Rightarrow> (('k, 'z) x_state_scheme, int) prog" where
  "x_rename K stack oldpath newpath result =
     with_xactstate
       (\<lambda>_. bnd (txc_libc_rename K oldpath newpath) (\<lambda>r. finish result (err_of r) 0))
       (\<lambda>t.
        bnd lock_alias (\<lambda>_.
        bnd (path2inode K oldpath) (\<lambda>oldpath_inode.
        if oldpath_inode = 0 then bnd unlock_alias (\<lambda>_. finish result ENOENT (- 1))
        else
          bnd (acquire_path t oldpath_inode TXC_SENTINEL_ACQUIREONRETRY) (\<lambda>oldpath_koa.
          bnd (path2inode K newpath) (\<lambda>newpath_inode.
          bnd (if newpath_inode = 0 then ret (None, stack)
               else
                 bnd (acquire_path t newpath_inode 0) (\<lambda>k.
                 bnd (gets (\<lambda>s. sys_mktemp K (kern s))) (\<lambda>temppath.
                 bnd (txc_libc_rename K newpath temppath) (\<lambda>_.
                 ret (Some k, temppath))))) (\<lambda>(newpath_koa, temppath).
          bnd (txc_libc_link K oldpath newpath) (\<lambda>_.
          bnd (linear_malloc_or_exit t 396) (\<lambda>_.
          bnd (strcpy_path temppath) (\<lambda>_.
          bnd (strcpy_path newpath) (\<lambda>_.
          bnd (strcpy_path oldpath) (\<lambda>_.
          bnd (txc_tx_register_commit_action t (Act_x_rename_commit oldpath_koa newpath_koa oldpath newpath temppath)
                 result TXC_KOA_CREATE_COMMIT_ACTION_ORDER) (\<lambda>_.
          bnd (txc_tx_register_undo_action t (Act_x_rename_undo oldpath_koa newpath_koa oldpath newpath temppath)
                 result TXC_KOA_CREATE_UNDO_ACTION_ORDER) (\<lambda>_.
          bnd unlock_alias (\<lambda>_.
          bnd (txc_stats_txstat_increment t x_rename_stat 1) (\<lambda>_.
          finish result 0 0)))))))))))))))"

end
