(* ===== verification/Xpipe.thy ===== *)
theory Xpipe
  imports Syscalls
begin

text \<open>
  The xCalls on pipes and sockets: \<^verbatim>\<open>x_pipe\<close>, \<^verbatim>\<open>x_read_pipe\<close>, \<^verbatim>\<open>x_write_pipe\<close>, \<^verbatim>\<open>x_printf\<close>
  and \<^verbatim>\<open>x_socket\<close> (\<^verbatim>\<open>src/src/xcalls\<close>).  Writing to a pipe is deferred to the commit.
  What a transaction reads from a pipe is kept in the circular buffer of the
  pipe's KOA, so that it can be read again when the transaction aborts.
\<close>

section \<open>x_pipe\<close>

text \<open>Locks are taken in increasing order of the descriptors.\<close>

definition lock_pair :: "int \<times> int \<Rightarrow> (('k, 'z) x_state_scheme, unit) prog" where
  "lock_pair fds =
     (let (a, b) = (if fst fds < snd fds then fds else (snd fds, fst fds)) in
      bnd (txc_koa_lock_fd a) (\<lambda>_.
      bnd (txc_koa_lock_fd b) (\<lambda>_.
      ret ())))"

definition unlock_pair :: "int \<times> int \<Rightarrow> (('k, 'z) x_state_scheme, unit) prog" where
  "unlock_pair fds =
     bnd (txc_koa_unlock_fd (fst fds)) (\<lambda>_.
     bnd (txc_koa_unlock_fd (snd fds)) (\<lambda>_.
     ret ()))"

definition x_pipe_undo :: "'k kernel \<Rightarrow> int \<times> int \<Rightarrow> addr \<times> addr \<Rightarrow> (('k, 'z) x_state_scheme, int) prog" where
  "x_pipe_undo K fds ks =
     bnd (lock_pair fds) (\<lambda>_.
     bnd (txc_koa_detach_fd (Some (fst ks)) (fst fds) False) (\<lambda>_.
     bnd (txc_koa_detach_fd (Some (snd ks)) (snd fds) False) (\<lambda>_.
     bnd (txc_libc_close K (fst fds)) (\<lambda>r0.
     bnd (txc_libc_close K (snd fds)) (\<lambda>r1.
     bnd (unlock_pair fds) (\<lambda>_.
     ret (case r1 of Inl e \<Rightarrow> e | Inr _ \<Rightarrow> err_of r0)))))))"

text \<open>The KOAs of the two ends, attached to the locked descriptors.\<close>

definition attach_pipe :: "int \<times> int \<Rightarrow> (('k, 'z) x_state_scheme, addr \<times> addr) prog" where
  "attach_pipe fds =
     bnd (txc_koa_create TXC_KOA_IS_PIPE_READ_END 0) (\<lambda>(_, koa0).
     bnd (txc_koa_create TXC_KOA_IS_PIPE_WRITE_END 0) (\<lambda>(_, koa1).
     bnd (lock_pair fds) (\<lambda>_.
     bnd (txc_koa_attach_fd (Some koa0) (fst fds) False) (\<lambda>_.
     bnd (txc_koa_attach_fd (Some koa1) (snd fds) False) (\<lambda>_.
     ret (koa0, koa1))))))"

text \<open>The result is the return value and the two descriptors stored in \<^verbatim>\<open>fildes\<close>.\<close>

definition x_pipe :: "'k kernel \<Rightarrow> addr option \<Rightarrow> (('k, 'z) x_state_scheme, int \<times> (int \<times> int) option) prog" where
  "x_pipe K result =
     with_xactstate
       (\<lambda>_.
        bnd (txc_libc_pipe K) (\<lambda>r.
        case r of
          Inl e \<Rightarrow> finish result e (- 1, None)
        | Inr fds \<Rightarrow>
            bnd (attach_pipe fds) (\<lambda>_.
            bnd (unlock_pair fds) (\<lambda>_.
            finish result 0 (0, Some fds)))))
       (\<lambda>t.
        bnd (txc_libc_pipe K) (\<lambda>r.
        case r of
          Inl e \<Rightarrow> finish result e (- 1, None)
        | Inr fds \<Rightarrow>
            bnd (attach_pipe fds) (\<lambda>ks.
            bnd (acquire_new t (fst ks)) (\<lambda>_.
            bnd (acquire_new t (snd ks)) (\<lambda>_.
            bnd (linear_malloc_or_exit t 16) (\<lambda>_.
            bnd (txc_tx_register_undo_action t (Act_x_pipe_undo fds ks) result TXC_KOA_CREATE_UNDO_ACTION_ORDER) (\<lambda>_.
            bnd (unlock_pair fds) (\<lambda>_.
            bnd (txc_stats_txstat_increment t x_pipe_stat 1) (\<lambda>_.
            finish result 0 (0, Some fds))))))))))"

section \<open>x_read_pipe\<close>

definition circ_get :: "addr \<Rightarrow> (txc_buffer_circular \<Rightarrow> 'a) \<Rightarrow> ('z tx_state_scheme, 'a) prog" where
  "circ_get b f = gets (\<lambda>s. f (circ_mem (bufmgr s) b))"

definition circ_set :: "addr \<Rightarrow> (txc_buffer_circular \<Rightarrow> txc_buffer_circular) \<Rightarrow> ('z tx_state_scheme, unit) prog" where
  "circ_set b f = modify (\<lambda>s. s\<lparr>bufmgr := (bufmgr s)\<lparr>circ_mem :=
     (circ_mem (bufmgr s))(b := f (circ_mem (bufmgr s) b))\<rparr>\<rparr>)"

definition x_read_pipe_undo :: "addr \<Rightarrow> ('z tx_state_scheme, int) prog" where
  "x_read_pipe_undo b = bnd (circ_set b (\<lambda>c. c\<lparr>cb_state := TXC_BUFFER_STATE_NON_SPECULATIVE\<rparr>)) (\<lambda>_. ret 0)"

definition commit_buffer :: "txc_buffer_circular \<Rightarrow> txc_buffer_circular" where
  "commit_buffer c =
     (if speculative_primary_tail c \<noteq> speculative_primary_head c then
        c\<lparr>primary_head := speculative_primary_head c, primary_tail := speculative_primary_tail c\<rparr>
      else if speculative_secondary_tail c \<noteq> speculative_secondary_head c then
        c\<lparr>primary_head := speculative_secondary_head c, primary_tail := speculative_secondary_tail c,
          secondary_head := 0, secondary_tail := 0\<rparr>
      else c\<lparr>primary_head := 0, primary_tail := 0, secondary_head := 0, secondary_tail := 0\<rparr>)"

definition x_read_pipe_commit :: "addr \<Rightarrow> ('z tx_state_scheme, int) prog" where
  "x_read_pipe_commit b =
     bnd (circ_set b (\<lambda>c. (commit_buffer c)\<lparr>cb_state := TXC_BUFFER_STATE_NON_SPECULATIVE\<rparr>)) (\<lambda>_. ret 0)"

text \<open>The final \<^verbatim>\<open>memcpy\<close> of \<open>nbyte\<close> bytes to the application.\<close>

definition copy_out :: "addr \<Rightarrow> u32 \<Rightarrow> u32 \<Rightarrow> ('z tx_state_scheme, byte list) prog" where
  "copy_out b base nbyte =
     bnd (circ_get b id) (\<lambda>c.
     bnd (guard Undefined (unat base + unat nbyte \<le> unat (cb_size_max c))) (\<lambda>_.
     ret (map (cb_data c) [unat base..<unat base + unat nbyte])))"

text \<open>
  The branch outside transactions.  \<open>ret0\<close> is what the variable \<^verbatim>\<open>ret\<close> holds before it
  is assigned: when buffered data are consumed it is returned as it is.  When
  the kernel is asked, \<^verbatim>\<open>errno\<close> is stored whether or not the call failed.
\<close>

definition read_pipe_direct ::
  "'k kernel \<Rightarrow> int \<Rightarrow> addr \<Rightarrow> int \<Rightarrow> u32 \<Rightarrow> addr option \<Rightarrow> (('k, 'z) x_state_scheme, int \<times> byte list) prog" where
  "read_pipe_direct K ret0 b fd nbyte result =
     bnd (txc_koa_unlock_fd fd) (\<lambda>_.
     bnd (circ_get b id) (\<lambda>c.
     if primary_tail c \<noteq> primary_head c then
       bnd (circ_set b (\<lambda>c. c\<lparr>primary_head := primary_head c + nbyte\<rparr>)) (\<lambda>_.
       bnd (copy_out b (primary_head c) nbyte) (\<lambda>data.
       finish result 0 (ret0, data)))
     else if secondary_tail c \<noteq> secondary_head c then
       bnd (circ_set b (\<lambda>c. c\<lparr>primary_tail := secondary_tail c, primary_head := secondary_head c + nbyte,
              secondary_head := 0, secondary_tail := 0\<rparr>)) (\<lambda>_.
       bnd (copy_out b (secondary_head c) nbyte) (\<lambda>data.
       finish result 0 (ret0, data)))
     else
       bnd (txc_libc_read K fd nbyte) (\<lambda>r.
       bnd (gets errno) (\<lambda>e.
       finish result e (case r of Inl _ \<Rightarrow> (- 1, []) | Inr bs \<Rightarrow> (int (length bs), bs))))))"

text \<open>
  The first speculative read of a transaction saves the state of the buffer and
  registers its actions.  \<^verbatim>\<open>x_recvmsg\<close> does the same with actions of its own.
\<close>

definition speculate :: "addr \<Rightarrow> addr \<Rightarrow> action \<Rightarrow> action \<Rightarrow> addr option \<Rightarrow> (('k, 'z) x_state_scheme, bool) prog" where
  "speculate t b commit undo result =
     bnd (circ_get b cb_state) (\<lambda>st.
     if st = TXC_BUFFER_STATE_NON_SPECULATIVE then
       bnd (linear_malloc t 8) (\<lambda>args.
       if args = None then ret False
       else
         bnd (circ_set b (\<lambda>c. c\<lparr>speculative_primary_head := primary_head c, speculative_primary_tail := primary_tail c,
                speculative_secondary_head := secondary_head c, speculative_secondary_tail := secondary_tail c,
                cb_state := TXC_BUFFER_STATE_SPECULATIVE\<rparr>)) (\<lambda>_.
         bnd (txc_tx_register_commit_action t commit result TXC_TX_REGULAR_COMMIT_ACTION_ORDER) (\<lambda>_.
         bnd (txc_tx_register_undo_action t undo result TXC_TX_REGULAR_UNDO_ACTION_ORDER) (\<lambda>_.
         ret True))))
     else ret True)"

definition begin_speculation :: "addr \<Rightarrow> addr \<Rightarrow> addr \<Rightarrow> addr option \<Rightarrow> (('k, 'z) x_state_scheme, bool) prog" where
  "begin_speculation t k b result = speculate t b (Act_x_read_pipe_commit k b) (Act_x_read_pipe_undo k b) result"

text \<open>Where new data go in the buffer, with 32-bit unsigned arithmetic: \<open>True\<close> marks the primary part.\<close>

definition find_space :: "txc_buffer_circular \<Rightarrow> u32 \<Rightarrow> (bool \<times> u32) option" where
  "find_space c nbyte =
     (if primary_tail c < cb_size_max c - nbyte then Some (True, primary_tail c)
      else if secondary_tail c < primary_head c + 1 - nbyte then Some (False, secondary_tail c)
      else None)"

definition store_bytes :: "nat \<Rightarrow> byte list \<Rightarrow> (nat \<Rightarrow> byte) \<Rightarrow> nat \<Rightarrow> byte" where
  "store_bytes base bs d = (\<lambda>i. if base \<le> i \<and> i < base + length bs then bs ! (i - base) else d i)"

text \<open>Bringing data from the kernel: the outcome of the call does not stop the copy.\<close>

definition fill_buffer :: "'k kernel \<Rightarrow> addr \<Rightarrow> bool \<times> u32 \<Rightarrow> int \<Rightarrow> u32 \<Rightarrow> (('k, 'z) x_state_scheme, int) prog" where
  "fill_buffer K b space fd nbyte =
     bnd (txc_libc_read K fd nbyte) (\<lambda>r.
     case r of
       Inl _ \<Rightarrow> ret (- 1)
     | Inr bs \<Rightarrow>
         bnd (circ_get b cb_size_max) (\<lambda>size.
         bnd (guard Undefined (unat (snd space) + length bs \<le> unat size)) (\<lambda>_.
         bnd (circ_set b (\<lambda>c. c\<lparr>cb_data := store_bytes (unat (snd space)) bs (cb_data c)\<rparr>)) (\<lambda>_.
         bnd (mwhen (bs \<noteq> [])
                (circ_set b (\<lambda>c. if fst space then c\<lparr>primary_tail := primary_tail c + of_nat (length bs)\<rparr>
                               else c\<lparr>secondary_tail := secondary_tail c + of_nat (length bs)\<rparr>))) (\<lambda>_.
         ret (int (length bs)))))))"

definition read_pipe_speculative ::
  "'k kernel \<Rightarrow> addr \<Rightarrow> addr \<Rightarrow> addr \<Rightarrow> int \<Rightarrow> u32 \<Rightarrow> addr option \<Rightarrow> (('k, 'z) x_state_scheme, int \<times> byte list) prog" where
  "read_pipe_speculative K t k b fd nbyte result =
     bnd (begin_speculation t k b result) (\<lambda>ok.
     if \<not> ok then finish result ENOMEM (- 1, [])
     else
       bnd (circ_get b id) (\<lambda>c.
       if speculative_primary_tail c \<noteq> speculative_primary_head c then
         bnd (circ_set b (\<lambda>c. c\<lparr>speculative_primary_head := speculative_primary_head c + nbyte\<rparr>)) (\<lambda>_.
         bnd (copy_out b (speculative_primary_head c) nbyte) (\<lambda>data.
         finish result 0 (sint nbyte, data)))
       else if speculative_secondary_tail c \<noteq> speculative_secondary_head c then
         bnd (circ_set b (\<lambda>c. c\<lparr>speculative_secondary_head := speculative_secondary_head c + nbyte\<rparr>)) (\<lambda>_.
         bnd (copy_out b (speculative_secondary_head c) nbyte) (\<lambda>data.
         finish result 0 (sint nbyte, data)))
       else
         (case find_space c nbyte of
            None \<Rightarrow> finish result ENOMEM (- 1, [])
          | Some space \<Rightarrow>
              bnd (fill_buffer K b space fd nbyte) (\<lambda>n.
              bnd (txc_stats_txstat_increment t x_read_pipe_stat 1) (\<lambda>_.
              bnd (copy_out b (snd space) nbyte) (\<lambda>data.
              finish result 0 (n, data)))))))"

definition txc_read_pipe ::
  "'k kernel \<Rightarrow> int \<Rightarrow> addr option \<Rightarrow> int \<Rightarrow> u32 \<Rightarrow> addr option \<Rightarrow> (('k, 'z) x_state_scheme, int \<times> byte list) prog" where
  "txc_read_pipe K ret0 speculative fd nbyte result =
     bnd (txc_koa_lock_fd fd) (\<lambda>_.
     bnd (txc_koa_lookup_fd2koa fd) (\<lambda>(xret, koa).
     if xret = TXC_R_FAILURE then
       bnd (txc_koa_unlock_fd fd) (\<lambda>_. finish result EBADF (- 1, []))
     else
       bnd (deref koa) (\<lambda>k.
       bnd (txc_koa_get_buffer k) (\<lambda>b.
       case speculative of
         None \<Rightarrow> read_pipe_direct K ret0 b fd nbyte result
       | Some t \<Rightarrow>
           bnd (txc_koa_get_sentinel k) (\<lambda>sn.
           bnd (txc_sentinel_tryacquire (Some t) (Some sn) TXC_SENTINEL_ACQUIREONRETRY) (\<lambda>xret.
           bnd (txc_koa_unlock_fd fd) (\<lambda>_.
           if xret = TXC_R_BUSYSENTINEL then txc_tx_abort_transaction t TXC_ABORTREASON_BUSYSENTINEL
           else read_pipe_speculative K t k b fd nbyte result)))))))"

definition x_read_pipe ::
  "'k kernel \<Rightarrow> int \<Rightarrow> int \<Rightarrow> u32 \<Rightarrow> addr option \<Rightarrow> (('k, 'z) x_state_scheme, int \<times> byte list) prog" where
  "x_read_pipe K ret0 fd nbyte result =
     with_xactstate
       (\<lambda>_. txc_read_pipe K ret0 None fd nbyte result)
       (\<lambda>t. txc_read_pipe K ret0 (Some t) fd nbyte result)"

section \<open>x_write_pipe\<close>

definition x_write_pipe_commit :: "'k kernel \<Rightarrow> int \<Rightarrow> byte list \<Rightarrow> (('k, 'z) x_state_scheme, int) prog" where
  "x_write_pipe_commit K fd buf = bnd (txc_libc_write K fd buf) (\<lambda>r. ret (err_of r))"

definition x_write_pipe :: "'k kernel \<Rightarrow> int \<Rightarrow> byte list \<Rightarrow> addr option \<Rightarrow> (('k, 'z) x_state_scheme, int) prog" where
  "x_write_pipe K fd buf result =
     with_xactstate
       (\<lambda>_. bnd (txc_libc_write K fd buf) (\<lambda>r. finish result (err_of r) (val_of r)))
       (\<lambda>t.
        bnd (fd_acquire t fd) (\<lambda>koa.
        if koa = None then finish result EBADF (- 1)
        else
          bnd (linear_malloc t 12) (\<lambda>args.
          if args = None then finish result ENOMEM (- 1)
          else
            bnd (linear_malloc t (of_nat (length buf))) (\<lambda>deferred_data.
            if deferred_data = None then
              bnd (linear_free t 12) (\<lambda>_. finish result ENOMEM (- 1))
            else
              bnd (txc_tx_register_commit_action t (Act_x_write_pipe_commit fd buf) result
                     TXC_TX_REGULAR_COMMIT_ACTION_ORDER) (\<lambda>_.
              bnd (txc_stats_txstat_increment t x_write_pipe_stat 1) (\<lambda>_.
              finish result 0 (sint (of_nat (length buf) :: u32))))))))"

section \<open>x_printf\<close>

text \<open>
  \<open>out\<close> is the formatted text, which \<^verbatim>\<open>vsprintf\<close> stores in an array of 512
  characters.  The counter is taken from the caller's descriptor without asking
  whether there is one.
\<close>

definition x_printf :: "'k kernel \<Rightarrow> byte list \<Rightarrow> (('k, 'z) x_state_scheme, int) prog" where
  "x_printf K out =
     bnd txc_tx_get_txd (\<lambda>txd.
     bnd (guard Undefined (length out < 512)) (\<lambda>_.
     bnd (x_write_pipe K 1 out None) (\<lambda>r.
     bnd (gets (\<lambda>s. statistics (runtime_settings s))) (\<lambda>stats.
     bnd (mwhen stats (bnd (deref txd) (\<lambda>t. txc_stats_txstat_increment t x_printf_stat 1))) (\<lambda>_.
     ret r)))))"

section \<open>x_socket\<close>

abbreviation (input) SOCK_STREAM :: int where "SOCK_STREAM \<equiv> 1"

abbreviation (input) SOCK_DGRAM :: int where "SOCK_DGRAM \<equiv> 2"

definition x_socket_undo :: "'k kernel \<Rightarrow> int \<Rightarrow> addr \<Rightarrow> (('k, 'z) x_state_scheme, int) prog" where
  "x_socket_undo K fd k =
     bnd (txc_koa_lock_fd fd) (\<lambda>_.
     bnd (txc_koa_detach_fd (Some k) fd False) (\<lambda>_.
     bnd (txc_libc_close K fd) (\<lambda>r.
     bnd (txc_koa_unlock_fd fd) (\<lambda>_.
     ret (err_of r)))))"

text \<open>\<open>koa_type0\<close> is the unassigned variable \<^verbatim>\<open>koa_type\<close>, used for other socket types.\<close>

definition x_socket ::
  "'k kernel \<Rightarrow> int \<Rightarrow> int \<Rightarrow> int \<Rightarrow> int \<Rightarrow> addr option \<Rightarrow> (('k, 'z) x_state_scheme, int) prog" where
  "x_socket K koa_type0 domain ty protocol result =
     (if ty = SOCK_STREAM then finish result EINVAL (- 1)
      else
        let kt = (if ty = SOCK_DGRAM then TXC_KOA_IS_SOCK_DGRAM else koa_type0) in
        with_xactstate
          (\<lambda>_.
           bnd (txc_libc_socket K domain ty protocol) (\<lambda>r.
           case r of
             Inl e \<Rightarrow> finish result e (- 1)
           | Inr fildes \<Rightarrow>
               bnd (txc_koa_create kt 0) (\<lambda>(_, k).
               bnd (txc_koa_lock_fd fildes) (\<lambda>_.
               bnd (txc_koa_attach_fd (Some k) fildes False) (\<lambda>_.
               bnd (txc_koa_unlock_fd fildes) (\<lambda>_.
               finish result 0 fildes))))))
          (\<lambda>t.
           bnd (txc_libc_socket K domain ty protocol) (\<lambda>r.
           case r of
             Inl e \<Rightarrow> finish result e (- 1)
           | Inr fildes \<Rightarrow>
               bnd (txc_koa_create kt 0) (\<lambda>(_, k).
               bnd (txc_koa_lock_fd fildes) (\<lambda>_.
               bnd (txc_koa_attach_fd (Some k) fildes False) (\<lambda>_.
               bnd (acquire_new t k) (\<lambda>_.
               bnd (linear_malloc_or_exit t 8) (\<lambda>_.
               bnd (txc_tx_register_undo_action t (Act_x_socket_undo fildes k) result
                      TXC_KOA_CREATE_UNDO_ACTION_ORDER) (\<lambda>_.
               bnd (txc_koa_unlock_fd fildes) (\<lambda>_.
               bnd (txc_stats_txstat_increment t x_socket_stat 1) (\<lambda>_.
               finish result 0 fildes)))))))))))"

end
