(* ===== verification/Xthread.thy ===== *)
theory Xthread
  imports Syscalls
begin

text \<open>
  The xCalls on threads and mutexes of the application: \<^verbatim>\<open>x_pthread_create\<close>,
  \<^verbatim>\<open>x_pthread_mutex_init\<close>, \<^verbatim>\<open>x_pthread_mutex_lock\<close> and \<^verbatim>\<open>x_pthread_mutex_unlock\<close>
  (\<^verbatim>\<open>src/src/xcalls\<close>).  A mutex locked in a transaction is released when it
  aborts, one unlocked in it is released when it commits; a thread created in it
  waits for the outcome before it runs its start function.
\<close>

section \<open>Mutexes\<close>

text \<open>
  Default mutexes of the pthread library: locking a held one blocks, trying to
  lock it reports \<^verbatim>\<open>EBUSY\<close>, and unlocking succeeds.
\<close>

definition set_mutex :: "addr \<Rightarrow> bool \<Rightarrow> (('k, 'z) x_state_scheme, unit) prog" where
  "set_mutex m b = modify (\<lambda>s. s\<lparr>app_mutex := (app_mutex s)(m := b)\<rparr>)"

definition pthread_mutex_lock :: "addr \<Rightarrow> (('k, 'z) x_state_scheme, int) prog" where
  "pthread_mutex_lock m =
     bnd (gets (\<lambda>s. app_mutex s m)) (\<lambda>held.
     bnd (guard Blocked (\<not> held)) (\<lambda>_.
     bnd (set_mutex m True) (\<lambda>_.
     ret 0)))"

definition pthread_mutex_trylock :: "addr \<Rightarrow> (('k, 'z) x_state_scheme, int) prog" where
  "pthread_mutex_trylock m =
     bnd (gets (\<lambda>s. app_mutex s m)) (\<lambda>held.
     if held then ret EBUSY else bnd (set_mutex m True) (\<lambda>_. ret 0))"

definition pthread_mutex_unlock :: "addr \<Rightarrow> (('k, 'z) x_state_scheme, int) prog" where
  "pthread_mutex_unlock m = bnd (set_mutex m False) (\<lambda>_. ret 0)"

definition x_pthread_mutex_lock_undo :: "addr \<Rightarrow> (('k, 'z) x_state_scheme, int) prog" where
  "x_pthread_mutex_lock_undo m = pthread_mutex_unlock m"

definition x_pthread_mutex_lock :: "addr \<Rightarrow> addr option \<Rightarrow> (('k, 'z) x_state_scheme, int) prog" where
  "x_pthread_mutex_lock m result =
     with_xactstate
       (\<lambda>_. bnd (pthread_mutex_lock m) (\<lambda>r. finish result r r))
       (\<lambda>t.
        bnd (linear_malloc_or_exit t 4) (\<lambda>_.
        bnd (pthread_mutex_trylock m) (\<lambda>r.
        if r \<noteq> 0 then txc_tx_abort_transaction t TXC_ABORTREASON_BUSYTXLOCK
        else
          bnd (txc_tx_register_undo_action t (Act_x_pthread_mutex_lock_undo m) result
                 TXC_TX_REGULAR_UNDO_ACTION_ORDER) (\<lambda>_.
          finish result 0 r))))"

definition x_pthread_mutex_unlock_commit :: "addr \<Rightarrow> (('k, 'z) x_state_scheme, int) prog" where
  "x_pthread_mutex_unlock_commit m = pthread_mutex_unlock m"

definition x_pthread_mutex_unlock :: "addr \<Rightarrow> addr option \<Rightarrow> (('k, 'z) x_state_scheme, int) prog" where
  "x_pthread_mutex_unlock m result =
     with_xactstate
       (\<lambda>_. bnd (pthread_mutex_unlock m) (\<lambda>r. finish result r r))
       (\<lambda>t.
        bnd (linear_malloc_or_exit t 4) (\<lambda>_.
        bnd (txc_tx_register_commit_action t (Act_x_pthread_mutex_unlock_commit m) result
               TXC_TX_REGULAR_COMMIT_ACTION_ORDER) (\<lambda>_.
        finish result 0 0)))"

text \<open>\<open>answer\<close> is what \<^verbatim>\<open>pthread_mutex_init\<close> returns.\<close>

definition x_pthread_mutex_init :: "int \<Rightarrow> addr \<Rightarrow> addr option \<Rightarrow> (('k, 'z) x_state_scheme, int) prog" where
  "x_pthread_mutex_init answer m result =
     with_xactstate
       (\<lambda>_. bnd (mwhen (answer = 0) (set_mutex m False)) (\<lambda>_. finish result answer answer))
       (\<lambda>_. bnd (mwhen (answer = 0) (set_mutex m False)) (\<lambda>_. finish result answer answer))"

section \<open>Threads\<close>

definition block_set :: "addr \<Rightarrow> (control_block \<Rightarrow> control_block) \<Rightarrow> (('k, 'z) x_state_scheme, unit) prog" where
  "block_set b f = modify (\<lambda>s. s\<lparr>control_blocks := (control_blocks s)(b := f (control_blocks s b))\<rparr>)"

definition x_pthread_create_commit :: "addr \<Rightarrow> (('k, 'z) x_state_scheme, int) prog" where
  "x_pthread_create_commit b = bnd (block_set b (\<lambda>c. c\<lparr>start_lock := False\<rparr>)) (\<lambda>_. ret 0)"

definition x_pthread_create_undo :: "addr \<Rightarrow> (('k, 'z) x_state_scheme, int) prog" where
  "x_pthread_create_undo b =
     bnd (block_set b (\<lambda>c. c\<lparr>start_routine := None\<rparr>)) (\<lambda>_.
     bnd (block_set b (\<lambda>c. c\<lparr>start_lock := False\<rparr>)) (\<lambda>_.
     ret 0))"

text \<open>
  What the new thread does: it waits for the lock and then runs the start
  function, unless the parent has cleared it.  \<open>started\<close> records the functions that
  are run.
\<close>

definition x_pthread_create_start_indirection :: "addr \<Rightarrow> (('k, 'z) x_state_scheme, unit) prog" where
  "x_pthread_create_start_indirection b =
     bnd (gets (\<lambda>s. start_arg (control_blocks s b))) (\<lambda>myarg.
     bnd (gets (\<lambda>s. start_lock (control_blocks s b))) (\<lambda>held.
     bnd (guard Blocked (\<not> held)) (\<lambda>_.
     bnd (block_set b (\<lambda>c. c\<lparr>start_lock := True\<rparr>)) (\<lambda>_.
     bnd (gets (\<lambda>s. start_routine (control_blocks s b))) (\<lambda>f.
     (case f of
        None \<Rightarrow> ret ()
      | Some g \<Rightarrow> modify (\<lambda>s. s\<lparr>started := started s @ [(g, myarg)]\<rparr>)))))))"

text \<open>
  \<open>answer\<close> is what \<^verbatim>\<open>pthread_create\<close> returns.  Inside a transaction it is not looked
  at.  The result is the return value and the control block of the thread that
  was started, if it goes through one.
\<close>

definition x_pthread_create ::
  "int \<Rightarrow> addr \<Rightarrow> addr \<Rightarrow> addr option \<Rightarrow> (('k, 'z) x_state_scheme, int \<times> addr option) prog" where
  "x_pthread_create answer start arg result =
     with_xactstate
       (\<lambda>_.
        bnd (mwhen (answer = 0) (modify (\<lambda>s. s\<lparr>started := started s @ [(start, arg)]\<rparr>))) (\<lambda>_.
        finish result answer (answer, None)))
       (\<lambda>t.
        bnd MALLOC (\<lambda>p.
        bnd (deref p) (\<lambda>b.
        bnd (block_set b (\<lambda>c. c\<lparr>start_arg := arg, start_routine := Some start, start_lock := False\<rparr>)) (\<lambda>_.
        bnd (block_set b (\<lambda>c. c\<lparr>start_lock := True\<rparr>)) (\<lambda>_.
        bnd (txc_tx_register_commit_action t (Act_x_pthread_create_commit b) result
               TXC_TX_REGULAR_COMMIT_ACTION_ORDER) (\<lambda>_.
        bnd (txc_tx_register_undo_action t (Act_x_pthread_create_undo b) result
               TXC_TX_REGULAR_UNDO_ACTION_ORDER) (\<lambda>_.
        finish result 0 (0, Some b))))))))"

end
