(* ===== verification/Xmsg.thy ===== *)
theory Xmsg
  imports Xpipe
begin

text \<open>
  The xCalls on messages: \<^verbatim>\<open>x_sendmsg\<close> and \<^verbatim>\<open>x_recvmsg\<close> (\<^verbatim>\<open>src/src/xcalls\<close>).  Sending
  is deferred: the header is copied to the linear buffer of the transaction and sent
  by the commit action.  What a transaction receives is kept in the circular buffer
  of the socket's KOA, each message behind a header of its own, so that it can be
  received again when the transaction aborts.
\<close>

section \<open>x_sendmsg\<close>

text \<open>\<^verbatim>\<open>memcpy\<close> inside the memory, and the assignment of a 32-bit field.\<close>

definition mem_copy :: "addr \<Rightarrow> addr \<Rightarrow> u32 \<Rightarrow> (('k, 'z) x_state_scheme, unit) prog" where
  "mem_copy dst src n = modify (\<lambda>s. s\<lparr>mem := store_at (mem s) dst (bytes_at (mem s) src (unat n))\<rparr>)"

definition mem_assign :: "addr \<Rightarrow> u32 \<Rightarrow> (('k, 'z) x_state_scheme, unit) prog" where
  "mem_assign a w = modify (\<lambda>s. s\<lparr>mem := store32 (mem s) a w\<rparr>)"

definition mem_load :: "addr \<Rightarrow> (('k, 'z) x_state_scheme, u32) prog" where
  "mem_load a = gets (\<lambda>s. load32 (mem s) a)"

text \<open>The argument block holds \<^verbatim>\<open>fd\<close>, \<^verbatim>\<open>flags\<close> and, at offset 8, the copy of the header.\<close>

definition x_sendmsg_commit :: "'k kernel \<Rightarrow> addr \<Rightarrow> (('k, 'z) x_state_scheme, int) prog" where
  "x_sendmsg_commit K args =
     bnd (mem_load args) (\<lambda>fd.
     bnd (mem_load (args + 4)) (\<lambda>flags.
     bnd (txc_libc_sendmsg K (sint fd) (args + 8) (sint flags)) (\<lambda>r.
     ret (err_of r))))"

text \<open>
  \<open>ret0\<close> is what the variable \<^verbatim>\<open>ret\<close> holds before it is assigned: inside a transaction
  it is returned as it is.  The scatter list is copied with the length
  \<^verbatim>\<open>msg_iovlen\<close>, which counts its elements.
\<close>

definition x_sendmsg :: "'k kernel \<Rightarrow> int \<Rightarrow> int \<Rightarrow> addr \<Rightarrow> int \<Rightarrow> addr option \<Rightarrow> (('k, 'z) x_state_scheme, int) prog" where
  "x_sendmsg K ret0 fd msg flags result =
     with_xactstate
       (\<lambda>_. bnd (txc_libc_sendmsg K fd msg flags) (\<lambda>r. finish result (err_of r) (val_of r)))
       (\<lambda>t.
        bnd (fd_acquire t fd) (\<lambda>koa.
        if koa = None then finish result EBADF (- 1)
        else
          bnd (linear_malloc t 36) (\<lambda>p.
          case p of
            None \<Rightarrow> finish result ENOMEM (- 1)
          | Some args \<Rightarrow>
              bnd (mem_copy (args + 8) msg 28) (\<lambda>_.
              bnd (mem_assign args (of_int fd)) (\<lambda>_.
              bnd (mem_assign (args + 4) (of_int flags)) (\<lambda>_.
              bnd (mem_load (msg + 12)) (\<lambda>iovlen.
              bnd (linear_malloc t iovlen) (\<lambda>p.
              bnd (mem_assign (args + 16) (case p of None \<Rightarrow> 0 | Some a \<Rightarrow> a)) (\<lambda>_.
              case p of
                None \<Rightarrow> bnd (linear_free t 36) (\<lambda>_. finish result ENOMEM (- 1))
              | Some iov \<Rightarrow>
                  bnd (mem_load (msg + 20)) (\<lambda>controllen.
                  bnd (linear_malloc t controllen) (\<lambda>p.
                  bnd (mem_assign (args + 24) (case p of None \<Rightarrow> 0 | Some a \<Rightarrow> a)) (\<lambda>_.
                  case p of
                    None \<Rightarrow>
                      bnd (mem_load (msg + 12)) (\<lambda>iovlen.
                      bnd (linear_free t iovlen) (\<lambda>_.
                      bnd (linear_free t 36) (\<lambda>_.
                      finish result ENOMEM (- 1))))
                  | Some control \<Rightarrow>
                      bnd (mem_load (msg + 8)) (\<lambda>from.
                      bnd (mem_load (msg + 12)) (\<lambda>iovlen.
                      bnd (mem_copy iov from iovlen) (\<lambda>_.
                      bnd (mem_load (msg + 16)) (\<lambda>from.
                      bnd (mem_load (msg + 20)) (\<lambda>controllen.
                      bnd (mem_copy control from controllen) (\<lambda>_.
                      bnd (txc_tx_register_commit_action t (Act_x_sendmsg_commit args) result
                             TXC_TX_REGULAR_COMMIT_ACTION_ORDER) (\<lambda>_.
                      bnd (txc_stats_txstat_increment t x_sendmsg_stat 1) (\<lambda>_.
                      finish result 0 ret0))))))))))))))))))))"

section \<open>x_recvmsg\<close>

abbreviation (input) TXC_DGRAM_MAX_SIZE :: u32 where "TXC_DGRAM_MAX_SIZE \<equiv> 65536"

abbreviation (input) TXC_CONTROLMSG_MAX_SIZE :: u32 where "TXC_CONTROLMSG_MAX_SIZE \<equiv> 2048"

abbreviation (input) sizeof_socket_msghdr :: nat where "sizeof_socket_msghdr \<equiv> 40"

text \<open>
  A message is stored behind a \<^verbatim>\<open>txc_socket_msghdr_t\<close>: the address (16 bytes), its
  length, a pointer to the data, their length, a pointer to the control data, their
  length, and the flags.  The pointers are computed by adding a number of bytes to a
  pointer to the header, which C scales by the size of the header.
\<close>

definition field :: "txc_buffer_circular \<Rightarrow> nat \<Rightarrow> u32" where
  "field c i = word_of_bytes (cb_data c i) (cb_data c (i + 1)) (cb_data c (i + 2)) (cb_data c (i + 3))"

definition set_field :: "nat \<Rightarrow> u32 \<Rightarrow> txc_buffer_circular \<Rightarrow> txc_buffer_circular" where
  "set_field i w c = c\<lparr>cb_data := store_bytes i (bytes_of_word w) (cb_data c)\<rparr>"

definition put_bytes :: "nat \<Rightarrow> byte list \<Rightarrow> txc_buffer_circular \<Rightarrow> txc_buffer_circular" where
  "put_bytes i bs c = c\<lparr>cb_data := store_bytes i bs (cb_data c)\<rparr>"

definition get_bytes :: "txc_buffer_circular \<Rightarrow> nat \<Rightarrow> nat \<Rightarrow> byte list" where
  "get_bytes c i n = map (cb_data c) [i..<i + n]"

text \<open>The offset in the buffer of what a pointer in the header points to.\<close>

definition offset_of :: "txc_buffer_circular \<Rightarrow> u32 \<Rightarrow> nat" where
  "offset_of c p = unat (p - cb_buf c)"

abbreviation (input) in_buffer :: "txc_buffer_circular \<Rightarrow> nat \<Rightarrow> nat \<Rightarrow> bool" where
  "in_buffer c i n \<equiv> i + n \<le> unat (cb_size_max c)"

definition data_shift :: u32 where
  "data_shift = 40 * 40"

definition control_shift :: u32 where
  "control_shift = (40 + TXC_DGRAM_MAX_SIZE) * 40"

definition x_recvmsg_undo :: "addr \<Rightarrow> ('z tx_state_scheme, int) prog" where
  "x_recvmsg_undo b = bnd (circ_set b (\<lambda>c. c\<lparr>cb_state := TXC_BUFFER_STATE_NON_SPECULATIVE\<rparr>)) (\<lambda>_. ret 0)"

definition x_recvmsg_commit :: "addr \<Rightarrow> ('z tx_state_scheme, int) prog" where
  "x_recvmsg_commit b =
     bnd (circ_set b (\<lambda>c. (commit_buffer c)\<lparr>cb_state := TXC_BUFFER_STATE_NON_SPECULATIVE\<rparr>)) (\<lambda>_. ret 0)"

text \<open>The number of bytes that a stored message takes.\<close>

definition message_size :: "txc_buffer_circular \<Rightarrow> u32 \<Rightarrow> u32" where
  "message_size c base = 40 + field c (unat base + 24) + field c (unat base + 32)"

text \<open>What the caller finds in its \<^verbatim>\<open>struct msghdr\<close> and the memory it points to.\<close>

record received =
  rcv_name :: "byte list"
  rcv_namelen :: u32
  rcv_iov :: "byte list list"
  rcv_control :: "byte list"
  rcv_flags :: u32

text \<open>
  The pieces of a region that go to the elements of the caller's scatter list: each is
  filled to its full length.
\<close>

fun pieces :: "txc_buffer_circular \<Rightarrow> nat \<Rightarrow> u32 list \<Rightarrow> byte list list" where
  "pieces c i [] = []"
| "pieces c i (n # lens) = get_bytes c i (unat n) # pieces c (i + unat n) lens"

text \<open>
  The final copy to the caller, of the message stored at \<open>base\<close>.  The result is the
  room in the scatter list, not the length of the message.
\<close>

definition readable :: "txc_buffer_circular \<Rightarrow> u32 \<Rightarrow> u32 list \<Rightarrow> bool" where
  "readable c base lens \<longleftrightarrow>
     (let h = unat base; k = unat (field c (h + 32)) in
      in_buffer c h sizeof_socket_msghdr \<and> in_buffer c (offset_of c (field c (h + 20))) (sum_list (map unat lens)) \<and>
      (k = 0 \<or> in_buffer c (offset_of c (field c (h + 28))) k))"

definition read_message :: "txc_buffer_circular \<Rightarrow> u32 \<Rightarrow> u32 list \<Rightarrow> int \<times> received" where
  "read_message c base lens =
     (let h = unat base in
      (sint (sum_list lens),
       \<lparr>rcv_name = get_bytes c h 16, rcv_namelen = field c (h + 16),
        rcv_iov = pieces c (offset_of c (field c (h + 20))) lens,
        rcv_control = get_bytes c (offset_of c (field c (h + 28))) (unat (field c (h + 32))),
        rcv_flags = field c (h + 36)\<rparr>))"

definition copy_message :: "addr \<Rightarrow> u32 \<Rightarrow> u32 list \<Rightarrow> ('z tx_state_scheme, int \<times> received) prog" where
  "copy_message b base lens =
     bnd (circ_get b id) (\<lambda>c.
     bnd (guard Undefined (readable c base lens)) (\<lambda>_.
     ret (read_message c base lens)))"

text \<open>The data that the kernel delivers straight to the caller fill its scatter list from the front.\<close>

fun scatter :: "u32 list \<Rightarrow> byte list \<Rightarrow> byte list list" where
  "scatter [] bs = []"
| "scatter (n # lens) bs = take (unat n) bs # scatter lens (drop (unat n) bs)"

definition recvmsg_direct ::
  "'k kernel \<Rightarrow> addr \<Rightarrow> int \<Rightarrow> u32 \<Rightarrow> u32 list \<Rightarrow> u32 \<Rightarrow> int \<Rightarrow> addr option \<Rightarrow>
   (('k, 'z) x_state_scheme, int \<times> received option) prog" where
  "recvmsg_direct K b fd namelen lens controllen flags result =
     bnd (txc_koa_unlock_fd fd) (\<lambda>_.
     bnd (circ_get b id) (\<lambda>c.
     if primary_tail c \<noteq> primary_head c then
       bnd (circ_set b (\<lambda>c. c\<lparr>primary_head := primary_head c + message_size c (primary_head c)\<rparr>)) (\<lambda>_.
       bnd (copy_message b (primary_head c) lens) (\<lambda>(r, msg).
       finish result 0 (r, Some msg)))
     else if secondary_tail c \<noteq> secondary_head c then
       bnd (circ_set b (\<lambda>c. c\<lparr>primary_tail := secondary_tail c,
              primary_head := secondary_head c + message_size c (secondary_head c), secondary_head := 0, secondary_tail := 0\<rparr>)) (\<lambda>_.
       bnd (copy_message b (secondary_head c) lens) (\<lambda>(r, msg).
       finish result 0 (r, Some msg)))
     else
       bnd (txc_libc_recvmsg K fd namelen lens controllen flags) (\<lambda>r.
       bnd (gets errno) (\<lambda>e.
       finish result e (case r of
           Inl _ \<Rightarrow> (- 1, None)
         | Inr d \<Rightarrow> (int (length (d_data d)),
             Some \<lparr>rcv_name = take (unat namelen) (d_name d), rcv_namelen = of_nat (length (d_name d)),
                   rcv_iov = scatter lens (d_data d), rcv_control = d_control d, rcv_flags = d_flags d\<rparr>))))))"

text \<open>
  Bringing a message from the kernel to offset \<open>snd space\<close>.  The header is completed
  only when data arrived; whether or not it was, the caller's copy is made from it.
  In the end the control data are copied behind the data.
\<close>

definition place_datagram :: "nat \<Rightarrow> datagram \<Rightarrow> txc_buffer_circular \<Rightarrow> txc_buffer_circular" where
  "place_datagram h d c =
     put_bytes (h + unat control_shift) (d_control d) (put_bytes (h + unat data_shift) (d_data d) (put_bytes h (take 16 (d_name d)) c))"

definition complete_header :: "nat \<Rightarrow> datagram \<Rightarrow> txc_buffer_circular \<Rightarrow> txc_buffer_circular" where
  "complete_header h d c =
     set_field (h + 36) (d_flags d) (set_field (h + 32) (of_nat (length (d_control d)))
       (set_field (h + 16) (of_nat (length (d_name d))) (set_field (h + 24) (of_nat (length (d_data d))) c)))"

definition fill_message :: "'k kernel \<Rightarrow> addr \<Rightarrow> bool \<times> u32 \<Rightarrow> int \<Rightarrow> int \<Rightarrow> (('k, 'z) x_state_scheme, unit) prog" where
  "fill_message K b space fd flags =
     bnd (circ_get b id) (\<lambda>c.
     let h = unat (snd space) in
     bnd (guard Undefined (in_buffer c h sizeof_socket_msghdr)) (\<lambda>_.
     bnd (circ_set b (\<lambda>c. set_field (h + 28) (cb_buf c + snd space + control_shift)
            (set_field (h + 20) (cb_buf c + snd space + data_shift) c))) (\<lambda>_.
     bnd (txc_libc_recvmsg K fd 16 [TXC_DGRAM_MAX_SIZE] TXC_CONTROLMSG_MAX_SIZE flags) (\<lambda>r.
     case r of
       Inl _ \<Rightarrow> ret ()
     | Inr d \<Rightarrow>
         bnd (guard Undefined (in_buffer c (h + unat data_shift) (length (d_data d)) \<and>
                (d_control d = [] \<or> in_buffer c (h + unat control_shift) (length (d_control d))))) (\<lambda>_.
         bnd (circ_set b (place_datagram h d)) (\<lambda>_.
         mwhen (d_data d \<noteq> [])
           (bnd (circ_set b (complete_header h d)) (\<lambda>_.
            bnd (circ_set b (\<lambda>c. if fst space then c\<lparr>primary_tail := primary_tail c + message_size c (snd space)\<rparr>
                   else c\<lparr>secondary_tail := secondary_tail c + message_size c (snd space)\<rparr>)) (\<lambda>_.
            mwhen (d_control d \<noteq> [])
              (bnd (guard Undefined (in_buffer c (h + unat data_shift + length (d_data d)) (length (d_control d)))) (\<lambda>_.
               circ_set b (\<lambda>c. put_bytes (h + unat data_shift + length (d_data d))
                 (get_bytes c (h + unat control_shift) (length (d_control d))) c))))))))))))"

text \<open>
  \<open>len0\<close> is what the variable \<^verbatim>\<open>len\<close> holds before it is assigned: the branch that takes
  a message from the secondary part of the buffer adds it to the head.
\<close>

definition recvmsg_speculative ::
  "'k kernel \<Rightarrow> u32 \<Rightarrow> addr \<Rightarrow> addr \<Rightarrow> addr \<Rightarrow> int \<Rightarrow> u32 list \<Rightarrow> int \<Rightarrow> addr option \<Rightarrow>
   (('k, 'z) x_state_scheme, int \<times> received option) prog" where
  "recvmsg_speculative K len0 t k b fd lens flags result =
     bnd (speculate t b (Act_x_recvmsg_commit k b) (Act_x_recvmsg_undo k b) result) (\<lambda>ok.
     if \<not> ok then finish result ENOMEM (- 1, None)
     else
       bnd (circ_get b id) (\<lambda>c.
       let give = (\<lambda>base.
         bnd (txc_stats_txstat_increment t x_recvmsg_stat 1) (\<lambda>_.
         bnd (copy_message b base lens) (\<lambda>(r, msg).
         finish result 0 (r, Some msg))))
       in
       if speculative_primary_tail c \<noteq> speculative_primary_head c then
         bnd (circ_set b (\<lambda>c. c\<lparr>speculative_primary_head := speculative_primary_head c +
                message_size c (speculative_primary_head c)\<rparr>)) (\<lambda>_.
         give (speculative_primary_head c))
       else if speculative_secondary_tail c \<noteq> speculative_secondary_head c then
         bnd (circ_set b (\<lambda>c. c\<lparr>speculative_secondary_head := speculative_secondary_head c + len0\<rparr>)) (\<lambda>_.
         give (speculative_secondary_head c))
       else
         (case find_space c (40 + TXC_DGRAM_MAX_SIZE + TXC_CONTROLMSG_MAX_SIZE) of
            None \<Rightarrow> finish result ENOMEM (- 1, None)
          | Some space \<Rightarrow>
              bnd (fill_message K b space fd flags) (\<lambda>_.
              give (snd space)))))"

definition txc_recvmsg ::
  "'k kernel \<Rightarrow> u32 \<Rightarrow> addr option \<Rightarrow> int \<Rightarrow> u32 \<Rightarrow> u32 list \<Rightarrow> u32 \<Rightarrow> int \<Rightarrow> addr option \<Rightarrow>
   (('k, 'z) x_state_scheme, int \<times> received option) prog" where
  "txc_recvmsg K len0 speculative fd namelen lens controllen flags result =
     bnd (txc_koa_lock_fd fd) (\<lambda>_.
     bnd (txc_koa_lookup_fd2koa fd) (\<lambda>(xret, koa).
     if xret = TXC_R_FAILURE then
       bnd (txc_koa_unlock_fd fd) (\<lambda>_. finish result EBADF (- 1, None))
     else
       bnd (deref koa) (\<lambda>k.
       bnd (txc_koa_get_buffer k) (\<lambda>b.
       case speculative of
         None \<Rightarrow> recvmsg_direct K b fd namelen lens controllen flags result
       | Some t \<Rightarrow>
           bnd (txc_koa_get_sentinel k) (\<lambda>sn.
           bnd (txc_sentinel_tryacquire (Some t) (Some sn) TXC_SENTINEL_ACQUIREONRETRY) (\<lambda>xret.
           bnd (txc_koa_unlock_fd fd) (\<lambda>_.
           if xret = TXC_R_BUSYSENTINEL then txc_tx_abort_transaction t TXC_ABORTREASON_BUSYSENTINEL
           else recvmsg_speculative K len0 t k b fd lens flags result)))))))"

definition x_recvmsg ::
  "'k kernel \<Rightarrow> u32 \<Rightarrow> int \<Rightarrow> u32 \<Rightarrow> u32 list \<Rightarrow> u32 \<Rightarrow> int \<Rightarrow> addr option \<Rightarrow>
   (('k, 'z) x_state_scheme, int \<times> received option) prog" where
  "x_recvmsg K len0 fd namelen lens controllen flags result =
     with_xactstate
       (\<lambda>_. txc_recvmsg K len0 None fd namelen lens controllen flags result)
       (\<lambda>t. txc_recvmsg K len0 (Some t) fd namelen lens controllen flags result)"

end
