(* ===== verification/Frames.thy ===== *)
theory Frames
  imports Xfile Xdir Xpipe Xthread Xmsg
begin

text \<open>
  What the operations of the library leave alone.  A program stays \<^emph>\<open>within\<close> a
  relation when the states before and after it are related, whether it returns or
  faults; the rules for the combinators are proved once for every preorder.  A
  program is \<^emph>\<open>quiet\<close> when it changes neither the kernel nor the application's
  mutexes and threads, nor the action lists of any descriptor: the operations of
  the sentinel manager, the KOA manager, the statistics and the buffers are quiet.
  The locales at the end carry this over to every preorder that quiet steps
  respect, which is how the properties of whole transactions use it.
\<close>

section \<open>Programs within a relation\<close>

definition within :: "('s \<Rightarrow> 's \<Rightarrow> bool) \<Rightarrow> ('s, 'a) prog \<Rightarrow> bool" where
  "within R m \<longleftrightarrow> (\<forall>s. wp m (\<lambda>_. R s) (\<lambda>_. R s) s)"

lemma withinD: "within R m \<Longrightarrow> wp m (\<lambda>_. R s) (\<lambda>_. R s) s"
  by (simp add: within_def)

lemma within_mono: "within R m \<Longrightarrow> (\<And>s s'. R s s' \<Longrightarrow> R' s s') \<Longrightarrow> within R' m"
  unfolding within_def by (blast intro: wp_mono)

locale frame =
  fixes R :: "'s \<Rightarrow> 's \<Rightarrow> bool"
  assumes refl: "R s s"
    and trans: "R s s' \<Longrightarrow> R s' s'' \<Longrightarrow> R s s''"
begin

lemma wp_within:
  assumes "within R m" "R s0 s" "\<And>a s'. R s0 s' \<Longrightarrow> Q a s'" "\<And>e s'. R s0 s' \<Longrightarrow> E e s'"
  shows "wp m Q E s"
  by (rule wp_mono [OF withinD [OF assms(1)]]) (use assms trans in blast)+

lemma within_ret: "within R (ret a)"
  by (simp add: within_def refl)

lemma within_throw: "within R (throw e)"
  by (simp add: within_def refl)

lemma within_gets: "within R (gets g)"
  by (simp add: within_def refl)

lemma within_guard: "within R (guard e b)"
  by (simp add: within_def refl)

lemma within_mwhen: "within R m \<Longrightarrow> within R (mwhen b m)"
  by (simp add: within_def refl)

lemma within_bnd: "within R m \<Longrightarrow> (\<And>a. within R (f a)) \<Longrightarrow> within R (bnd m f)"
  unfolding within_def wp_bnd by (blast intro: wp_mono wp_within [unfolded within_def])

lemma within_if: "within R m \<Longrightarrow> within R m' \<Longrightarrow> within R (if b then m else m')"
  by simp

lemma within_option:
  "within R m \<Longrightarrow> (\<And>a. within R (f a)) \<Longrightarrow> within R (case p of None \<Rightarrow> m | Some a \<Rightarrow> f a)"
  by (cases p) simp_all

lemma within_sum:
  "(\<And>a. within R (f a)) \<Longrightarrow> (\<And>b. within R (g b)) \<Longrightarrow> within R (case p of Inl a \<Rightarrow> f a | Inr b \<Rightarrow> g b)"
  by (cases p) simp_all

lemma within_prod: "(\<And>a b. within R (f a b)) \<Longrightarrow> within R (case p of (a, b) \<Rightarrow> f a b)"
  by (cases p) simp

lemma within_deref: "within R (deref p)"
  by (cases p) (simp_all add: deref_def within_ret within_throw)

lemma within_modify: "(\<And>s. R s (f s)) \<Longrightarrow> within R (modify f)"
  by (simp add: within_def)

lemma within_zoom: "(\<And>x s. R s (put x s)) \<Longrightarrow> within R (zoom get put m)"
  by (simp add: within_def wp_def zoom_def split: outcome.split)

lemma within_lock: "(\<And>s. R s (u True s)) \<Longrightarrow> within R (txc_mutex_lock g u)"
  by (simp add: within_def refl)

lemma within_unlock: "(\<And>s. R s (u False s)) \<Longrightarrow> within R (txc_mutex_unlock u)"
  by (simp add: within_def)

lemma within_for_each: "(\<And>x. within R (f x)) \<Longrightarrow> within R (for_each xs f)"
  by (induction xs) (simp_all add: within_ret within_bnd)

lemmas within_rules = within_ret within_throw within_gets within_guard within_mwhen within_bnd within_if
  within_option within_sum within_prod within_deref within_for_each

end

section \<open>Quiet programs\<close>

definition core :: "txc_tx \<Rightarrow> u32 \<times> txc_tx_action_list \<times> txc_tx_action_list" where
  "core d = (itm_td d, commit_action_list d, undo_action_list d)"

definition outside :: "('k, 'z) x_state_scheme \<Rightarrow>
    ('k \<times> (addr \<Rightarrow> bool) \<times> (addr \<Rightarrow> control_block) \<times> (addr \<times> addr) list) \<times>
    addr option \<times> (u32 \<Rightarrow> itm_howExecuting) \<times> (nat \<Rightarrow> bool) \<times>
    (addr \<Rightarrow> u32 \<times> txc_tx_action_list \<times> txc_tx_action_list)" where
  "outside s = ((kern s, app_mutex s, control_blocks s, started s),
     l_txd s, itm_mode s, realloc_ok s, (\<lambda>a. core (txds s a)))"

definition silent :: "('k, 'z) x_state_scheme \<Rightarrow> ('k, 'z) x_state_scheme \<Rightarrow> bool" where
  "silent s s' \<longleftrightarrow> outside s' = outside s"

abbreviation quiet :: "(('k, 'z) x_state_scheme, 'a) prog \<Rightarrow> bool" where
  "quiet \<equiv> within silent"

interpretation quiet_frame: frame silent
  by unfold_locales (simp_all add: silent_def)

named_theorems quiet_intros \<open>programs that are quiet\<close>

lemmas quiet_combinators [quiet_intros] = quiet_frame.within_rules

lemma core_simps [simp]:
  "core (d\<lparr>sentinel_list := x\<rparr>) = core d" "core (d\<lparr>sentinel_list_preacquire := x\<rparr>) = core d"
  "core (d\<lparr>sentinelmgr_undo_action_registered := b\<rparr>) = core d"
  "core (d\<lparr>sentinelmgr_commit_action_registered := b\<rparr>) = core d"
  "core (d\<lparr>generic_undo_action_registered := b\<rparr>) = core d"
  "core (d\<lparr>generic_commit_action_registered := b\<rparr>) = core d"
  "core (d\<lparr>abort_reason := r\<rparr>) = core d" "core (d\<lparr>forced_retries := n\<rparr>) = core d"
  by (simp_all add: core_def)

lemma quiet_txd_set [quiet_intros]: "(\<And>d. core (f d) = core d) \<Longrightarrow> quiet (txd_set t f)"
  unfolding txd_set_def by (rule quiet_frame.within_modify) (auto simp: silent_def outside_def)

lemma quiet_txd_get [quiet_intros]: "quiet (txd_get t f)"
  by (simp add: txd_get_def quiet_intros)

lemma quiet_on_bufmgr [quiet_intros]: "quiet (on_bufmgr m)"
  unfolding on_bufmgr_def by (rule quiet_frame.within_zoom) (simp add: silent_def outside_def)

lemma quiet_store_int [quiet_intros]: "quiet (store_int p v)"
  unfolding store_int_def
  by (intro quiet_intros quiet_frame.within_modify) (simp add: silent_def outside_def)

lemma quiet_realloc_answer [quiet_intros]: "quiet realloc_answer"
  unfolding realloc_answer_def
  by (intro quiet_intros quiet_frame.within_modify) (simp add: silent_def outside_def)

lemma quiet_finish [quiet_intros]: "quiet (finish result e r)"
  by (simp add: finish_def quiet_intros)

lemma quiet_generic_undo [quiet_intros]: "quiet (tmsystem_register_generic_undo_action t)"
  unfolding tmsystem_register_generic_undo_action_def
  by (intro quiet_intros quiet_frame.within_modify) (simp_all add: silent_def outside_def)

lemma quiet_generic_commit [quiet_intros]: "quiet (tmsystem_register_generic_commit_action t)"
  unfolding tmsystem_register_generic_commit_action_def
  by (intro quiet_intros quiet_frame.within_modify) (simp_all add: silent_def outside_def)

lemma quiet_abort [quiet_intros]: "quiet (txc_tx_abort_transaction t r)"
  unfolding txc_tx_abort_transaction_def tmsystem_abort_transaction_def
  by (intro quiet_intros) simp

lemma quiet_get_xactstate [quiet_intros]: "quiet (txc_tx_get_xactstate p)"
  unfolding txc_tx_get_xactstate_def tmsystem_get_xactstate_def
  by (intro quiet_intros) (simp split: itm_howExecuting.split add: quiet_intros)

section \<open>Sentinels\<close>

lemma quiet_sn_set [quiet_intros]: "quiet (sn_set a f)"
  unfolding sn_set_def by (rule quiet_frame.within_modify) (simp add: silent_def outside_def)

lemma quiet_sn_get [quiet_intros]: "quiet (sn_get a f)"
  by (simp add: sn_get_def quiet_intros)

lemma quiet_on_pool_sentinel [quiet_intros]: "quiet (on_pool_sentinel m)"
  unfolding on_pool_sentinel_def by (rule quiet_frame.within_zoom) (simp add: silent_def outside_def)

lemma quiet_sentinel_ops [quiet_intros]:
  "quiet (lock_synch a)" "quiet (unlock_synch a)" "quiet (lock_sentinel a)" "quiet (unlock_sentinel a)"
  "quiet (trylock_sentinel a)" "quiet (sentinel_attach a)" "quiet (sentinel_destroy a)"
  unfolding lock_synch_def unlock_synch_def lock_sentinel_def unlock_sentinel_def trylock_sentinel_def
    sentinel_attach_def sentinel_destroy_def
  by (intro quiet_intros)+

lemma quiet_sentinel_detach [quiet_intros]: "quiet (sentinel_detach a)" "quiet (txc_sentinel_detach a)"
  unfolding sentinel_detach_def txc_sentinel_detach_def by (intro quiet_intros)+

lemma quiet_enlist [quiet_intros]: "quiet (enlist_sentinel la a st)"
  unfolding enlist_sentinel_def allocate_sentinel_list_entries_def Let_def by (intro quiet_intros)

lemma quiet_enlist_lists [quiet_intros]: "quiet (enlist_main t a st)" "quiet (enlist_preacquire t a st)"
  unfolding enlist_main_def enlist_preacquire_def by (intro quiet_intros; simp)+

lemma quiet_spin [quiet_intros]: "quiet (spin_trylock n a)"
  by (induction n) (simp_all add: quiet_intros)

lemma quiet_list_release [quiet_intros]: "quiet (sentinel_list_release es b)"
  unfolding sentinel_list_release_def release_entry_def by (intro quiet_intros)

lemma quiet_list_acquire [quiet_intros]: "quiet (sentinel_list_acquire t es)"
  unfolding sentinel_list_acquire_def acquire_entry_def by (intro quiet_intros)

lemma quiet_list_sort [quiet_intros]: "quiet (sentinel_list_sort t)"
  unfolding sentinel_list_sort_def
  by (rule quiet_frame.within_modify) (auto simp: silent_def outside_def)

lemma quiet_on_complete [quiet_intros]: "quiet (sentinelmgr_transaction_on_complete t)"
  unfolding sentinelmgr_transaction_on_complete_def by (intro quiet_intros) simp_all

lemma quiet_backoff [quiet_intros]: "quiet (backoff t)"
  unfolding backoff_def txc_tx_get_forced_retries_def by (intro quiet_intros)

lemma quiet_before_retry [quiet_intros]: "quiet (sentinelmgr_transaction_before_retry t)"
  unfolding sentinelmgr_transaction_before_retry_def before_retry_release_def collect_preacquire_def
  by (intro quiet_intros) simp_all

lemma quiet_sentinelmgr [quiet_intros]: "quiet (sentinelmgr_commit_action t)" "quiet (sentinelmgr_undo_action t)"
  unfolding sentinelmgr_commit_action_def sentinelmgr_undo_action_def
  by (intro quiet_intros, (simp add: quiet_intros split: txc_tx_abortreason_t.split)?)+

section \<open>Statistics\<close>

lemma quiet_stats_set [quiet_intros]: "quiet (ts_set a f)" "quiet (th_set a g)"
  unfolding ts_set_def th_set_def
  by (rule quiet_frame.within_modify, simp add: silent_def outside_def)+

lemma quiet_MALLOC [quiet_intros]: "quiet MALLOC"
  unfolding MALLOC_def by (intro quiet_intros quiet_frame.within_modify) (simp add: silent_def outside_def)

lemma quiet_on_table [quiet_intros]: "quiet (on_table r m)"
  unfolding within_def wp_def on_table_def
  by (cases r) (simp_all add: silent_def outside_def split: option.split outcome.split)

lemma quiet_stats_container [quiet_intros]: "quiet (stats_get_txstat_container r a)"
  unfolding stats_get_txstat_container_def stats_txstat_reset_def by (intro quiet_intros)

lemma quiet_statsmgr [quiet_intros]: "quiet (statsmgr_commit_action t)" "quiet (statsmgr_undo_action t)"
  unfolding statsmgr_commit_action_def statsmgr_undo_action_def stats_txstat_reset_def
  by (intro quiet_intros)+

lemma quiet_increment [quiet_intros]: "quiet (txc_stats_txstat_increment t st n)"
  unfolding txc_stats_txstat_increment_def txc_stats_txstat_get_def txc_stats_txstat_set_def
  by (intro quiet_intros)

section \<open>Kernel object abstractions\<close>

lemma quiet_koa_set [quiet_intros]: "quiet (koa_set k f)"
  unfolding koa_set_def by (rule quiet_frame.within_modify) (simp add: silent_def outside_def)

lemma quiet_koa_get [quiet_intros]: "quiet (koa_get k f)"
  by (simp add: koa_get_def quiet_intros)

lemma quiet_koa_parts [quiet_intros]: "quiet (on_pool_koa m)" "quiet (on_alias_cache m')"
  unfolding on_pool_koa_def on_alias_cache_def
  by (rule quiet_frame.within_zoom, simp add: silent_def outside_def)+

lemma quiet_map_lock [quiet_intros]: "quiet (map_lock fd)" "quiet (map_unlock fd)" "quiet (map_bounds fd)"
  unfolding map_lock_def map_unlock_def map_bounds_def
  by (intro quiet_intros quiet_frame.within_lock quiet_frame.within_unlock;
      (simp add: silent_def outside_def)?)+

lemma quiet_alias_lock [quiet_intros]: "quiet lock_alias" "quiet unlock_alias"
  unfolding lock_alias_def unlock_alias_def txc_koa_lock_alias_cache_def txc_koa_unlock_alias_cache_def
  by (intro quiet_intros quiet_frame.within_lock quiet_frame.within_unlock;
      simp add: silent_def outside_def)+

lemma quiet_koa_destroy [quiet_intros]: "quiet (txc_koa_destroy k)"
  unfolding txc_koa_destroy_def by (intro quiet_intros)

lemma quiet_koa_refs [quiet_intros]: "quiet (koa_ref k)" "quiet (koa_unref k)"
  unfolding koa_ref_def koa_unref_def alias_cache_insert_def alias_cache_remove_def
  by (intro quiet_intros)+

lemma quiet_map_koa [quiet_intros]: "quiet (modify (\<lambda>s. s\<lparr>map_koa := f (map_koa s)\<rparr>))"
  by (rule quiet_frame.within_modify) (simp add: silent_def outside_def)

lemma quiet_koa_fds [quiet_intros]: "quiet (txc_koa_attach_fd p fd b)" "quiet (txc_koa_detach_fd p fd b)"
  unfolding txc_koa_attach_fd_def txc_koa_detach_fd_def by (intro quiet_intros)+

lemma quiet_koa_mutex [quiet_intros]:
  "quiet (txc_mutex_lock g (\<lambda>b s. s\<lparr>koas := (koas s)(k := (koas s k)\<lparr>koa_mutex := b\<rparr>)\<rparr>))"
  "quiet (txc_mutex_unlock (\<lambda>b s. s\<lparr>koas := (koas s)(k := (koas s k)\<lparr>koa_mutex := b\<rparr>)\<rparr>))"
  by (rule quiet_frame.within_lock quiet_frame.within_unlock, simp add: silent_def outside_def)+

lemma quiet_koa_attach [quiet_intros]: "quiet (txc_koa_attach p)" "quiet (txc_koa_detach p)"
  unfolding txc_koa_attach_def txc_koa_detach_def by (intro quiet_intros)+

lemma quiet_fd_ops [quiet_intros]:
  "quiet (txc_koa_lookup_fd2koa fd)" "quiet (txc_koa_lock_fd fd)" "quiet (txc_koa_unlock_fd fd)"
  "quiet (txc_koa_lock_fds_refby_koa k)" "quiet (txc_koa_unlock_fds_refby_koa k)" "quiet (txc_koa_get_sentinel k)"
  unfolding txc_koa_lookup_fd2koa_def txc_koa_lock_fd_def txc_koa_unlock_fd_def txc_koa_lock_fds_refby_koa_def
    txc_koa_unlock_fds_refby_koa_def txc_koa_get_sentinel_def
  by (intro quiet_intros)+

section \<open>Steps of the xCalls\<close>

lemma quiet_linear [quiet_intros]: "quiet (linear_malloc t n)" "quiet (linear_free t n)" "quiet (linear_malloc_or_exit t n)"
  unfolding linear_malloc_def linear_free_def linear_malloc_or_exit_def by (intro quiet_intros)+

lemma quiet_xdir_steps [quiet_intros]: "quiet (lock_fds_opt p)" "quiet (unlock_fds_opt p)" "quiet (detach_opt p)"
  unfolding lock_fds_opt_def unlock_fds_opt_def detach_opt_def by (intro quiet_intros)+

lemma quiet_pairs [quiet_intros]: "quiet (lock_pair fds)" "quiet (unlock_pair fds)"
  unfolding lock_pair_def unlock_pair_def Let_def by (intro quiet_intros)+

lemma quiet_circ [quiet_intros]: "quiet (circ_get b f)" "quiet (circ_set b g)"
  unfolding circ_get_def circ_set_def
  by (intro quiet_intros quiet_frame.within_modify; (simp add: silent_def outside_def)?)+

lemma quiet_mem [quiet_intros]: "quiet (mem_copy dst src n)" "quiet (mem_assign a w)" "quiet (mem_load a)"
  unfolding mem_copy_def mem_assign_def mem_load_def
  by (intro quiet_intros quiet_frame.within_modify; (simp add: silent_def outside_def)?)+

section \<open>Frames for transactions\<close>

text \<open>A preorder that quiet steps respect.\<close>

locale library_frame = frame R for R :: "('k, 'z) x_state_scheme \<Rightarrow> ('k, 'z) x_state_scheme \<Rightarrow> bool" +
  assumes silent_le: "silent s s' \<Longrightarrow> R s s'"
begin

lemma within_quiet: "quiet m \<Longrightarrow> within R m"
  by (erule within_mono) (rule silent_le)

lemma wp_quiet:
  assumes "quiet m" "\<And>a s'. silent s s' \<Longrightarrow> R s s' \<Longrightarrow> Q a s'" "\<And>e s'. R s s' \<Longrightarrow> E e s'"
  shows "wp m Q E s"
  by (rule wp_mono [OF withinD [OF assms(1)]]) (use assms silent_le in blast)+

end

text \<open>One that also allows the kernel and the application's objects to change.\<close>

locale kernel_frame = library_frame R for R :: "('k, 'z) x_state_scheme \<Rightarrow> ('k, 'z) x_state_scheme \<Rightarrow> bool" +
  assumes kern_le: "R s (s\<lparr>errno := e, kern := k\<rparr>)"
    and app_mutex_le: "R s (s\<lparr>app_mutex := m\<rparr>)"
    and control_blocks_le: "R s (s\<lparr>control_blocks := c\<rparr>)"
begin

lemma within_libc: "within R (libc_call f)"
  by (simp add: within_def kern_le split: prod.split)

lemma within_set_mutex: "within R (set_mutex m b)"
  unfolding set_mutex_def by (rule within_modify) (rule app_mutex_le)

lemma within_block_set: "within R (block_set b f)"
  unfolding block_set_def by (rule within_modify) (rule control_blocks_le)

end

text \<open>One that allows the descriptor \<open>t\<close> to register the actions of the sentinel manager.\<close>

locale acquiring_frame = library_frame R for R :: "('k, 'z) x_state_scheme \<Rightarrow> ('k, 'z) x_state_scheme \<Rightarrow> bool" +
  fixes t :: addr
  assumes register_undo: "within R (txc_tx_register_undo_action t (Act_sentinelmgr_undo t) None TXC_SENTINELMGR_UNDO_ACTION_ORDER)"
    and register_commit: "within R (txc_tx_register_commit_action t (Act_sentinelmgr_commit t) None TXC_SENTINELMGR_COMMIT_ACTION_ORDER)"
begin

lemma within_txd_set: "(\<And>d. core (f d) = core d) \<Longrightarrow> within R (txd_set a f)"
  by (intro within_quiet quiet_intros)

lemma within_acquire: "within R (sentinel_acquire_retryable t a flags)"
  unfolding sentinel_acquire_retryable_def register_sentinelmgr_undo_action_def register_sentinelmgr_commit_action_def
  by (intro within_rules register_undo register_commit within_txd_set within_quiet quiet_intros; simp)

lemma within_tryacquire: "within R (txc_sentinel_tryacquire (Some t) p flags)"
proof -
  have st: "within R (case st of TXC_XACTSTATE_NONTRANSACTIONAL \<Rightarrow> throw Exit1
      | TXC_XACTSTATE_TRANSACTIONAL_IRREVOCABLE \<Rightarrow> ret TXC_R_SUCCESS
      | TXC_XACTSTATE_TRANSACTIONAL_RETRYABLE \<Rightarrow> sentinel_acquire_retryable t a flags)" for st a
    by (cases st) (simp_all add: within_rules within_acquire)
  show ?thesis
    unfolding txc_sentinel_tryacquire_def txc_sentinel_is_enlisted_def
    by (cases p; simp; (intro within_bnd within_if st)?; intro within_quiet quiet_intros)
qed

lemma within_fd_acquire: "within R (fd_acquire t fd)"
  unfolding fd_acquire_def by (intro within_rules within_tryacquire within_quiet quiet_intros)

end

end
