(* ===== verification/Xactions.thy ===== *)
theory Xactions
  imports Frames
begin

text \<open>
  The actions that transactions register, run for real: \<open>exec_action\<close> maps every
  constructor of the datatype of actions to the function of the library it stands
  for.  The functions leave the action lists alone, which is what the loops of
  \<^verbatim>\<open>tx_generic_undo_action\<close> and \<^verbatim>\<open>tx_generic_commit_action\<close> rely on: the locale of
  those loops is interpreted here.
\<close>

section \<open>Running an action\<close>

text \<open>A commit or undo function that the application registered, with the error it reports.\<close>

definition user_action :: "'k kernel \<Rightarrow> addr \<Rightarrow> addr \<Rightarrow> (('k, 'z) x_state_scheme, int) prog" where
  "user_action K f args = (\<lambda>s. case sys_user K f args (kern s) of (e, k) \<Rightarrow> Ok e (s\<lparr>kern := k\<rparr>))"

fun exec_action :: "'k kernel \<Rightarrow> action \<Rightarrow> (('k, 'z) x_state_scheme, int) prog" where
  "exec_action K (Act_sentinelmgr_commit t) = sentinelmgr_commit_action t"
| "exec_action K (Act_sentinelmgr_undo t) = sentinelmgr_undo_action t"
| "exec_action K (Act_statsmgr_commit t) = statsmgr_commit_action t"
| "exec_action K (Act_statsmgr_undo t) = statsmgr_undo_action t"
| "exec_action K (Act_x_open_undo fd k) = x_open_undo K fd k"
| "exec_action K (Act_x_close_commit fd k) = x_close_commit K fd k"
| "exec_action K (Act_x_dup_undo fd k) = x_dup_undo K fd k"
| "exec_action K (Act_x_lseek_undo fd pos) = x_lseek_undo K fd pos"
| "exec_action K (Act_x_read_undo fd n) = x_read_undo K fd n"
| "exec_action K (Act_x_write_seq_undo fd n) = x_write_seq_undo K fd n"
| "exec_action K (Act_x_write_ovr_undo fd buf n) = x_write_ovr_undo K fd buf n"
| "exec_action K (Act_x_fsync_commit fd) = x_fsync_commit K fd"
| "exec_action K (Act_x_fdatasync_commit fd) = x_fdatasync_commit K fd"
| "exec_action K (Act_x_write_pipe_commit fd buf) = x_write_pipe_commit K fd buf"
| "exec_action K (Act_x_read_pipe_commit k b) = x_read_pipe_commit b"
| "exec_action K (Act_x_read_pipe_undo k b) = x_read_pipe_undo b"
| "exec_action K (Act_x_pipe_undo fds ks) = x_pipe_undo K fds ks"
| "exec_action K (Act_x_socket_undo fd k) = x_socket_undo K fd k"
| "exec_action K (Act_x_sendmsg_commit args) = x_sendmsg_commit K args"
| "exec_action K (Act_x_recvmsg_commit k b) = x_recvmsg_commit b"
| "exec_action K (Act_x_recvmsg_undo k b) = x_recvmsg_undo b"
| "exec_action K (Act_x_unlink_commit k path) = x_unlink_commit K k path"
| "exec_action K (Act_x_create_case1_undo fd k path) = x_create_case1_undo K fd k path"
| "exec_action K (Act_x_create_case2_commit fd k tmp path) = x_create_case2_commit K tmp"
| "exec_action K (Act_x_create_case2_undo fd k tmp path) = x_create_case2_undo K fd k tmp path"
| "exec_action K (Act_x_rename_commit ko kn oldpath newpath tmp) = x_rename_commit K ko kn oldpath"
| "exec_action K (Act_x_rename_undo ko kn oldpath newpath tmp) = x_rename_undo K ko kn newpath tmp"
| "exec_action K (Act_x_pthread_create_commit b) = x_pthread_create_commit b"
| "exec_action K (Act_x_pthread_create_undo b) = x_pthread_create_undo b"
| "exec_action K (Act_x_pthread_mutex_lock_undo m) = x_pthread_mutex_lock_undo m"
| "exec_action K (Act_x_pthread_mutex_unlock_commit m) = x_pthread_mutex_unlock_commit m"
| "exec_action K (Act_user f args) = user_action K f args"

text \<open>The functions the TM runtime calls at the end of a transaction.\<close>

definition commit_transaction :: "'k kernel \<Rightarrow> addr \<Rightarrow> (('k, 'z) x_state_scheme, unit) prog" where
  "commit_transaction K t = tx_generic_commit_action (exec_action K) t"

definition abort_transaction :: "'k kernel \<Rightarrow> addr \<Rightarrow> (('k, 'z) x_state_scheme, unit) prog" where
  "abort_transaction K t = tx_generic_undo_action (exec_action K) t"

section \<open>What the actions leave alone\<close>

lemmas txc_libc_defs = txc_libc_open_def txc_libc_close_def txc_libc_rename_def txc_libc_stat_def txc_libc_unlink_def
  txc_libc_write_def txc_libc_read_def txc_libc_lseek_def txc_libc_pwrite_def txc_libc_ftruncate_def
  txc_libc_link_def txc_libc_dup_def txc_libc_pipe_def txc_libc_socket_def txc_libc_fsync_def txc_libc_fdatasync_def
  txc_libc_sendmsg_def txc_libc_recvmsg_def

lemmas undo_function_defs = x_open_undo_def x_dup_undo_def x_lseek_undo_def x_read_undo_def x_write_seq_undo_def
  x_write_ovr_undo_def x_read_pipe_undo_def x_pipe_undo_def x_socket_undo_def x_create_case1_undo_def
  x_create_case2_undo_def x_rename_undo_def x_pthread_create_undo_def x_pthread_mutex_lock_undo_def
  x_recvmsg_undo_def

lemmas commit_function_defs = x_close_commit_def x_fsync_commit_def x_fdatasync_commit_def x_write_pipe_commit_def
  x_read_pipe_commit_def x_unlink_commit_def x_create_case2_commit_def x_rename_commit_def
  x_pthread_create_commit_def x_pthread_mutex_unlock_commit_def pthread_mutex_unlock_def
  x_sendmsg_commit_def x_recvmsg_commit_def

context kernel_frame
begin

lemma within_user: "within R (user_action K f args)"
proof -
  have "R s (s\<lparr>kern := k\<rparr>)" for s k using kern_le [of s k "errno s"] by simp
  then show ?thesis by (simp add: within_def wp_def user_action_def split: prod.split)
qed

lemma within_exec: "within R (exec_action K a)"
  by (cases a)
    (simp_all only: exec_action.simps undo_function_defs commit_function_defs txc_libc_defs,
     (intro within_rules within_libc within_set_mutex within_block_set within_user within_quiet quiet_intros)+)

end

text \<open>The relation that says that no action list changes, the interface of the loops.\<close>

definition same_lists :: "('k, 'z) x_state_scheme \<Rightarrow> ('k, 'z) x_state_scheme \<Rightarrow> bool" where
  "same_lists s s' \<longleftrightarrow> (\<forall>a. core (txds s' a) = core (txds s a))"

interpretation lists_frame: kernel_frame same_lists
  by unfold_locales (auto simp: same_lists_def silent_def outside_def fun_eq_iff)

lemma exec_action_keeps:
  assumes "exec_action K a s = Ok r s'"
  shows "core (txds s' t) = core (txds s t)"
  using wp_OkD [OF withinD [OF lists_frame.within_exec] assms] by (simp add: same_lists_def)

interpretation undo_runner: action_runner undo_action_list t "exec_action K" downwards for t K
  by unfold_locales (auto simp: downwards_def core_def dest: exec_action_keeps [of _ _ _ _ _ t])

interpretation commit_runner: action_runner commit_action_list t "exec_action K" upwards for t K
  by unfold_locales (auto simp: upwards_def core_def dest: exec_action_keeps [of _ _ _ _ _ t])

end
