(* ===== verification/Posix.thy ===== *)
theory Posix
  imports Xactions
begin

text \<open>
  What the xCalls on files rely on of the kernel.  The abstract view of the
  kernel's state is the POSIX one: descriptors refer to open file descriptions,
  which have a position and refer to a file with its contents.  \<open>posix_kernel\<close>
  states the documented behaviour of \<^verbatim>\<open>lseek\<close>, \<^verbatim>\<open>read\<close>, \<^verbatim>\<open>write\<close>, \<^verbatim>\<open>ftruncate\<close> and
  \<^verbatim>\<open>pwrite\<close> on regular files that are open for reading and writing (which is how
  \<^verbatim>\<open>x_open\<close> and \<^verbatim>\<open>x_create\<close> open them); descriptors of other objects are not in the
  view, and the calls on them leave it alone.  A kernel that has nothing but this
  state shows that the laws can be met.
\<close>

section \<open>The view\<close>

record files =
  fd_descr :: "int \<Rightarrow> nat option"
  fd_pos :: "nat \<Rightarrow> nat"
  fd_node :: "nat \<Rightarrow> nat"
  node_data :: "nat \<Rightarrow> byte list"

definition data_of :: "files \<Rightarrow> nat \<Rightarrow> byte list" where
  "data_of f d = node_data f (fd_node f d)"

definition set_pos :: "nat \<Rightarrow> nat \<Rightarrow> files \<Rightarrow> files" where
  "set_pos d p f = f\<lparr>fd_pos := (fd_pos f)(d := p)\<rparr>"

definition set_data :: "nat \<Rightarrow> byte list \<Rightarrow> files \<Rightarrow> files" where
  "set_data d bs f = f\<lparr>node_data := (node_data f)(fd_node f d := bs)\<rparr>"

text \<open>Holes read as zeros.\<close>

definition resize :: "nat \<Rightarrow> byte list \<Rightarrow> byte list" where
  "resize n bs = take n bs @ replicate (n - length bs) 0"

definition overwrite :: "nat \<Rightarrow> byte list \<Rightarrow> byte list \<Rightarrow> byte list" where
  "overwrite p new bs = (if new = [] then bs else resize p bs @ new @ drop (p + length new) bs)"

definition seek_target :: "files \<Rightarrow> nat \<Rightarrow> int \<Rightarrow> int \<Rightarrow> int" where
  "seek_target f d offset whence =
     (if whence = SEEK_SET then offset
      else if whence = SEEK_CUR then int (fd_pos f d) + offset
      else if whence = SEEK_END then int (length (data_of f d)) + offset
      else - 1)"

definition fs_seek :: "files \<Rightarrow> int \<Rightarrow> int \<Rightarrow> int \<Rightarrow> (int \<times> files) option" where
  "fs_seek f fd offset whence =
     (case fd_descr f fd of
        None \<Rightarrow> None
      | Some d \<Rightarrow>
          let p = seek_target f d offset whence in
          if p < 0 then None else Some (p, set_pos d (nat p) f))"

definition fs_read :: "files \<Rightarrow> int \<Rightarrow> nat \<Rightarrow> (byte list \<times> files) option" where
  "fs_read f fd n =
     (case fd_descr f fd of
        None \<Rightarrow> None
      | Some d \<Rightarrow>
          let bs = take n (drop (fd_pos f d) (data_of f d)) in
          Some (bs, set_pos d (fd_pos f d + length bs) f))"

definition fs_write :: "files \<Rightarrow> int \<Rightarrow> byte list \<Rightarrow> files" where
  "fs_write f fd bs =
     (case fd_descr f fd of
        None \<Rightarrow> f
      | Some d \<Rightarrow>
          set_pos d (fd_pos f d + length bs) (set_data d (overwrite (fd_pos f d) bs (data_of f d)) f))"

definition fs_truncate :: "files \<Rightarrow> int \<Rightarrow> nat \<Rightarrow> files" where
  "fs_truncate f fd n =
     (case fd_descr f fd of None \<Rightarrow> f | Some d \<Rightarrow> set_data d (resize n (data_of f d)) f)"

definition fs_pwrite :: "files \<Rightarrow> int \<Rightarrow> byte list \<Rightarrow> nat \<Rightarrow> files" where
  "fs_pwrite f fd bs p =
     (case fd_descr f fd of None \<Rightarrow> f | Some d \<Rightarrow> set_data d (overwrite p bs (data_of f d)) f)"

section \<open>The laws\<close>

definition lseek_law :: "'k kernel \<Rightarrow> ('k \<Rightarrow> files) \<Rightarrow> bool" where
  "lseek_law K V \<longleftrightarrow> (\<forall>k fd offset whence.
     case (fs_seek (V k) fd offset whence, sys_lseek K fd offset whence k) of
       (None, (r, k')) \<Rightarrow> (\<exists>e. r = Inl e) \<and> V k' = V k
     | (Some (p, f), (r, k')) \<Rightarrow> r = Inr p \<and> V k' = f)"

text \<open>A call may fail, and then it has no effect.\<close>

definition read_law :: "'k kernel \<Rightarrow> ('k \<Rightarrow> files) \<Rightarrow> bool" where
  "read_law K V \<longleftrightarrow> (\<forall>k fd n.
     case sys_read K fd n k of
       (Inl _, k') \<Rightarrow> V k' = V k
     | (Inr bs, k') \<Rightarrow> (case fs_read (V k) fd (unat n) of
                         None \<Rightarrow> V k' = V k
                       | Some (bs', f) \<Rightarrow> bs = bs' \<and> V k' = f))"

text \<open>A write may be partial.\<close>

definition write_law :: "'k kernel \<Rightarrow> ('k \<Rightarrow> files) \<Rightarrow> bool" where
  "write_law K V \<longleftrightarrow> (\<forall>k fd buf.
     case sys_write K fd buf k of
       (Inl _, k') \<Rightarrow> V k' = V k
     | (Inr n, k') \<Rightarrow> 0 \<le> n \<and> n \<le> int (length buf) \<and> V k' = fs_write (V k) fd (take (nat n) buf))"

definition ftruncate_law :: "'k kernel \<Rightarrow> ('k \<Rightarrow> files) \<Rightarrow> bool" where
  "ftruncate_law K V \<longleftrightarrow> (\<forall>k fd n. 0 \<le> n \<longrightarrow>
     V (snd (sys_ftruncate K fd n k)) = fs_truncate (V k) fd (nat n) \<and>
     (fd_descr (V k) fd \<noteq> None \<longrightarrow> (\<exists>v. fst (sys_ftruncate K fd n k) = Inr v)))"

definition pwrite_law :: "'k kernel \<Rightarrow> ('k \<Rightarrow> files) \<Rightarrow> bool" where
  "pwrite_law K V \<longleftrightarrow> (\<forall>k fd bs p. 0 \<le> p \<longrightarrow>
     V (snd (sys_pwrite K fd bs p k)) = fs_pwrite (V k) fd bs (nat p))"

definition posix_kernel :: "'k kernel \<Rightarrow> ('k \<Rightarrow> files) \<Rightarrow> bool" where
  "posix_kernel K V \<longleftrightarrow>
     lseek_law K V \<and> read_law K V \<and> write_law K V \<and> ftruncate_law K V \<and> pwrite_law K V"

section \<open>Undoing on the view\<close>

text \<open>What the compensating actions do to the view and to the mutexes of the application.\<close>

type_synonym world = "files \<times> (addr \<Rightarrow> bool)"

fun undo_file :: "action \<Rightarrow> files \<Rightarrow> files" where
  "undo_file (Act_x_lseek_undo fd old_position) f =
     (case fs_seek f fd old_position SEEK_SET of None \<Rightarrow> f | Some (_, f') \<Rightarrow> f')"
| "undo_file (Act_x_read_undo fd nbyte) f =
     (case fs_seek f fd (- nbyte) SEEK_CUR of None \<Rightarrow> f | Some (_, f') \<Rightarrow> f')"
| "undo_file (Act_x_write_seq_undo fd nbyte) f =
     (case fs_seek f fd (- nbyte) SEEK_CUR of None \<Rightarrow> f | Some (p, f') \<Rightarrow> fs_truncate f' fd (nat p))"
| "undo_file (Act_x_write_ovr_undo fd saved nbyte) f =
     (case fs_seek f fd (- nbyte) SEEK_CUR of
        None \<Rightarrow> f
      | Some (p, f') \<Rightarrow>
          (case saved of
             None \<Rightarrow> f'
           | Some old \<Rightarrow>
               fs_pwrite (if int (length old) < nbyte then fs_truncate f' fd (nat p) else f') fd old (nat p)))"
| "undo_file _ f = f"

fun undo_mutex :: "action \<Rightarrow> (addr \<Rightarrow> bool) \<Rightarrow> addr \<Rightarrow> bool" where
  "undo_mutex (Act_x_pthread_mutex_lock_undo m) l = l(m := False)"
| "undo_mutex _ l = l"

definition undo_world :: "action \<Rightarrow> world \<Rightarrow> world" where
  "undo_world a = map_prod (undo_file a) (undo_mutex a)"

fun compensation :: "action \<Rightarrow> bool" where
  "compensation (Act_x_lseek_undo fd old_position) = True"
| "compensation (Act_x_read_undo fd nbyte) = True"
| "compensation (Act_x_write_seq_undo fd nbyte) = True"
| "compensation (Act_x_write_ovr_undo fd saved nbyte) = True"
| "compensation (Act_x_pthread_mutex_lock_undo m) = True"
| "compensation _ = False"

section \<open>The actions refine the view\<close>

definition world :: "('k \<Rightarrow> files) \<Rightarrow> ('k, 'z) x_state_scheme \<Rightarrow> world" where
  "world V s = (V (kern s), app_mutex s)"

lemma posix_lseek:
  assumes "posix_kernel K V" "sys_lseek K fd offset whence k = (r, k')"
  shows "fs_seek (V k) fd offset whence = None \<Longrightarrow> (\<exists>e. r = Inl e) \<and> V k' = V k"
    and "fs_seek (V k) fd offset whence = Some (p, f) \<Longrightarrow> r = Inr p \<and> V k' = f"
proof -
  have law: "lseek_law K V" using assms(1) by (simp add: posix_kernel_def)
  note this [unfolded lseek_law_def, rule_format, where k = k and fd = fd and offset = offset and whence = whence]
  with assms(2) show "fs_seek (V k) fd offset whence = None \<Longrightarrow> (\<exists>e. r = Inl e) \<and> V k' = V k"
    "fs_seek (V k) fd offset whence = Some (p, f) \<Longrightarrow> r = Inr p \<and> V k' = f"
    by simp_all
qed

lemma posix_read:
  assumes "posix_kernel K V"
  shows "sys_read K fd n k = (Inl e, k') \<Longrightarrow> V k' = V k"
    and "sys_read K fd n k = (Inr bs, k') \<Longrightarrow>
      (case fs_read (V k) fd (unat n) of None \<Rightarrow> V k' = V k | Some (bs', f) \<Rightarrow> bs = bs' \<and> V k' = f)"
proof -
  have law: "read_law K V" using assms(1) by (simp add: posix_kernel_def)
  note this [unfolded read_law_def, rule_format, where k = k and fd = fd and n = n]
  then show "sys_read K fd n k = (Inl e, k') \<Longrightarrow> V k' = V k"
    "sys_read K fd n k = (Inr bs, k') \<Longrightarrow>
      (case fs_read (V k) fd (unat n) of None \<Rightarrow> V k' = V k | Some (bs', f) \<Rightarrow> bs = bs' \<and> V k' = f)"
    by simp_all
qed

lemma posix_write:
  assumes "posix_kernel K V"
  shows "sys_write K fd buf k = (Inl e, k') \<Longrightarrow> V k' = V k"
    and "sys_write K fd buf k = (Inr n, k') \<Longrightarrow>
      0 \<le> n \<and> n \<le> int (length buf) \<and> V k' = fs_write (V k) fd (take (nat n) buf)"
proof -
  have law: "write_law K V" using assms(1) by (simp add: posix_kernel_def)
  note this [unfolded write_law_def, rule_format, where k = k and fd = fd and buf = buf]
  then show "sys_write K fd buf k = (Inl e, k') \<Longrightarrow> V k' = V k"
    "sys_write K fd buf k = (Inr n, k') \<Longrightarrow>
      0 \<le> n \<and> n \<le> int (length buf) \<and> V k' = fs_write (V k) fd (take (nat n) buf)"
    by simp_all
qed

lemma posix_ftruncate:
  assumes "posix_kernel K V" "sys_ftruncate K fd n k = (r, k')" "0 \<le> n"
  shows "V k' = fs_truncate (V k) fd (nat n)" "fd_descr (V k) fd \<noteq> None \<Longrightarrow> \<exists>v. r = Inr v"
proof -
  have law: "ftruncate_law K V" using assms(1) by (simp add: posix_kernel_def)
  note this [unfolded ftruncate_law_def, rule_format, OF assms(3), where k = k and fd = fd]
  with assms(2) show "V k' = fs_truncate (V k) fd (nat n)" "fd_descr (V k) fd \<noteq> None \<Longrightarrow> \<exists>v. r = Inr v"
    by simp_all
qed

lemma posix_pwrite:
  assumes "posix_kernel K V" "sys_pwrite K fd bs p k = (r, k')" "0 \<le> p"
  shows "V k' = fs_pwrite (V k) fd bs (nat p)"
proof -
  have law: "pwrite_law K V" using assms(1) by (simp add: posix_kernel_def)
  from this [unfolded pwrite_law_def, rule_format, OF assms(3), where k = k and fd = fd and bs = bs] assms(2) show ?thesis by simp
qed

lemma fs_seek_Some: "fs_seek f fd offset whence = Some (p, f') \<Longrightarrow>
    0 \<le> p \<and> (\<exists>d. fd_descr f fd = Some d \<and> p = seek_target f d offset whence \<and> f' = set_pos d (nat p) f)"
  by (auto simp: fs_seek_def Let_def split: option.splits if_splits)

lemma view_simps [simp]:
  "fd_descr (set_pos d p f) = fd_descr f" "fd_descr (set_data d bs f) = fd_descr f"
  "fd_node (set_pos d p f) = fd_node f" "fd_node (set_data d bs f) = fd_node f"
  "fd_pos (set_data d bs f) = fd_pos f" "fd_pos (set_pos d p f) = (fd_pos f)(d := p)"
  "data_of (set_pos d p f) = data_of f" "data_of (set_data d bs f) d = bs"
  "fd_descr (fs_truncate f fd n) = fd_descr f"
  by (auto simp: set_pos_def set_data_def data_of_def fs_truncate_def fun_eq_iff split: option.splits)

text \<open>A seek whose result is handled in both cases.\<close>

lemma wp_lseek:
  assumes "posix_kernel K V"
    and "\<And>e k'. fs_seek (V (kern s)) fd offset whence = None \<Longrightarrow> V k' = V (kern s) \<Longrightarrow>
      Q (Inl e) (s\<lparr>errno := e, kern := k'\<rparr>)"
    and "\<And>p f k'. fs_seek (V (kern s)) fd offset whence = Some (p, f) \<Longrightarrow> V k' = f \<Longrightarrow> 0 \<le> p \<Longrightarrow>
      Q (Inr p) (s\<lparr>errno := errno s, kern := k'\<rparr>)"
  shows "wp (txc_libc_lseek K fd offset whence) Q E s"
proof -
  obtain r k' where c: "sys_lseek K fd offset whence (kern s) = (r, k')" by fastforce
  show ?thesis
  proof (cases "fs_seek (V (kern s)) fd offset whence")
    case None
    with posix_lseek(1) [OF assms(1) c] assms(2) c show ?thesis by (auto simp: txc_libc_lseek_def)
  next
    case (Some x)
    obtain p f where x: "x = (p, f)" by fastforce
    with posix_lseek(2) [OF assms(1) c] Some have "r = Inr p" "V k' = f" "0 \<le> p"
      by (auto dest: fs_seek_Some)
    with assms(3) [of p f k'] Some x c show ?thesis by (simp add: txc_libc_lseek_def)
  qed
qed

lemma wp_ftruncate:
  assumes "posix_kernel K V" "fd_descr (V (kern s)) fd \<noteq> None" "0 \<le> n"
    and "\<And>v k'. V k' = fs_truncate (V (kern s)) fd (nat n) \<Longrightarrow> Q (Inr v) (s\<lparr>errno := errno s, kern := k'\<rparr>)"
  shows "wp (txc_libc_ftruncate K fd n) Q E s"
proof -
  obtain r k' where c: "sys_ftruncate K fd n (kern s) = (r, k')" by fastforce
  from posix_ftruncate [OF assms(1) c assms(3)] assms(2,4) c show ?thesis
    by (auto simp: txc_libc_ftruncate_def)
qed

lemma wp_pwrite:
  assumes "posix_kernel K V" "0 \<le> p"
    and "\<And>r e k'. V k' = fs_pwrite (V (kern s)) fd bs (nat p) \<Longrightarrow> Q r (s\<lparr>errno := e, kern := k'\<rparr>)"
  shows "wp (txc_libc_pwrite K fd bs p) Q E s"
proof -
  obtain r k' where c: "sys_pwrite K fd bs p (kern s) = (r, k')" by fastforce
  from posix_pwrite [OF assms(1) c assms(2)] assms(3) c show ?thesis
    by (auto simp: txc_libc_pwrite_def)
qed

lemma exec_compensation:
  assumes K: "posix_kernel K V" and a: "compensation a"
  shows "wp (exec_action K a) (\<lambda>_ s'. world V s' = undo_world a (world V s)) (\<lambda>_ _. False) s"
proof (cases a)
  case (Act_x_lseek_undo fd p)
  then show ?thesis
    by (simp add: x_lseek_undo_def)
      (rule wp_lseek [OF K]; simp add: world_def undo_world_def)
next
  case (Act_x_read_undo fd n)
  then show ?thesis
    by (simp add: x_read_undo_def)
      (rule wp_lseek [OF K]; simp add: world_def undo_world_def)
next
  case (Act_x_write_seq_undo fd n)
  then show ?thesis
    by (simp add: x_write_seq_undo_def)
      (rule wp_lseek [OF K]; simp?; (rule wp_ftruncate [OF K])?; auto simp: world_def undo_world_def dest!: fs_seek_Some)
next
  case (Act_x_write_ovr_undo fd saved n)
  show ?thesis
  proof (cases saved)
    case None
    with Act_x_write_ovr_undo show ?thesis
      by (simp add: x_write_ovr_undo_def)
        (rule wp_lseek [OF K]; simp add: world_def undo_world_def)
  next
    case (Some old)
    show ?thesis
    proof (cases "int (length old) < n")
      case True
      with Act_x_write_ovr_undo Some show ?thesis
        by (simp add: x_write_ovr_undo_def)
          (rule wp_lseek [OF K]; simp?; (rule wp_ftruncate [OF K])?; simp?; (rule wp_pwrite [OF K])?;
            auto simp: world_def undo_world_def dest!: fs_seek_Some)
    next
      case False
      with Act_x_write_ovr_undo Some show ?thesis
        by (simp add: x_write_ovr_undo_def)
          (rule wp_lseek [OF K]; simp?; (rule wp_pwrite [OF K])?;
            auto simp: world_def undo_world_def dest!: fs_seek_Some)
    qed
  qed
next
  case (Act_x_pthread_mutex_lock_undo m)
  then show ?thesis
    by (simp add: x_pthread_mutex_lock_undo_def pthread_mutex_unlock_def set_mutex_def world_def undo_world_def)
qed (use a in simp_all)

section \<open>Compensation on the view\<close>

lemma resize_le: "n \<le> length bs \<Longrightarrow> resize n bs = take n bs"
  by (simp add: resize_def)

lemma length_overwrite: "p \<le> length bs \<Longrightarrow> length (overwrite p new bs) = max (length bs) (p + length new)"
  by (auto simp: overwrite_def resize_le)

lemma resize_overwrite: "p \<le> length bs \<Longrightarrow> resize p (overwrite p new bs) = take p bs"
  by (subst resize_le) (auto simp: length_overwrite overwrite_def resize_le)

lemma overwrite_back:
  assumes p: "p \<le> length bs" and new: "length new \<le> length old" and old: "old = take m (drop p bs)"
  shows "overwrite p old (overwrite p new bs) = bs"
proof -
  have "take (length old) (drop p bs) = old" unfolding old by (cases "m \<le> length bs - p") simp_all
  then have "take (length old) (drop p bs) @ drop (length old) (drop p bs) = old @ drop (p + length old) bs"
    by (simp only: drop_drop add.commute)
  then have whole: "take p bs @ old @ drop (p + length old) bs = bs"
    by (metis append_take_drop_id)
  have len: "p + length old \<le> length bs" if "old \<noteq> []" using old p that by auto
  show ?thesis
  proof (cases "old = []")
    case True
    with new show ?thesis by (simp add: overwrite_def)
  next
    case False
    have "drop (p + length old) (take p bs @ new @ drop (p + length new) bs) = drop (p + length old) bs"
      using p new len [OF False] by (simp add: add.commute)
    then have "overwrite p old (overwrite p new bs) = take p bs @ old @ drop (p + length old) bs"
      using False p by (simp add: overwrite_def resize_le)
    with whole show ?thesis by simp
  qed
qed

lemma overwrite_truncated:
  assumes "p \<le> length bs" "old = drop p bs"
  shows "overwrite p old (take p bs) = bs"
  using assms by (auto simp: overwrite_def resize_le)

lemma set_pos_back: "set_pos d (fd_pos f d) (set_pos d p f) = f"
  by (simp add: set_pos_def)

lemma set_data_back: "set_data d (data_of f d) (set_data d bs f) = f"
  by (simp add: set_data_def data_of_def)

lemma set_data_pos: "set_data d bs (set_pos d' p f) = set_pos d' p (set_data d bs f)"
  by (simp add: set_pos_def set_data_def)

lemma set_data_set_data [simp]: "set_data d bs (set_data d bs' f) = set_data d bs f"
  by (simp add: set_data_def)

lemma set_pos_set_pos [simp]: "set_pos d p (set_pos d p' f) = set_pos d p f"
  by (simp add: set_pos_def)

lemma set_pos_same: "fd_pos f d = p \<Longrightarrow> set_pos d p f = f"
  by (auto simp: set_pos_def)

lemma set_data_same: "data_of f d = bs \<Longrightarrow> set_data d bs f = f"
  by (auto simp: set_data_def data_of_def)

lemma fs_seek_back:
  "fd_descr f fd = Some d \<Longrightarrow> fs_seek (set_pos d (fd_pos f d + n) f) fd (- int n) SEEK_CUR = Some (int (fd_pos f d), f)"
  by (simp add: fs_seek_def seek_target_def Let_def set_pos_same)

lemma undo_lseek:
  "fd_descr f fd = Some d \<Longrightarrow> undo_file (Act_x_lseek_undo fd (int (fd_pos f d))) (set_pos d p f) = f"
  by (simp add: fs_seek_def seek_target_def set_pos_same)

lemma undo_read:
  "fd_descr f fd = Some d \<Longrightarrow> undo_file (Act_x_read_undo fd (int n)) (set_pos d (fd_pos f d + n) f) = f"
  by (simp add: fs_seek_back)

lemma fs_seek_written:
  "fd_descr f fd = Some d \<Longrightarrow> fs_seek (fs_write f fd bs) fd (- int (length bs)) SEEK_CUR =
     Some (int (fd_pos f d), set_data d (overwrite (fd_pos f d) bs (data_of f d)) f)"
  using fs_seek_back [of "set_data d (overwrite (fd_pos f d) bs (data_of f d)) f" fd d "length bs"]
  by (simp add: fs_write_def)

lemma undo_write_seq:
  assumes "fd_descr f fd = Some d" "fd_pos f d = length (data_of f d)"
  shows "undo_file (Act_x_write_seq_undo fd (int (length bs))) (fs_write f fd bs) = f"
  using assms resize_overwrite [of "length (data_of f d)" "data_of f d" bs]
  by (simp add: fs_seek_written fs_truncate_def set_data_same)

lemma undo_write_ovr:
  assumes d: "fd_descr f fd = Some d" and p: "fd_pos f d \<le> length (data_of f d)"
    and old: "old = take m (drop (fd_pos f d) (data_of f d))" and "length bs \<le> m"
  shows "undo_file (Act_x_write_ovr_undo fd (Some old) (int (length bs))) (fs_write f fd bs) = f"
proof (cases "length old < length bs")
  case True
  then have "old = drop (fd_pos f d) (data_of f d)" using old assms(4) by auto
  with True d p show ?thesis
    by (simp add: fs_seek_written fs_truncate_def fs_pwrite_def resize_overwrite overwrite_truncated set_data_same)
next
  case False
  then have "overwrite (fd_pos f d) old (overwrite (fd_pos f d) bs (data_of f d)) = data_of f d"
    using overwrite_back [OF p _ old, of bs] by simp
  with False d show ?thesis by (simp add: fs_seek_written fs_pwrite_def set_data_same)
qed

lemma undo_closed: "fd_descr f fd = None \<Longrightarrow>
    undo_file (Act_x_lseek_undo fd p) f = f \<and> undo_file (Act_x_read_undo fd n) f = f \<and>
    undo_file (Act_x_write_seq_undo fd n) f = f \<and> undo_file (Act_x_write_ovr_undo fd saved n) f = f"
  by (simp add: fs_seek_def)

lemma fs_write_closed: "fd_descr f fd = None \<Longrightarrow> fs_write f fd bs = f"
  by (simp add: fs_write_def)

declare undo_file.simps [simp del]

section \<open>A kernel\<close>

text \<open>A kernel whose state is the view, with calls that never fail on open files.\<close>

definition sample_kernel :: "files kernel" where
  "sample_kernel = \<lparr>sys_open = (\<lambda>_ _ _ k. (Inl ENOENT, k)), sys_close = (\<lambda>_ k. (Inr 0, k)),
     sys_rename = (\<lambda>_ _ k. (Inr 0, k)), sys_stat = (\<lambda>_ k. (Inl ENOENT, k)), sys_unlink = (\<lambda>_ k. (Inr 0, k)),
     sys_write = (\<lambda>fd buf k. (Inr (int (length buf)), fs_write k fd buf)),
     sys_read = (\<lambda>fd n k. case fs_read k fd (unat n) of None \<Rightarrow> (Inl EBADF, k) | Some (bs, k') \<Rightarrow> (Inr bs, k')),
     sys_lseek = (\<lambda>fd offset whence k. case fs_seek k fd offset whence of None \<Rightarrow> (Inl EINVAL, k) | Some (p, k') \<Rightarrow> (Inr p, k')),
     sys_pwrite = (\<lambda>fd bs p k. (Inr (int (length bs)), fs_pwrite k fd bs (nat p))),
     sys_ftruncate = (\<lambda>fd n k. (Inr 0, fs_truncate k fd (nat n))),
     sys_link = (\<lambda>_ _ k. (Inr 0, k)), sys_dup = (\<lambda>_ k. (Inl EBADF, k)), sys_pipe = (\<lambda>k. (Inl EINVAL, k)),
     sys_socket = (\<lambda>_ _ _ k. (Inl EINVAL, k)), sys_sendmsg = (\<lambda>_ _ _ k. (Inl EINVAL, k)), sys_recvmsg = (\<lambda>_ _ _ _ _ k. (Inl EINVAL, k)),
     sys_fsync = (\<lambda>_ k. (Inr 0, k)), sys_fdatasync = (\<lambda>_ k. (Inr 0, k)),
     sys_mktemp = (\<lambda>_. ''/tmp/libtxc.tmp.000000''), sys_user = (\<lambda>_ _ k. (0, k))\<rparr>"

lemma sample_kernel_posix: "posix_kernel sample_kernel id"
  by (auto simp: posix_kernel_def lseek_law_def read_law_def write_law_def ftruncate_law_def pwrite_law_def
      sample_kernel_def split: option.splits)

text \<open>Descriptor 3 is open on a file of five bytes, at position 1.\<close>

definition sample_files :: files where
  "sample_files = \<lparr>fd_descr = (\<lambda>fd. if fd = 3 then Some 0 else None), fd_pos = (\<lambda>_. 1), fd_node = (\<lambda>_. 0),
     node_data = (\<lambda>_. [10, 11, 12, 13, 14])\<rparr>"

definition sample_x_state :: "files x_state" where
  "sample_x_state = txmgr_state.extend
     (koa_state.extend (sample_koa_state (sample_koa TXC_KOA_IS_FILE 1 [3])) (txmgr_state.fields False 0 None None sample_pool))
     (x_state.fields sample_files (\<lambda>_. False) (\<lambda>_. \<lparr>start_lock = False, start_routine = None, start_arg = 0\<rparr>) [] (\<lambda>_. 0))"

end
