(* ===== verification/Rollback.thy ===== *)
theory Rollback
  imports Posix
begin

text \<open>
  Rolling a transaction back.  Every xCall that acts in place registers the action
  that compensates it; the theory shows that the registered actions, run in the
  order in which \<^verbatim>\<open>tx_generic_undo_action\<close> runs them, bring files and mutexes back to
  where they were when the transaction began.  The relation \<open>compensated\<close> between
  the states before and after a call is a preorder that the quiet operations of
  the library respect; each xCall is shown to stay within it, and so does every
  sequence of xCalls, whether it ends or is aborted halfway.
\<close>

section \<open>Growing action lists\<close>

definition entries :: "(txc_tx \<Rightarrow> txc_tx_action_list) \<Rightarrow> addr \<Rightarrow> 'z tx_state_scheme \<Rightarrow> txc_tx_action_list_entry list" where
  "entries sel t s = al_entries (sel (txds s t))"

definition list_usable :: "(txc_tx \<Rightarrow> txc_tx_action_list) \<Rightarrow> addr \<Rightarrow> 'z tx_state_scheme \<Rightarrow> bool" where
  "list_usable sel t s \<longleftrightarrow> list_ready (sel (txds s t)) \<and> (\<forall>k. realloc_ok s k)"

definition grows ::
  "(txc_tx \<Rightarrow> txc_tx_action_list) \<Rightarrow> addr \<Rightarrow> (txc_tx_action_list_entry list \<Rightarrow> bool) \<Rightarrow>
   'z tx_state_scheme \<Rightarrow> 'z tx_state_scheme \<Rightarrow> bool" where
  "grows sel t P s s' \<longleftrightarrow>
     length (entries sel t s) \<le> length (entries sel t s') \<and>
     (list_usable sel t s \<and> length (entries sel t s') < 2 ^ 31 \<longrightarrow>
        list_usable sel t s' \<and> (\<exists>ys. entries sel t s' = entries sel t s @ ys \<and> P ys))"

lemma grows_trans:
  assumes "grows sel t P s s'" "grows sel t P' s' s''" "\<And>xs ys. P xs \<Longrightarrow> P' ys \<Longrightarrow> P'' (xs @ ys)"
  shows "grows sel t P'' s s''"
proof -
  have len: "length (entries sel t s) \<le> length (entries sel t s')" "length (entries sel t s') \<le> length (entries sel t s'')"
    using assms(1,2) by (auto simp: grows_def)
  have "list_usable sel t s'' \<and> (\<exists>ys. entries sel t s'' = entries sel t s @ ys \<and> P'' ys)"
    if "list_usable sel t s" "length (entries sel t s'') < 2 ^ 31"
  proof -
    from that len assms(1) obtain xs where 1: "list_usable sel t s'" "entries sel t s' = entries sel t s @ xs" "P xs"
      by (auto simp: grows_def)
    with that assms(2) obtain ys where "list_usable sel t s''" "entries sel t s'' = entries sel t s' @ ys" "P' ys"
      by (auto simp: grows_def)
    with 1 assms(3) show ?thesis by auto
  qed
  with len show ?thesis by (auto simp: grows_def)
qed

lemma register_action_entries:
  "wp (register_action la f p ord)
     (\<lambda>(r, la') s'. (\<exists>n. s' = s\<lparr>realloc_calls := n\<rparr>) \<and>
        (al_entries la' = al_entries la \<or> al_entries la' = al_entries la @ [entry_of (f, p, ord)]))
     (\<lambda>_ s'. (\<exists>n. s' = s\<lparr>realloc_calls := n\<rparr>)) s"
  unfolding register_action_def allocate_action_list_entries_def realloc_answer_def
  by (auto simp: entry_of_def Let_def wp_if intro: exI [of _ "realloc_calls s"])


text \<open>What the transaction code needs to know of a state beside the action lists.\<close>

definition around :: "addr \<Rightarrow> ('k, 'z) x_state_scheme \<Rightarrow>
    ('k \<times> (addr \<Rightarrow> bool) \<times> (addr \<Rightarrow> control_block) \<times> (addr \<times> addr) list) \<times>
    addr option \<times> (u32 \<Rightarrow> itm_howExecuting) \<times> (nat \<Rightarrow> bool) \<times> u32" where
  "around t s = ((kern s, app_mutex s, control_blocks s, started s), l_txd s, itm_mode s, realloc_ok s, itm_td (txds s t))"

lemma silent_around: "silent s s' \<Longrightarrow> around t s' = around t s"
  by (auto simp: silent_def outside_def around_def core_def fun_eq_iff)

lemma silent_entries: "silent s s' \<Longrightarrow> undo_action_list (txds s' t) = undo_action_list (txds s t)"
    "silent s s' \<Longrightarrow> commit_action_list (txds s' t) = commit_action_list (txds s t)"
  by (auto simp: silent_def outside_def core_def fun_eq_iff)

definition registers ::
  "(txc_tx \<Rightarrow> txc_tx_action_list) \<Rightarrow> (txc_tx \<Rightarrow> txc_tx_action_list) \<Rightarrow> addr \<Rightarrow> txc_tx_action_list_entry \<Rightarrow>
   ('k, 'z) x_state_scheme \<Rightarrow> ('k, 'z) x_state_scheme \<Rightarrow> bool" where
  "registers sel other t e s s' \<longleftrightarrow>
     around t s' = around t s \<and> grows sel t (\<lambda>ys. ys = [e]) s s' \<and> other (txds s' t) = other (txds s t)"

lemma register_undo_within:
  "within (registers undo_action_list commit_action_list t (entry_of (f, p, ord)))
     (txc_tx_register_undo_action t f p ord)"
  unfolding within_def
proof
  fix s :: "('a, 'b) x_state_scheme"
  let ?R = "registers undo_action_list commit_action_list t (entry_of (f, p, ord)) s"
  show "wp (txc_tx_register_undo_action t f p ord) (\<lambda>_. ?R) (\<lambda>_. ?R) s"
  proof (cases "list_usable undo_action_list t s \<and> length (entries undo_action_list t s) < 2 ^ 31")
    case True
    then have ok: "list_ready (undo_action_list (txds s t))" "\<And>k. realloc_ok s k"
      "length (al_entries (undo_action_list (txds s t))) < 2 ^ 31"
      by (simp_all add: list_usable_def entries_def)
    from register_undo_exact [OF ok, of f p ord] ok(2) show ?thesis
      by (auto simp: wp_def registers_def around_def grows_def list_usable_def entries_def)
  next
    case False
    have g: "grows undo_action_list t (\<lambda>ys. ys = [entry_of (f, p, ord)]) s s'"
      if "length (entries undo_action_list t s) \<le> length (entries undo_action_list t s')" for s'
      using False that by (auto simp: grows_def)
    show ?thesis
      unfolding txc_tx_register_undo_action_def wp_bnd wp_txd_get
      by (rule wp_mono [OF register_action_entries])
        (auto simp: tmsystem_register_generic_undo_action_def registers_def around_def wp_if
          entries_def intro!: g split: prod.splits)
  qed
qed

lemma register_commit_within:
  "within (registers commit_action_list undo_action_list t (entry_of (f, p, ord)))
     (txc_tx_register_commit_action t f p ord)"
  unfolding within_def
proof
  fix s :: "('a, 'b) x_state_scheme"
  let ?R = "registers commit_action_list undo_action_list t (entry_of (f, p, ord)) s"
  show "wp (txc_tx_register_commit_action t f p ord) (\<lambda>_. ?R) (\<lambda>_. ?R) s"
  proof (cases "list_usable commit_action_list t s \<and> length (entries commit_action_list t s) < 2 ^ 31")
    case True
    then have ok: "list_ready (commit_action_list (txds s t))" "\<And>k. realloc_ok s k"
      "length (al_entries (commit_action_list (txds s t))) < 2 ^ 31"
      by (simp_all add: list_usable_def entries_def)
    from register_commit_exact [OF ok, of f p ord] ok(2) show ?thesis
      by (auto simp: wp_def registers_def around_def grows_def list_usable_def entries_def)
  next
    case False
    have g: "grows commit_action_list t (\<lambda>ys. ys = [entry_of (f, p, ord)]) s s'"
      if "length (entries commit_action_list t s) \<le> length (entries commit_action_list t s')" for s'
      using False that by (auto simp: grows_def)
    show ?thesis
      unfolding txc_tx_register_commit_action_def wp_bnd wp_txd_get
      by (rule wp_mono [OF register_action_entries])
        (auto simp: tmsystem_register_generic_commit_action_def registers_def around_def wp_if
          entries_def intro!: g split: prod.splits)
  qed
qed

section \<open>Acquiring sentinels\<close>

text \<open>
  The entries of the managers: they come after the regular actions and do not
  touch anything outside the library.
\<close>

definition manager_entry :: "txc_tx_action_list_entry \<Rightarrow> bool" where
  "manager_entry e \<longleftrightarrow> (ae_order e = 2 \<or> ae_order e = 3) \<and>
     (\<exists>t. ae_function e \<in> {Act_sentinelmgr_undo t, Act_sentinelmgr_commit t, Act_statsmgr_undo t, Act_statsmgr_commit t})"

definition acquired :: "addr \<Rightarrow> ('k, 'z) x_state_scheme \<Rightarrow> ('k, 'z) x_state_scheme \<Rightarrow> bool" where
  "acquired t s s' \<longleftrightarrow> around t s' = around t s \<and>
     grows undo_action_list t (list_all manager_entry) s s' \<and> grows commit_action_list t (list_all manager_entry) s s'"

lemma grows_same:
  assumes "sel (txds s' t) = sel (txds s t)" "realloc_ok s' = realloc_ok s" "P []"
  shows "grows sel t P s s'"
  using assms by (simp add: grows_def entries_def list_usable_def)

lemma grows_mono: "grows sel t P s s' \<Longrightarrow> (\<And>ys. P ys \<Longrightarrow> P' ys) \<Longrightarrow> grows sel t P' s s'"
  by (auto simp: grows_def)

lemma around_realloc: "around t s' = around t s \<Longrightarrow> realloc_ok s' = realloc_ok s"
  by (simp add: around_def)

lemma registers_acquired:
  assumes "manager_entry e"
  shows "registers undo_action_list commit_action_list t e s s' \<Longrightarrow> acquired t s s'"
    and "registers commit_action_list undo_action_list t e s s' \<Longrightarrow> acquired t s s'"
  using assms
  by (simp_all add: registers_def acquired_def grows_same [OF _ around_realloc [of t]] grows_mono [where P = "\<lambda>ys. ys = [e]"])

lemma grows_all_trans: "grows sel t (list_all P) s s' \<Longrightarrow> grows sel t (list_all P) s' s'' \<Longrightarrow> grows sel t (list_all P) s s''"
  by (erule grows_trans) simp_all

interpretation acquired: acquiring_frame "acquired t" t for t
proof unfold_locales
  show "acquired t s s" for s :: "('a, 'b) x_state_scheme"
    by (simp add: acquired_def grows_same)
  show "acquired t s s''" if "acquired t s s'" "acquired t s' s''" for s s' s'' :: "('a, 'b) x_state_scheme"
    using that grows_all_trans unfolding acquired_def by metis
  show "acquired t s s'" if "silent s s'" for s s' :: "('a, 'b) x_state_scheme"
    using silent_around [OF that, of t] silent_entries [OF that, of t] around_realloc [of t s' s]
    by (simp add: acquired_def grows_same)
  show "within (acquired t) (txc_tx_register_undo_action t (Act_sentinelmgr_undo t) None TXC_SENTINELMGR_UNDO_ACTION_ORDER)"
    by (rule within_mono [OF register_undo_within], erule registers_acquired(1) [rotated])
      (simp add: manager_entry_def entry_of_def)
  show "within (acquired t) (txc_tx_register_commit_action t (Act_sentinelmgr_commit t) None TXC_SENTINELMGR_COMMIT_ACTION_ORDER)"
    by (rule within_mono [OF register_commit_within], erule registers_acquired(2) [rotated])
      (simp add: manager_entry_def entry_of_def)
qed

section \<open>Compensated steps\<close>

definition in_transaction :: "addr \<Rightarrow> 'z tx_state_scheme \<Rightarrow> bool" where
  "in_transaction t s \<longleftrightarrow> l_txd s = Some t \<and> itm_mode s (itm_td (txds s t)) = inRetryableTransaction"

lemma wp_retryable: "in_transaction t s \<Longrightarrow> wp (with_xactstate direct retryable) Q E s = wp (retryable t) Q E s"
  by (simp add: with_xactstate_def in_transaction_def txc_tx_get_txd_def txc_tx_get_xactstate_def
      tmsystem_get_xactstate_def deref_def)

definition settled :: "addr \<Rightarrow> 'z tx_state_scheme \<Rightarrow> addr option \<times> (u32 \<Rightarrow> itm_howExecuting) \<times> (nat \<Rightarrow> bool) \<times> u32" where
  "settled t s = (l_txd s, itm_mode s, realloc_ok s, itm_td (txds s t))"

lemma settled_in_transaction: "settled t s' = settled t s \<Longrightarrow> in_transaction t s' = in_transaction t s"
  by (simp add: settled_def in_transaction_def)

text \<open>The effect of the regular actions among the entries, run in reverse.\<close>

definition undo_entries :: "txc_tx_action_list_entry list \<Rightarrow> world \<Rightarrow> world" where
  "undo_entries ys = fold (\<lambda>e. undo_world (ae_function e)) (rev (filter (\<lambda>e. ae_order e = 0) ys))"

definition admissible :: "txc_tx_action_list_entry \<Rightarrow> bool" where
  "admissible e \<longleftrightarrow> manager_entry e \<or> ae_order e = 0 \<and> compensation (ae_function e)"

text \<open>
  A step that registers the compensation of what it does: undoing the entries it
  adds brings the world of the state after it back to that of the state before.
\<close>

definition compensated :: "('k \<Rightarrow> files) \<Rightarrow> addr \<Rightarrow> ('k, 'z) x_state_scheme \<Rightarrow> ('k, 'z) x_state_scheme \<Rightarrow> bool" where
  "compensated V t s s' \<longleftrightarrow> settled t s' = settled t s \<and>
     grows undo_action_list t (\<lambda>ys. list_all admissible ys \<and> undo_entries ys (world V s') = world V s) s s'"

lemma undo_entries_append: "undo_entries (xs @ ys) w = undo_entries xs (undo_entries ys w)"
  by (simp add: undo_entries_def)

lemma undo_entries_managers: "list_all manager_entry ys \<Longrightarrow> undo_entries ys w = w"
proof -
  assume "list_all manager_entry ys"
  then have "filter (\<lambda>e. ae_order e = 0) ys = []"
    by (auto simp: filter_empty_conv list_all_iff manager_entry_def)
  then show ?thesis by (simp add: undo_entries_def)
qed

lemma acquired_compensated:
  assumes "acquired t s s'"
  shows "compensated V t s s'"
proof -
  have a: "around t s' = around t s" and g: "grows undo_action_list t (list_all manager_entry) s s'"
    using assms by (simp_all add: acquired_def)
  from a have "world V s' = world V s" "settled t s' = settled t s"
    by (simp_all add: around_def world_def settled_def)
  with g show ?thesis
    by (auto simp: compensated_def undo_entries_managers admissible_def list_all_iff elim!: grows_mono)
qed

interpretation compensated: library_frame "compensated V t" for V t
proof unfold_locales
  fix s s' s'' :: "('a, 'b) x_state_scheme"
  show "compensated V t s s''" if "compensated V t s s'" "compensated V t s' s''"
    using that unfolding compensated_def
    by (elim conjE, intro conjI, simp) (erule grows_trans, assumption, auto simp: undo_entries_append)
  show "compensated V t s s'" if "silent s s'"
    by (rule acquired_compensated, rule acquired.silent_le, rule that)
  then show "compensated V t s s"
    by (simp add: acquired_compensated acquired.refl)
qed

lemma wp_compensate:
  assumes "acquired t s s1" "settled t u = settled t s1" "undo_action_list (txds u t) = undo_action_list (txds s1 t)"
    and "compensation a" "undo_world a (world V u) = world V s1"
    and "\<And>r s'. compensated V t s s' \<Longrightarrow> Q r s'" "\<And>e s'. compensated V t s s' \<Longrightarrow> E e s'"
  shows "wp (txc_tx_register_undo_action t a p TXC_TX_REGULAR_UNDO_ACTION_ORDER) Q E u"
proof -
  have "compensated V t s s'" if r: "registers undo_action_list commit_action_list t (entry_of (a, p, 0)) u s'" for s'
  proof (rule compensated.trans [OF acquired_compensated [OF assms(1)]])
    from r have a: "around t s' = around t u" and g: "grows undo_action_list t (\<lambda>ys. ys = [entry_of (a, p, 0)]) u s'"
      by (simp_all add: registers_def)
    from a have w: "world V s' = world V u" "settled t s' = settled t u"
      by (simp_all add: around_def world_def settled_def)
    have "grows undo_action_list t (\<lambda>ys. ys = [entry_of (a, p, 0)]) s1 s'"
      using g assms(2,3) by (auto simp: grows_def entries_def list_usable_def settled_def)
    then show "compensated V t s1 s'"
      using w assms(2,4,5)
      by (auto simp: compensated_def undo_entries_def entry_of_def admissible_def elim!: grows_mono)
  qed
  then show ?thesis
    using assms(6,7) by (intro wp_mono [OF withinD [OF register_undo_within]]) blast+
qed

section \<open>The xCalls\<close>

text \<open>Steps of an xCall that are quiet, and the acquisition of the descriptor at its beginning.\<close>

lemma wp_tail:
  assumes "quiet m" "compensated V t s u"
  shows "wp m (\<lambda>_. compensated V t s) (\<lambda>_. compensated V t s) u"
  by (rule compensated.wp_within [OF compensated.within_quiet [OF assms(1)] assms(2)])

lemma wp_fd_acquire:
  assumes "\<And>k s'. acquired t s s' \<Longrightarrow> wp (f k) (\<lambda>_. compensated V t s) (\<lambda>_. compensated V t s) s'"
  shows "wp (bnd (fd_acquire t fd) f) (\<lambda>_. compensated V t s) (\<lambda>_. compensated V t s) s"
  unfolding wp_bnd
  by (rule acquired.wp_within [OF acquired.within_fd_acquire acquired.refl])
    (auto intro: assms acquired_compensated)

lemma wp_acquired_quiet:
  assumes "quiet m" "acquired t s u"
    and "\<And>a s'. acquired t s s' \<Longrightarrow> wp (f a) (\<lambda>_. compensated V t s) (\<lambda>_. compensated V t s) s'"
  shows "wp (bnd m f) (\<lambda>_. compensated V t s) (\<lambda>_. compensated V t s) u"
  unfolding wp_bnd
  by (rule acquired.wp_within [OF acquired.within_quiet [OF assms(1)] assms(2)])
    (auto intro: assms(3) acquired_compensated)

lemma wp_alloc:
  assumes "acquired t s u"
    and "\<And>s'. acquired t s s' \<Longrightarrow> wp m (\<lambda>_. compensated V t s) (\<lambda>_. compensated V t s) s'"
  shows "wp (bnd (linear_malloc t n) (\<lambda>args. if args = None then finish result e r else m))
    (\<lambda>_. compensated V t s) (\<lambda>_. compensated V t s) u"
  by (rule wp_acquired_quiet [OF quiet_linear(1) assms(1)])
    (auto intro!: assms(2) wp_tail quiet_intros acquired_compensated simp del: wp_bnd)

text \<open>A state that system calls have made of \<open>s\<close>.\<close>

definition touched :: "addr \<Rightarrow> ('k, 'z) x_state_scheme \<Rightarrow> ('k, 'z) x_state_scheme \<Rightarrow> bool" where
  "touched t s u \<longleftrightarrow> settled t u = settled t s \<and> app_mutex u = app_mutex s \<and>
     undo_action_list (txds u t) = undo_action_list (txds s t)"

lemma touched_refl [simp]: "touched t s s"
  by (simp add: touched_def)

lemma touched_kern [simp]: "touched t s (u\<lparr>errno := e, kern := k\<rparr>) = touched t s u"
    "touched t s (u\<lparr>kern := k\<rparr>) = touched t s u" "touched t s (u\<lparr>errno := e\<rparr>) = touched t s u"
  by (simp_all add: touched_def settled_def)

text \<open>After system calls without effect, and after some that the registered action \<open>a\<close> compensates.\<close>

lemma wp_no_effect:
  assumes "quiet m" "acquired t s s1" "touched t s1 u" "V (kern u) = V (kern s1)"
  shows "wp m (\<lambda>_. compensated V t s) (\<lambda>_. compensated V t s) u"
proof (rule wp_tail [OF assms(1)])
  have "compensated V t s1 u"
    using assms(3,4) by (auto simp: compensated_def touched_def settled_def world_def undo_entries_def intro!: grows_same)
  with acquired_compensated [OF assms(2)] show "compensated V t s u"
    by (rule compensated.trans)
qed

lemma wp_effect:
  assumes "quiet m" "acquired t s s1" "touched t s1 u" "compensation a"
    and "undo_file a (V (kern u)) = V (kern s1)" "\<And>l. undo_mutex a l = l"
  shows "wp (bnd (txc_tx_register_undo_action t a p TXC_TX_REGULAR_UNDO_ACTION_ORDER) (\<lambda>_. m))
    (\<lambda>_. compensated V t s) (\<lambda>_. compensated V t s) u"
  unfolding wp_bnd
  by (rule wp_compensate [OF assms(2) _ _ assms(4)])
    (use assms(3,5,6) in \<open>auto simp: touched_def world_def undo_world_def intro!: wp_tail assms(1)\<close>)

lemma seek_zero:
  "fs_seek f fd 0 SEEK_CUR = None \<Longrightarrow> fs_seek f fd offset whence = None"
  "fs_seek f fd 0 SEEK_CUR = Some (q, g) \<Longrightarrow> g = f"
  by (auto simp: fs_seek_def seek_target_def Let_def set_pos_same split: option.splits)

lemma seek_result:
  assumes "fs_seek f fd offset whence = Some (p, f')"
  shows "fs_seek f fd 0 SEEK_CUR = Some (q, g) \<Longrightarrow> undo_file (Act_x_lseek_undo fd q) f' = f"
    and "whence = SEEK_CUR \<Longrightarrow> undo_file (Act_x_lseek_undo fd (p - offset)) f' = f"
proof -
  obtain d where d: "fd_descr f fd = Some d" and f': "f' = set_pos d (nat p) f" and p: "p = seek_target f d offset whence"
    using fs_seek_Some [OF assms] by blast
  show "fs_seek f fd 0 SEEK_CUR = Some (q, g) \<Longrightarrow> undo_file (Act_x_lseek_undo fd q) f' = f"
    using undo_lseek [OF d, of "nat p"] d f' by (auto simp: fs_seek_def [of f fd 0] seek_target_def Let_def)
  show "whence = SEEK_CUR \<Longrightarrow> undo_file (Act_x_lseek_undo fd (p - offset)) f' = f"
    using undo_lseek [OF d, of "nat p"] f' p by (simp add: seek_target_def)
qed

lemma x_lseek_compensated:
  assumes K: "posix_kernel K V" and tx: "in_transaction t s"
  shows "wp (x_lseek K fd offset whence result) (\<lambda>_. compensated V t s) (\<lambda>_. compensated V t s) s"
  unfolding x_lseek_def wp_retryable [OF tx]
proof (rule wp_fd_acquire, goal_cases)
  case (1 koa s1)
  show ?case
  proof (cases "koa = None")
    case True
    with 1 show ?thesis by (simp add: wp_tail quiet_intros acquired_compensated del: wp_bnd)
  next
    case False
    show ?thesis
      unfolding if_not_P [OF False]
    proof (rule wp_alloc [OF 1], goal_cases)
      case (1 s2)
      show ?case
      proof (cases "whence = SEEK_CUR")
        case True
        show ?thesis
          unfolding if_P [OF True] bnd_assoc bnd_ret_left prod.case
          by (subst wp_bnd, rule wp_lseek [OF K]; unfold sum.case,
              rule wp_effect [OF _ 1] wp_no_effect [OF _ 1];
              use True in \<open>simp add: quiet_intros val_of_def seek_result(2)\<close>)
      next
        case False
        have seek: "wp (bnd (txc_libc_lseek K fd offset whence) (\<lambda>r. case r of
            Inl e \<Rightarrow> bnd (linear_free t 8) (\<lambda>_. finish result e (- 1))
          | Inr pos \<Rightarrow>
              bnd (txc_tx_register_undo_action t (Act_x_lseek_undo fd (val_of old)) result
                     TXC_TX_REGULAR_UNDO_ACTION_ORDER) (\<lambda>_.
              bnd (txc_stats_txstat_increment t x_lseek_stat 1) (\<lambda>_.
              finish result 0 pos)))) (\<lambda>_. compensated V t s) (\<lambda>_. compensated V t s) u"
          if "touched t s2 u" "V (kern u) = V (kern s2)"
            "\<And>p f. fs_seek (V (kern s2)) fd offset whence = Some (p, f) \<Longrightarrow>
               undo_file (Act_x_lseek_undo fd (val_of old)) f = V (kern s2)" for old u
          by (subst wp_bnd, rule wp_lseek [OF K]; unfold sum.case,
              rule wp_effect [OF _ 1] wp_no_effect [OF _ 1]; use that in \<open>simp add: quiet_intros\<close>)
        show ?thesis
          unfolding if_not_P [OF False] bnd_assoc bnd_ret_left prod.case
          by (subst wp_bnd, rule wp_lseek [OF K]; rule seek)
            (auto simp: seek_zero val_of_def seek_result(1) dest: seek_zero(2))
      qed
    qed
  qed
qed

lemma wp_read:
  assumes "posix_kernel K V"
    and "\<And>e k'. V k' = V (kern s) \<Longrightarrow> Q (Inl e) (s\<lparr>errno := e, kern := k'\<rparr>)"
    and "\<And>bs k'. fd_descr (V (kern s)) fd = None \<Longrightarrow> V k' = V (kern s) \<Longrightarrow>
      Q (Inr bs) (s\<lparr>errno := errno s, kern := k'\<rparr>)"
    and "\<And>bs d k'. fd_descr (V (kern s)) fd = Some d \<Longrightarrow>
      bs = take (unat n) (drop (fd_pos (V (kern s)) d) (data_of (V (kern s)) d)) \<Longrightarrow>
      V k' = set_pos d (fd_pos (V (kern s)) d + length bs) (V (kern s)) \<Longrightarrow>
      Q (Inr bs) (s\<lparr>errno := errno s, kern := k'\<rparr>)"
  shows "wp (txc_libc_read K fd n) Q E s"
proof -
  obtain r k' where c: "sys_read K fd n (kern s) = (r, k')" by fastforce
  show ?thesis
  proof (cases r)
    case (Inl e)
    with posix_read(1) [OF assms(1)] assms(2) c show ?thesis by (simp add: txc_libc_read_def)
  next
    case (Inr bs)
    with posix_read(2) [OF assms(1), of fd n "kern s" bs k'] assms(3) [of k' bs] assms(4) [of _ bs k'] c
    show ?thesis by (auto simp: txc_libc_read_def fs_read_def Let_def split: option.splits)
  qed
qed

lemma wp_write:
  assumes "posix_kernel K V"
    and "\<And>e k'. V k' = V (kern s) \<Longrightarrow> Q (Inl e) (s\<lparr>errno := e, kern := k'\<rparr>)"
    and "\<And>bs k'. bs = take (length bs) buf \<Longrightarrow> V k' = fs_write (V (kern s)) fd bs \<Longrightarrow>
      Q (Inr (int (length bs))) (s\<lparr>errno := errno s, kern := k'\<rparr>)"
  shows "wp (txc_libc_write K fd buf) Q E s"
proof -
  obtain r k' where c: "sys_write K fd buf (kern s) = (r, k')" by fastforce
  show ?thesis
  proof (cases r)
    case (Inl e)
    with posix_write(1) [OF assms(1)] assms(2) c show ?thesis by (simp add: txc_libc_write_def)
  next
    case (Inr n)
    have n: "0 \<le> n" "n \<le> int (length buf)" and k': "V k' = fs_write (V (kern s)) fd (take (nat n) buf)"
      using posix_write(2) [OF assms(1)] c Inr by blast+
    have len: "int (length (take (nat n) buf)) = n" using n by simp
    have "take (nat n) buf = take (length (take (nat n) buf)) buf" using n by simp
    from assms(3) [OF this k'] c Inr show ?thesis unfolding len by (simp add: txc_libc_write_def)
  qed
qed

lemma x_read_compensated:
  assumes K: "posix_kernel K V" and tx: "in_transaction t s"
  shows "wp (x_read K fd nbyte result) (\<lambda>_. compensated V t s) (\<lambda>_. compensated V t s) s"
  unfolding x_read_def wp_retryable [OF tx]
proof (rule wp_fd_acquire, goal_cases)
  case (1 koa s1)
  show ?case
  proof (cases "koa = None")
    case True
    with 1 show ?thesis by (simp add: wp_tail quiet_intros acquired_compensated del: wp_bnd)
  next
    case False
    show ?thesis
      unfolding if_not_P [OF False]
    proof (rule wp_alloc [OF 1], goal_cases)
      case (1 s2)
      show ?case
        by (subst wp_bnd, rule wp_read [OF K]; unfold sum.case,
            rule wp_effect [OF _ 1] wp_no_effect [OF _ 1];
            simp add: quiet_intros undo_read undo_closed)
    qed
  qed
qed

lemma write_seq_compensated:
  assumes K: "posix_kernel K V" and s1: "acquired t s s1"
    and eof: "\<And>d. fd_descr (V (kern s)) fd = Some d \<Longrightarrow> fd_pos (V (kern s)) d = length (data_of (V (kern s)) d)"
  shows "wp (write_seq K t fd buf result) (\<lambda>_. compensated V t s) (\<lambda>_. compensated V t s) s1"
  unfolding write_seq_def
proof (rule wp_alloc [OF s1], goal_cases)
  case (1 s2)
  then have k: "kern s2 = kern s" by (simp add: acquired_def around_def)
  have undo: "undo_file (Act_x_write_seq_undo fd (int (length bs))) (fs_write (V (kern s)) fd bs) = V (kern s)" for bs
    using eof by (cases "fd_descr (V (kern s)) fd") (simp_all add: undo_closed fs_write_closed undo_write_seq)
  show ?case
    by (subst wp_bnd, rule wp_write [OF K]; unfold sum.case,
        rule wp_effect [OF _ 1] wp_no_effect [OF _ 1]; simp add: quiet_intros k undo)
qed

lemma wp_save_old:
  assumes K: "posix_kernel K V" and s1: "acquired t s s1"
    and fail: "\<And>e b u. touched t s1 u \<Longrightarrow> V (kern u) = V (kern s1) \<Longrightarrow> Q (Inl (e, b)) u"
    and fault: "\<And>e u. acquired t s u \<Longrightarrow> E e u"
    and saved: "\<And>old u. touched t s1 u \<Longrightarrow> (case fd_descr (V (kern s1)) fd of
        None \<Rightarrow> V (kern u) = V (kern s1)
      | Some d \<Rightarrow> old = take (unat n) (drop (fd_pos (V (kern s1)) d) (data_of (V (kern s1)) d)) \<and>
          V (kern u) = set_pos d (fd_pos (V (kern s1)) d + length old) (V (kern s1))) \<Longrightarrow> Q (Inr (Some old)) u"
  shows "wp (save_old K t fd n True) Q E s1"
  unfolding save_old_def if_True wp_bnd
proof (rule wp_mono [OF withinD [OF quiet_linear(1)]], goal_cases)
  case (1 p u)
  then have u: "touched t s1 u" "kern u = kern s1"
    using silent_around [OF 1, of t] silent_entries(1) [OF 1, of t]
    by (simp_all add: touched_def settled_def around_def)
  show ?case
  proof (cases "p = None")
    case True
    with u fail show ?thesis by simp
  next
    case False
    then show ?thesis
      unfolding if_not_P [OF False] wp_bnd
      by (intro wp_read [OF K]; simp add: u; intro fail saved; simp add: u)
  qed
next
  case (2 e u)
  then show ?case using s1 by (blast intro: fault acquired.trans acquired.silent_le)
qed

text \<open>Seeking back over the bytes that were saved.\<close>

lemma wp_rewind:
  assumes K: "posix_kernel K V" and u: "touched t s1 u"
    and read: "case fd_descr f fd of None \<Rightarrow> V (kern u) = f | Some d \<Rightarrow> V (kern u) = set_pos d (fd_pos f d + n) f"
    and Q: "\<And>v. touched t s1 v \<Longrightarrow> V (kern v) = f \<Longrightarrow> Q () v"
  shows "wp (mwhen (int n > 0) (bnd (txc_libc_lseek K fd (- int n) SEEK_CUR) (\<lambda>_. ret ()))) Q E u"
proof (cases "n = 0")
  case True
  with read Q u show ?thesis by (simp add: set_pos_same split: option.splits)
next
  case False
  have none: "V (kern u) = f" if "fs_seek (V (kern u)) fd (- int n) SEEK_CUR = None"
    using read that by (auto simp: fs_seek_back split: option.splits)
  have some: "g = f" if "fs_seek (V (kern u)) fd (- int n) SEEK_CUR = Some (p, g)" for p g
    using read that by (auto simp: fs_seek_back split: option.splits) (simp add: fs_seek_def)
  from False show ?thesis
    by (simp add: wp_lseek [OF K] Q u none some)
qed

lemma write_ovr_compensated:
  assumes K: "posix_kernel K V" and s1: "acquired t s s1" and len: "length buf < 2 ^ 32"
    and inside: "\<And>d. fd_descr (V (kern s)) fd = Some d \<Longrightarrow> fd_pos (V (kern s)) d \<le> length (data_of (V (kern s)) d)"
  shows "wp (write_ovr K t fd buf result True) (\<lambda>_. compensated V t s) (\<lambda>_. compensated V t s) s1"
  unfolding write_ovr_def Let_def
proof (rule wp_alloc [OF s1], goal_cases)
  case (1 s2)
  then have k: "kern s2 = kern s" by (simp add: acquired_def around_def)
  let ?f = "V (kern s)"
  have undo: "undo_file (Act_x_write_ovr_undo fd (Some old) (int (length bs))) (fs_write ?f fd bs) = ?f"
    if bs: "bs = take (length bs) buf"
      and old: "\<And>d. fd_descr ?f fd = Some d \<Longrightarrow> old = take (length buf) (drop (fd_pos ?f d) (data_of ?f d))" for bs old
  proof (cases "fd_descr ?f fd")
    case (Some d)
    have "length bs \<le> length buf" using bs by (metis length_take min.cobounded1 min.absorb_iff1)
    with undo_write_ovr [OF Some inside [OF Some] old [OF Some]] show ?thesis by blast
  qed (simp add: undo_closed fs_write_closed)
  show ?case
    unfolding wp_bnd [of "save_old K t fd (of_nat (length buf)) True"]
  proof (rule wp_save_old [OF K 1], goal_cases)
    case (1 e b u)
    then show ?case
      by (simp only: sum.case prod.case) (rule wp_no_effect [OF _ \<open>acquired t s s2\<close>]; simp add: quiet_intros)
  next
    case 2
    then show ?case by (rule acquired_compensated)
  next
    case (3 old u)
    have u: "touched t s2 u" by (rule 3)
    have rewind: "case fd_descr ?f fd of None \<Rightarrow> V (kern u) = ?f | Some d \<Rightarrow> V (kern u) = set_pos d (fd_pos ?f d + length old) ?f"
      using 3 k by (simp split: option.splits)
    have old: "old = take (length buf) (drop (fd_pos ?f d) (data_of ?f d))" if "fd_descr ?f fd = Some d" for d
      using 3(2) k that by (simp add: unat_of_nat_u32 [OF len])
    show ?case
      unfolding sum.case option.case wp_bnd [of "mwhen (int (length old) > 0) m" for m]
      by (rule wp_rewind [OF K u rewind], subst wp_bnd, rule wp_write [OF K]; unfold sum.case,
          rule wp_effect [OF _ 1] wp_no_effect [OF _ 1]; simp add: quiet_intros k undo old)
  qed
qed

lemma x_pthread_mutex_lock_compensated:
  assumes tx: "in_transaction t s"
  shows "wp (x_pthread_mutex_lock m result) (\<lambda>_. compensated V t s) (\<lambda>_. compensated V t s) s"
  unfolding x_pthread_mutex_lock_def wp_retryable [OF tx]
proof (rule wp_acquired_quiet [OF quiet_linear(3) acquired.refl], goal_cases)
  case (1 _ s1)
  show ?case
  proof (cases "app_mutex s1 m")
    case True
    have "wp (txc_tx_abort_transaction t TXC_ABORTREASON_BUSYTXLOCK) (\<lambda>_. compensated V t s) (\<lambda>_. compensated V t s) s1"
      by (rule wp_tail [OF quiet_abort acquired_compensated [OF 1]])
    with True show ?thesis by (simp add: pthread_mutex_trylock_def)
  next
    case False
    let ?u = "s1\<lparr>app_mutex := (app_mutex s1)(m := True)\<rparr>"
    have "wp (txc_tx_register_undo_action t (Act_x_pthread_mutex_lock_undo m) result TXC_TX_REGULAR_UNDO_ACTION_ORDER)
        (\<lambda>_. wp (finish result 0 0) (\<lambda>_. compensated V t s) (\<lambda>_. compensated V t s)) (\<lambda>_. compensated V t s) ?u"
      by (rule wp_compensate [OF 1])
        (use False in \<open>auto simp: settled_def world_def undo_world_def undo_file.simps fun_upd_idem intro!: wp_tail quiet_intros\<close>)
    with False show ?thesis by (simp add: pthread_mutex_trylock_def set_mutex_def)
  qed
qed

section \<open>Transactions\<close>

datatype xcall =
    Call_lseek int int int "addr option"
  | Call_read int u32 "addr option"
  | Call_write_seq int "byte list" "addr option"
  | Call_write_ovr int "byte list" "addr option"
  | Call_mutex_lock addr "addr option"

fun call :: "'k kernel \<Rightarrow> xcall \<Rightarrow> (('k, 'z) x_state_scheme, unit) prog" where
  "call K (Call_lseek fd offset whence result) = bnd (x_lseek K fd offset whence result) (\<lambda>_. ret ())"
| "call K (Call_read fd nbyte result) = bnd (x_read K fd nbyte result) (\<lambda>_. ret ())"
| "call K (Call_write_seq fd buf result) = bnd (x_write_seq K fd buf result) (\<lambda>_. ret ())"
| "call K (Call_write_ovr fd buf result) = bnd (x_write_ovr K fd buf result) (\<lambda>_. ret ())"
| "call K (Call_mutex_lock m result) = bnd (x_pthread_mutex_lock m result) (\<lambda>_. ret ())"

text \<open>
  When the action a call registers undoes it: a sequential write must be at the
  end of the file, and an overwriting one must not start behind it.
\<close>

fun undoable :: "files \<Rightarrow> xcall \<Rightarrow> bool" where
  "undoable f (Call_write_seq fd buf result) \<longleftrightarrow>
     (case fd_descr f fd of None \<Rightarrow> True | Some d \<Rightarrow> fd_pos f d = length (data_of f d))"
| "undoable f (Call_write_ovr fd buf result) \<longleftrightarrow> length buf < 2 ^ 32 \<and>
     (case fd_descr f fd of None \<Rightarrow> True | Some d \<Rightarrow> fd_pos f d \<le> length (data_of f d))"
| "undoable f _ \<longleftrightarrow> True"

text \<open>The condition holds whenever a call of the sequence is made.\<close>

primrec undoable_run :: "'k kernel \<Rightarrow> ('k \<Rightarrow> files) \<Rightarrow> xcall list \<Rightarrow> ('k, 'z) x_state_scheme \<Rightarrow> bool" where
  "undoable_run K V [] s \<longleftrightarrow> True"
| "undoable_run K V (c # cs) s \<longleftrightarrow> undoable (V (kern s)) c \<and>
     (case call K c s of Ok _ s' \<Rightarrow> undoable_run K V cs s' | Fault _ _ \<Rightarrow> True)"

lemma x_write_compensated:
  assumes K: "posix_kernel K V" and tx: "in_transaction t s"
  shows "undoable (V (kern s)) (Call_write_seq fd buf result) \<Longrightarrow>
      wp (x_write_seq K fd buf result) (\<lambda>_. compensated V t s) (\<lambda>_. compensated V t s) s"
    and "undoable (V (kern s)) (Call_write_ovr fd buf result) \<Longrightarrow>
      wp (x_write_ovr K fd buf result) (\<lambda>_. compensated V t s) (\<lambda>_. compensated V t s) s"
proof -
  have body: "wp (bnd (fd_acquire t fd) (\<lambda>koa. if koa = None then finish result EBADF (- 1) else m))
      (\<lambda>_. compensated V t s) (\<lambda>_. compensated V t s) s"
    if "\<And>s1. acquired t s s1 \<Longrightarrow> wp m (\<lambda>_. compensated V t s) (\<lambda>_. compensated V t s) s1" for m
    by (rule wp_fd_acquire) (simp add: that wp_tail quiet_intros acquired_compensated)
  show "wp (x_write_seq K fd buf result) (\<lambda>_. compensated V t s) (\<lambda>_. compensated V t s) s"
    if "undoable (V (kern s)) (Call_write_seq fd buf result)"
    unfolding x_write_seq_def x_write_def wp_retryable [OF tx]
    using that by (simp del: wp_bnd, intro body write_seq_compensated [OF K]) simp_all
  show "wp (x_write_ovr K fd buf result) (\<lambda>_. compensated V t s) (\<lambda>_. compensated V t s) s"
    if "undoable (V (kern s)) (Call_write_ovr fd buf result)"
    unfolding x_write_ovr_def x_write_def wp_retryable [OF tx]
    using that by (simp del: wp_bnd cong: if_cong, intro body write_ovr_compensated [OF K]) simp_all
qed

lemma call_compensated:
  assumes "posix_kernel K V" "in_transaction t s" "undoable (V (kern s)) c"
  shows "wp (call K c) (\<lambda>_. compensated V t s) (\<lambda>_. compensated V t s) s"
  using assms
  by (cases c) (simp_all add: x_lseek_compensated x_read_compensated x_write_compensated
      x_pthread_mutex_lock_compensated del: undoable.simps)

lemma calls_compensated:
  assumes "posix_kernel K V" "in_transaction t s" "undoable_run K V cs s"
  shows "wp (for_each cs (call K)) (\<lambda>_. compensated V t s) (\<lambda>_. compensated V t s) s"
  using assms(2,3)
proof (induction cs arbitrary: s)
  case Nil
  then show ?case by (simp add: compensated.refl)
next
  case (Cons c cs)
  from Cons.prems have c: "wp (call K c) (\<lambda>_. compensated V t s) (\<lambda>_. compensated V t s) s"
    by (simp add: call_compensated [OF assms(1)])
  show ?case
  proof (cases "call K c s")
    case (Ok x s')
    with c have s': "compensated V t s s'" by (simp add: wp_def)
    then have "in_transaction t s'" using Cons.prems settled_in_transaction by (auto simp: compensated_def)
    with Cons.IH [of s'] Cons.prems Ok have "wp (for_each cs (call K)) (\<lambda>_. compensated V t s') (\<lambda>_. compensated V t s') s'"
      by simp
    then have "wp (for_each cs (call K)) (\<lambda>_. compensated V t s) (\<lambda>_. compensated V t s) s'"
      by (rule wp_mono) (erule compensated.trans [OF s'])+
    with Ok show ?thesis by (simp add: wp_def bnd_def)
  next
    case (Fault e s')
    with c show ?thesis by (simp add: wp_def bnd_def)
  qed
qed

section \<open>Rolling back\<close>

fun final_state :: "('s, 'a) outcome \<Rightarrow> 's" where
  "final_state (Ok _ s) = s"
| "final_state (Fault _ s) = s"

lemma wp_final: "wp m (\<lambda>_. P) (\<lambda>_. P) s \<longleftrightarrow> P (final_state (m s))"
  by (simp add: wp_def split: outcome.split)

text \<open>What a transaction can change outside the library: the kernel and the objects of the application.\<close>

definition app :: "('k, 'z) x_state_scheme \<Rightarrow>
    'k \<times> (addr \<Rightarrow> bool) \<times> (addr \<Rightarrow> control_block) \<times> (addr \<times> addr) list" where
  "app s = (kern s, app_mutex s, control_blocks s, started s)"

definition same_app :: "('k, 'z) x_state_scheme \<Rightarrow> ('k, 'z) x_state_scheme \<Rightarrow> bool" where
  "same_app s s' \<longleftrightarrow> app s' = app s"

interpretation app_frame: library_frame same_app
  by unfold_locales (auto simp: same_app_def app_def silent_def outside_def)

lemma run_list_compensation:
  assumes K: "posix_kernel K V" and "\<And>e. e \<in> set es \<Longrightarrow> compensation (ae_function e)"
  shows "wp (run_list (exec_action K) es acc)
    (\<lambda>_ s'. world V s' = fold (\<lambda>e. undo_world (ae_function e)) es (world V s)) (\<lambda>_ _. False) s"
  using assms(2)
proof (induction es arbitrary: acc s)
  case Nil
  then show ?case by simp
next
  case (Cons e es)
  have store: "wp (store_int p v) (\<lambda>_ u. world V u = w) (\<lambda>_ _. False) s'" if "world V s' = w" for p v w and s' :: "('a, 'b) x_state_scheme"
    using that by (simp add: store_int_def world_def split: option.split)
  have "wp (run_entry (exec_action K) e acc) (\<lambda>_ s'. world V s' = undo_world (ae_function e) (world V s)) (\<lambda>_ _. False) s"
    unfolding run_entry_def split_beta wp_bnd
    by (rule wp_mono [OF exec_compensation [OF K]]) (use Cons.prems in \<open>auto intro: wp_mono [OF store]\<close>)
  then show ?case
    unfolding run_list.simps wp_bnd
  proof (rule wp_mono, goal_cases)
    case (1 acc' s')
    with Cons.IH [of acc' s'] Cons.prems show ?case by simp
  qed
qed

lemma quiet_manager_run:
  assumes "list_all manager_entry es"
  shows "quiet (run_list (exec_action K) es acc)"
  using assms
proof (induction es arbitrary: acc)
  case (Cons e es)
  from Cons.prems have "quiet (exec_action K (ae_function e))"
    by (auto simp: manager_entry_def quiet_intros)
  with Cons show ?case
    unfolding run_list.simps run_entry_def split_beta by (intro quiet_intros) simp_all
qed (simp add: quiet_intros)

lemma end_of_transaction:
  "within same_app (bnd (txc_tx_init t) (\<lambda>_. bnd (txd_set t f) (\<lambda>_. txc_fm_handle_commit_failure t e)))"
  "within same_app (bnd (txc_tx_init t) (\<lambda>_. txc_fm_handle_undo_failure t e))"
proof -
  have set: "within same_app (txd_set t f)" for f by (simp add: within_def same_app_def app_def)
  show "within same_app (bnd (txc_tx_init t) (\<lambda>_. bnd (txd_set t f) (\<lambda>_. txc_fm_handle_commit_failure t e)))"
    unfolding txc_tx_init_def txc_fm_handle_commit_failure_def
    by (intro app_frame.within_rules set app_frame.within_quiet quiet_txd_get quiet_on_bufmgr quiet_store_int)
  show "within same_app (bnd (txc_tx_init t) (\<lambda>_. txc_fm_handle_undo_failure t e))"
    unfolding txc_tx_init_def txc_fm_handle_undo_failure_def
    by (intro app_frame.within_rules set app_frame.within_quiet quiet_txd_get quiet_on_bufmgr quiet_store_int)
qed

lemma by_level_regular:
  assumes "list_all (\<lambda>e. manager_entry e \<or> ae_order e = 0) es"
  shows "\<exists>rest. by_level 4 es = filter (\<lambda>e. ae_order e = 0) es @ rest \<and> list_all manager_entry rest"
proof (intro exI conjI)
  let ?level = "\<lambda>k. filter (\<lambda>e. ae_order e = k) es"
  show "by_level 4 es = ?level 0 @ ?level 1 @ ?level 2 @ ?level 3"
    by (simp add: by_level_def upt_rec numeral_eq_Suc)
  show "list_all manager_entry (?level 1 @ ?level 2 @ ?level 3)"
    using assms by (auto simp: list_all_iff)
qed

definition regular_list :: "txc_tx_action_list_entry list \<Rightarrow> bool" where
  "regular_list es \<longleftrightarrow> list_all (\<lambda>e. manager_entry e \<or> ae_order e = 0) es"

text \<open>
  At the end of a transaction the regular actions run first; what they bring
  about outside the library is what is left at the end.
\<close>

lemma wp_end:
  assumes "regular_list es"
    and first: "wp (run_list (exec_action K) (filter (\<lambda>e. ae_order e = 0) es) (0, 0)) (\<lambda>_. P) (\<lambda>_ _. False) s"
    and stable: "\<And>u u'. P u \<Longrightarrow> app u' = app u \<Longrightarrow> P u'" and tail: "\<And>e. within same_app (f e)"
  shows "wp (bnd (run_list (exec_action K) (by_level 4 es) (0, 0)) (\<lambda>(_, e). f e)) (\<lambda>_. P) (\<lambda>_. P) s"
proof -
  obtain rest where rest: "by_level 4 es = filter (\<lambda>e. ae_order e = 0) es @ rest" "list_all manager_entry rest"
    using by_level_regular assms(1) unfolding regular_list_def by blast
  have "within same_app (bnd (run_list (exec_action K) rest acc) (\<lambda>(_, e). f e))" for acc
    by (intro app_frame.within_bnd [OF app_frame.within_quiet [OF quiet_manager_run [OF rest(2)]]]
        app_frame.within_prod tail)
  then have "wp (bnd (run_list (exec_action K) rest acc) (\<lambda>(_, e). f e)) (\<lambda>_. P) (\<lambda>_. P) u" if "P u" for acc u
    by (rule wp_mono [OF withinD]) (use that stable in \<open>auto simp: same_app_def\<close>)
  then show ?thesis
    unfolding rest(1) run_list_append wp_bnd by (intro wp_mono [OF first]) (simp_all add: wp_bnd)
qed

lemma regular_levels: "regular_list es \<Longrightarrow> e \<in> set es \<Longrightarrow> 0 \<le> ae_order e \<and> ae_order e < int 4"
  by (auto simp: regular_list_def list_all_iff manager_entry_def)

lemma commit_outcome:
  assumes usable: "list_usable commit_action_list t s" and regular: "regular_list (entries commit_action_list t s)"
    and first: "wp (run_list (exec_action K) (filter (\<lambda>e. ae_order e = 0) (entries commit_action_list t s)) (0, 0))
      (\<lambda>_. P) (\<lambda>_ _. False) s"
    and stable: "\<And>u u'. P u \<Longrightarrow> app u' = app u \<Longrightarrow> P u'"
  shows "wp (commit_transaction K t) (\<lambda>_. P) (\<lambda>_. P) s"
proof -
  have run: "run_actions upwards commit_action_list (exec_action K) t s =
      run_list (exec_action K) (by_level 4 (entries commit_action_list t s)) (0, 0) s"
    using commit_runner.run_actions_list [of s t 4 K] usable regular_levels [OF regular]
    by (simp add: entries_def list_usable_def list_ready_def upwards_def map_nth)
  from wp_end [OF regular first stable end_of_transaction(1)] show ?thesis
    unfolding commit_transaction_def tx_generic_commit_action_def wp_def bnd_def [of "run_actions d l x y" for d l x y]
      bnd_def [of "run_list x y z" for x y z] run .
qed

lemma abort_outcome:
  assumes usable: "list_usable undo_action_list t s" and regular: "regular_list (entries undo_action_list t s)"
    and first: "wp (run_list (exec_action K) (rev (filter (\<lambda>e. ae_order e = 0) (entries undo_action_list t s))) (0, 0))
      (\<lambda>_. P) (\<lambda>_ _. False) s"
    and stable: "\<And>u u'. P u \<Longrightarrow> app u' = app u \<Longrightarrow> P u'"
  shows "wp (abort_transaction K t) (\<lambda>_. P) (\<lambda>_. P) s"
proof -
  have run: "run_actions downwards undo_action_list (exec_action K) t s =
      run_list (exec_action K) (by_level 4 (rev (entries undo_action_list t s))) (0, 0) s"
    using undo_runner.run_actions_list [of s t 4 K] usable regular_levels [OF regular]
    by (simp add: entries_def list_usable_def list_ready_def downwards_def map_nth_rev)
  have rev: "regular_list (rev (entries undo_action_list t s))" using regular by (simp add: regular_list_def)
  from wp_end [OF rev first [unfolded rev_filter] stable end_of_transaction(2)] show ?thesis
    unfolding abort_transaction_def tx_generic_undo_action_def wp_def bnd_def [of "run_actions d l x y" for d l x y]
      bnd_def [of "run_list x y z" for x y z] run .
qed

lemma abort_world:
  assumes K: "posix_kernel K V" and usable: "list_usable undo_action_list t s"
    and adm: "list_all admissible (entries undo_action_list t s)"
  shows "world V (final_state (abort_transaction K t s)) = undo_entries (entries undo_action_list t s) (world V s)"
proof -
  let ?L = "entries undo_action_list t s"
  have "compensation (ae_function e)" if "e \<in> set (rev (filter (\<lambda>e. ae_order e = 0) ?L))" for e
    using adm that by (auto simp: list_all_iff admissible_def manager_entry_def)
  then have first: "wp (run_list (exec_action K) (rev (filter (\<lambda>e. ae_order e = 0) ?L)) (0, 0))
      (\<lambda>_ s'. world V s' = undo_entries ?L (world V s)) (\<lambda>_ _. False) s"
    unfolding undo_entries_def by (rule run_list_compensation [OF K])
  have "regular_list ?L" using adm by (auto simp: regular_list_def list_all_iff admissible_def)
  from abort_outcome [OF usable this first] show ?thesis by (simp add: world_def app_def wp_final)
qed


section \<open>Witnesses\<close>

lemma sample_x_state_simps [simp]:
  "l_txd sample_x_state = Some 256" "itm_mode sample_x_state = (\<lambda>_. inRetryableTransaction)"
  "kern sample_x_state = sample_files" "app_mutex sample_x_state = (\<lambda>_. False)"
  "txds sample_x_state = (\<lambda>_. sample_txd\<lparr>txstat := 64, threadstat := 128\<rparr>)"
  "map_mutex sample_x_state = (\<lambda>_. False)" "map_koa sample_x_state = (\<lambda>fd. if fd = 3 then Some 4096 else None)"
  "koas sample_x_state = (\<lambda>_. sample_koa TXC_KOA_IS_FILE 1 [3])"
  "sentinels sample_x_state = (\<lambda>a. free_sentinel (int (unat a)))" "bufmgr sample_x_state = sample_linear"
  "realloc_ok sample_x_state = (\<lambda>_. True)" "runtime_settings sample_x_state = DEFVALUES\<lparr>statistics := True\<rparr>"
  "errno sample_x_state = 0" "indeterminate sample_x_state = 0"
  by (simp_all add: sample_x_state_def txmgr_state.defs koa_state.defs x_state.defs sample_koa_state_def
      stats_state.defs sample_stats_state_def)

lemmas sentinel_run_defs = txc_sentinel_tryacquire_def sn_get_def sn_set_def sentinel_acquire_retryable_def
  register_sentinelmgr_undo_action_def register_sentinelmgr_commit_action_def lock_synch_def unlock_synch_def
  sentinel_attach_def enlist_main_def enlist_sentinel_def acquire_on_retry_def spin_free txc_sentinel_is_enlisted_def

lemmas registration_run_defs = txc_tx_register_undo_action_def txc_tx_register_commit_action_def txd_get_def txd_set_def
  register_action_def tmsystem_register_generic_undo_action_def tmsystem_register_generic_commit_action_def
  txc_tx_get_txd_def txc_tx_get_xactstate_def tmsystem_get_xactstate_def with_xactstate_def

lemmas library_run_defs = fd_acquire_def txc_koa_lock_fd_def txc_koa_unlock_fd_def map_lock_def map_unlock_def map_bounds_def
  txc_koa_lookup_fd2koa_def txc_koa_get_sentinel_def koa_get_def linear_malloc_def on_bufmgr_def
  txc_buffer_linear_malloc_def finish_def store_int_def txc_stats_txstat_increment_def txc_stats_txstat_get_def
  txc_stats_txstat_set_def ts_set_def

lemmas kernel_run_defs = txc_libc_defs libc_call_def sample_kernel_def fs_read_def fs_write_def fs_seek_def
  seek_target_def data_of_def set_pos_def set_data_def overwrite_def resize_def

lemmas sample_run_defs = sentinel_run_defs registration_run_defs library_run_defs kernel_run_defs
  sample_txd_def free_sentinel_def sample_linear_def sample_files_def prog_simps

lemma sample_write_run:
  "\<exists>u. for_each [Call_write_ovr 3 [20, 21] None, Call_lseek 3 0 SEEK_SET None] (call sample_kernel) sample_x_state = Ok () u \<and>
     node_data (kern u) 0 = [10, 20, 21, 13, 14] \<and> length (entries undo_action_list 256 u) = 3"
  by (simp add: x_write_ovr_def x_write_def write_ovr_def save_old_def x_lseek_def entries_def sample_run_defs)


end
