(* ===== verification/Deferral.thy ===== *)
theory Deferral
  imports Rollback
begin

text \<open>
  Deferred xCalls: inside a transaction, writing to a pipe and synchronising a
  file only register a commit action.  The theory shows that the kernel is not
  touched before the commit, that the commit makes exactly the calls that
  succeeded, in program order, and that after a rollback it is as if they had
  never been made.
\<close>

section \<open>Deferred calls\<close>

datatype deferred_call =
    Deferred_write_pipe int "byte list" "addr option"
  | Deferred_fsync int "addr option"
  | Deferred_fdatasync int "addr option"

fun dcall :: "'k kernel \<Rightarrow> deferred_call \<Rightarrow> (('k, 'z) x_state_scheme, int) prog" where
  "dcall K (Deferred_write_pipe fd buf result) = x_write_pipe K fd buf result"
| "dcall K (Deferred_fsync fd result) = x_fsync K fd result"
| "dcall K (Deferred_fdatasync fd result) = x_fdatasync K fd result"

fun action_of :: "deferred_call \<Rightarrow> action" where
  "action_of (Deferred_write_pipe fd buf result) = Act_x_write_pipe_commit fd buf"
| "action_of (Deferred_fsync fd result) = Act_x_fsync_commit fd"
| "action_of (Deferred_fdatasync fd result) = Act_x_fdatasync_commit fd"

text \<open>The system call itself.\<close>

fun effect_of :: "'k kernel \<Rightarrow> deferred_call \<Rightarrow> 'k \<Rightarrow> 'k" where
  "effect_of K (Deferred_write_pipe fd buf result) k = snd (sys_write K fd buf k)"
| "effect_of K (Deferred_fsync fd result) k = snd (sys_fsync K fd k)"
| "effect_of K (Deferred_fdatasync fd result) k = snd (sys_fdatasync K fd k)"

text \<open>A length that a 32-bit \<^verbatim>\<open>ssize_t\<close> can report.\<close>

fun reportable :: "deferred_call \<Rightarrow> bool" where
  "reportable (Deferred_write_pipe fd buf result) \<longleftrightarrow> length buf < 2 ^ 31"
| "reportable _ \<longleftrightarrow> True"

definition deferred :: "addr \<Rightarrow> deferred_call list \<Rightarrow> ('k, 'z) x_state_scheme \<Rightarrow> ('k, 'z) x_state_scheme \<Rightarrow> bool" where
  "deferred t cs s s' \<longleftrightarrow> around t s' = around t s \<and> grows undo_action_list t (list_all manager_entry) s s' \<and>
     grows commit_action_list t (\<lambda>ys. list_all (\<lambda>e. manager_entry e \<or> ae_order e = 0) ys \<and>
       map ae_function (filter (\<lambda>e. ae_order e = 0) ys) = map action_of cs) s s'"

lemma deferred_trans:
  assumes "deferred t cs s s'" "deferred t ds s' s''"
  shows "deferred t (cs @ ds) s s''"
  using assms unfolding deferred_def
  by (elim conjE, intro conjI)
    (simp, erule (1) grows_all_trans, erule grows_trans, assumption, simp)

lemma acquired_deferred:
  assumes "acquired t s s'"
  shows "deferred t [] s s'"
proof -
  have "filter (\<lambda>e. ae_order e = 0) ys = []" if "list_all manager_entry ys" for ys
    using that by (auto simp: filter_empty_conv list_all_iff manager_entry_def)
  with assms show ?thesis
    by (auto simp: deferred_def acquired_def list_all_iff elim!: grows_mono)
qed

lemma registers_deferred:
  assumes "registers commit_action_list undo_action_list t (entry_of (action_of c, p, 0)) s s'"
  shows "deferred t [c] s s'"
proof -
  have a: "around t s' = around t s" and u: "undo_action_list (txds s' t) = undo_action_list (txds s t)"
    and g: "grows commit_action_list t (\<lambda>ys. ys = [entry_of (action_of c, p, 0)]) s s'"
    using assms by (simp_all add: registers_def)
  from g have "grows commit_action_list t (\<lambda>ys. list_all (\<lambda>e. manager_entry e \<or> ae_order e = 0) ys \<and>
       map ae_function (filter (\<lambda>e. ae_order e = 0) ys) = map action_of [c]) s s'"
    by (rule grows_mono) (simp add: entry_of_def)
  with a u grows_same [OF _ around_realloc [OF a], where sel = undo_action_list] show ?thesis
    by (simp add: deferred_def)
qed

text \<open>After the registration only quiet steps follow.\<close>

lemma wp_defer:
  assumes "acquired t s u" "quiet m" "\<And>s'. deferred t [c] s s' \<Longrightarrow> wp m (\<lambda>r s'. r = v) (\<lambda>_ _. True) s'"
  shows "wp (bnd (txc_tx_register_commit_action t (action_of c) p TXC_TX_REGULAR_COMMIT_ACTION_ORDER) (\<lambda>_. m))
    (\<lambda>r s'. r = v \<and> deferred t [c] s s') (\<lambda>_ s'. around t s' = around t s) u"
  unfolding wp_bnd
proof (rule wp_mono [OF withinD [OF register_commit_within]], goal_cases)
  case (1 _ s1)
  then have d: "deferred t [c] s s1"
    using deferred_trans [OF acquired_deferred [OF assms(1)] registers_deferred] by fastforce
  have "wp m (\<lambda>_. silent s1) (\<lambda>_. silent s1) s1" by (rule withinD [OF assms(2)])
  moreover have "deferred t [c] s s'" if "silent s1 s'" for s'
    using deferred_trans [OF d acquired_deferred [OF acquired.silent_le [OF that]]] by simp
  ultimately show ?case
    using assms(3) [OF d] by (auto simp: wp_def deferred_def split: outcome.splits)
next
  case (2 e s1)
  then show ?case using assms(1) by (simp add: registers_def acquired_def)
qed

lemma wp_finish:
  assumes "\<And>s'. silent s s' \<Longrightarrow> Q r s'"
  shows "wp (finish p e r) Q E s"
  using assms by (simp add: finish_def store_int_def silent_def outside_def split: option.split)

lemma wp_quiet_acquired:
  assumes "quiet m" "acquired t s u" "\<And>a s'. acquired t s s' \<Longrightarrow> Q a s'"
  shows "wp m Q (\<lambda>_ s'. around t s' = around t s) u"
  by (rule acquired.wp_within [OF acquired.within_quiet [OF assms(1)] assms(2)])
    (auto intro: assms(3) simp: acquired_def)

text \<open>A call that is not made leaves nothing behind.\<close>

lemma wp_refused:
  assumes "acquired t s u"
  shows "wp (finish p e (- 1)) (\<lambda>r s'. deferred t (if r = - 1 then [] else [c]) s s') E u"
  by (rule wp_finish) (simp add: acquired_deferred acquired.trans [OF assms acquired.silent_le])

lemma quiet_after: "quiet (bnd (txc_stats_txstat_increment t st n) (\<lambda>_. finish p 0 v))"
    "quiet (bnd (txc_koa_unlock_fd fd) (\<lambda>_. bnd (txc_stats_txstat_increment t st n) (\<lambda>_. finish p 0 v)))"
  by (intro quiet_intros)+

lemma wp_after: "wp (bnd (txc_stats_txstat_increment t st n) (\<lambda>_. finish p 0 v)) (\<lambda>r s'. r = v) (\<lambda>_ _. True) s"
    "wp (bnd (txc_koa_unlock_fd fd) (\<lambda>_. bnd (txc_stats_txstat_increment t st n) (\<lambda>_. finish p 0 v)))
       (\<lambda>r s'. r = v) (\<lambda>_ _. True) s"
  by (simp_all add: finish_def wp_def bnd_def ret_def split: outcome.split)

lemma sint_length: "n < 2 ^ 31 \<Longrightarrow> sint (of_nat n :: u32) = int n"
  by (simp add: signed_of_nat signed_take_bit_int_eq_self)

definition made :: "addr \<Rightarrow> deferred_call \<Rightarrow> ('k, 'z) x_state_scheme \<Rightarrow> int \<Rightarrow> ('k, 'z) x_state_scheme \<Rightarrow> bool" where
  "made t c s r s' \<longleftrightarrow> deferred t (if r = - 1 then [] else [c]) s s'"

lemma wp_refused_made:
  "acquired t s u \<Longrightarrow> wp (finish p e (- 1)) (made t c s) (\<lambda>_ s'. around t s' = around t s) u"
  unfolding made_def by (rule wp_refused)

lemma acquired_around: "acquired t s s' \<Longrightarrow> around t s' = around t s"
  by (simp add: acquired_def)

lemma wp_acquire_made:
  assumes "\<And>s'. acquired t s s' \<Longrightarrow> wp m (made t c s) (\<lambda>_ s'. around t s' = around t s) s'"
  shows "wp (bnd (fd_acquire t fd) (\<lambda>koa. if koa = None then finish p e (- 1) else m))
    (made t c s) (\<lambda>_ s'. around t s' = around t s) s"
  unfolding wp_bnd
  by (rule acquired.wp_within [OF acquired.within_fd_acquire acquired.refl])
    (simp_all add: wp_refused_made acquired_around assms)

lemma wp_alloc_made:
  assumes "acquired t s u" "\<And>s'. acquired t s s' \<Longrightarrow> wp m (made t c s) (\<lambda>_ s'. around t s' = around t s) s'"
    and "\<And>s'. acquired t s s' \<Longrightarrow> wp m' (made t c s) (\<lambda>_ s'. around t s' = around t s) s'"
  shows "wp (bnd (linear_malloc t n) (\<lambda>q. if q = None then m' else m))
    (made t c s) (\<lambda>_ s'. around t s' = around t s) u"
  unfolding wp_bnd by (rule wp_quiet_acquired [OF quiet_linear(1) assms(1)]) (simp add: assms(2,3))

lemma wp_freed_made:
  "acquired t s u \<Longrightarrow> wp (bnd (linear_free t n) (\<lambda>_. finish p e (- 1))) (made t c s) (\<lambda>_ s'. around t s' = around t s) u"
  unfolding wp_bnd by (rule wp_quiet_acquired [OF quiet_linear(2)]) (auto intro: wp_refused_made)

lemma wp_register_made:
  assumes "acquired t s u" "quiet m" "\<And>s'. wp m (\<lambda>r s'. r = v) (\<lambda>_ _. True) s'" "v \<noteq> - 1" "a = action_of c"
  shows "wp (bnd (txc_tx_register_commit_action t a p TXC_TX_REGULAR_COMMIT_ACTION_ORDER) (\<lambda>_. m))
    (made t c s) (\<lambda>_ s'. around t s' = around t s) u"
  unfolding assms(5) by (rule wp_mono [OF wp_defer [OF assms(1-3)]]) (use assms(4) in \<open>auto simp: made_def\<close>)

lemma dcall_made:
  assumes tx: "in_transaction t s" and c: "reportable c"
  shows "wp (dcall K c) (made t c s) (\<lambda>_ s'. around t s' = around t s) s"
proof (cases c)
  case (Deferred_write_pipe fd buf result)
  then show ?thesis
    unfolding Deferred_write_pipe dcall.simps x_write_pipe_def wp_retryable [OF tx]
    by (intro wp_acquire_made wp_alloc_made wp_refused_made wp_freed_made wp_register_made [OF _ quiet_after(1) wp_after(1)])
      (use c Deferred_write_pipe in \<open>simp_all add: sint_length\<close>)
next
  case (Deferred_fsync fd result)
  show ?thesis
    unfolding Deferred_fsync dcall.simps x_fsync_def wp_retryable [OF tx] linear_malloc_or_exit_def
    apply (intro wp_acquire_made)
    apply (subst wp_bnd, rule wp_quiet_acquired, intro quiet_intros, assumption)
    by (rule wp_register_made [OF _ quiet_after(2) wp_after(2)]) simp_all
next
  case (Deferred_fdatasync fd result)
  show ?thesis
    unfolding Deferred_fdatasync dcall.simps x_fdatasync_def wp_retryable [OF tx] linear_malloc_or_exit_def
    apply (intro wp_acquire_made)
    apply (subst wp_bnd, rule wp_quiet_acquired, intro quiet_intros, assumption)
    by (rule wp_register_made [OF _ quiet_after(2) wp_after(2)]) simp_all
qed

section \<open>Sequences of deferred calls\<close>

definition made_calls :: "deferred_call list \<Rightarrow> int list \<Rightarrow> deferred_call list" where
  "made_calls cs rs = map fst (filter (\<lambda>(c, r). r \<noteq> - 1) (zip cs rs))"

lemma around_in_transaction: "around t s' = around t s \<Longrightarrow> in_transaction t s' = in_transaction t s"
  by (simp add: around_def in_transaction_def)

lemma dcalls_made:
  assumes "in_transaction t s" "list_all reportable cs"
  shows "wp (map_prog (dcall K) cs) (\<lambda>rs s'. length rs = length cs \<and> deferred t (made_calls cs rs) s s')
    (\<lambda>_ s'. around t s' = around t s) s"
  using assms
proof (induction cs arbitrary: s)
  case Nil
  then show ?case by (simp add: made_calls_def acquired_deferred acquired.refl)
next
  case (Cons c cs)
  have "wp (dcall K c) (made t c s) (\<lambda>_ s'. around t s' = around t s) s"
    using Cons.prems by (simp add: dcall_made)
  then show ?case
    unfolding map_prog.simps wp_bnd
  proof (rule wp_mono, goal_cases)
    case (1 r s1)
    then have d: "deferred t (if r = - 1 then [] else [c]) s s1" by (simp add: made_def)
    then have a: "around t s1 = around t s" by (simp add: deferred_def)
    with Cons.prems have "in_transaction t s1" using around_in_transaction [OF a] by simp
    with Cons.IH [of s1] Cons.prems
    have "wp (map_prog (dcall K) cs) (\<lambda>rs s'. length rs = length cs \<and> deferred t (made_calls cs rs) s1 s')
        (\<lambda>_ s'. around t s' = around t s1) s1" by simp
    then show ?case
      by (rule wp_mono) (use a deferred_trans [OF d] in \<open>auto simp: made_calls_def\<close>)
  qed
qed

lemma run_list_deferred:
  assumes "map ae_function es = map action_of cs"
  shows "wp (run_list (exec_action K) es acc) (\<lambda>_ s'. kern s' = fold (effect_of K) cs (kern s)) (\<lambda>_ _. False) s"
  using assms
proof (induction es arbitrary: cs acc s)
  case Nil
  then show ?case by simp
next
  case (Cons e es)
  then obtain c ds where cs: "cs = c # ds" "ae_function e = action_of c" "map ae_function es = map action_of ds" by auto
  have "wp (run_entry (exec_action K) e acc) (\<lambda>_ s'. kern s' = effect_of K c (kern s)) (\<lambda>_ _. False) s"
    using cs(2)
    by (cases c) (auto simp: run_entry_def split_beta x_write_pipe_commit_def x_fsync_commit_def x_fdatasync_commit_def
        txc_libc_defs store_int_def split: prod.splits option.splits)
  then show ?case
    unfolding run_list.simps wp_bnd
  proof (rule wp_mono, goal_cases)
    case (1 acc' s')
    with Cons.IH [OF cs(3), of acc' s'] cs(1) show ?case by simp
  qed
qed

section \<open>Commit and rollback\<close>

lemma commit_kern:
  assumes "list_usable commit_action_list t s" "regular_list (entries commit_action_list t s)"
    and "map ae_function (filter (\<lambda>e. ae_order e = 0) (entries commit_action_list t s)) = map action_of cs"
  shows "kern (final_state (commit_transaction K t s)) = fold (effect_of K) cs (kern s)"
  using commit_outcome [OF assms(1,2) run_list_deferred [OF assms(3)]] by (simp add: app_def wp_final)

lemma abort_kern:
  assumes "list_usable undo_action_list t s" and L: "list_all manager_entry (entries undo_action_list t s)"
  shows "kern (final_state (abort_transaction K t s)) = kern s"
proof -
  have none: "filter (\<lambda>e. ae_order e = 0) (entries undo_action_list t s) = []"
    using L by (auto simp: filter_empty_conv list_all_iff manager_entry_def)
  have regular: "regular_list (entries undo_action_list t s)"
    using L by (simp add: regular_list_def list_all_iff)
  have "wp (run_list (exec_action K) (rev (filter (\<lambda>e. ae_order e = 0) (entries undo_action_list t s))) (0, 0))
      (\<lambda>_ s'. kern s' = kern s) (\<lambda>_ _. False) s" by (simp add: none)
  from abort_outcome [OF assms(1) regular this] show ?thesis by (simp add: app_def wp_final)
qed

text \<open>
  C3. Deferred calls reach the kernel when the transaction commits and not before:
  a sequence of pipe writes and synchronisations leaves the kernel as it was, the
  commit makes exactly those calls that did not report a failure, in program
  order, and a rollback makes none of them.
\<close>

theorem deferred_calls_run_at_commit:
  assumes tx: "in_transaction t s" and cs: "list_all reportable cs"
    and usable: "list_usable undo_action_list t s" "list_usable commit_action_list t s"
    and fresh: "list_all manager_entry (entries undo_action_list t s)" "list_all manager_entry (entries commit_action_list t s)"
    and run: "map_prog (dcall K) cs s = Ok rs s1"
    and room: "length (entries undo_action_list t s1) < 2 ^ 31" "length (entries commit_action_list t s1) < 2 ^ 31"
  shows "kern s1 = kern s \<and>
    kern (final_state (commit_transaction K t s1)) = fold (effect_of K) (made_calls cs rs) (kern s) \<and>
    kern (final_state (abort_transaction K t s1)) = kern s"
proof -
  have d: "deferred t (made_calls cs rs) s s1"
    using wp_OkD [OF dcalls_made [OF tx cs] run] by simp
  then have k: "kern s1 = kern s" by (simp add: deferred_def around_def)
  from d usable room obtain xs ys where
    u: "list_usable undo_action_list t s1" "entries undo_action_list t s1 = entries undo_action_list t s @ xs" "list_all manager_entry xs"
    and c: "list_usable commit_action_list t s1" "entries commit_action_list t s1 = entries commit_action_list t s @ ys"
      "list_all (\<lambda>e. manager_entry e \<or> ae_order e = 0) ys"
      "map ae_function (filter (\<lambda>e. ae_order e = 0) ys) = map action_of (made_calls cs rs)"
    by (auto simp: deferred_def grows_def)
  have "filter (\<lambda>e. ae_order e = 0) (entries commit_action_list t s) = []"
    using fresh(2) by (auto simp: filter_empty_conv list_all_iff manager_entry_def)
  then have "kern (final_state (commit_transaction K t s1)) = fold (effect_of K) (made_calls cs rs) (kern s1)"
    using commit_kern [OF c(1), of "made_calls cs rs" K] c fresh(2) by (auto simp: regular_list_def list_all_iff)
  moreover have "kern (final_state (abort_transaction K t s1)) = kern s1"
    using abort_kern [OF u(1), of K] u fresh(1) by simp
  ultimately show ?thesis using k by simp
qed

section \<open>Witness\<close>

lemma sample_deferred_run:
  "\<exists>u. map_prog (dcall sample_kernel) [Deferred_write_pipe 3 [20, 21] None, Deferred_fsync 3 None, Deferred_write_pipe 3 [22] None]
       sample_x_state = Ok [2, 0, 1] u \<and>
     length (entries undo_action_list 256 u) = 1 \<and> length (entries commit_action_list 256 u) = 4"
  by (simp add: x_write_pipe_def x_fsync_def linear_malloc_or_exit_def entries_def sample_run_defs)

theorem deferred_calls_run_at_commit_witness:
  "\<exists>u. map_prog (dcall sample_kernel) [Deferred_write_pipe 3 [20, 21] None, Deferred_fsync 3 None, Deferred_write_pipe 3 [22] None]
       sample_x_state = Ok [2, 0, 1] u \<and> kern u = sample_files \<and>
     node_data (kern (final_state (commit_transaction sample_kernel 256 u))) 0 = [10, 20, 21, 22, 14] \<and>
     kern (final_state (abort_transaction sample_kernel 256 u)) = sample_files"
proof -
  obtain u where u: "map_prog (dcall sample_kernel)
      [Deferred_write_pipe 3 [20, 21] None, Deferred_fsync 3 None, Deferred_write_pipe 3 [22] None] sample_x_state = Ok [2, 0, 1] u"
    "length (entries undo_action_list 256 u) = 1" "length (entries commit_action_list 256 u) = 4"
    using sample_deferred_run by blast
  have tx: "in_transaction 256 sample_x_state" by (simp add: in_transaction_def)
  have ready: "list_usable undo_action_list 256 sample_x_state" "list_usable commit_action_list 256 sample_x_state"
      "list_all manager_entry (entries undo_action_list 256 sample_x_state)"
      "list_all manager_entry (entries commit_action_list 256 sample_x_state)"
    by (simp_all add: list_usable_def list_ready_def entries_def sample_txd_def)
  from deferred_calls_run_at_commit [OF tx _ ready u(1)] u show ?thesis
    by (simp add: made_calls_def kernel_run_defs sample_files_def)
qed

end
