(* ===== verification/Levels.thy ===== *)
theory Levels
  imports Deferral
begin

text \<open>
  The execution levels of the registered actions.  Every xCall, whatever the
  kernel answers and wherever it stops, registers its actions with one of the
  levels of \<^verbatim>\<open>config.h\<close>; the loops that run the actions at the end of a transaction
  count the levels up until every action has run, so this is what makes them end.
\<close>

section \<open>The levels of a list\<close>

definition levelled :: "txc_tx_action_list \<Rightarrow> bool" where
  "levelled la \<longleftrightarrow> (\<forall>e \<in> set (al_entries la). 0 \<le> ae_order e \<and> ae_order e < 4)"

definition all_levelled :: "'z tx_state_scheme \<Rightarrow> bool" where
  "all_levelled s \<longleftrightarrow> (\<forall>t. levelled (commit_action_list (txds s t)) \<and> levelled (undo_action_list (txds s t)))"

definition keeps_levels :: "('k, 'z) x_state_scheme \<Rightarrow> ('k, 'z) x_state_scheme \<Rightarrow> bool" where
  "keeps_levels s s' \<longleftrightarrow> (all_levelled s \<longrightarrow> all_levelled s')"

lemma register_levels:
  assumes "0 \<le> ord" "ord < 4"
  shows "within keeps_levels (txc_tx_register_undo_action t f p ord)"
    and "within keeps_levels (txc_tx_register_commit_action t f p ord)"
  unfolding within_def txc_tx_register_undo_action_def txc_tx_register_commit_action_def wp_bnd wp_txd_get
  by (intro allI, rule wp_mono [OF register_action_entries];
      use assms in \<open>auto simp: tmsystem_register_generic_undo_action_def tmsystem_register_generic_commit_action_def
        keeps_levels_def all_levelled_def levelled_def entry_of_def wp_if split: prod.splits\<close>)+

interpretation levels: kernel_frame keeps_levels
proof unfold_locales
  fix s s' :: "('a, 'b) x_state_scheme"
  show "keeps_levels s s'" if "silent s s'"
    using silent_entries [OF that] by (simp add: keeps_levels_def all_levelled_def)
qed (auto simp: keeps_levels_def all_levelled_def)

interpretation levels_acquiring: acquiring_frame keeps_levels t for t
  by unfold_locales (simp_all add: register_levels)

lemma within_levels_txd [intro]: "quiet m \<Longrightarrow> within keeps_levels m"
  by (rule levels.within_quiet)

section \<open>The xCalls keep the levels\<close>

lemma levels_with_xactstate:
  assumes "\<And>txd. within keeps_levels (direct txd)" "\<And>t. within keeps_levels (retryable t)"
  shows "within keeps_levels (with_xactstate direct retryable)"
proof -
  have "within keeps_levels (case st of TXC_XACTSTATE_TRANSACTIONAL_RETRYABLE \<Rightarrow> bnd (deref txd) retryable
      | TXC_XACTSTATE_TRANSACTIONAL_IRREVOCABLE \<Rightarrow> direct txd | TXC_XACTSTATE_NONTRANSACTIONAL \<Rightarrow> direct txd)" for st txd
    by (cases st) (simp_all add: assms levels.within_rules)
  then show ?thesis
    unfolding with_xactstate_def txc_tx_get_txd_def
    by (intro levels.within_bnd levels.within_gets levels.within_quiet [OF quiet_get_xactstate])
qed

lemmas levels_intros = levels_with_xactstate levels.within_rules levels.within_libc levels.within_set_mutex levels.within_block_set
  levels_acquiring.within_tryacquire levels_acquiring.within_fd_acquire register_levels

lemma levels_files:
  "within keeps_levels (x_lseek K fd offset whence result)" "within keeps_levels (x_read K fd nbyte result)"
  "within keeps_levels (x_write K fd buf result flags)"
  "within keeps_levels (x_fsync K fd result)" "within keeps_levels (x_fdatasync K fd result)"
  unfolding x_lseek_def x_read_def x_write_def write_seq_def write_ovr_def save_old_def x_fsync_def x_fdatasync_def txc_libc_defs Let_def
  by (intro levels_intros levels.within_quiet quiet_intros; simp)+

lemma quiet_koa_create [quiet_intros]: "quiet (txc_koa_create ty ino)"
  unfolding txc_koa_create_def txc_sentinel_create_def sentinel_init_def by (intro quiet_intros)

lemma quiet_lookup_inode [quiet_intros]: "quiet (txc_koa_alias_cache_lookup_inode ino)"
  unfolding txc_koa_alias_cache_lookup_inode_def by (intro quiet_intros)

lemma quiet_strcpy [quiet_intros]: "quiet (strcpy_path path)"
  unfolding strcpy_path_def by (intro quiet_intros)

lemma quiet_attach [quiet_intros]: "quiet (attach_new_file ino fd)" "quiet (attach_pipe fds)"
  unfolding attach_new_file_def attach_pipe_def by (intro quiet_intros)+

lemma quiet_buffers [quiet_intros]: "quiet (txc_koa_get_buffer k)" "quiet (copy_out b base n)"
  unfolding txc_koa_get_buffer_def copy_out_def by (intro quiet_intros)+

lemma levels_acquire:
  "within keeps_levels (acquire_new t k)" "within keeps_levels (acquire_live_koa t k flags)"
  "within keeps_levels (acquire_path t ino flags)" "within keeps_levels (create_case2a t k)"
  unfolding acquire_new_def acquire_path_def acquire_live_koa_def create_case2a_def
  by (intro levels_intros levels.within_quiet quiet_intros)+

lemma levels_path2inode: "within keeps_levels (path2inode K path)"
  unfolding path2inode_def txc_libc_defs by (intro levels_intros)

lemma levels_directories:
  "within keeps_levels (x_open K path flags mode result)" "within keeps_levels (x_close K fd result)"
  "within keeps_levels (x_dup K local_result fd result)" "within keeps_levels (x_create K path mode result)"
  "within keeps_levels (x_unlink K path result)" "within keeps_levels (x_rename K stack oldpath newpath result)"
  unfolding x_open_def open_case1_def open_case2_def x_close_def x_dup_def x_create_def create_case1_def create_case2_def
    x_unlink_def x_rename_def txc_libc_defs
  by (intro levels_intros levels_acquire levels_path2inode levels.within_quiet quiet_intros; simp)+

lemma levels_pipes:
  "within keeps_levels (x_pipe K result)" "within keeps_levels (x_read_pipe K ret0 fd nbyte result)"
  "within keeps_levels (x_write_pipe K fd buf result)" "within keeps_levels (x_printf K out)"
  "within keeps_levels (x_socket K kt domain ty protocol result)"
  unfolding x_pipe_def x_read_pipe_def txc_read_pipe_def read_pipe_direct_def read_pipe_speculative_def begin_speculation_def speculate_def
    fill_buffer_def x_printf_def x_write_pipe_def x_socket_def txc_libc_defs Let_def txc_tx_get_txd_def
  by (intro levels_intros levels_acquire levels.within_quiet quiet_intros; simp)+

lemma quiet_copy_message [quiet_intros]: "quiet (copy_message b base lens)"
  unfolding copy_message_def Let_def by (intro quiet_intros)

lemma levels_messages:
  "within keeps_levels (x_sendmsg K ret0 fd msg flags result)"
  "within keeps_levels (x_recvmsg K len0 fd namelen lens controllen flags result)"
  unfolding x_sendmsg_def x_recvmsg_def txc_recvmsg_def recvmsg_direct_def recvmsg_speculative_def speculate_def
    fill_message_def txc_libc_defs Let_def
  by (intro levels_intros levels.within_quiet quiet_intros; simp)+

lemma levels_threads:
  "within keeps_levels (x_pthread_mutex_lock m result)" "within keeps_levels (x_pthread_mutex_unlock m result)"
  "within keeps_levels (x_pthread_mutex_init answer m result)" "within keeps_levels (x_pthread_create answer start arg result)"
proof -
  have started: "within keeps_levels (modify (\<lambda>s. s\<lparr>started := f s\<rparr>))" for f
    by (simp add: within_def keeps_levels_def all_levelled_def)
  show "within keeps_levels (x_pthread_mutex_lock m result)" "within keeps_levels (x_pthread_mutex_unlock m result)"
    "within keeps_levels (x_pthread_mutex_init answer m result)" "within keeps_levels (x_pthread_create answer start arg result)"
    unfolding x_pthread_mutex_lock_def x_pthread_mutex_unlock_def x_pthread_mutex_init_def x_pthread_create_def
      pthread_mutex_lock_def pthread_mutex_trylock_def pthread_mutex_unlock_def
    by (intro levels_intros started levels.within_quiet quiet_intros; simp)+
qed

section \<open>Every xCall\<close>

text \<open>
  All xCalls with their arguments.  Where an xCall reads an uninitialised variable,
  or a function of the C library whose answer is not the kernel's, the value is an
  argument.
\<close>

datatype any_call =
    Any_open string u32 u32 "addr option"
  | Any_create string u32 "addr option"
  | Any_close int "addr option"
  | Any_dup int int "addr option"
  | Any_unlink string "addr option"
  | Any_rename string string string "addr option"
  | Any_lseek int int int "addr option"
  | Any_read int u32 "addr option"
  | Any_write int "byte list" "addr option" int
  | Any_fsync int "addr option"
  | Any_fdatasync int "addr option"
  | Any_pipe "addr option"
  | Any_read_pipe int int u32 "addr option"
  | Any_write_pipe int "byte list" "addr option"
  | Any_printf "byte list"
  | Any_socket int int int int "addr option"
  | Any_sendmsg int int addr int "addr option"
  | Any_recvmsg u32 int u32 "u32 list" u32 int "addr option"
  | Any_mutex_init int addr "addr option"
  | Any_mutex_lock addr "addr option"
  | Any_mutex_unlock addr "addr option"
  | Any_thread_create int addr addr "addr option"

fun any_xcall :: "'k kernel \<Rightarrow> any_call \<Rightarrow> (('k, 'z) x_state_scheme, unit) prog" where
  "any_xcall K (Any_open path flags mode result) = bnd (x_open K path flags mode result) (\<lambda>_. ret ())"
| "any_xcall K (Any_create path mode result) = bnd (x_create K path mode result) (\<lambda>_. ret ())"
| "any_xcall K (Any_close fd result) = bnd (x_close K fd result) (\<lambda>_. ret ())"
| "any_xcall K (Any_dup local_result fd result) = bnd (x_dup K local_result fd result) (\<lambda>_. ret ())"
| "any_xcall K (Any_unlink path result) = bnd (x_unlink K path result) (\<lambda>_. ret ())"
| "any_xcall K (Any_rename stack oldpath newpath result) = bnd (x_rename K stack oldpath newpath result) (\<lambda>_. ret ())"
| "any_xcall K (Any_lseek fd offset whence result) = bnd (x_lseek K fd offset whence result) (\<lambda>_. ret ())"
| "any_xcall K (Any_read fd nbyte result) = bnd (x_read K fd nbyte result) (\<lambda>_. ret ())"
| "any_xcall K (Any_write fd buf result flags) = bnd (x_write K fd buf result flags) (\<lambda>_. ret ())"
| "any_xcall K (Any_fsync fd result) = bnd (x_fsync K fd result) (\<lambda>_. ret ())"
| "any_xcall K (Any_fdatasync fd result) = bnd (x_fdatasync K fd result) (\<lambda>_. ret ())"
| "any_xcall K (Any_pipe result) = bnd (x_pipe K result) (\<lambda>_. ret ())"
| "any_xcall K (Any_read_pipe ret0 fd nbyte result) = bnd (x_read_pipe K ret0 fd nbyte result) (\<lambda>_. ret ())"
| "any_xcall K (Any_write_pipe fd buf result) = bnd (x_write_pipe K fd buf result) (\<lambda>_. ret ())"
| "any_xcall K (Any_printf out) = bnd (x_printf K out) (\<lambda>_. ret ())"
| "any_xcall K (Any_socket kt domain ty protocol result) = bnd (x_socket K kt domain ty protocol result) (\<lambda>_. ret ())"
| "any_xcall K (Any_sendmsg ret0 fd msg flags result) = bnd (x_sendmsg K ret0 fd msg flags result) (\<lambda>_. ret ())"
| "any_xcall K (Any_recvmsg len0 fd namelen lens controllen flags result) =
     bnd (x_recvmsg K len0 fd namelen lens controllen flags result) (\<lambda>_. ret ())"
| "any_xcall K (Any_mutex_init answer m result) = bnd (x_pthread_mutex_init answer m result) (\<lambda>_. ret ())"
| "any_xcall K (Any_mutex_lock m result) = bnd (x_pthread_mutex_lock m result) (\<lambda>_. ret ())"
| "any_xcall K (Any_mutex_unlock m result) = bnd (x_pthread_mutex_unlock m result) (\<lambda>_. ret ())"
| "any_xcall K (Any_thread_create answer start arg result) = bnd (x_pthread_create answer start arg result) (\<lambda>_. ret ())"

lemma levels_any: "within keeps_levels (any_xcall K c)"
  by (cases c) (simp_all add: levels.within_rules levels_files levels_directories levels_pipes levels_messages levels_threads)

text \<open>
  C27. Actions are registered with valid execution levels: in whatever state an
  arbitrary sequence of xCalls ends, returning or faulting, every entry of every
  commit and undo list has one of the four levels if that was so at the beginning.
\<close>

theorem xcalls_keep_levels:
  assumes "all_levelled s"
  shows "all_levelled (final_state (for_each cs (any_xcall K) s))"
proof -
  have "within keeps_levels (for_each cs (any_xcall K))" by (intro levels.within_for_each levels_any)
  from withinD [OF this, of s] assms show ?thesis by (simp add: wp_final keeps_levels_def)
qed

section \<open>The loops end\<close>

context action_runner
begin

lemma run_orders_ends:
  assumes "levelled (sel (txds s t))"
  shows "run_orders dir sel exec t 0 (0, 0) s \<noteq> None"
proof (cases "al_valid (sel (txds s t))")
  case True
  let ?es = "map (nth (al_entries (sel (txds s t)))) (dir (length (al_entries (sel (txds s t)))))"
  have "0 \<le> ae_order e \<and> ae_order e < int 4" if "e \<in> set ?es" for e
    using assms that by (auto simp: levelled_def dir_set)
  moreover from this have "filter (\<lambda>e. ae_order e < int 0) ?es = []" by (force simp: filter_empty_conv)
  ultimately show ?thesis
    using run_orders_list [OF True refl, of 4 "(0, 0)" 0] by simp
next
  case False
  let ?n = "length (al_entries (sel (txds s t)))"
  show ?thesis
  proof (cases "?n = 0")
    case True
    then show ?thesis by (subst run_orders.simps) simp
  next
    case nonempty: False
    then obtain i "is" where d: "dir ?n = i # is" using dir_length [of ?n] by (cases "dir ?n") auto
    from False have "run_indices sel exec t 0 (dir ?n) (0, 0) s = Fault Undefined s"
      by (simp add: d run_index_def txd_get_def prog_simps)
    with nonempty show ?thesis by (subst run_orders.simps) simp
  qed
qed

end

text \<open>
  C28. The loops over the execution levels end: with levels that xCalls register,
  neither the commit nor the rollback of a transaction counts levels for ever,
  even when a list lost its entries to a failed reallocation.
\<close>

theorem action_loops_end:
  assumes "all_levelled s"
  shows "run_orders upwards commit_action_list (exec_action K) t 0 (0, 0) s \<noteq> None \<and>
    run_orders downwards undo_action_list (exec_action K) t 0 (0, 0) s \<noteq> None"
  using assms commit_runner.run_orders_ends [of s t K] undo_runner.run_orders_ends [of s t K]
  by (simp add: all_levelled_def)

section \<open>Witnesses\<close>

theorem xcalls_keep_levels_witness:
  "all_levelled (final_state (for_each [Any_write 3 [20] None TXC_WRITE_OVR_SAVE, Any_unlink ''a'' None] (any_xcall sample_kernel) sample_x_state))"
  by (rule xcalls_keep_levels) (simp add: all_levelled_def levelled_def sample_txd_def)

theorem action_loops_end_witness:
  "let s = sample_x_state\<lparr>txds := (\<lambda>_. sample_txd\<lparr>commit_action_list := two_actions, undo_action_list := two_actions\<rparr>)\<rparr> in
     run_orders upwards commit_action_list (exec_action sample_kernel) 256 0 (0, 0) s \<noteq> None \<and>
     run_orders downwards undo_action_list (exec_action sample_kernel) 256 0 (0, 0) s \<noteq> None"
  unfolding Let_def
  by (rule action_loops_end) (simp add: all_levelled_def levelled_def two_actions_def)

end
