(* ===== verification/Directory.thy ===== *)
theory Directory
  imports Levels
begin

text \<open>
  Rolling back changes of the directory.  \<^verbatim>\<open>x_create\<close> and \<^verbatim>\<open>x_rename\<close> act in place: they
  move a file that is in the way to a temporary name, create the new file or a
  hard link, and register the action that takes it all back; \<^verbatim>\<open>x_unlink\<close> and \<^verbatim>\<open>x_close\<close>
  wait for the commit.  The kernel is seen through its name space: which inode a
  path names and what the file contains.  The theory shows that the undo actions,
  in the order in which they run, restore this name space, and that a rollback
  which stops early, at a lock or at an inconsistent object, leaves the name space
  of a moment between two calls and never a half undone call.
\<close>

section \<open>The name space\<close>

type_synonym tree = "string \<Rightarrow> (u32 \<times> byte list) option"

text \<open>Renaming replaces the target, unless both paths name the same file.\<close>

definition t_rename :: "string \<Rightarrow> string \<Rightarrow> tree \<Rightarrow> tree" where
  "t_rename a b T =
     (case T a of
        None \<Rightarrow> T
      | Some x \<Rightarrow> if map_option fst (T b) = Some (fst x) then T else T(a := None, b \<mapsto> x))"

text \<open>
  What the xCalls rely on.  The kernel may refuse to open a file or to make a link;
  \<^verbatim>\<open>stat\<close>, \<^verbatim>\<open>unlink\<close> and \<^verbatim>\<open>rename\<close> succeed on files that exist, which takes the
  permissions, and for \<^verbatim>\<open>rename\<close> that the directory of the temporary files is on the
  same file system.
\<close>

definition stat_law :: "'k kernel \<Rightarrow> ('k \<Rightarrow> tree) \<Rightarrow> bool" where
  "stat_law K V \<longleftrightarrow> (\<forall>p k. V (snd (sys_stat K p k)) = V k \<and>
     (case V k p of None \<Rightarrow> (\<exists>e. fst (sys_stat K p k) = Inl e) | Some (i, _) \<Rightarrow> i \<noteq> 0 \<and> fst (sys_stat K p k) = Inr i))"

abbreviation (input) O_TRUNC :: u32 where "O_TRUNC \<equiv> 512"

definition open_law :: "'k kernel \<Rightarrow> ('k \<Rightarrow> tree) \<Rightarrow> bool" where
  "open_law K V \<longleftrightarrow> (\<forall>p flags mode k.
     (case sys_open K p flags mode k of
        (Inl _, k') \<Rightarrow> V k' = V k
      | (Inr _, k') \<Rightarrow>
          (V k p = None \<longrightarrow> flags = creation_flags \<longrightarrow> (\<exists>i. V k' = (V k)(p \<mapsto> (i, [])))) \<and>
          (V k p \<noteq> None \<longrightarrow> and flags O_TRUNC = 0 \<longrightarrow> V k' = V k)))"

definition close_law :: "'k kernel \<Rightarrow> ('k \<Rightarrow> tree) \<Rightarrow> bool" where
  "close_law K V \<longleftrightarrow> (\<forall>fd k. V (snd (sys_close K fd k)) = V k)"

definition unlink_law :: "'k kernel \<Rightarrow> ('k \<Rightarrow> tree) \<Rightarrow> bool" where
  "unlink_law K V \<longleftrightarrow> (\<forall>p k. V (snd (sys_unlink K p k)) = (V k)(p := None))"

definition rename_law :: "'k kernel \<Rightarrow> ('k \<Rightarrow> tree) \<Rightarrow> bool" where
  "rename_law K V \<longleftrightarrow> (\<forall>a b k. V (snd (sys_rename K a b k)) = t_rename a b (V k))"

definition link_law :: "'k kernel \<Rightarrow> ('k \<Rightarrow> tree) \<Rightarrow> bool" where
  "link_law K V \<longleftrightarrow> (\<forall>a b k.
     (case sys_link K a b k of
        (Inl _, k') \<Rightarrow> V k' = V k
      | (Inr _, k') \<Rightarrow> V k a \<noteq> None \<and> V k b = None \<and> V k' = (V k)(b := V k a)))"

definition mktemp_law :: "'k kernel \<Rightarrow> ('k \<Rightarrow> tree) \<Rightarrow> bool" where
  "mktemp_law K V \<longleftrightarrow> (\<forall>k. V k (sys_mktemp K k) = None)"

definition dir_kernel :: "'k kernel \<Rightarrow> ('k \<Rightarrow> tree) \<Rightarrow> bool" where
  "dir_kernel K V \<longleftrightarrow> stat_law K V \<and> open_law K V \<and> close_law K V \<and> unlink_law K V \<and> rename_law K V \<and>
     link_law K V \<and> mktemp_law K V"

definition tree :: "('k \<Rightarrow> tree) \<Rightarrow> ('k, 'z) x_state_scheme \<Rightarrow> tree" where
  "tree V s = V (kern s)"

section \<open>What the undo actions do to the name space\<close>

fun undo_tree :: "action \<Rightarrow> tree \<Rightarrow> tree" where
  "undo_tree (Act_x_create_case1_undo fd k path) T = T(path := None)"
| "undo_tree (Act_x_create_case2_undo fd k tmp path) T = t_rename tmp path (T(path := None))"
| "undo_tree (Act_x_rename_undo ko kn oldpath newpath tmp) T =
     (if kn \<noteq> None then t_rename tmp newpath (T(newpath := None)) else T(newpath := None))"
| "undo_tree _ T = T"

fun dir_action :: "action \<Rightarrow> bool" where
  "dir_action (Act_x_create_case1_undo fd k path) = True"
| "dir_action (Act_x_create_case2_undo fd k tmp path) = True"
| "dir_action (Act_x_rename_undo ko kn oldpath newpath tmp) = True"
| "dir_action (Act_x_open_undo fd k) = True"
| "dir_action _ = False"

definition same_kern :: "('k, 'z) x_state_scheme \<Rightarrow> ('k, 'z) x_state_scheme \<Rightarrow> bool" where
  "same_kern s s' \<longleftrightarrow> kern s' = kern s"

interpretation same_kern: library_frame same_kern
  by unfold_locales (auto simp: same_kern_def silent_def outside_def)

text \<open>A quiet step keeps whatever is known of the kernel.\<close>

lemma wp_kept:
  assumes "quiet m" "P (kern s)" "\<And>a s'. P (kern s') \<Longrightarrow> Q a s'" "\<And>e s'. P (kern s') \<Longrightarrow> E e s'"
  shows "wp m Q E s"
  by (rule same_kern.wp_within [OF same_kern.within_quiet [OF assms(1)] same_kern.refl])
    (use assms(2-4) in \<open>simp_all add: same_kern_def\<close>)

text \<open>The two kinds of steps of an undo action: quiet ones, and system calls with a known effect.\<close>

lemma wp_bnd_kept:
  assumes "quiet m" "V (kern s) = T" "\<And>e s'. V (kern s') = T \<Longrightarrow> E e s'"
    and "\<And>a s'. V (kern s') = T \<Longrightarrow> wp (f a) Q E s'"
  shows "wp (bnd m f) Q E s"
  unfolding wp_bnd by (rule wp_kept [OF assms(1), where P = "\<lambda>k. V k = T"]) (use assms(2-4) in auto)

lemma wp_bnd_libc:
  assumes "V (kern s) = T" "\<And>k. V k = T \<Longrightarrow> V (snd (f k)) = T'"
    and "\<And>r s'. V (kern s') = T' \<Longrightarrow> wp (g r) Q E s'"
  shows "wp (bnd (libc_call f) g) Q E s"
  using assms(2) [OF assms(1)] by (auto split: prod.split intro!: assms(3))

lemma dir_kernelD:
  assumes "dir_kernel K V"
  shows "V k = T \<Longrightarrow> V (snd (sys_unlink K p k)) = T(p := None)"
    and "V k = T \<Longrightarrow> V (snd (sys_rename K a b k)) = t_rename a b T"
    and "V k = T \<Longrightarrow> V (snd (sys_close K fd k)) = T"
    and "V k = T \<Longrightarrow> V (snd (sys_stat K p k)) = T"
    and "V k (sys_mktemp K k) = None"
  using assms by (simp_all add: dir_kernel_def unlink_law_def rename_law_def close_law_def stat_law_def mktemp_law_def)

lemma undo_functions_tree:
  assumes K: "dir_kernel K V" and "V (kern s) = T"
  shows "wp (x_create_case1_undo K fd k p) (\<lambda>_ s'. V (kern s') = T(p := None)) (\<lambda>_ s'. V (kern s') = T \<or> V (kern s') = T(p := None)) s"
    and "wp (x_create_case2_undo K fd k tmp p) (\<lambda>_ s'. V (kern s') = t_rename tmp p (T(p := None)))
      (\<lambda>_ s'. V (kern s') = T \<or> V (kern s') = t_rename tmp p (T(p := None))) s"
    and "wp (x_rename_undo K ko None p tmp) (\<lambda>_ s'. V (kern s') = T(p := None)) (\<lambda>_ s'. V (kern s') = T \<or> V (kern s') = T(p := None)) s"
    and "wp (x_rename_undo K ko (Some kn) p tmp) (\<lambda>_ s'. V (kern s') = t_rename tmp p (T(p := None)))
      (\<lambda>_ s'. V (kern s') = T \<or> V (kern s') = t_rename tmp p (T(p := None))) s"
    and "wp (x_open_undo K fd k) (\<lambda>_ s'. V (kern s') = T) (\<lambda>_ s'. V (kern s') = T) s"
  unfolding undo_function_defs txc_libc_defs
  using assms(2)
  apply (simp_all only: option.distinct not_False_eq_True if_True simp_thms if_False bnd_ret_left)
  apply ((rule wp_bnd_kept [where V = V], intro quiet_intros, assumption, simp) |
       (rule wp_bnd_libc [where V = V], assumption, erule dir_kernelD [OF K]) | (simp only: wp_ret))+
  done

lemma exec_dir_action:
  assumes "dir_kernel K V" "dir_action a"
  shows "wp (exec_action K a) (\<lambda>_ s'. tree V s' = undo_tree a (tree V s))
    (\<lambda>_ s'. tree V s' = tree V s \<or> tree V s' = undo_tree a (tree V s)) s"
  using assms(2)
proof (cases a)
  case (Act_x_rename_undo ko kn oldpath newpath tmp)
  then show ?thesis
    using undo_functions_tree(3,4) [OF assms(1) refl] by (cases kn) (simp_all add: tree_def)
qed (simp_all add: tree_def undo_functions_tree [OF assms(1) refl])

section \<open>Steps that never restart the transaction\<close>

text \<open>
  A fault other than a restart ends the process or is undefined behaviour; no
  rollback follows it.  Once an xCall has changed the directory it must not restart
  the transaction before the undo action is registered.
\<close>

fun restart :: "fault \<Rightarrow> bool" where
  "restart (Tx_abort r) = True"
| "restart _ = False"

definition steady :: "('s, 'a) prog \<Rightarrow> bool" where
  "steady m \<longleftrightarrow> (\<forall>s. wp m (\<lambda>_ _. True) (\<lambda>e _. \<not> restart e) s)"

named_theorems steady_intros \<open>programs that do not restart the transaction\<close>

lemma steadyD: "steady m \<Longrightarrow> wp m (\<lambda>_ _. True) (\<lambda>e _. \<not> restart e) s"
  by (simp add: steady_def)

lemma steady_combinators [steady_intros]:
  "steady (ret a)" "steady (gets g)" "steady (modify upd)"
  "steady (throw Exit1)" "steady (throw Assert_failed)" "steady (throw Undefined)"
  "steady (guard Exit1 b)" "steady (guard Assert_failed b)" "steady (guard Undefined b)" "steady (guard Blocked b)"
  "steady (txc_mutex_lock held u)" "steady (txc_mutex_unlock u)" "steady (loop_result r)"
  by (simp_all add: steady_def split: option.split)

lemma steady_bnd [steady_intros]: "steady m \<Longrightarrow> (\<And>a. steady (f a)) \<Longrightarrow> steady (bnd m f)"
  by (auto simp: steady_def intro: wp_mono)

lemma steady_branches [steady_intros]:
  "steady w \<Longrightarrow> steady (mwhen b w)"
  "steady m \<Longrightarrow> steady m' \<Longrightarrow> steady (if b then m else m')"
  "steady m \<Longrightarrow> (\<And>a. steady (f a)) \<Longrightarrow> steady (case p of None \<Rightarrow> m | Some a \<Rightarrow> f a)"
  "(\<And>a b. steady (h a b)) \<Longrightarrow> steady (case q of (a, b) \<Rightarrow> h a b)"
  "steady (deref p)"
  by (simp_all add: steady_def deref_def split: option.split prod.split)

lemma steady_zoom [steady_intros]: "steady m \<Longrightarrow> steady (zoom get put m)"
  by (auto simp: steady_def intro: wp_mono)

lemma steady_libc [steady_intros]: "steady (libc_call f)"
  by (simp add: steady_def split: prod.split)

lemma steady_bucket_remove [steady_intros]: "steady (bucket_list_remove l b)"
  by (simp add: steady_def wp_def bucket_list_remove_def Let_def split: option.split)

lemma steady_containers [steady_intros]:
  "steady (txc_pool_object_alloc b)" "steady (txc_hash_table_add new key v)" "steady (txc_hash_table_lookup key)"
  unfolding txc_pool_object_alloc_def txc_pool_lock_def txc_pool_unlock_def txc_hash_table_add_def txc_hash_table_lookup_def
    bucket_list_of_def bucket_list_lock_def bucket_list_unlock_def bucket_search_def bucket_obtain_def
  by (intro steady_intros)+

lemma steady_parts [steady_intros]:
  "steady m \<Longrightarrow> steady (on_pool_koa m)" "steady m' \<Longrightarrow> steady (on_alias_cache m')" "steady m'' \<Longrightarrow> steady (on_bufmgr m'')"
  "steady m''' \<Longrightarrow> steady (on_pool_sentinel m''')"
  unfolding on_pool_koa_def on_alias_cache_def on_bufmgr_def on_pool_sentinel_def by (intro steady_intros; assumption)+

lemma steady_accessors [steady_intros]:
  "steady (koa_get k f)" "steady (koa_set k g)" "steady (sn_get a f')" "steady (sn_set a g')" "steady (txd_get t h)"
  "steady (txd_set t h')" "steady MALLOC" "steady realloc_answer"
  unfolding koa_get_def koa_set_def sn_get_def sn_set_def txd_get_def txd_set_def MALLOC_def realloc_answer_def
  by (intro steady_intros)+

lemma steady_koa [steady_intros]:
  "steady (attach_new_file ino fd)" "steady (txc_koa_alias_cache_lookup_inode ino)"
  unfolding attach_new_file_def txc_koa_create_def txc_sentinel_create_def txc_buffer_circular_create_def
    zoom_pool_circular_def txc_buffer_circular_init_def txc_koa_lock_fd_def map_lock_def map_bounds_def txc_koa_attach_fd_def
    koa_ref_def alias_cache_insert_def map_unlock_def txc_koa_alias_cache_lookup_inode_def
  by (intro steady_intros)+

lemma steady_register [steady_intros]:
  "steady (txc_tx_register_commit_action t f p ord)" "steady (txc_tx_register_undo_action t f p ord)"
  unfolding txc_tx_register_commit_action_def txc_tx_register_undo_action_def register_action_def
    allocate_action_list_entries_def tmsystem_register_generic_commit_action_def tmsystem_register_generic_undo_action_def Let_def
  by (intro steady_intros)+

lemma steady_sentinels [steady_intros]:
  "steady (trylock_sentinel a)" "steady (lock_synch a)" "steady (unlock_synch a)" "steady (sentinel_attach a)"
  "steady (enlist_main t a st)" "steady (txc_tx_get_xactstate p)"
  unfolding trylock_sentinel_def lock_synch_def unlock_synch_def sentinel_attach_def enlist_main_def enlist_sentinel_def
    allocate_sentinel_list_entries_def txc_tx_get_xactstate_def tmsystem_get_xactstate_def Let_def
  by (intro steady_intros, (simp split: itm_howExecuting.split add: steady_intros)?)+

lemma steady_spin [steady_intros]: "steady (spin_trylock n a)"
  by (induction n) (simp_all add: steady_intros)

lemma steady_acquire_new [steady_intros]: "steady (acquire_new t k)"
proof -
  have "steady (case st of TXC_XACTSTATE_NONTRANSACTIONAL \<Rightarrow> throw Exit1
      | TXC_XACTSTATE_TRANSACTIONAL_IRREVOCABLE \<Rightarrow> ret TXC_R_SUCCESS
      | TXC_XACTSTATE_TRANSACTIONAL_RETRYABLE \<Rightarrow> sentinel_acquire_retryable t a flags)" for st a flags
    by (cases st) (simp_all add: steady_intros sentinel_acquire_retryable_def register_sentinelmgr_undo_action_def
        register_sentinelmgr_commit_action_def)
  then show ?thesis
    unfolding acquire_new_def txc_koa_get_sentinel_def txc_sentinel_tryacquire_def txc_sentinel_is_enlisted_def
    by (simp, intro steady_intros)
qed

lemma steady_tail [steady_intros]: "steady (linear_malloc_or_exit t n)" "steady (strcpy_path path)" "steady (path2inode K path)"
  unfolding linear_malloc_or_exit_def linear_malloc_def txc_buffer_linear_malloc_def strcpy_path_def path2inode_def txc_libc_defs
  by (intro steady_intros)+


section \<open>Calls in progress\<close>

text \<open>
  Between two steps of an xCall the descriptor is that of the beginning, up to
  actions of the managers.  \<open>progress\<close> also keeps the kernel; \<open>under_way\<close> does not
  and says what the name space has become.
\<close>

definition progress :: "addr \<Rightarrow> ('k, 'z) x_state_scheme \<Rightarrow> ('k, 'z) x_state_scheme \<Rightarrow> bool" where
  "progress t s s' \<longleftrightarrow> kern s' = kern s \<and> settled t s' = settled t s \<and>
     grows undo_action_list t (list_all manager_entry) s s'"

lemma around_settled: "around t s' = around t s \<Longrightarrow> kern s' = kern s \<and> settled t s' = settled t s"
  by (simp add: around_def settled_def)

lemma acquired_progress: "acquired t s s' \<Longrightarrow> progress t s s'"
  using around_settled unfolding acquired_def progress_def by blast

lemma commit_progress:
  assumes "registers commit_action_list undo_action_list t e s s'"
  shows "progress t s s'"
  using assms around_settled [of t s' s] around_realloc [of t s' s]
  by (auto simp: registers_def progress_def intro: grows_same)

interpretation progress: acquiring_frame "progress t" t for t
proof unfold_locales
  fix s s' s'' :: "('a, 'b) x_state_scheme"
  show "progress t s s''" if "progress t s s'" "progress t s' s''"
    using that grows_all_trans unfolding progress_def by metis
  show "progress t s s'" if "silent s s'"
    by (rule acquired_progress) (rule acquired.silent_le [OF that])
  show "progress t s s" by (rule acquired_progress) (rule acquired.refl)
qed (auto intro: within_mono [OF acquired.register_undo] within_mono [OF acquired.register_commit] acquired_progress)

lemma progress_acquire:
  "within (progress t) (acquire_new t k)" "within (progress t) (acquire_path t ino flags)" "within (progress t) (create_case2a t k)"
  unfolding acquire_new_def acquire_path_def acquire_live_koa_def create_case2a_def
  by (intro progress.within_rules progress.within_tryacquire progress.within_quiet quiet_intros)+

lemma progress_commit: "within (progress t) (txc_tx_register_commit_action t f p ord)"
  by (rule within_mono [OF register_commit_within]) (erule commit_progress)

definition under_way :: "('k \<Rightarrow> tree) \<Rightarrow> addr \<Rightarrow> ('k, 'z) x_state_scheme \<Rightarrow> tree \<Rightarrow> ('k, 'z) x_state_scheme \<Rightarrow> bool" where
  "under_way V t s T u \<longleftrightarrow> tree V u = T \<and> settled t u = settled t s \<and> grows undo_action_list t (list_all manager_entry) s u"

lemma under_way_refl: "under_way V t s (tree V s) s"
  using progress.refl [of t s] by (simp add: under_way_def progress_def)

lemma under_way_progress:
  assumes "under_way V t s T u" "progress t u u'"
  shows "under_way V t s T u'"
  using assms grows_all_trans unfolding under_way_def progress_def tree_def by metis

lemma under_way_kern: "under_way V t s T u \<Longrightarrow> V k = T' \<Longrightarrow> under_way V t s T' (u\<lparr>errno := e, kern := k\<rparr>)"
  by (auto simp: under_way_def tree_def settled_def grows_def entries_def list_usable_def)

text \<open>
  A finished call, or one that restarts the transaction: it has registered at most
  one regular action, and undoing it restores the name
  space from before the call.
\<close>

definition dir_entries :: "txc_tx_action_list_entry list \<Rightarrow> txc_tx_action_list_entry list" where
  "dir_entries es = filter (\<lambda>e. ae_order e = 0) es"

definition undo_dirs :: "txc_tx_action_list_entry list \<Rightarrow> tree \<Rightarrow> tree" where
  "undo_dirs es = fold (\<lambda>e. undo_tree (ae_function e)) es"

definition dir_safe :: "txc_tx_action_list_entry \<Rightarrow> bool" where
  "dir_safe e \<longleftrightarrow> manager_entry e \<or> ae_order e = 0 \<and> dir_action (ae_function e)"

definition dir_step :: "('k \<Rightarrow> tree) \<Rightarrow> addr \<Rightarrow> ('k, 'z) x_state_scheme \<Rightarrow> ('k, 'z) x_state_scheme \<Rightarrow> bool" where
  "dir_step V t s s' \<longleftrightarrow> settled t s' = settled t s \<and>
     grows undo_action_list t (\<lambda>ys. list_all dir_safe ys \<and> length (dir_entries ys) \<le> 1 \<and>
       undo_dirs (rev (dir_entries ys)) (tree V s') = tree V s) s s'"

lemma dir_entries_managers: "list_all manager_entry ys \<Longrightarrow> dir_entries ys = []"
  by (auto simp: dir_entries_def filter_empty_conv list_all_iff manager_entry_def)

lemma managers_safe: "list_all manager_entry ys \<Longrightarrow> list_all dir_safe ys"
  by (auto simp: list_all_iff dir_safe_def)

lemma under_way_step: "under_way V t s (tree V s) u \<Longrightarrow> dir_step V t s u"
  by (auto simp: under_way_def dir_step_def dir_entries_managers undo_dirs_def managers_safe elim!: grows_mono)

abbreviation (input) restarts_well :: "('k \<Rightarrow> tree) \<Rightarrow> addr \<Rightarrow> ('k, 'z) x_state_scheme \<Rightarrow> fault \<Rightarrow> ('k, 'z) x_state_scheme \<Rightarrow> bool" where
  "restarts_well V t s e s' \<equiv> restart e \<longrightarrow> dir_step V t s s'"

text \<open>Steps before the name space has changed may restart the transaction, later ones must be steady.\<close>

lemma wp_first:
  assumes "within (progress t) m" "under_way V t s (tree V s) u"
    and "\<And>a u'. under_way V t s (tree V s) u' \<Longrightarrow> wp (f a) (\<lambda>_. dir_step V t s) (restarts_well V t s) u'"
  shows "wp (bnd m f) (\<lambda>_. dir_step V t s) (restarts_well V t s) u"
  unfolding wp_bnd
  by (rule wp_mono [OF withinD [OF assms(1)]])
    (use assms(2,3) in \<open>auto intro: under_way_step under_way_progress\<close>)

lemma wp_later:
  assumes "within (progress t) m" "steady m" "under_way V t s T u"
    and "\<And>a u'. under_way V t s T u' \<Longrightarrow> wp (f a) (\<lambda>_. dir_step V t s) (restarts_well V t s) u'"
  shows "wp (bnd m f) (\<lambda>_. dir_step V t s) (restarts_well V t s) u"
proof -
  have "wp m (\<lambda>_ u'. under_way V t s T u') (\<lambda>e _. \<not> restart e) u"
    using withinD [OF assms(1), of u] steadyD [OF assms(2), of u] under_way_progress [OF assms(3)]
    by (auto simp: wp_def split: outcome.splits)
  then show ?thesis unfolding wp_bnd by (rule wp_mono) (use assms(4) in auto)
qed

lemma wp_last:
  assumes "quiet m" "dir_step V t s u"
  shows "wp m (\<lambda>_. dir_step V t s) (restarts_well V t s) u"
proof -
  have "dir_step V t s u'" if "silent u u'" for u'
  proof -
    from that have "tree V u' = tree V u" "settled t u' = settled t u" "undo_action_list (txds u' t) = undo_action_list (txds u t)"
      using silent_entries [OF that] by (auto simp: silent_def outside_def tree_def settled_def core_def fun_eq_iff)
    with assms(2) show ?thesis
      by (auto simp: dir_step_def grows_def entries_def list_usable_def settled_def)
  qed
  then show ?thesis by (intro wp_mono [OF withinD [OF assms(1)]]) auto
qed

lemma wp_register:
  assumes "under_way V t s T u" "dir_action a" "undo_tree a T = tree V s" "quiet m"
  shows "wp (bnd (txc_tx_register_undo_action t a p TXC_KOA_CREATE_UNDO_ACTION_ORDER) (\<lambda>_. m))
    (\<lambda>_. dir_step V t s) (restarts_well V t s) u"
proof -
  have "dir_step V t s u'" if "registers undo_action_list commit_action_list t (entry_of (a, p, 0)) u u'" for u'
  proof -
    from that have u': "tree V u' = T" "settled t u' = settled t s"
      using assms(1) around_settled [of t u' u] by (auto simp: registers_def under_way_def tree_def)
    moreover have "grows undo_action_list t (\<lambda>ys. \<exists>ms. list_all manager_entry ms \<and> ys = ms @ [entry_of (a, p, 0)]) s u'"
      using that assms(1) by (auto simp: registers_def under_way_def elim: grows_trans)
    ultimately show ?thesis
      using assms(2,3) dir_entries_managers managers_safe
      by (auto simp: dir_step_def undo_dirs_def dir_entries_def dir_safe_def entry_of_def elim!: grows_mono)
  qed
  then show ?thesis
    unfolding wp_bnd by (intro wp_mono [OF withinD [OF register_undo_within]] impI wp_last [OF assms(4)]) blast+
qed


section \<open>The xCalls\<close>

text \<open>The system calls of a call under way.\<close>

lemma wp_libc_under_way:
  assumes "under_way V t s T u"
    and "\<And>r k k'. V k = T \<Longrightarrow> f k = (r, k') \<Longrightarrow> under_way V t s (V k') (u\<lparr>errno := (case r of Inl e \<Rightarrow> e | Inr _ \<Rightarrow> errno u), kern := k'\<rparr>) \<Longrightarrow>
      wp (g r) Q E (u\<lparr>errno := (case r of Inl e \<Rightarrow> e | Inr _ \<Rightarrow> errno u), kern := k'\<rparr>)"
  shows "wp (bnd (libc_call f) g) Q E u"
  using assms(1) by (auto split: prod.split intro!: assms(2) under_way_kern simp: under_way_def tree_def)

lemma wp_rename_under_way:
  assumes "dir_kernel K V" "under_way V t s T u" "\<And>r u'. under_way V t s (t_rename a b T) u' \<Longrightarrow> wp (g r) Q E u'"
  shows "wp (bnd (libc_call (sys_rename K a b)) g) Q E u"
  by (rule wp_libc_under_way [OF assms(2)], rule assms(3)) (metis dir_kernelD(2) [OF assms(1)] snd_conv)

lemma wp_close_under_way:
  assumes "dir_kernel K V" "under_way V t s T u" "\<And>r u'. under_way V t s T u' \<Longrightarrow> wp (g r) Q E u'"
  shows "wp (bnd (libc_call (sys_close K fd)) g) Q E u"
  by (rule wp_libc_under_way [OF assms(2)], rule assms(3)) (metis dir_kernelD(3) [OF assms(1)] snd_conv)

lemma wp_stat_under_way:
  assumes "dir_kernel K V" "under_way V t s T u"
    and "\<And>i u'. under_way V t s T u' \<Longrightarrow> (i = 0 \<longleftrightarrow> T p = None) \<Longrightarrow> wp (g i) Q E u'"
  shows "wp (bnd (path2inode K p) g) Q E u"
proof -
  have law: "V k' = V k \<and> (snd (txc_koa_path2inode (case r of Inl _ \<Rightarrow> None | Inr ino \<Rightarrow> Some ino)) = 0 \<longleftrightarrow> V k p = None)"
    if "sys_stat K p k = (r, k')" for k r k'
    using assms(1) [unfolded dir_kernel_def stat_law_def, THEN conjunct1, rule_format, of p k] that
    by (auto simp: txc_koa_path2inode_def split: option.split_asm)
  show ?thesis
    unfolding path2inode_def txc_libc_defs bnd_assoc bnd_ret_left
    by (rule wp_libc_under_way [OF assms(2)], rule assms(3)) (use law in simp_all)
qed

lemma open_case:
  assumes "dir_kernel K V"
  shows "case sys_open K p flags mode k of
      (Inl _, k') \<Rightarrow> V k' = V k
    | (Inr _, k') \<Rightarrow>
        (V k p = None \<longrightarrow> flags = creation_flags \<longrightarrow> (\<exists>i. V k' = (V k)(p \<mapsto> (i, [])))) \<and>
        (V k p \<noteq> None \<longrightarrow> and flags O_TRUNC = 0 \<longrightarrow> V k' = V k)"
  using assms unfolding dir_kernel_def open_law_def by (elim conjE allE)

lemma link_case:
  assumes "dir_kernel K V"
  shows "case sys_link K a b k of
      (Inl _, k') \<Rightarrow> V k' = V k
    | (Inr _, k') \<Rightarrow> V k a \<noteq> None \<and> V k b = None \<and> V k' = (V k)(b := V k a)"
  using assms unfolding dir_kernel_def link_law_def by (elim conjE allE)

lemma wp_create_under_way:
  assumes "dir_kernel K V" "under_way V t s T u" "T p = None"
    and "\<And>e u'. under_way V t s T u' \<Longrightarrow> wp (g (Inl e)) Q E u'"
    and "\<And>fd i u'. under_way V t s (T(p \<mapsto> (i, []))) u' \<Longrightarrow> wp (g (Inr fd)) Q E u'"
  shows "wp (bnd (libc_call (sys_open K p creation_flags mode)) g) Q E u"
proof -
  have law: "case r of Inl _ \<Rightarrow> V k' = V k | Inr _ \<Rightarrow> \<exists>i. V k' = (V k)(p \<mapsto> (i, []))"
    if "sys_open K p creation_flags mode k = (r, k')" "V k p = None" for k r k'
    using open_case [OF assms(1), where p = p and flags = creation_flags and mode = mode and k = k] that by (cases r) simp_all
  show ?thesis
  proof (rule wp_libc_under_way [OF assms(2)])
    fix r k k'
    assume "V k = T" "sys_open K p creation_flags mode k = (r, k')"
      and u': "under_way V t s (V k') (u\<lparr>errno := case r of Inl e \<Rightarrow> e | Inr _ \<Rightarrow> errno u, kern := k'\<rparr>)"
    with law [of k r k'] assms(3)
    show "wp (g r) Q E (u\<lparr>errno := case r of Inl e \<Rightarrow> e | Inr _ \<Rightarrow> errno u, kern := k'\<rparr>)"
      by (cases r) (auto intro: assms(4,5))
  qed
qed

lemma wp_open_under_way:
  assumes "dir_kernel K V" "under_way V t s T u" "T p \<noteq> None" "and flags O_TRUNC = 0"
    and "\<And>r u'. under_way V t s T u' \<Longrightarrow> wp (g r) Q E u'"
  shows "wp (bnd (libc_call (sys_open K p flags mode)) g) Q E u"
proof -
  have "V k' = V k" if "sys_open K p flags mode k = (r, k')" "V k p \<noteq> None" for k r k'
    using open_case [OF assms(1), where p = p and flags = flags and mode = mode and k = k] assms(4) that by (cases r) simp_all
  with assms(3) show ?thesis
    by (intro wp_libc_under_way [OF assms(2)] assms(5)) auto
qed

lemma wp_link_under_way:
  assumes "dir_kernel K V" "under_way V t s T u"
    and "\<And>r T' u'. under_way V t s T' u' \<Longrightarrow> T' = T \<or> T b = None \<and> T' = T(b := T a) \<Longrightarrow> wp (g r) Q E u'"
  shows "wp (bnd (libc_call (sys_link K a b)) g) Q E u"
proof -
  have law: "V k' = V k \<or> V k b = None \<and> V k' = (V k)(b := V k a)" if "sys_link K a b k = (r, k')" for k r k'
    using link_case [OF assms(1), where a = a and b = b and k = k] that by (cases r) simp_all
  show ?thesis
    by (rule wp_libc_under_way [OF assms(2)], erule assms(3)) (use law in auto)
qed


text \<open>Moving a file out of the way, putting something in its place and taking both back.\<close>

lemma t_rename_away: "T p \<noteq> None \<Longrightarrow> T tmp = None \<Longrightarrow> t_rename p tmp T = T(p := None, tmp := T p)"
  by (auto simp: t_rename_def)

lemma t_rename_back:
  assumes "T p \<noteq> None" "T tmp = None"
  shows "t_rename tmp p (T(p := None, tmp := T p)) = T" "t_rename tmp p (T(p := None, tmp := T p, p := y, p := None)) = T"
    and "t_rename p tmp T p = None"
proof -
  have "p \<noteq> tmp" using assms by auto
  with assms show "t_rename tmp p (T(p := None, tmp := T p)) = T" "t_rename tmp p (T(p := None, tmp := T p, p := y, p := None)) = T"
    "t_rename p tmp T p = None"
    by (auto simp: t_rename_def fun_eq_iff)
qed

lemma steady_progress_lookup: "within (progress t) (txc_koa_alias_cache_lookup_inode ino)"
  by (intro progress.within_quiet quiet_intros)

lemma wp_done:
  assumes "quiet m" "under_way V t s (tree V s) u"
  shows "wp m (\<lambda>_. dir_step V t s) (restarts_well V t s) u"
  by (rule wp_last [OF assms(1) under_way_step [OF assms(2)]])

lemmas progress_intros = progress_acquire progress_commit progress.within_quiet

lemma create_case1_step:
  assumes K: "dir_kernel K V" and u: "under_way V t s (tree V s) u" and new: "tree V s p = None"
  shows "wp (create_case1 K t p mode result) (\<lambda>_. dir_step V t s) (restarts_well V t s) u"
  unfolding create_case1_def txc_libc_defs split_beta
proof (rule wp_first [OF steady_progress_lookup u], rule wp_first [OF progress.within_guard], assumption,
    rule wp_create_under_way [where T = "tree V s", OF K _ new], assumption, goal_cases)
  case (1 a u1 a' u2 e u3)
  show ?case unfolding sum.case by (rule wp_done [OF _ 1(3)]) (intro quiet_intros)
next
  case (2 a u1 a' u2 fd i u3)
  let ?T = "(tree V s)(p \<mapsto> (i, []))"
  have "undo_tree (Act_x_create_case1_undo fd k p) ?T = tree V s" for k using new by auto
  with 2(3) show ?case
    unfolding sum.case
    by - ((rule wp_stat_under_way [OF K], assumption) |
      (rule wp_later [where T = ?T], intro progress_intros quiet_intros, intro steady_intros, assumption) |
      (rule wp_register [where T = ?T], assumption, simp, assumption, intro quiet_intros))+
qed

lemma wp_mktemp_under_way:
  assumes "dir_kernel K V" "under_way V t s T u"
    and "\<And>tmp. T tmp = None \<Longrightarrow> wp (f tmp) Q E u"
  shows "wp (bnd (gets (\<lambda>s. sys_mktemp K (kern s))) f) Q E u"
  using assms(2,3) dir_kernelD(5) [OF assms(1), where k = "kern u"] by (auto simp: under_way_def tree_def)

lemma create_case2_step:
  assumes K: "dir_kernel K V" and u: "under_way V t s (tree V s) u" and old: "tree V s p \<noteq> None"
  shows "wp (create_case2 K t ino p mode result) (\<lambda>_. dir_step V t s) (restarts_well V t s) u"
  unfolding create_case2_def txc_libc_defs split_beta
proof (rule wp_first [OF steady_progress_lookup u], rule wp_first, intro progress.within_rules progress_acquire, assumption,
    rule wp_mktemp_under_way [OF K], assumption, goal_cases)
  case (1 a u1 a' u2 tmp)
  note gone = 1(3)
  let ?T = "(tree V s)(p := None, tmp := tree V s p)"
  have T: "t_rename p tmp (tree V s) = ?T" and p: "?T p = None" using t_rename_away [of "tree V s"] t_rename_back [of "tree V s"] old 1 by auto
  show ?case
  proof (rule wp_rename_under_way [OF K 1(2)], unfold T, rule wp_create_under_way [where T = ?T, OF K _ p], assumption, goal_cases)
    case (1 r u3 e u4)
    have restored: "t_rename tmp p ?T = tree V s" using t_rename_back(1) [OF old gone] .
    show ?case
      unfolding sum.case
      by (rule wp_rename_under_way [OF K 1(2)], unfold restored, rule wp_done) (intro quiet_intros)
  next
    case (2 r u3 fd i u4)
    let ?T' = "?T(p \<mapsto> (i, []))"
    have "undo_tree (Act_x_create_case2_undo fd k tmp p) ?T' = tree V s" for k
      using t_rename_back(2) [OF old gone] by simp
    with 2(2) show ?case
      unfolding sum.case
      by - ((rule wp_stat_under_way [OF K], assumption) |
        (rule wp_later [where T = ?T'], intro progress.within_guard progress_intros quiet_intros, intro steady_intros, assumption) |
        (rule wp_register [where T = ?T'], assumption, simp, assumption, intro quiet_intros))+
  qed
qed


lemma x_create_step:
  assumes K: "dir_kernel K V" and tx: "in_transaction t s"
  shows "wp (x_create K p mode result) (\<lambda>_. dir_step V t s) (restarts_well V t s) s"
  unfolding x_create_def wp_retryable [OF tx]
proof (rule wp_first [OF progress.within_quiet under_way_refl], intro quiet_intros,
    rule wp_stat_under_way [OF K], assumption, goal_cases)
  case (1 a u1 i u2)
  then show ?case using create_case1_step [OF K, of t s u2 p] create_case2_step [OF K, of t s u2 p] by simp
qed

lemma x_unlink_step:
  assumes K: "dir_kernel K V" and tx: "in_transaction t s"
  shows "wp (x_unlink K p result) (\<lambda>_. dir_step V t s) (restarts_well V t s) s"
  unfolding x_unlink_def wp_retryable [OF tx]
proof (rule wp_first [OF progress.within_quiet under_way_refl], intro quiet_intros,
    rule wp_stat_under_way [OF K], assumption, goal_cases)
  case (1 a u1 i u2)
  show ?case
  proof (cases "i = 0")
    case True
    have "quiet (bnd unlock_alias (\<lambda>_. finish result EACCES (- 1)))" by (intro quiet_intros)
    from wp_done [OF this 1(2)] True show ?thesis by (simp del: wp_bnd)
  next
    case False
    from 1(2) show ?thesis
      unfolding if_not_P [OF False]
      by - ((rule wp_first, intro progress_intros quiet_intros, assumption) | (rule wp_done, intro quiet_intros, assumption))+
  qed
qed

lemma x_close_step:
  assumes tx: "in_transaction t s"
  shows "wp (x_close K fd result) (\<lambda>_. dir_step V t s) (restarts_well V t s) s"
  unfolding x_close_def wp_retryable [OF tx]
proof (rule wp_first [OF progress.within_fd_acquire under_way_refl], goal_cases)
  case (1 koa u)
  show ?case
  proof (cases koa)
    case None
    have "quiet (finish result EBADF (- 1))" by (intro quiet_intros)
    from wp_done [OF this 1] None show ?thesis by simp
  next
    case (Some k)
    from 1 show ?thesis
      unfolding Some option.case
      by - ((rule wp_first, intro progress_intros quiet_intros, assumption) | (rule wp_done, intro quiet_intros, assumption))+
  qed
qed

text \<open>The two ways in which \<^verbatim>\<open>x_rename\<close> puts a link to the old path at the new one.\<close>

lemma rename_undone:
  assumes "U = T \<and> kn = None \<and> T new = None \<or> kn \<noteq> None \<and> T new \<noteq> None \<and> T tmp = None \<and> U = T(new := None, tmp := T new)"
    and "U' = U \<or> U new = None \<and> U' = U(new := U old)"
  shows "undo_tree (Act_x_rename_undo ko kn old new tmp) U' = T"
proof (cases kn)
  case None
  with assms show ?thesis by (auto simp: fun_eq_iff)
next
  case (Some k)
  with assms(1) have a: "T new \<noteq> None" "T tmp = None" "U = T(new := None, tmp := T new)" by auto
  then have "U'(new := None) = U" using assms(2) by (auto simp: fun_eq_iff)
  with a t_rename_back(1) [OF a(1,2)] Some show ?thesis by simp
qed


lemma x_rename_step:
  assumes K: "dir_kernel K V" and tx: "in_transaction t s"
  shows "wp (x_rename K stack old new result) (\<lambda>_. dir_step V t s) (restarts_well V t s) s"
proof -
  let ?T = "tree V s"
  let ?rest = "\<lambda>ko kn tmp. bnd (libc_call (sys_link K old new)) (\<lambda>_.
    bnd (linear_malloc_or_exit t 396) (\<lambda>_. bnd (strcpy_path tmp) (\<lambda>_. bnd (strcpy_path new) (\<lambda>_. bnd (strcpy_path old) (\<lambda>_.
    bnd (txc_tx_register_commit_action t (Act_x_rename_commit ko kn old new tmp) result TXC_KOA_CREATE_COMMIT_ACTION_ORDER) (\<lambda>_.
    bnd (txc_tx_register_undo_action t (Act_x_rename_undo ko kn old new tmp) result TXC_KOA_CREATE_UNDO_ACTION_ORDER) (\<lambda>_.
    bnd unlock_alias (\<lambda>_. bnd (txc_stats_txstat_increment t x_rename_stat 1) (\<lambda>_. finish result 0 0)))))))))"
  have rest: "wp (?rest ko kn tmp) (\<lambda>_. dir_step V t s) (restarts_well V t s) u"
    if "under_way V t s U u"
      "U = ?T \<and> kn = None \<and> ?T new = None \<or> kn \<noteq> None \<and> ?T new \<noteq> None \<and> ?T tmp = None \<and> U = ?T(new := None, tmp := ?T new)"
    for ko kn tmp u U
  proof (rule wp_link_under_way [OF K that(1)], goal_cases)
    case (1 r U' u')
    have "undo_tree (Act_x_rename_undo ko kn old new tmp) U' = ?T" by (rule rename_undone [OF that(2) 1(2)])
    with 1(1) show ?case
      by - ((rule wp_later [where T = U'], intro progress_intros quiet_intros, intro steady_intros, assumption) |
        (rule wp_register [where T = U'], assumption, simp, assumption, intro quiet_intros))+
  qed
  show ?thesis
    unfolding x_rename_def wp_retryable [OF tx] txc_libc_defs
  proof (rule wp_first [OF progress.within_quiet under_way_refl], intro quiet_intros,
      rule wp_stat_under_way [OF K], assumption, goal_cases)
    case (1 a u1 i u2)
    show ?case
    proof (cases "i = 0")
      case True
      have "quiet (bnd unlock_alias (\<lambda>_. finish result ENOENT (- 1)))" by (intro quiet_intros)
      from wp_done [OF this 1(2)] True show ?thesis by (simp del: wp_bnd)
    next
      case False
      show ?thesis
        unfolding if_not_P [OF False]
      proof (rule wp_first [OF progress_acquire(2) 1(2)], rule wp_stat_under_way [OF K], assumption, goal_cases)
        case (1 ko u3 j u4)
        show ?case
        proof (cases "j = 0")
          case True
          with 1(3) rest [OF 1(2), of None stack ko] show ?thesis by (simp del: wp_bnd)
        next
          case False
          note there = 1(3)
          show ?thesis
            unfolding if_not_P [OF False] bnd_assoc bnd_ret_left prod.case
          proof (rule wp_first [OF progress_acquire(2) 1(2)], rule wp_mktemp_under_way [OF K], assumption,
              rule wp_rename_under_way [OF K], assumption, goal_cases)
            case (1 kn u5 tmp r u6)
            with False there rest [OF 1(3), of "Some kn" tmp ko] show ?case by (simp del: wp_bnd add: t_rename_away)
          qed
        qed
      qed
    qed
  qed
qed

lemma open_cases_step:
  assumes K: "dir_kernel K V" and u: "under_way V t s (tree V s) u"
  shows "wp (open_case1 K t k fd result) (\<lambda>_. dir_step V t s) (restarts_well V t s) u"
    and "wp (open_case2 t ino fd result) (\<lambda>_. dir_step V t s) (restarts_well V t s) u"
proof -
  have reg: "wp (bnd (txc_tx_register_undo_action t (Act_x_open_undo fd k) result TXC_KOA_CREATE_UNDO_ACTION_ORDER) (\<lambda>_. m))
      (\<lambda>_. dir_step V t s) (restarts_well V t s) u" if "under_way V t s (tree V s) u" "quiet m" for u k m
    by (rule wp_register [OF that(1) _ _ that(2)]) simp_all
  have busy: "quiet (bnd (txc_koa_detach_fd (Some k) fd False) (\<lambda>_. bnd (txc_koa_unlock_fd fd) (\<lambda>_.
      bnd (txc_koa_unlock_fds_refby_koa k) (\<lambda>_. bnd unlock_alias (\<lambda>_. txc_tx_abort_transaction t TXC_ABORTREASON_BUSYSENTINEL)))))"
    by (intro quiet_intros)
  show "wp (open_case1 K t k fd result) (\<lambda>_. dir_step V t s) (restarts_well V t s) u"
    unfolding open_case1_def txc_libc_defs
  proof (rule wp_first [OF progress.within_quiet u], intro quiet_intros,
      ((rule wp_first [OF progress.within_tryacquire], assumption) |
        (rule wp_first [OF progress.within_quiet], intro quiet_intros, assumption))+, goal_cases)
    case (1 a1 u1 a2 u2 a3 u3 sn u4 xret u5)
    show ?case
    proof (cases "xret = TXC_R_BUSYSENTINEL")
      case True
      show ?thesis
        unfolding if_P [OF True] by (rule wp_close_under_way [OF K 1(5)], rule wp_done [OF busy])
    next
      case False
      from 1(5) show ?thesis
        unfolding if_not_P [OF False]
        by - (rule wp_first [OF progress.within_quiet], intro quiet_intros, assumption, erule reg, intro quiet_intros)
    qed
  qed
  show "wp (open_case2 t ino fd result) (\<lambda>_. dir_step V t s) (restarts_well V t s) u"
    using u unfolding open_case2_def
    by - ((rule wp_first, intro progress_intros quiet_intros, assumption) | (erule reg, intro quiet_intros))+
qed

lemma x_open_step:
  assumes K: "dir_kernel K V" and tx: "in_transaction t s" and flags: "and flags O_TRUNC = 0"
  shows "wp (x_open K p flags mode result) (\<lambda>_. dir_step V t s) (restarts_well V t s) s"
  unfolding x_open_def wp_retryable [OF tx] txc_libc_defs
proof (rule wp_first [OF progress.within_quiet under_way_refl], intro quiet_intros,
    rule wp_stat_under_way [OF K], assumption, goal_cases)
  case (1 a u1 i u2)
  have flags': "and (or O_RDWR flags) O_TRUNC = 0" using flags by (simp add: bit.conj_disj_distrib2)
  have tail: "quiet (bnd (txc_stats_txstat_increment t x_open_stat 1) (\<lambda>_. finish result 0 fd))" for fd
    by (intro quiet_intros)
  have refused: "quiet (bnd unlock_alias (\<lambda>_. finish result e (- 1)))" for e by (intro quiet_intros)
  show ?case
  proof (cases "i = 0")
    case True
    then show ?thesis using wp_done [OF refused 1(2), of EACCES] by (simp del: wp_bnd)
  next
    case False
    have opened: "wp (bnd (if xret = TXC_R_SUCCESS then bnd (deref koa) (\<lambda>k. open_case1 K t k fd result) else open_case2 t i fd result)
        (\<lambda>_. bnd (txc_stats_txstat_increment t x_open_stat 1) (\<lambda>_. finish result 0 fd)))
        (\<lambda>_. dir_step V t s) (restarts_well V t s) u" if "under_way V t s (tree V s) u" for xret koa fd u
      unfolding wp_bnd [of "if b then m else m'" for b m m']
      by (rule wp_mono [where Q = "\<lambda>_. dir_step V t s" and E = "restarts_well V t s"], cases koa)
        (use open_cases_step [OF K that] wp_last [OF tail] in \<open>simp_all del: wp_bnd add: wp_bnd [of "deref p" for p] deref_def\<close>)
    show ?thesis
      unfolding if_not_P [OF False]
    proof (rule wp_open_under_way [OF K 1(2) _ flags'], use False 1(3) in simp, goal_cases)
      case (1 r u3)
      then show ?case
      proof (cases r)
        case (Inl e)
        then show ?thesis using wp_done [OF refused 1, of e] by (simp del: wp_bnd)
      next
        case (Inr fd)
        show ?thesis
          unfolding Inr sum.case split_beta
          by (rule wp_first [OF steady_progress_lookup 1], rule opened)
      qed
    qed
  qed
qed


section \<open>Transactions\<close>

datatype dir_call =
    Dir_create string u32 "addr option"
  | Dir_unlink string "addr option"
  | Dir_rename string string string "addr option"
  | Dir_open string u32 u32 "addr option"
  | Dir_close int "addr option"

fun dir_xcall :: "'k kernel \<Rightarrow> dir_call \<Rightarrow> (('k, 'z) x_state_scheme, unit) prog" where
  "dir_xcall K (Dir_create p mode result) = bnd (x_create K p mode result) (\<lambda>_. ret ())"
| "dir_xcall K (Dir_unlink p result) = bnd (x_unlink K p result) (\<lambda>_. ret ())"
| "dir_xcall K (Dir_rename stack oldpath newpath result) = bnd (x_rename K stack oldpath newpath result) (\<lambda>_. ret ())"
| "dir_xcall K (Dir_open p flags mode result) = bnd (x_open K p flags mode result) (\<lambda>_. ret ())"
| "dir_xcall K (Dir_close fd result) = bnd (x_close K fd result) (\<lambda>_. ret ())"

text \<open>\<^verbatim>\<open>x_open\<close> does not undo what \<^verbatim>\<open>O_TRUNC\<close> does to a file.\<close>

fun keeps_contents :: "dir_call \<Rightarrow> bool" where
  "keeps_contents (Dir_open p flags mode result) \<longleftrightarrow> and flags O_TRUNC = 0"
| "keeps_contents _ \<longleftrightarrow> True"

lemma dir_call_step:
  assumes "dir_kernel K V" "in_transaction t s" "keeps_contents c"
  shows "wp (dir_xcall K c) (\<lambda>_. dir_step V t s) (restarts_well V t s) s"
  using assms by (cases c) (simp_all add: x_create_step x_unlink_step x_rename_step x_open_step x_close_step)

definition after_calls :: "'k kernel \<Rightarrow> dir_call list \<Rightarrow> nat \<Rightarrow> ('k, 'z) x_state_scheme \<Rightarrow> ('k, 'z) x_state_scheme" where
  "after_calls K cs n s = final_state (for_each (take n cs) (dir_xcall K) s)"

text \<open>
  The actions registered by a sequence of calls, undone one after the other, lead
  through the name spaces between the calls back to the first one.
\<close>

definition retraces :: "'k kernel \<Rightarrow> ('k \<Rightarrow> tree) \<Rightarrow> dir_call list \<Rightarrow> ('k, 'z) x_state_scheme \<Rightarrow>
    txc_tx_action_list_entry list \<Rightarrow> ('k, 'z) x_state_scheme \<Rightarrow> bool" where
  "retraces K V cs s ys s' \<longleftrightarrow> list_all dir_safe ys \<and> undo_dirs (rev (dir_entries ys)) (tree V s') = tree V s \<and>
     (\<forall>j. \<exists>n. undo_dirs (take j (rev (dir_entries ys))) (tree V s') = tree V (after_calls K cs n s))"

lemma after_calls_0: "after_calls K cs 0 s = s"
  by (simp add: after_calls_def prog_simps)

lemma after_calls_Suc: "dir_xcall K c s = Ok x s' \<Longrightarrow> after_calls K (c # cs) (Suc n) s = after_calls K cs n s'"
  by (simp add: after_calls_def bnd_def)

lemma dir_entries_append: "dir_entries (xs @ ys) = dir_entries xs @ dir_entries ys"
  by (simp add: dir_entries_def)

lemma retraces_Cons:
  assumes "dir_xcall K c s = Ok x s'" "retraces K V cs s' ys s''"
    and "list_all dir_safe xs" "length (dir_entries xs) \<le> 1" "undo_dirs (rev (dir_entries xs)) (tree V s') = tree V s"
  shows "retraces K V (c # cs) s (xs @ ys) s''"
proof -
  have all: "undo_dirs (rev (dir_entries ys)) (tree V s'') = tree V s'" using assms(2) by (simp add: retraces_def)
  have "\<exists>n. undo_dirs (take j (rev (dir_entries (xs @ ys)))) (tree V s'') = tree V (after_calls K (c # cs) n s)" for j
  proof (cases "j \<le> length (dir_entries ys)")
    case True
    with assms(2) obtain n where "undo_dirs (take j (rev (dir_entries ys))) (tree V s'') = tree V (after_calls K cs n s')"
      by (auto simp: retraces_def)
    with True after_calls_Suc [OF assms(1)] show ?thesis by (auto simp: dir_entries_append intro!: exI [of _ "Suc n"])
  next
    case False
    then have "take j (rev (dir_entries (xs @ ys))) = rev (dir_entries ys) @ rev (dir_entries xs)"
      using assms(4) by (simp add: dir_entries_append)
    with assms(5) all show ?thesis by (auto simp: undo_dirs_def after_calls_0 intro!: exI [of _ 0])
  qed
  with assms(2,3,5) all show ?thesis by (simp add: retraces_def dir_entries_append undo_dirs_def)
qed

lemma dir_calls_retrace:
  assumes K: "dir_kernel K V" and "in_transaction t s" "list_all keeps_contents cs"
  shows "wp (for_each cs (dir_xcall K)) (\<lambda>_ s'. settled t s' = settled t s \<and> grows undo_action_list t (\<lambda>ys. retraces K V cs s ys s') s s')
    (\<lambda>e s'. restart e \<longrightarrow> settled t s' = settled t s \<and> grows undo_action_list t (\<lambda>ys. retraces K V cs s ys s') s s') s"
  using assms(2,3)
proof (induction cs arbitrary: s)
  case Nil
  have "retraces K V [] s [] s" by (simp add: retraces_def undo_dirs_def dir_entries_def after_calls_def prog_simps)
  then show ?case by (simp add: grows_same)
next
  case (Cons c cs)
  have c: "wp (dir_xcall K c) (\<lambda>_. dir_step V t s) (restarts_well V t s) s"
    using Cons.prems by (simp add: dir_call_step [OF K])
  show ?case
  proof (cases "dir_xcall K c s")
    case (Ok x s')
    with c have s': "dir_step V t s s'" by (simp add: wp_def)
    then have "in_transaction t s'" using Cons.prems settled_in_transaction by (auto simp: dir_step_def)
    with Cons.IH [of s'] Cons.prems
    have rest: "wp (for_each cs (dir_xcall K)) (\<lambda>_ u. settled t u = settled t s' \<and> grows undo_action_list t (\<lambda>ys. retraces K V cs s' ys u) s' u)
      (\<lambda>e u. restart e \<longrightarrow> settled t u = settled t s' \<and> grows undo_action_list t (\<lambda>ys. retraces K V cs s' ys u) s' u) s'"
      by simp
    have "settled t u = settled t s \<and> grows undo_action_list t (\<lambda>ys. retraces K V (c # cs) s ys u) s u"
      if "settled t u = settled t s' \<and> grows undo_action_list t (\<lambda>ys. retraces K V cs s' ys u) s' u" for u
      using s' that unfolding dir_step_def
      by (elim conjE, intro conjI, simp) (erule grows_trans, assumption, rule retraces_Cons [OF Ok], auto)
    with rest have "wp (for_each cs (dir_xcall K)) (\<lambda>_ u. settled t u = settled t s \<and> grows undo_action_list t (\<lambda>ys. retraces K V (c # cs) s ys u) s u)
      (\<lambda>e u. restart e \<longrightarrow> settled t u = settled t s \<and> grows undo_action_list t (\<lambda>ys. retraces K V (c # cs) s ys u) s u) s'"
      by (elim wp_mono) blast+
    with Ok show ?thesis by (simp add: wp_def bnd_def)
  next
    case (Fault e s')
    have "retraces K V (c # cs) s ys s'"
      if "list_all dir_safe ys" "length (dir_entries ys) \<le> 1" "undo_dirs (rev (dir_entries ys)) (tree V s') = tree V s" for ys
    proof -
      have 1: "after_calls K (c # cs) (Suc 0) s = s'" using Fault by (simp add: after_calls_def bnd_def)
      have "\<exists>n. undo_dirs (take j (rev (dir_entries ys))) (tree V s') = tree V (after_calls K (c # cs) n s)" for j
      proof (cases j)
        case 0
        with 1 show ?thesis by (auto simp: undo_dirs_def intro: exI [of _ "Suc 0"])
      next
        case (Suc i)
        with that have "take j (rev (dir_entries ys)) = rev (dir_entries ys)" by simp
        with that show ?thesis by (auto simp: after_calls_0 intro: exI [of _ 0])
      qed
      with that show ?thesis by (simp add: retraces_def)
    qed
    with c Fault show ?thesis by (auto simp: wp_def bnd_def dir_step_def elim!: grows_mono)
  qed
qed


section \<open>Rolling back\<close>

text \<open>A rollback undoes a sequence of actions; if it stops, then between two of them.\<close>

lemma run_list_dirs:
  assumes K: "dir_kernel K V" and "list_all dir_safe es"
  shows "wp (run_list (exec_action K) es acc)
    (\<lambda>_ s'. tree V s' = undo_dirs es (tree V s)) (\<lambda>_ s'. \<exists>j. tree V s' = undo_dirs (take j es) (tree V s)) s"
  using assms(2)
proof (induction es arbitrary: acc s)
  case Nil
  then show ?case by (simp add: undo_dirs_def)
next
  case (Cons e es)
  let ?T = "undo_tree (ae_function e) (tree V s)"
  have exec: "wp (exec_action K (ae_function e)) (\<lambda>_ s'. tree V s' = ?T) (\<lambda>_ s'. tree V s' = tree V s \<or> tree V s' = ?T) s"
  proof (cases "dir_action (ae_function e)")
    case True
    then show ?thesis by (rule exec_dir_action [OF K])
  next
    case False
    then have "manager_entry e" using Cons.prems by (simp add: dir_safe_def)
    then have "quiet (exec_action K (ae_function e))" "?T = tree V s" by (auto simp: manager_entry_def quiet_intros)
    then show ?thesis by (intro wp_kept [where P = "\<lambda>k. V k = V (kern s)"]) (simp_all add: tree_def)
  qed
  have store: "wp (store_int p v) (\<lambda>_ u. tree V u = T) (\<lambda>_ _. False) s'" if "tree V s' = T" for p v T and s' :: "('a, 'b) x_state_scheme"
    using that by (simp add: store_int_def tree_def split: option.split)
  have stop: "\<exists>j. T' = undo_dirs (take j (e # es)) (tree V s)" if "T' = tree V s \<or> T' = ?T" for T'
    using that by (auto simp: undo_dirs_def intro: exI [of _ 0] exI [of _ "Suc 0"])
  have "wp (run_entry (exec_action K) e acc) (\<lambda>_ s'. tree V s' = ?T) (\<lambda>_ s'. \<exists>j. tree V s' = undo_dirs (take j (e # es)) (tree V s)) s"
    unfolding run_entry_def split_beta wp_bnd
    by (rule wp_mono [OF exec]) (auto intro: wp_mono [OF store] stop)
  then show ?case
    unfolding run_list.simps wp_bnd
  proof (rule wp_mono, goal_cases)
    case (1 acc' s')
    have "wp (run_list (exec_action K) es acc') (\<lambda>_ u. tree V u = undo_dirs es (tree V s')) (\<lambda>_ u. \<exists>j. tree V u = undo_dirs (take j es) (tree V s')) s'"
      by (rule Cons.IH) (use Cons.prems in simp)
    then show ?case
      by (rule wp_mono) (use 1 in \<open>auto simp: undo_dirs_def intro: exI [of _ "Suc j" for j]\<close>)
  qed
qed

lemma undo_dirs_managers: "list_all manager_entry es \<Longrightarrow> undo_dirs (take j es) T = T"
  by (induction es arbitrary: j) (auto simp: undo_dirs_def take_Cons manager_entry_def split: nat.splits)

lemma by_level_dirs:
  assumes "list_all dir_safe es"
  shows "\<exists>rest. by_level 4 es = dir_entries es @ rest \<and> list_all manager_entry rest"
  using by_level_regular [of es] assms by (auto simp: dir_safe_def dir_entries_def list_all_iff)

lemma abort_dirs:
  assumes K: "dir_kernel K V" and usable: "list_usable undo_action_list t s"
    and safe: "list_all dir_safe (entries undo_action_list t s)"
  shows "wp (abort_transaction K t) (\<lambda>_ s'. tree V s' = undo_dirs (rev (dir_entries (entries undo_action_list t s))) (tree V s))
    (\<lambda>_ s'. \<exists>j. tree V s' = undo_dirs (take j (rev (dir_entries (entries undo_action_list t s)))) (tree V s)) s"
proof -
  let ?L = "entries undo_action_list t s"
  have regular: "regular_list ?L" using safe by (auto simp: regular_list_def list_all_iff dir_safe_def)
  have run: "run_actions downwards undo_action_list (exec_action K) t s =
      run_list (exec_action K) (by_level 4 (rev ?L)) (0, 0) s"
    using undo_runner.run_actions_list [of s t 4 K] usable regular_levels [OF regular]
    by (simp add: entries_def list_usable_def list_ready_def downwards_def map_nth_rev)
  obtain rest where rest: "by_level 4 (rev ?L) = rev (dir_entries ?L) @ rest" "list_all manager_entry rest"
    using by_level_dirs [of "rev ?L"] safe by (auto simp: dir_entries_def rev_filter)
  have all: "list_all dir_safe (rev (dir_entries ?L) @ rest)"
    using safe managers_safe [OF rest(2)] by (auto simp: dir_entries_def list_all_iff)
  have undo: "undo_dirs (take j (rev (dir_entries ?L) @ rest)) T = undo_dirs (take j (rev (dir_entries ?L))) T" for j T
    using undo_dirs_managers [OF rest(2)] by (simp add: undo_dirs_def)
  have full: "undo_dirs (rev (dir_entries ?L) @ rest) T = undo_dirs (rev (dir_entries ?L)) T" for T
    using undo [of "length (rev (dir_entries ?L) @ rest)" T] by simp
  have tail: "wp (bnd (txc_tx_init t) (\<lambda>_. txc_fm_handle_undo_failure t e)) (\<lambda>_ u. tree V u = tree V s') (\<lambda>_ u. tree V u = tree V s') s'"
    for e and s' :: "('a, 'b) x_state_scheme"
    by (rule wp_mono [OF withinD [OF end_of_transaction(2)]]) (simp_all add: same_app_def app_def tree_def)
  have "wp (bnd (run_list (exec_action K) (by_level 4 (rev ?L)) (0, 0)) (\<lambda>(_, e). bnd (txc_tx_init t) (\<lambda>_. txc_fm_handle_undo_failure t e)))
      (\<lambda>_ s'. tree V s' = undo_dirs (rev (dir_entries ?L)) (tree V s))
      (\<lambda>_ s'. \<exists>j. tree V s' = undo_dirs (take j (rev (dir_entries ?L))) (tree V s)) s"
    unfolding rest(1) wp_bnd [of "run_list x y z" for x y z] split_beta
    by (rule wp_mono [OF run_list_dirs [OF K all]], rule wp_mono [OF tail])
      (auto simp: undo full simp del: take_append intro: exI [of _ "length (dir_entries ?L)"])
  then show ?thesis
    unfolding abort_transaction_def tx_generic_undo_action_def wp_def bnd_def [of "run_actions d l x y" for d l x y]
      bnd_def [of "run_list x y z" for x y z] run .
qed



section \<open>Witnesses\<close>

text \<open>
  A kernel whose state is a directory, a list of entries with path, inode and
  contents; an entry with inode 0 is unused.
\<close>

type_synonym dir_state = "(string \<times> u32 \<times> byte list) list"

definition dir_view :: "dir_state \<Rightarrow> tree" where
  "dir_view k = map_of (filter (\<lambda>e. fst (snd e) \<noteq> 0) k)"

definition dir_remove :: "string \<Rightarrow> dir_state \<Rightarrow> dir_state" where
  "dir_remove p k = filter (\<lambda>e. fst e \<noteq> p) k"

definition next_inode :: "dir_state \<Rightarrow> u32" where
  "next_inode k = foldr (\<lambda>e. max (fst (snd e))) k 0 + 1"

definition sample_open :: "string \<Rightarrow> u32 \<Rightarrow> u32 \<Rightarrow> (dir_state, int) syscall" where
  "sample_open p flags mode k =
     (case dir_view k p of
        Some (i, _) \<Rightarrow>
          (Inr 4, if and flags O_TRUNC = 0 then k else map (\<lambda>(q, j, d). (q, j, if j = i then [] else d)) k)
      | None \<Rightarrow>
          if next_inode k = 0 then (Inl ENOMEM, k) else (Inr 4, (p, next_inode k, []) # dir_remove p k))"

definition sample_rename :: "string \<Rightarrow> string \<Rightarrow> (dir_state, int) syscall" where
  "sample_rename a b k =
     (case dir_view k a of
        None \<Rightarrow> (Inl ENOENT, k)
      | Some x \<Rightarrow>
          (Inr 0, if map_option fst (dir_view k b) = Some (fst x) then k else (b, x) # dir_remove b (dir_remove a k)))"

definition sample_link :: "string \<Rightarrow> string \<Rightarrow> (dir_state, int) syscall" where
  "sample_link a b k =
     (case (dir_view k a, dir_view k b) of (Some x, None) \<Rightarrow> (Inr 0, (b, x) # dir_remove b k) | _ \<Rightarrow> (Inl ENOENT, k))"

definition dir_sample_kernel :: "dir_state kernel" where
  "dir_sample_kernel = \<lparr>sys_open = sample_open, sys_close = (\<lambda>_ k. (Inr 0, k)), sys_rename = sample_rename,
     sys_stat = (\<lambda>p k. (case dir_view k p of None \<Rightarrow> Inl ENOENT | Some (i, _) \<Rightarrow> Inr i, k)),
     sys_unlink = (\<lambda>p k. (if dir_view k p = None then Inl ENOENT else Inr 0, dir_remove p k)),
     sys_write = (\<lambda>_ _ k. (Inl EBADF, k)), sys_read = (\<lambda>_ _ k. (Inl EBADF, k)), sys_lseek = (\<lambda>_ _ _ k. (Inl EBADF, k)),
     sys_pwrite = (\<lambda>_ _ _ k. (Inl EBADF, k)), sys_ftruncate = (\<lambda>_ _ k. (Inl EBADF, k)),
     sys_link = sample_link, sys_dup = (\<lambda>_ k. (Inl EBADF, k)), sys_pipe = (\<lambda>k. (Inl EINVAL, k)),
     sys_socket = (\<lambda>_ _ _ k. (Inl EINVAL, k)), sys_sendmsg = (\<lambda>_ _ _ k. (Inl EINVAL, k)), sys_recvmsg = (\<lambda>_ _ _ _ _ k. (Inl EINVAL, k)),
     sys_fsync = (\<lambda>_ k. (Inr 0, k)), sys_fdatasync = (\<lambda>_ k. (Inr 0, k)),
     sys_mktemp = (\<lambda>k. ''/tmp/libtxc.tmp.'' @ replicate (foldr (\<lambda>e. max (length (fst e))) k 0) (CHR ''X'')),
     sys_user = (\<lambda>_ _ k. (0, k))\<rparr>"

lemma dir_view_Cons: "fst x \<noteq> 0 \<Longrightarrow> dir_view ((p, x) # k) = (dir_view k)(p \<mapsto> x)"
  by (simp add: dir_view_def)

lemma dir_view_remove: "dir_view (dir_remove p k) = (dir_view k)(p := None)"
proof -
  have "map_of (filter P (filter (\<lambda>e. fst e \<noteq> p) k)) = (map_of (filter P k))(p := None)" for P
    by (induction k) (auto simp: fun_eq_iff)
  then show ?thesis by (simp add: dir_view_def dir_remove_def)
qed

lemma dir_view_used: "dir_view k p = Some x \<Longrightarrow> fst x \<noteq> 0"
  unfolding dir_view_def by (drule map_of_SomeD) auto

lemma dir_view_short: "dir_view k p = Some x \<Longrightarrow> length p \<le> foldr (\<lambda>e. max (length (fst e))) k 0"
  by (induction k) (auto simp: dir_view_def le_max_iff_disj split: if_splits)

lemma dir_sample_kernel_laws: "dir_kernel dir_sample_kernel dir_view"
proof -
  have "dir_view k (''/tmp/libtxc.tmp.'' @ replicate (foldr (\<lambda>e. max (length (fst e))) k 0) (CHR ''X'')) = None" for k
    by (rule ccontr) (auto dest: dir_view_short)
  then have "mktemp_law dir_sample_kernel dir_view" by (simp add: mktemp_law_def dir_sample_kernel_def)
  moreover have "stat_law dir_sample_kernel dir_view"
    using dir_view_used by (fastforce simp: stat_law_def dir_sample_kernel_def split: option.split)
  moreover have "open_law dir_sample_kernel dir_view"
    by (auto simp: open_law_def dir_sample_kernel_def sample_open_def dir_view_Cons dir_view_remove split: option.split)
  moreover have "rename_law dir_sample_kernel dir_view"
    using dir_view_used
    by (auto simp: rename_law_def dir_sample_kernel_def sample_rename_def t_rename_def dir_view_Cons dir_view_remove split: option.split)
  moreover have "link_law dir_sample_kernel dir_view"
    using dir_view_used
    by (auto simp: link_law_def dir_sample_kernel_def sample_link_def dir_view_Cons dir_view_remove split: option.split)
  ultimately show ?thesis
    by (simp add: dir_kernel_def close_law_def unlink_law_def dir_sample_kernel_def dir_view_remove)
qed


text \<open>A transaction that creates a file over one that exists.\<close>

definition dir_sample_state :: "dir_state x_state" where
  "dir_sample_state = txmgr_state.extend
     (koa_state.extend ((sample_koa_state (sample_koa TXC_KOA_IS_FILE 1 []))
          \<lparr>bufmgr := sample_linear\<lparr>lin_mem := (\<lambda>_. \<lparr>lb_buf = 4096, lb_size_max = 1024, cur_len = 0,
             lb_state = TXC_BUFFER_STATE_NON_SPECULATIVE\<rparr>)\<rparr>\<rparr>)
        (txmgr_state.fields False 0 None None sample_pool))
     (x_state.fields [(''a'', 5, [1, 2]), (''b'', 9, [3])] (\<lambda>_. False)
        (\<lambda>_. \<lparr>start_lock = False, start_routine = None, start_arg = 0\<rparr>) [] (\<lambda>_. 0))"


lemma dir_sample_state_simps [simp]:
  "l_txd dir_sample_state = Some 256" "itm_mode dir_sample_state = (\<lambda>_. inRetryableTransaction)"
  "kern dir_sample_state = [(''a'', 5, [1, 2]), (''b'', 9, [3])]"
  "txds dir_sample_state = (\<lambda>_. sample_txd\<lparr>txstat := 64, threadstat := 128\<rparr>)"
  "map_mutex dir_sample_state = (\<lambda>_. False)" "map_koa dir_sample_state = (\<lambda>_. None)" "\<not> alias_mutex dir_sample_state"
  "koas dir_sample_state = (\<lambda>_. sample_koa TXC_KOA_IS_FILE 1 [])" "pool_koa_obj dir_sample_state = sample_pool"
  "alias_cache dir_sample_state = empty_table" "pool_sentinel dir_sample_state = sample_pool"
  "sentinels dir_sample_state = (\<lambda>a. free_sentinel (int (unat a)))"
  "lin_mem (bufmgr dir_sample_state) = (\<lambda>_. \<lparr>lb_buf = 4096, lb_size_max = 1024, cur_len = 0, lb_state = TXC_BUFFER_STATE_NON_SPECULATIVE\<rparr>)"
  "realloc_ok dir_sample_state = (\<lambda>_. True)" "runtime_settings dir_sample_state = DEFVALUES\<lparr>statistics := True\<rparr>"
  "errno dir_sample_state = 0" "indeterminate dir_sample_state = 0"
  "malloc_answer dir_sample_state = (\<lambda>n. Some (of_nat (8192 + 64 * n)))" "malloc_calls dir_sample_state = 0"
  by (simp_all add: dir_sample_state_def txmgr_state.defs koa_state.defs x_state.defs sample_koa_state_def koa_fds_def
      stats_state.defs sample_stats_state_def)

lemmas create_run_defs = x_create_def create_case2_def create_case2a_def path2inode_def txc_koa_path2inode_def dir_sample_kernel_def sample_open_def sample_rename_def
  dir_view_def dir_remove_def next_inode_def attach_new_file_def txc_koa_create_def on_pool_koa_def txc_pool_object_alloc_def
  txc_pool_lock_def txc_pool_unlock_def pool_object_take_def set_prev_def set_next_def set_status_def pbuf_def pnext_def pprev_def
  txc_sentinel_create_def on_pool_sentinel_def koa_set_def txc_koa_attach_fd_def koa_ref_def alias_cache_insert_def MALLOC_def on_alias_cache_def
  txc_hash_table_add_def txc_hash_table_lookup_def bucket_list_of_def bucket_list_lock_def bucket_search_def find_node.simps bucket_obtain_def
  bucket_list_unlock_def txc_koa_alias_cache_lookup_inode_def acquire_new_def linear_malloc_or_exit_def strcpy_path_def lock_alias_def unlock_alias_def
  txc_koa_lock_alias_cache_def txc_koa_unlock_alias_cache_def bucket_list_add_def set_hentry_def set_list_head_def list_head_def hnext_def hprev_def hkey_def hvalue_def set_hnext_def set_hprev_def
  sample_pool_def empty_table_def txc_hash_table_create_def

lemmas undo_run_defs = abort_transaction_def tx_generic_undo_action_def run_actions_def run_orders.simps run_index_def run_entry_def downwards_def
  x_create_case2_undo_def txc_koa_detach_fd_def fd_index_def koa_unref_def alias_cache_remove_def txc_hash_table_remove_def bucket_list_remove_def
  txc_koa_destroy_def txc_sentinel_detach_def sentinel_detach_def sentinel_destroy_def txc_pool_object_free_def pool_index_def pstatus_def pool_object_put_def
  sentinelmgr_undo_action_def sentinelmgr_transaction_before_retry_def before_retry_release_def collect_preacquire_def sentinel_list_sort_def
  sentinel_list_release_def release_entry_def backoff_def txc_tx_get_forced_retries_def sentinel_list_acquire_def txc_tx_init_def txc_fm_handle_undo_failure_def
  txc_buffer_linear_init_def txc_sentinel_list_init_def backoff_time_def unlock_sentinel_def lock_sentinel_def enlist_preacquire_def sort_entries_sort_key

lemma sample_create_run:
  "\<exists>u v. for_each [Dir_create ''a'' 0 None] (dir_xcall dir_sample_kernel) dir_sample_state = Ok () u \<and>
     tree dir_view u ''a'' = Some (10, []) \<and> length (entries undo_action_list 256 u) = 2 \<and>
     abort_transaction dir_sample_kernel 256 u = Ok () v"
  by (simp add: tree_def entries_def create_run_defs sample_run_defs) (simp add: create_run_defs sample_run_defs undo_run_defs)



lemmas commit_run_defs = commit_transaction_def tx_generic_commit_action_def upwards_def x_rename_commit_def lock_fds_opt_def unlock_fds_opt_def
  detach_opt_def txc_koa_detach_def txc_koa_lock_fds_refby_koa_def txc_koa_unlock_fds_refby_koa_def koa_fds_def sentinelmgr_commit_action_def
  sentinelmgr_transaction_on_complete_def txc_fm_handle_commit_failure_def

lemmas rename_run_defs = x_rename_def acquire_path_def acquire_live_koa_def txc_koa_attach_def sample_link_def



end
