(* ===== verification/Threads.thy ===== *)
theory Threads
  imports Levels
begin

text \<open>
  Threads created inside transactions.  The new thread waits for a lock that only
  the commit or the rollback of its creator releases, and runs its start function
  only if it was the commit.
\<close>

section \<open>Creation\<close>

definition armed :: "addr \<Rightarrow> addr \<Rightarrow> addr \<Rightarrow> ('k, 'z) x_state_scheme \<Rightarrow> bool" where
  "armed b start arg s \<longleftrightarrow> control_blocks s b = \<lparr>start_lock = True, start_routine = Some start, start_arg = arg\<rparr>"

definition created :: "addr \<Rightarrow> addr \<Rightarrow> addr \<Rightarrow> addr option \<Rightarrow> ('k, 'z) x_state_scheme \<Rightarrow> addr \<Rightarrow> ('k, 'z) x_state_scheme \<Rightarrow> bool" where
  "created t start arg result s b s' \<longleftrightarrow> armed b start arg s' \<and> started s' = started s \<and>
     grows commit_action_list t (\<lambda>ys. ys = [entry_of (Act_x_pthread_create_commit b, result, 0)]) s s' \<and>
     grows undo_action_list t (\<lambda>ys. ys = [entry_of (Act_x_pthread_create_undo b, result, 0)]) s s'"

lemma grows_cong:
  assumes "sel (txds u t) = sel (txds s t)" "realloc_ok u = realloc_ok s" "sel (txds u' t) = sel (txds s' t)" "realloc_ok u' = realloc_ok s'"
  shows "grows sel t P u u' = grows sel t P s s'"
  using assms by (simp add: grows_def entries_def list_usable_def)

lemma created_chain:
  assumes s1: "silent s s1" and u: "u = s1\<lparr>control_blocks := (control_blocks s1)(b := blk)\<rparr>"
    and blk: "blk = \<lparr>start_lock = True, start_routine = Some start, start_arg = arg\<rparr>"
    and s2: "registers commit_action_list undo_action_list t (entry_of (Act_x_pthread_create_commit b, result, 0)) u s2"
    and s3: "registers undo_action_list commit_action_list t (entry_of (Act_x_pthread_create_undo b, result, 0)) s2 s3"
    and s': "silent s3 s'"
  shows "created t start arg result s b s'"
proof -
  have a: "around t s' = around t u"
    using silent_around [OF s', of t] s2 s3 by (simp add: registers_def)
  have au: "realloc_ok u = realloc_ok s" "started u = started s"
    using silent_around [OF s1, of t] u by (simp_all add: around_def)
  have r: "realloc_ok s2 = realloc_ok u" "realloc_ok s3 = realloc_ok u" "realloc_ok s' = realloc_ok u"
    using s2 s3 a by (simp_all add: registers_def around_def)
  note l = silent_entries [OF s1, of t] silent_entries [OF s', of t]
  have "grows commit_action_list t (\<lambda>ys. ys = [entry_of (Act_x_pthread_create_commit b, result, 0)]) s s'"
    using s2 s3 by (subst grows_cong [of _ _ t u _ s2]) (simp_all add: registers_def l u r au [unfolded u])
  moreover have "grows undo_action_list t (\<lambda>ys. ys = [entry_of (Act_x_pthread_create_undo b, result, 0)]) s s'"
    using s2 s3 by (subst grows_cong [of _ _ t s2 _ s3]) (simp_all add: registers_def l u r au [unfolded u])
  moreover have "armed b start arg s'" "started s' = started s"
    using a au(2) u blk by (simp_all add: armed_def around_def)
  ultimately show ?thesis by (simp add: created_def)
qed

lemma x_pthread_create_spec:
  assumes tx: "in_transaction t s"
  shows "wp (x_pthread_create answer start arg result)
    (\<lambda>(r, p) s'. r = 0 \<and> (\<exists>b. p = Some b \<and> created t start arg result s b s')) (\<lambda>_ _. True) s"
  unfolding x_pthread_create_def wp_retryable [OF tx] wp_bnd [of MALLOC]
proof (rule wp_mono [OF withinD [OF quiet_MALLOC]], goal_cases)
  case (1 p s1)
  show ?case
  proof (cases p)
    case (Some b)
    let ?u = "s1\<lparr>control_blocks := (control_blocks s1)(b := (control_blocks s1 b)
      \<lparr>start_arg := arg, start_routine := Some start, start_lock := True\<rparr>)\<rparr>"
    have "(control_blocks s1 b)\<lparr>start_arg := arg, start_routine := Some start, start_lock := True\<rparr> =
        \<lparr>start_lock = True, start_routine = Some start, start_arg = arg\<rparr>"
      by (cases "control_blocks s1 b") simp
    note chain = created_chain [OF 1 refl this]
    have "wp (txc_tx_register_commit_action t (Act_x_pthread_create_commit b) result TXC_TX_REGULAR_COMMIT_ACTION_ORDER) (\<lambda>_.
        wp (txc_tx_register_undo_action t (Act_x_pthread_create_undo b) result TXC_TX_REGULAR_UNDO_ACTION_ORDER) (\<lambda>_.
        wp (finish result 0 (0, Some b)) (\<lambda>(r, p) s'. r = 0 \<and> (\<exists>b. p = Some b \<and> created t start arg result s b s')) (\<lambda>_ _. True))
        (\<lambda>_ _. True)) (\<lambda>_ _. True) ?u"
      by (rule wp_mono [OF withinD [OF register_commit_within]],
          rule wp_mono [OF withinD [OF register_undo_within]], rule wp_finish)
        (simp_all add: chain)
    with Some show ?thesis by (simp add: deref_def block_set_def)
  qed (simp add: deref_def)
qed simp

section \<open>Commit and rollback\<close>

lemma created_end:
  assumes c: "created t start arg result s b s1"
    and usable: "list_usable commit_action_list t s" "list_usable undo_action_list t s"
    and fresh: "list_all manager_entry (entries commit_action_list t s)" "list_all manager_entry (entries undo_action_list t s)"
    and room: "length (entries commit_action_list t s1) < 2 ^ 31" "length (entries undo_action_list t s1) < 2 ^ 31"
  shows "control_blocks (final_state (commit_transaction K t s1)) b =
      \<lparr>start_lock = False, start_routine = Some start, start_arg = arg\<rparr> \<and>
      started (final_state (commit_transaction K t s1)) = started s"
    and "control_blocks (final_state (abort_transaction K t s1)) b =
      \<lparr>start_lock = False, start_routine = None, start_arg = arg\<rparr> \<and>
      started (final_state (abort_transaction K t s1)) = started s"
proof -
  have none: "filter (\<lambda>e. ae_order e = 0) es = []" if "list_all manager_entry es" for es
    using that by (auto simp: filter_empty_conv list_all_iff manager_entry_def)
  have c1: "list_usable commit_action_list t s1"
    "entries commit_action_list t s1 = entries commit_action_list t s @ [entry_of (Act_x_pthread_create_commit b, result, 0)]"
    and u1: "list_usable undo_action_list t s1"
    "entries undo_action_list t s1 = entries undo_action_list t s @ [entry_of (Act_x_pthread_create_undo b, result, 0)]"
    using c usable room by (auto simp: created_def grows_def)
  have reg: "regular_list (entries commit_action_list t s1)" "regular_list (entries undo_action_list t s1)"
    using fresh c1(2) u1(2) by (auto simp: regular_list_def list_all_iff entry_of_def)
  have b: "control_blocks s1 b = \<lparr>start_lock = True, start_routine = Some start, start_arg = arg\<rparr>" "started s1 = started s"
    using c by (simp_all add: created_def armed_def)
  have "wp (run_list (exec_action K) (filter (\<lambda>e. ae_order e = 0) (entries commit_action_list t s1)) (0, 0))
      (\<lambda>_ u. control_blocks u b = \<lparr>start_lock = False, start_routine = Some start, start_arg = arg\<rparr> \<and> started u = started s)
      (\<lambda>_ _. False) s1"
    using b by (simp add: c1 none fresh entry_of_def run_entry_def x_pthread_create_commit_def block_set_def store_int_def split: option.split)
  from commit_outcome [OF c1(1) reg(1) this] show "control_blocks (final_state (commit_transaction K t s1)) b =
      \<lparr>start_lock = False, start_routine = Some start, start_arg = arg\<rparr> \<and>
      started (final_state (commit_transaction K t s1)) = started s" by (simp add: app_def wp_final)
  have "wp (run_list (exec_action K) (rev (filter (\<lambda>e. ae_order e = 0) (entries undo_action_list t s1))) (0, 0))
      (\<lambda>_ u. control_blocks u b = \<lparr>start_lock = False, start_routine = None, start_arg = arg\<rparr> \<and> started u = started s)
      (\<lambda>_ _. False) s1"
    using b by (simp add: u1 none fresh entry_of_def run_entry_def x_pthread_create_undo_def block_set_def store_int_def split: option.split)
  from abort_outcome [OF u1(1) reg(2) this] show "control_blocks (final_state (abort_transaction K t s1)) b =
      \<lparr>start_lock = False, start_routine = None, start_arg = arg\<rparr> \<and>
      started (final_state (abort_transaction K t s1)) = started s" by (simp add: app_def wp_final)
qed

text \<open>
  C7. A thread created inside a transaction runs its start function exactly when
  the transaction commits: until then it is blocked, after the commit it runs the
  function once, and after a rollback it ends without running it.
\<close>

theorem thread_runs_only_after_commit:
  assumes "in_transaction t s"
    and "list_usable commit_action_list t s" "list_usable undo_action_list t s"
    and "list_all manager_entry (entries commit_action_list t s)" "list_all manager_entry (entries undo_action_list t s)"
    and run: "x_pthread_create answer start arg result s = Ok (r, p) s1"
    and room: "length (entries commit_action_list t s1) < 2 ^ 31" "length (entries undo_action_list t s1) < 2 ^ 31"
  shows "\<exists>b. r = 0 \<and> p = Some b \<and> started s1 = started s \<and>
    x_pthread_create_start_indirection b s1 = Fault Blocked s1 \<and>
    (\<exists>s2. x_pthread_create_start_indirection b (final_state (commit_transaction K t s1)) = Ok () s2 \<and>
       started s2 = started s @ [(start, arg)]) \<and>
    (\<exists>s2. x_pthread_create_start_indirection b (final_state (abort_transaction K t s1)) = Ok () s2 \<and>
       started s2 = started s)"
proof -
  obtain b where b: "r = 0" "p = Some b" "created t start arg result s b s1"
    using wp_OkD [OF x_pthread_create_spec [OF assms(1)] run] by auto
  note e = created_end [OF b(3) assms(2-5) room, of K]
  from b e show ?thesis
    by (auto simp: x_pthread_create_start_indirection_def prog_simps block_set_def created_def armed_def)
qed

section \<open>Witness\<close>

lemma sample_x_state_malloc [simp]:
  "malloc_answer sample_x_state = (\<lambda>n. Some (of_nat (8192 + 64 * n)))" "malloc_calls sample_x_state = 0" "started sample_x_state = []"
  by (simp_all add: sample_x_state_def txmgr_state.defs koa_state.defs x_state.defs sample_koa_state_def
      stats_state.defs sample_stats_state_def)

lemma sample_thread_run:
  "\<exists>u. x_pthread_create 0 9000 77 None sample_x_state = Ok (0, Some 8192) u \<and>
     length (entries commit_action_list 256 u) = 1 \<and> length (entries undo_action_list 256 u) = 1"
  by (simp add: x_pthread_create_def MALLOC_def block_set_def entries_def sample_run_defs)

theorem thread_runs_only_after_commit_witness:
  "\<exists>u s2. x_pthread_create 0 9000 77 None sample_x_state = Ok (0, Some 8192) u \<and>
     x_pthread_create_start_indirection 8192 u = Fault Blocked u \<and>
     x_pthread_create_start_indirection 8192 (final_state (commit_transaction sample_kernel 256 u)) = Ok () s2 \<and>
     started s2 = [(9000, 77)]"
proof -
  obtain u where u: "x_pthread_create 0 9000 77 None sample_x_state = Ok (0, Some 8192) u"
    "length (entries commit_action_list 256 u) = 1" "length (entries undo_action_list 256 u) = 1"
    using sample_thread_run by blast
  have tx: "in_transaction 256 sample_x_state" by (simp add: in_transaction_def)
  have ready: "list_usable commit_action_list 256 sample_x_state" "list_usable undo_action_list 256 sample_x_state"
      "list_all manager_entry (entries commit_action_list 256 sample_x_state)"
      "list_all manager_entry (entries undo_action_list 256 sample_x_state)"
    by (simp_all add: list_usable_def list_ready_def entries_def sample_txd_def)
  from thread_runs_only_after_commit [OF tx ready u(1), of sample_kernel] u show ?thesis by auto
qed

end
