(* ===== verification/Replay.thy ===== *)
theory Replay
  imports Threads
begin

text \<open>
  Reading pipes inside transactions.  What a transaction reads stays in the
  circular buffer of the pipe's KOA until it commits; when the transaction is
  rolled back the next one reads the same bytes again, from the buffer.
\<close>

section \<open>Steps that leave the pipes alone\<close>

definition calm :: "('k, 'z) x_state_scheme \<Rightarrow> ('k, 'z) x_state_scheme \<Rightarrow> bool" where
  "calm s s' \<longleftrightarrow> circ_mem (bufmgr s') = circ_mem (bufmgr s) \<and> kern s' = kern s \<and> map_koa s' = map_koa s \<and> koas s' = koas s \<and>
     mem s' = mem s"

interpretation calm: frame calm
  by unfold_locales (simp_all add: calm_def)

lemma calm_simps [simp]:
  "calm s (s\<lparr>realloc_calls := n\<rparr>)" "calm s (s\<lparr>txds := d\<rparr>)" "calm s (s\<lparr>itm_actions := a\<rparr>)"
  "calm s (s\<lparr>int_mem := i\<rparr>)" "calm s (s\<lparr>txstats := ts\<rparr>)" "calm s (s\<lparr>sentinels := sns\<rparr>)" "calm s (s\<lparr>map_mutex := mm\<rparr>)"
  by (simp_all add: calm_def)

lemma calm_basic:
  "within calm (txd_set t f)" "within calm (store_int p v)" "within calm (finish p e r)"
  "within calm (txc_stats_txstat_increment t st n)" "within calm (sn_set a g)"
  unfolding txd_set_def store_int_def finish_def txc_stats_txstat_increment_def txc_stats_txstat_get_def
    txc_stats_txstat_set_def ts_set_def txd_get_def sn_set_def
  by (intro calm.within_rules calm.within_modify calm_simps)+

lemma calm_linear_malloc: "within calm (linear_malloc t n)"
  unfolding within_def
  by (simp add: linear_malloc_def on_bufmgr_def txc_buffer_linear_malloc_def calm_def wp_if Let_def)

lemma calm_register:
  "within calm (txc_tx_register_commit_action t f p ord)" "within calm (txc_tx_register_undo_action t f p ord)"
proof -
  have act: "within calm (register_action la f p ord)" for la
    unfolding register_action_def allocate_action_list_entries_def realloc_answer_def Let_def
    by (intro calm.within_rules calm.within_modify calm_simps)
  have gen: "within calm (tmsystem_register_generic_commit_action t)" "within calm (tmsystem_register_generic_undo_action t)"
    unfolding tmsystem_register_generic_commit_action_def tmsystem_register_generic_undo_action_def txd_get_def
    by (intro calm.within_rules calm.within_modify calm_simps calm_basic)+
  show "within calm (txc_tx_register_commit_action t f p ord)" "within calm (txc_tx_register_undo_action t f p ord)"
    unfolding txc_tx_register_commit_action_def txc_tx_register_undo_action_def txd_get_def
    by (intro calm.within_rules act gen calm_basic)+
qed

lemma calm_fd: "within calm (txc_koa_lock_fd fd)" "within calm (txc_koa_unlock_fd fd)"
  unfolding txc_koa_lock_fd_def txc_koa_unlock_fd_def map_lock_def map_unlock_def map_bounds_def
  by (intro calm.within_rules calm.within_lock calm.within_unlock calm_simps)+

lemma calm_spin: "within calm (spin_trylock n a)"
  by (induction n) (simp_all add: trylock_sentinel_def sn_get_def calm.within_rules calm_basic)

lemma calm_tryacquire: "within calm (txc_sentinel_tryacquire p q flags)"
proof -
  have parts: "within calm (register_sentinelmgr_undo_action t)" "within calm (register_sentinelmgr_commit_action t)"
    "within calm (lock_synch a)" "within calm (unlock_synch a)" "within calm (sentinel_attach a)" for t a
    unfolding register_sentinelmgr_undo_action_def register_sentinelmgr_commit_action_def txd_get_def
      lock_synch_def unlock_synch_def sentinel_attach_def sn_get_def
    by (intro calm.within_rules calm_basic calm_register)+
  have "within calm (enlist_main t a st)" for t a st
    unfolding enlist_main_def enlist_sentinel_def allocate_sentinel_list_entries_def Let_def realloc_answer_def txd_get_def
    by (intro calm.within_rules calm.within_modify calm_simps calm_basic)
  note parts = parts this
  have acquire: "within calm (sentinel_acquire_retryable t a flags)" for t a
    unfolding sentinel_acquire_retryable_def by (intro calm.within_rules parts calm_spin calm_basic)
  have state: "within calm (txc_tx_get_xactstate p)" for p
    unfolding txc_tx_get_xactstate_def tmsystem_get_xactstate_def txd_get_def
    by (intro calm.within_rules) (simp split: itm_howExecuting.split add: calm.within_rules)
  have "within calm (case st of TXC_XACTSTATE_NONTRANSACTIONAL \<Rightarrow> throw Exit1
      | TXC_XACTSTATE_TRANSACTIONAL_IRREVOCABLE \<Rightarrow> ret TXC_R_SUCCESS
      | TXC_XACTSTATE_TRANSACTIONAL_RETRYABLE \<Rightarrow> sentinel_acquire_retryable t a flags)" for st t a
    by (simp split: txc_tx_xactstate_t.split add: calm.within_rules acquire)
  note parts = this state
  show ?thesis
    unfolding txc_sentinel_tryacquire_def txc_sentinel_is_enlisted_def sn_get_def txd_get_def
    by (cases q; cases p; simp only: prod.case option.case; intro calm.within_rules parts)
qed


abbreviation circ :: "'z tx_state_scheme \<Rightarrow> addr \<Rightarrow> txc_buffer_circular" where
  "circ s b \<equiv> circ_mem (bufmgr s) b"

lemma wp_circ_get [simp]: "wp (circ_get b f) Q E s \<longleftrightarrow> Q (f (circ s b)) s"
  by (simp add: circ_get_def)

lemma wp_circ_set [simp]:
  "wp (circ_set b g) Q E s \<longleftrightarrow> Q () (s\<lparr>bufmgr := (bufmgr s)\<lparr>circ_mem := (circ_mem (bufmgr s))(b := g (circ s b))\<rparr>\<rparr>)"
  by (simp add: circ_set_def)

lemma wp_trivial [simp]: "wp m (\<lambda>_ _. True) (\<lambda>_ _. True) = (\<lambda>_. True)"
  by (simp add: wp_def fun_eq_iff split: outcome.split)

lemma wp_calm:
  assumes "within calm m" "\<And>a s'. calm s s' \<Longrightarrow> Q a s'"
  shows "wp m Q (\<lambda>_ _. True) s"
  by (rule wp_mono [OF withinD [OF assms(1)]]) (simp_all add: assms(2))

section \<open>What the buffer holds\<close>

text \<open>
  The primary part of the buffer, from \<open>base\<close> on, holds \<open>log\<close>; the secondary part is empty.
\<close>

definition holds_log :: "u32 \<Rightarrow> byte list \<Rightarrow> txc_buffer_circular \<Rightarrow> bool" where
  "holds_log base log c \<longleftrightarrow> primary_head c = base \<and> primary_tail c = base + of_nat (length log) \<and>
     secondary_head c = secondary_tail c \<and> unat base + length log < unat (cb_size_max c) \<and>
     log = map (cb_data c) [unat base..<unat base + length log]"

text \<open>A transaction that has brought \<open>log\<close> from the kernel, or is about to make its first read.\<close>

definition filling :: "u32 \<Rightarrow> byte list \<Rightarrow> txc_buffer_circular \<Rightarrow> bool" where
  "filling base log c \<longleftrightarrow> holds_log base log c \<and>
     (if cb_state c = TXC_BUFFER_STATE_NON_SPECULATIVE then log = []
      else speculative_primary_head c = speculative_primary_tail c \<and>
           speculative_secondary_head c = speculative_secondary_tail c)"

text \<open>A transaction that has consumed \<open>i\<close> bytes of the log of the one that was rolled back.\<close>

definition consuming :: "u32 \<Rightarrow> byte list \<Rightarrow> nat \<Rightarrow> txc_buffer_circular \<Rightarrow> bool" where
  "consuming base log i c \<longleftrightarrow> holds_log base log c \<and>
     (if cb_state c = TXC_BUFFER_STATE_NON_SPECULATIVE then i = 0
      else speculative_primary_head c = base + of_nat i \<and> speculative_primary_tail c = base + of_nat (length log))"

definition speculating :: "txc_buffer_circular \<Rightarrow> txc_buffer_circular" where
  "speculating c = c\<lparr>speculative_primary_head := primary_head c, speculative_primary_tail := primary_tail c,
     speculative_secondary_head := secondary_head c, speculative_secondary_tail := secondary_tail c,
     cb_state := TXC_BUFFER_STATE_SPECULATIVE\<rparr>"

lemma speculating_simps [simp]:
  "filling base log c \<Longrightarrow> cb_state c = TXC_BUFFER_STATE_NON_SPECULATIVE \<Longrightarrow> filling base log (speculating c)"
  "consuming base log i c \<Longrightarrow> cb_state c = TXC_BUFFER_STATE_NON_SPECULATIVE \<Longrightarrow> consuming base log i (speculating c)"
  by (auto simp: filling_def consuming_def holds_log_def speculating_def)

lemma wp_speculate:
  assumes "cb_state (circ s b) = TXC_BUFFER_STATE_NON_SPECULATIVE \<Longrightarrow> P (speculating (circ s b))"
    and "cb_state (circ s b) \<noteq> TXC_BUFFER_STATE_NON_SPECULATIVE \<Longrightarrow> P (circ s b)"
    and True: "\<And>s'. P (circ s' b) \<Longrightarrow> cb_state (circ s' b) \<noteq> TXC_BUFFER_STATE_NON_SPECULATIVE \<Longrightarrow>
      kern s' = kern s \<Longrightarrow> map_koa s' = map_koa s \<Longrightarrow> koas s' = koas s \<Longrightarrow> Q True s'"
    and False: "\<And>s'. calm s s' \<Longrightarrow> Q False s'"
  shows "wp (speculate t b commit undo result) Q (\<lambda>_ _. True) s"
proof (cases "cb_state (circ s b) = TXC_BUFFER_STATE_NON_SPECULATIVE")
  case state: True
  have "wp (linear_malloc t 8) (\<lambda>args. wp (if args = None then ret False
       else
         bnd (circ_set b speculating) (\<lambda>_.
         bnd (txc_tx_register_commit_action t commit result TXC_TX_REGULAR_COMMIT_ACTION_ORDER) (\<lambda>_.
         bnd (txc_tx_register_undo_action t undo result TXC_TX_REGULAR_UNDO_ACTION_ORDER) (\<lambda>_.
         ret True)))) Q (\<lambda>_ _. True)) (\<lambda>_ _. True) s"
  proof (rule wp_calm [OF calm_linear_malloc], goal_cases)
    case (1 args s1)
    obtain u where u: "u = s1\<lparr>bufmgr := (bufmgr s1)\<lparr>circ_mem := (circ_mem (bufmgr s1))(b := speculating (circ s1 b))\<rparr>\<rparr>"
      by simp
    have facts: "P (circ u b)" "cb_state (circ u b) \<noteq> TXC_BUFFER_STATE_NON_SPECULATIVE" "kern u = kern s"
        "map_koa u = map_koa s" "koas u = koas s"
      using 1 assms(1) state by (simp_all add: calm_def speculating_def u)
    have "wp (txc_tx_register_commit_action t commit result TXC_TX_REGULAR_COMMIT_ACTION_ORDER) (\<lambda>_.
         wp (txc_tx_register_undo_action t undo result TXC_TX_REGULAR_UNDO_ACTION_ORDER) (\<lambda>_.
         Q True) (\<lambda>_ _. True)) (\<lambda>_ _. True) u"
      by (intro wp_calm calm_register True) (use facts in \<open>simp_all add: calm_def\<close>)
    with 1 show ?case by (simp add: wp_if False u)
  qed
  with state show ?thesis
    unfolding speculate_def speculating_def [abs_def] by (simp only: wp_bnd wp_circ_get simp_thms if_True)
qed (simp add: speculate_def assms)

section \<open>Reading from the kernel\<close>

lemma unat_add_of_nat:
  fixes x :: u32
  assumes "unat x + n < unat (y :: u32)"
  shows "unat (x + of_nat n) = unat x + n"
  using assms unat_u32_less [of y] by (simp add: unat_plus_u32 unat_of_nat_u32)

lemma map_store_bytes: "map (store_bytes i bs d) [i..<i + length bs] = bs"
  by (rule nth_equalityI) (simp_all add: store_bytes_def)

lemma holds_log_store:
  assumes "holds_log base log c" "unat base + length log + length bs < unat (cb_size_max c)"
  shows "holds_log base (log @ bs) (c\<lparr>cb_data := store_bytes (unat (primary_tail c)) bs (cb_data c),
    primary_tail := primary_tail c + of_nat (length bs)\<rparr>)"
proof -
  let ?e = "unat base + length log" and ?d = "store_bytes (unat base + length log) bs (cb_data c)"
  have e: "unat (base + of_nat (length log)) = ?e"
    using assms(2) unat_add_of_nat [of base "length log" "cb_size_max c"] by simp
  have "[unat base..<?e + length bs] = [unat base..<?e] @ [?e..<?e + length bs]"
    by (rule upt_add_eq_append) simp
  moreover have "map ?d [unat base..<?e] = map (cb_data c) [unat base..<?e]"
    by (simp add: store_bytes_def)
  moreover have "map (cb_data c) [unat base..<?e] = log"
    using assms(1) by (simp add: holds_log_def)
  ultimately have "map ?d [unat base..<?e + length bs] = log @ bs"
    by (simp add: map_store_bytes)
  then show ?thesis
    using assms by (simp add: holds_log_def e add.assoc)
qed

lemma filling_space:
  assumes "filling base log c" "unat base + length log + unat n < unat (cb_size_max c)"
  shows "find_space c n = Some (True, primary_tail c)" "unat (primary_tail c) = unat base + length log"
proof -
  show e: "unat (primary_tail c) = unat base + length log"
    using assms unat_add_of_nat [of base "length log" "cb_size_max c"] by (auto simp: filling_def holds_log_def)
  have "n \<le> cb_size_max c" using assms(2) by (simp add: word_le_nat_alt)
  with e assms(2) show "find_space c n = Some (True, primary_tail c)"
    by (simp add: find_space_def word_less_nat_alt unat_sub)
qed

text \<open>The descriptor still leads to the same buffer, of the same size.\<close>

definition same_pipe :: "addr \<Rightarrow> ('k, 'z) x_state_scheme \<Rightarrow> ('k, 'z) x_state_scheme \<Rightarrow> bool" where
  "same_pipe b s s' \<longleftrightarrow> map_koa s' = map_koa s \<and> koas s' = koas s \<and> cb_size_max (circ s' b) = cb_size_max (circ s b)"

lemma same_pipe_calm: "calm s s' \<Longrightarrow> same_pipe b s s'"
  by (simp add: calm_def same_pipe_def)

lemma log_slice:
  assumes "holds_log base log c" "i + n \<le> length log"
  shows "map (cb_data c) [unat base + i..<unat base + i + n] = take n (drop i log)"
proof -
  have "log = map (cb_data c) [unat base..<unat base + length log]" using assms(1) by (simp add: holds_log_def)
  then have "take n (drop i log) = map (cb_data c) (take n (drop i [unat base..<unat base + length log]))"
    by (metis drop_map take_map)
  also have "take n (drop i [unat base..<unat base + length log]) = [unat base + i..<unat base + i + n]"
    using assms(2) by (simp add: drop_upt take_upt)
  finally show ?thesis by simp
qed

lemma uint_not_minus_one [simp]: "uint (n :: u32) \<noteq> - 1" "- 1 \<noteq> uint n"
  using uint_ge_0 [of n] by linarith+

lemma wp_fill_buffer:
  assumes f: "filling base log (circ s b)" "cb_state (circ s b) \<noteq> TXC_BUFFER_STATE_NON_SPECULATIVE"
    and room: "unat base + length log + unat n < unat (cb_size_max (circ s b))"
  shows "wp (fill_buffer K b (True, primary_tail (circ s b)) fd n) (\<lambda>r s'. same_pipe b s s' \<and>
      (r = uint n \<longrightarrow> (\<exists>bs. length bs = unat n \<and> filling base (log @ bs) (circ s' b)))) (\<lambda>_ _. True) s"
proof -
  have full: "filling base (log @ bs) ((circ s b)\<lparr>cb_data := store_bytes (unat (primary_tail (circ s b))) bs (cb_data (circ s b)),
      primary_tail := primary_tail (circ s b) + of_nat (length bs)\<rparr>)" if "length bs = unat n" for bs
    using holds_log_store [of base log "circ s b" bs] f room that by (simp add: filling_def)
  have none: "store_bytes i [] d = d" for i d
    by (auto simp: store_bytes_def fun_eq_iff)
  have len: "int (length bs) = uint n \<longleftrightarrow> length bs = unat n" for bs :: "byte list"
    using of_nat_eq_iff [of "length bs" "unat n", where 'a = int] by simp
  have empty: "\<exists>bs. length bs = unat n \<and> filling base (log @ bs) (circ s b)" if "length [] = unat n"
    using f that by (intro exI [of _ "[]"]) simp
  show ?thesis
  proof (cases "sys_read K fd n (kern s)")
    case (Pair r k)
    show ?thesis
    proof (cases r)
      case (Inl e)
      with Pair show ?thesis by (auto simp: fill_buffer_def txc_libc_read_def same_pipe_def)
    next
      case (Inr bs)
      have "filling base (log @ bs) ((circ s b)\<lparr>cb_data := store_bytes (unat (primary_tail (circ s b))) bs (cb_data (circ s b)),
          primary_tail := primary_tail (circ s b) + of_nat (length bs)\<rparr>)" if "length bs = unat n"
        using full that by simp
      with Pair Inr empty show ?thesis
        by (auto simp: fill_buffer_def txc_libc_read_def same_pipe_def len none)
    qed
  qed
qed

lemma wp_finish_calm:
  assumes "\<And>s'. calm s s' \<Longrightarrow> Q r s'"
  shows "wp (finish p e r) Q E s"
  using assms by (simp add: finish_def store_int_def calm_def split: option.split)

lemma wp_copy_out:
  assumes "\<And>s'. calm s s' \<Longrightarrow> Q (r, map (cb_data (circ s b)) [unat base..<unat base + unat n]) s'"
  shows "wp (bnd (copy_out b base n) (\<lambda>data. finish result e (r, data))) Q (\<lambda>_ _. True) s"
  using assms by (simp add: copy_out_def wp_finish_calm)

lemma read_fills:
  assumes "filling base log (circ s b)" and room: "unat base + length log + unat n < unat (cb_size_max (circ s b))"
  shows "wp (read_pipe_speculative K t k b fd n result) (\<lambda>(r, data) s'. same_pipe b s s' \<and>
      (r = uint n \<longrightarrow> length data = unat n \<and> filling base (log @ data) (circ s' b))) (\<lambda>_ _. True) s"
  unfolding read_pipe_speculative_def begin_speculation_def wp_bnd [of "speculate t b commit undo result" for commit undo]
proof (rule wp_speculate [where P = "\<lambda>c. filling base log c \<and> cb_size_max c = cb_size_max (circ s b)"], goal_cases)
  case (3 s1)
  then have f: "filling base log (circ s1 b)" and room1: "unat base + length log + unat n < unat (cb_size_max (circ s1 b))"
    using room by simp_all
  note space = filling_space [OF f room1]
  have "wp (bnd (fill_buffer K b (True, primary_tail (circ s1 b)) fd n) (\<lambda>r.
      bnd (txc_stats_txstat_increment t x_read_pipe_stat 1) (\<lambda>_.
      bnd (copy_out b (primary_tail (circ s1 b)) n) (\<lambda>data. finish result 0 (r, data)))))
      (\<lambda>(r, data) s'. same_pipe b s s' \<and> (r = uint n \<longrightarrow> length data = unat n \<and> filling base (log @ data) (circ s' b)))
      (\<lambda>_ _. True) s1"
    unfolding wp_bnd [of "fill_buffer K b x fd n" for x]
  proof (rule wp_mono [OF wp_fill_buffer [OF f 3(2) room1]], goal_cases)
    case r: (1 r s2)
    show ?case
      unfolding wp_bnd [of "txc_stats_txstat_increment t st m" for st m]
    proof (rule wp_calm [OF calm_basic(4)], rule wp_copy_out, goal_cases)
      case (1 _ s3 s4)
      then have c: "circ s4 b = circ s2 b" "circ s3 b = circ s2 b" "same_pipe b s1 s4"
        using r by (simp_all add: calm_def same_pipe_def)
      have "map (cb_data (circ s2 b)) [unat base + length log..<unat base + length log + unat n] = bs"
        if "filling base (log @ bs) (circ s2 b)" "length bs = unat n" for bs
        using log_slice [of base "log @ bs" "circ s2 b" "length log" "unat n"] that by (simp add: filling_def)
      with r c 3 space(2) show ?case by (auto simp: same_pipe_def)
    qed
  qed simp
  with 3 space f show ?case by (simp add: filling_def cong: if_cong)
next
  case (4 s')
  show ?case 
    using 4 by (auto intro!: wp_finish_calm simp: calm_def same_pipe_def)
qed (use assms in \<open>simp_all, simp add: speculating_def\<close>)

section \<open>Reading from the buffer\<close>

lemma consuming_tail:
  assumes "consuming base log i c" "cb_state c \<noteq> TXC_BUFFER_STATE_NON_SPECULATIVE" "i < length log"
  shows "speculative_primary_tail c \<noteq> speculative_primary_head c" "unat (speculative_primary_head c) = unat base + i"
proof -
  have fits: "unat base + length log < unat (cb_size_max c)" using assms(1) by (simp add: consuming_def holds_log_def)
  with assms show "unat (speculative_primary_head c) = unat base + i"
    using unat_add_of_nat [of base i "cb_size_max c"] by (simp add: consuming_def)
  moreover from assms have "unat (speculative_primary_tail c) = unat base + length log"
    using unat_add_of_nat [OF fits] by (simp add: consuming_def)
  ultimately show "speculative_primary_tail c \<noteq> speculative_primary_head c" using assms(3) by auto
qed

lemma read_consumes:
  assumes "consuming base log i (circ s b)" and n: "n \<noteq> 0" "i + unat n \<le> length log"
  shows "wp (read_pipe_speculative K t k b fd n result) (\<lambda>(r, data) s'. same_pipe b s s' \<and> kern s' = kern s \<and>
      (r = - 1 \<or> r = sint n \<and> data = take (unat n) (drop i log) \<and> consuming base log (i + unat n) (circ s' b))) (\<lambda>_ _. True) s"
  unfolding read_pipe_speculative_def begin_speculation_def wp_bnd [of "speculate t b commit undo result" for commit undo]
proof (rule wp_speculate [where P = "\<lambda>c. consuming base log i c \<and> cb_size_max c = cb_size_max (circ s b)"], goal_cases)
  case (3 s1)
  have "i < length log" using n by (simp add: unat_gt_0 [symmetric])
  note tail = consuming_tail [OF conjunct1 [OF 3(1)] 3(2) this]
  have "map (cb_data (circ s1 b)) [unat base + i..<unat base + i + unat n] = take (unat n) (drop i log)"
    using 3 n log_slice [of base log "circ s1 b" i "unat n"] by (simp add: consuming_def)
  with 3 tail show ?case
    by (simp, intro wp_copy_out [unfolded wp_bnd]) (simp add: calm_def same_pipe_def consuming_def holds_log_def)
next
  case (4 s')
  show ?case
    using 4 by (auto intro!: wp_finish_calm simp: calm_def same_pipe_def)
qed (use assms in \<open>simp_all, simp add: speculating_def\<close>)

section \<open>Sequences of reads\<close>

definition pipe_at :: "int \<Rightarrow> addr \<Rightarrow> ('k, 'z) x_state_scheme \<Rightarrow> bool" where
  "pipe_at fd b s \<longleftrightarrow> (\<exists>k. map_koa s fd = Some k \<and> koa_buffer (koas s k) = b)"

text \<open>The beginning of a speculative read, up to the point where the sentinel is held.\<close>

lemma wp_speculative_read:
  assumes "pipe_at fd b s"
    and read: "\<And>k s1. calm s s1 \<Longrightarrow> wp (f k b) Q (\<lambda>_ _. True) s1"
  shows "wp (bnd (txc_koa_lock_fd fd) (\<lambda>_.
      bnd (txc_koa_lookup_fd2koa fd) (\<lambda>(xret, koa).
      if xret = TXC_R_FAILURE then refuse
      else
        bnd (deref koa) (\<lambda>k.
        bnd (txc_koa_get_buffer k) (\<lambda>b.
        bnd (txc_koa_get_sentinel k) (\<lambda>sn.
        bnd (txc_sentinel_tryacquire (Some t) (Some sn) TXC_SENTINEL_ACQUIREONRETRY) (\<lambda>xret.
        bnd (txc_koa_unlock_fd fd) (\<lambda>_.
        if xret = TXC_R_BUSYSENTINEL then txc_tx_abort_transaction t TXC_ABORTREASON_BUSYSENTINEL
        else f k b)))))))) Q (\<lambda>_ _. True) s"
  unfolding wp_bnd [of "txc_koa_lock_fd fd"]
proof (rule wp_calm [OF calm_fd(1)], goal_cases)
  case (1 _ s1)
  from assms(1) obtain k where k: "map_koa s fd = Some k" "koa_buffer (koas s k) = b" by (auto simp: pipe_at_def)
  have "wp (bnd (txc_sentinel_tryacquire (Some t) (Some sn) TXC_SENTINEL_ACQUIREONRETRY) (\<lambda>xret.
      bnd (txc_koa_unlock_fd fd) (\<lambda>_.
      if xret = TXC_R_BUSYSENTINEL then txc_tx_abort_transaction t TXC_ABORTREASON_BUSYSENTINEL
      else f k b))) Q (\<lambda>_ _. True) s1" for sn
    unfolding wp_bnd
  proof (rule wp_calm [OF calm_tryacquire], rule wp_calm [OF calm_fd(2)], goal_cases)
    case (1 xret s2 _ s3)
    then have "calm s s3" using \<open>calm s s1\<close> by (simp add: calm_def)
    then show ?case
      by (simp add: wp_if read txc_tx_abort_transaction_def tmsystem_abort_transaction_def)
  qed
  moreover have "map_koa s1 fd = Some k" "koa_buffer (koas s1 k) = b" using 1 k by (simp_all add: calm_def)
  ultimately show ?case
    by (simp add: txc_koa_lookup_fd2koa_def map_bounds_def deref_def txc_koa_get_buffer_def
        txc_koa_get_sentinel_def koa_get_def wp_if cong: if_cong)
qed

lemma wp_txc_read_pipe:
  assumes "pipe_at fd b s"
    and "\<And>k s1. calm s s1 \<Longrightarrow> wp (read_pipe_speculative K t k b fd n result) Q (\<lambda>_ _. True) s1"
  shows "wp (txc_read_pipe K ret0 (Some t) fd n result) Q (\<lambda>_ _. True) s"
  unfolding txc_read_pipe_def option.case
  by (rule wp_speculative_read [where f = "\<lambda>k b. read_pipe_speculative K t k b fd n result", OF assms])

abbreviation reads :: "'k kernel \<Rightarrow> int \<Rightarrow> addr \<Rightarrow> int \<Rightarrow> addr option \<Rightarrow> u32 list \<Rightarrow>
    (('k, 'z) x_state_scheme, (int \<times> byte list) list) prog" where
  "reads K ret0 t fd result ns \<equiv> map_prog (\<lambda>n. txc_read_pipe K ret0 (Some t) fd n result) ns"

lemma reads_fill:
  assumes "pipe_at fd b s" "filling base log (circ s b)"
    and "unat base + length log + sum_list (map unat ns) < unat (cb_size_max (circ s b))"
  shows "wp (reads K ret0 t fd result ns) (\<lambda>rs s'. map fst rs = map uint ns \<longrightarrow>
      same_pipe b s s' \<and> map (length \<circ> snd) rs = map unat ns \<and> filling base (log @ concat (map snd rs)) (circ s' b)) (\<lambda>_ _. True) s"
  using assms
proof (induction ns arbitrary: log s)
  case Nil
  then show ?case by (simp add: same_pipe_def)
next
  case (Cons n ns)
  show ?case
    unfolding map_prog.simps wp_bnd [of "txc_read_pipe K ret0 (Some t) fd n result"]
  proof (rule wp_txc_read_pipe [OF Cons.prems(1)], goal_cases)
    case (1 k s1)
    then have s1: "filling base log (circ s1 b)" "unat base + length log + unat n < unat (cb_size_max (circ s1 b))"
      "same_pipe b s s1" using Cons.prems by (simp_all add: calm_def same_pipe_def)
    show ?case
    proof (rule wp_mono [OF read_fills [OF s1(1,2)]], goal_cases)
      case (1 r s2)
      show ?case
      proof (cases "fst r = uint n")
        case True
        with 1 have s2: "same_pipe b s s2" "length (snd r) = unat n" "filling base (log @ snd r) (circ s2 b)"
          using s1(3) by (auto simp: same_pipe_def)
        moreover have "pipe_at fd b s2" using Cons.prems(1) s2(1) by (simp add: pipe_at_def same_pipe_def)
        ultimately have "wp (reads K ret0 t fd result ns) (\<lambda>rs s'. map fst rs = map uint ns \<longrightarrow>
            same_pipe b s2 s' \<and> map (length \<circ> snd) rs = map unat ns \<and>
            filling base ((log @ snd r) @ concat (map snd rs)) (circ s' b)) (\<lambda>_ _. True) s2"
          using Cons.prems(3) by (intro Cons.IH) (simp_all add: same_pipe_def)
        then show ?thesis
          unfolding wp_bnd by (rule wp_mono) (use s2 in \<open>auto simp: same_pipe_def\<close>)
      qed simp
    qed simp
  qed
qed

lemma reads_replay:
  assumes "pipe_at fd b s" "consuming base log i (circ s b)"
    and "0 \<notin> set ns" "i + sum_list (map unat ns) \<le> length log"
  shows "wp (reads K ret0 t fd result ns) (\<lambda>rs s'. - 1 \<notin> set (map fst rs) \<longrightarrow> kern s' = kern s \<and>
      map fst rs = map sint ns \<and> map (length \<circ> snd) rs = map unat ns \<and>
      concat (map snd rs) = take (sum_list (map unat ns)) (drop i log)) (\<lambda>_ _. True) s"
  using assms
proof (induction ns arbitrary: i s)
  case Nil
  then show ?case by simp
next
  case (Cons n ns)
  show ?case
    unfolding map_prog.simps wp_bnd [of "txc_read_pipe K ret0 (Some t) fd n result"]
  proof (rule wp_txc_read_pipe [OF Cons.prems(1)], goal_cases)
    case (1 k s1)
    then have s1: "consuming base log i (circ s1 b)" "n \<noteq> 0" "i + unat n \<le> length log" "same_pipe b s s1" "kern s1 = kern s"
      using Cons.prems by (auto simp add: calm_def same_pipe_def)
    show ?case
    proof (rule wp_mono [OF read_consumes [OF s1(1-3)]], goal_cases)
      case (1 r s2)
      show ?case
      proof (cases "fst r = - 1")
        case False
        with 1 have s2: "same_pipe b s s2" "kern s2 = kern s" "r = (sint n, take (unat n) (drop i log))"
            "consuming base log (i + unat n) (circ s2 b)"
          using s1(4,5) by (auto simp: same_pipe_def prod_eq_iff)
        moreover have "pipe_at fd b s2" using Cons.prems(1) s2(1) by (simp add: pipe_at_def same_pipe_def)
        ultimately have "wp (reads K ret0 t fd result ns) (\<lambda>rs s'. - 1 \<notin> set (map fst rs) \<longrightarrow> kern s' = kern s2 \<and>
            map fst rs = map sint ns \<and> map (length \<circ> snd) rs = map unat ns \<and>
            concat (map snd rs) = take (sum_list (map unat ns)) (drop (i + unat n) log)) (\<lambda>_ _. True) s2"
          using Cons.prems(3,4) by (intro Cons.IH) simp_all
        then show ?thesis
          unfolding wp_bnd
          by (rule wp_mono) (use s2 s1(3) in \<open>auto simp: take_add add.commute\<close>)
      qed simp
    qed simp
  qed
qed

lemma same_pieces:
  assumes "map (length \<circ> snd) xs = map (length \<circ> snd) ys" "concat (map snd xs) = concat (map snd ys)"
  shows "map snd xs = map snd ys"
  using assms
proof (induction xs arbitrary: ys)
  case (Cons x xs)
  then show ?case by (cases ys) auto
qed simp


section \<open>Witness\<close>

definition sample_pipe_state :: "files x_state" where
  "sample_pipe_state = sample_x_state\<lparr>koas := (\<lambda>_. sample_koa TXC_KOA_IS_PIPE_READ_END 1 [3]),
     bufmgr := (bufmgr sample_x_state)\<lparr>circ_mem := (\<lambda>_. \<lparr>cb_buf = 0, cb_data = (\<lambda>_. 0), cb_size_max = 64,
       primary_head = 0, primary_tail = 0, secondary_head = 0, secondary_tail = 0,
       speculative_primary_head = 0, speculative_primary_tail = 0, speculative_secondary_head = 0, speculative_secondary_tail = 0,
       cb_state = TXC_BUFFER_STATE_NON_SPECULATIVE\<rparr>)\<rparr>\<rparr>"

lemmas pipe_run_defs = txc_read_pipe_def read_pipe_speculative_def begin_speculation_def speculate_def fill_buffer_def find_space_def
  copy_out_def store_bytes_def circ_get_def circ_set_def txc_koa_get_buffer_def sample_koa_def koa_fds_def

lemma sample_pipe_run:
  "\<exists>u v rs w. map_prog (\<lambda>n. txc_read_pipe sample_kernel 0 (Some 256) 3 n None) [2, 1] sample_pipe_state = Ok [(2, [11, 12]), (1, [13])] u \<and>
     x_read_pipe_undo 0 u = Ok 0 v \<and>
     map_prog (\<lambda>n. txc_read_pipe sample_kernel 0 (Some 256) 3 n None) [2, 1] v = Ok rs w \<and> - 1 \<notin> set (map fst rs)"
  by (simp add: pipe_run_defs sample_run_defs sample_pipe_state_def x_read_pipe_undo_def upt_rec)


end
