(* ===== verification/Messages.thy ===== *)
theory Messages
  imports Replay
begin

text \<open>
  Receiving messages inside transactions.  A message that a rolled back transaction
  received is received again, from the buffer, by the next one.  This holds for one
  message: the header of a second one is stored where the data of the first are,
  because the code places data at an offset that is the square of the size of a
  header but reserves only the size of a header.
\<close>

section \<open>Reading and writing the buffer\<close>

lemma put_bytes_simps [simp]:
  "cb_buf (put_bytes i bs c) = cb_buf c" "cb_size_max (put_bytes i bs c) = cb_size_max c" "cb_state (put_bytes i bs c) = cb_state c"
  "primary_head (put_bytes i bs c) = primary_head c" "primary_tail (put_bytes i bs c) = primary_tail c"
  "secondary_head (put_bytes i bs c) = secondary_head c" "secondary_tail (put_bytes i bs c) = secondary_tail c"
  by (simp_all add: put_bytes_def)

lemma set_field_put: "set_field i w c = put_bytes i (bytes_of_word w) c"
  by (simp add: set_field_def put_bytes_def)

lemma length_get_bytes [simp]: "length (get_bytes c i n) = n"
  by (simp add: get_bytes_def)

lemma get_bytes_update [simp]: "get_bytes (c\<lparr>primary_tail := x\<rparr>) i n = get_bytes c i n"
  by (simp add: get_bytes_def)

lemma get_put_same: "get_bytes (put_bytes i bs c) i (length bs) = bs"
  by (simp add: get_bytes_def put_bytes_def map_store_bytes)

lemma get_put_other: "i + n \<le> j \<or> j + length bs \<le> i \<Longrightarrow> get_bytes (put_bytes j bs c) i n = get_bytes c i n"
  by (auto simp: get_bytes_def put_bytes_def store_bytes_def)

text \<open>Writing the first bytes of a longer region.\<close>

lemma get_put_prefix: "length bs \<le> n \<Longrightarrow> take (length bs) (get_bytes (put_bytes i bs c) i n) = bs"
  by (rule nth_equalityI) (auto simp: get_bytes_def put_bytes_def store_bytes_def)

lemma field_get: "field c i = word_of_bytes (get_bytes c i 4 ! 0) (get_bytes c i 4 ! 1) (get_bytes c i 4 ! 2) (get_bytes c i 4 ! 3)"
  by (simp add: field_def get_bytes_def)

lemma field_put_other: "i + 4 \<le> j \<or> j + length bs \<le> i \<Longrightarrow> field (put_bytes j bs c) i = field c i"
  by (simp add: field_get get_put_other)

lemma field_set_same: "field (set_field i w c) i = w"
proof -
  have "get_bytes (set_field i w c) i 4 = bytes_of_word w"
    using get_put_same [of i "bytes_of_word w" c] by (simp add: set_field_put)
  then show ?thesis by (simp add: field_get) (simp add: bytes_of_word_def word_of_bytes_of_word)
qed

lemma field_set_other: "i + 4 \<le> j \<or> j + 4 \<le> i \<Longrightarrow> field (set_field j w c) i = field c i"
  by (simp add: set_field_put field_put_other)

lemma get_set_other: "i + n \<le> j \<or> j + 4 \<le> i \<Longrightarrow> get_bytes (set_field j w c) i n = get_bytes c i n"
  by (simp add: set_field_put get_put_other)

lemma set_field_simps [simp]:
  "cb_buf (set_field i w c) = cb_buf c" "cb_size_max (set_field i w c) = cb_size_max c" "cb_state (set_field i w c) = cb_state c"
  "primary_head (set_field i w c) = primary_head c" "primary_tail (set_field i w c) = primary_tail c"
  "secondary_head (set_field i w c) = secondary_head c" "secondary_tail (set_field i w c) = secondary_tail c"
  by (simp_all add: set_field_put)

lemma field_tail [simp]: "field (c\<lparr>primary_tail := x\<rparr>) i = field c i"
  by (simp add: field_def)

section \<open>A stored message\<close>

definition with_pointers :: "u32 \<Rightarrow> txc_buffer_circular \<Rightarrow> txc_buffer_circular" where
  "with_pointers base c = set_field (unat base + 28) (cb_buf c + base + control_shift)
     (set_field (unat base + 20) (cb_buf c + base + data_shift) c)"

definition with_message :: "u32 \<Rightarrow> datagram \<Rightarrow> txc_buffer_circular \<Rightarrow> txc_buffer_circular" where
  "with_message base d c =
     (let h = unat base; c = complete_header h d (place_datagram h d (with_pointers base c));
          c = c\<lparr>primary_tail := primary_tail c + message_size c base\<rparr> in
      if d_control d = [] then c
      else put_bytes (h + unat data_shift + length (d_data d)) (get_bytes c (h + unat control_shift) (length (d_control d))) c)"

text \<open>What \<^verbatim>\<open>recvmsg\<close> delivers fits in the room it is given.\<close>

definition datagram_ok :: "datagram \<Rightarrow> bool" where
  "datagram_ok d \<longleftrightarrow> d_data d \<noteq> [] \<and> length (d_data d) \<le> 65536 \<and> length (d_control d) \<le> 2048"

lemma shifts [simp]: "unat data_shift = 1600" "unat control_shift = 2623040"
  by (simp_all add: data_shift_def control_shift_def)

lemmas message_defs = with_message_def with_pointers_def place_datagram_def complete_header_def

lemma message_lengths:
  "field (complete_header h d c) (h + 24) = of_nat (length (d_data d))"
  "field (complete_header h d c) (h + 32) = of_nat (length (d_control d))"
  by (simp_all add: complete_header_def field_set_same field_set_other)

lemma with_message_simps [simp]:
  "cb_buf (with_message base d c) = cb_buf c" "cb_size_max (with_message base d c) = cb_size_max c"
  "cb_state (with_message base d c) = cb_state c" "primary_head (with_message base d c) = primary_head c"
  "secondary_head (with_message base d c) = secondary_head c" "secondary_tail (with_message base d c) = secondary_tail c"
  "primary_tail (with_message base d c) = primary_tail c + (40 + of_nat (length (d_data d)) + of_nat (length (d_control d)))"
  by (simp_all add: with_message_def Let_def message_size_def message_lengths)
    (simp_all add: message_defs)

lemma with_message_data:
  assumes "datagram_ok d"
  shows "get_bytes (with_message base d c) (unat base + 1600) (length (d_data d)) = d_data d"
  using assms
  by (auto simp: message_defs Let_def datagram_ok_def get_put_other get_put_same get_set_other)

lemma with_message_pointer:
  assumes "datagram_ok d"
  shows "field (with_message base d c) (unat base + 20) = cb_buf c + base + data_shift"
  using assms
  by (auto simp: message_defs Let_def datagram_ok_def field_put_other field_set_other field_set_same)

section \<open>Receiving\<close>

lemma wp_fill_message:
  assumes kernel: "sys_recvmsg K fd 16 [TXC_DGRAM_MAX_SIZE] TXC_CONTROLMSG_MAX_SIZE flags (kern s) = (Inr d, k)" and d: "datagram_ok d"
  shows "wp (fill_message K b (True, base) fd flags)
    (\<lambda>_ s'. circ s' b = with_message base d (circ s b) \<and> kern s' = k \<and> map_koa s' = map_koa s \<and> koas s' = koas s)
    (\<lambda>_ _. True) s"
proof -
  have "d_data d \<noteq> []" using d by (simp add: datagram_ok_def)
  with kernel show ?thesis
    by (simp add: fill_message_def txc_libc_recvmsg_def Let_def with_message_def with_pointers_def)
qed

lemma wp_give:
  assumes "\<And>s'. calm s s' \<Longrightarrow> Q (fst (read_message (circ s b) base lens), Some (snd (read_message (circ s b) base lens))) s'"
  shows "wp (bnd (txc_stats_txstat_increment t st n) (\<lambda>_.
      bnd (copy_message b base lens) (\<lambda>(r, msg). finish result e (r, Some msg)))) Q (\<lambda>_ _. True) s"
  unfolding wp_bnd [of "txc_stats_txstat_increment t st n"]
proof (rule wp_calm [OF calm_basic(4)], goal_cases)
  case (1 _ s1)
  then have c: "circ s1 b = circ s b" by (simp add: calm_def)
  have "Q (fst (read_message (circ s b) base lens), Some (snd (read_message (circ s b) base lens))) s2" if "calm s1 s2" for s2
    by (rule assms, rule calm.trans [OF 1 that])
  then show ?case
    by (simp add: copy_message_def c split_beta wp_finish_calm)
qed

text \<open>A buffer without messages, and one with exactly one.\<close>

definition idle :: "u32 \<Rightarrow> txc_buffer_circular \<Rightarrow> bool" where
  "idle base c \<longleftrightarrow> cb_state c = TXC_BUFFER_STATE_NON_SPECULATIVE \<and> primary_head c = base \<and> primary_tail c = base \<and>
     secondary_tail c = secondary_head c \<and> unat base + 67624 < unat (cb_size_max c)"

definition receives_one :: "addr \<Rightarrow> u32 \<Rightarrow> datagram \<Rightarrow> 'k \<Rightarrow> u32 list \<Rightarrow> ('k, 'z) x_state_scheme \<Rightarrow>
    int \<times> received option \<Rightarrow> ('k, 'z) x_state_scheme \<Rightarrow> bool" where
  "receives_one b base d k lens s = (\<lambda>(r, m) s'. m \<noteq> None \<longrightarrow>
     circ s' b = with_message base d (speculating (circ s b)) \<and> kern s' = k \<and> map_koa s' = map_koa s \<and> koas s' = koas s \<and>
     (r, the m) = read_message (circ s' b) base lens)"

lemma first_message:
  assumes idle: "idle base (circ s b)" and d: "datagram_ok d"
    and kernel: "sys_recvmsg K fd 16 [TXC_DGRAM_MAX_SIZE] TXC_CONTROLMSG_MAX_SIZE flags (kern s) = (Inr d, k)"
  shows "wp (recvmsg_speculative K len0 t ko b fd lens flags result) (receives_one b base d k lens s) (\<lambda>_ _. True) s"
  unfolding recvmsg_speculative_def wp_bnd [of "speculate t b commit undo result" for commit undo]
proof (rule wp_speculate [where P = "\<lambda>c. c = speculating (circ s b)"], goal_cases)
  case (3 s1)
  have space: "find_space (circ s1 b) (40 + TXC_DGRAM_MAX_SIZE + TXC_CONTROLMSG_MAX_SIZE) = Some (True, base)"
    using idle 3(1) by (simp add: find_space_def idle_def speculating_def word_less_nat_alt unat_sub word_le_nat_alt less_diff_conv)
  have "wp (fill_message K b (True, base) fd flags) (\<lambda>_. wp
      (bnd (txc_stats_txstat_increment t x_recvmsg_stat 1) (\<lambda>_.
        bnd (copy_message b base lens) (\<lambda>(r, msg). finish result 0 (r, Some msg))))
      (receives_one b base d k lens s) (\<lambda>_ _. True)) (\<lambda>_ _. True) s1"
  proof (rule wp_mono [OF wp_fill_message [of K fd flags s1 d k]], goal_cases)
    case (3 _ s2)
    with \<open>map_koa s1 = _\<close> \<open>koas s1 = _\<close> show ?case
      by (intro wp_give) (simp add: receives_one_def calm_def \<open>circ s1 b = _\<close>)
  qed (use kernel d 3 in simp_all)
  with space idle 3(1) show ?case
    by (simp add: idle_def speculating_def)
next
  case (4 s')
  then show ?case by (simp add: wp_finish_calm receives_one_def)
qed (use idle in \<open>simp_all add: idle_def\<close>)

lemma pieces_same: "cb_data c' = cb_data c \<Longrightarrow> pieces c' i lens = pieces c i lens"
  by (induction lens arbitrary: i) (simp_all add: get_bytes_def)

lemma read_message_cong:
  assumes "cb_data c' = cb_data c" "cb_buf c' = cb_buf c"
  shows "read_message c' base lens = read_message c base lens"
  using assms pieces_same [OF assms(1)] by (simp add: read_message_def Let_def field_def get_bytes_def offset_of_def)

lemma second_message:
  assumes c: "cb_state (circ s b) = TXC_BUFFER_STATE_NON_SPECULATIVE" "primary_head (circ s b) = base" "primary_tail (circ s b) \<noteq> base"
  shows "wp (recvmsg_speculative K len0 t ko b fd lens flags result)
    (\<lambda>(r, m) s'. m \<noteq> None \<longrightarrow> kern s' = kern s \<and> (r, the m) = read_message (circ s b) base lens) (\<lambda>_ _. True) s"
  unfolding recvmsg_speculative_def wp_bnd [of "speculate t b commit undo result" for commit undo]
proof (rule wp_speculate [where P = "\<lambda>c. c = speculating (circ s b)"], goal_cases)
  case (3 s1)
  let ?head = "base + message_size (speculating (circ s b)) base"
  obtain u where u: "u = s1\<lparr>bufmgr := (bufmgr s1)\<lparr>circ_mem := (circ_mem (bufmgr s1))
      (b := (speculating (circ s b))\<lparr>speculative_primary_head := ?head\<rparr>)\<rparr>\<rparr>" by simp
  then have "read_message (circ u b) base lens = read_message (circ s b) base lens"
    by (intro read_message_cong) (simp_all add: speculating_def)
  with 3 have "wp (bnd (txc_stats_txstat_increment t x_recvmsg_stat 1) (\<lambda>_.
      bnd (copy_message b base lens) (\<lambda>(r, msg). finish result 0 (r, Some msg))))
      (\<lambda>(r, m) s'. m \<noteq> None \<longrightarrow> kern s' = kern s \<and> (r, the m) = read_message (circ s b) base lens) (\<lambda>_ _. True) u"
    by (intro wp_give) (simp add: calm_def u)
  with 3 c show ?case
    by (simp add: u speculating_def)
next
  case (4 s')
  then show ?case by (simp add: wp_finish_calm)
qed (use c in simp_all)

lemma wp_txc_recvmsg:
  assumes "pipe_at fd b s"
    and "\<And>k s1. calm s s1 \<Longrightarrow> wp (recvmsg_speculative K len0 t k b fd lens flags result) Q (\<lambda>_ _. True) s1"
  shows "wp (txc_recvmsg K len0 (Some t) fd namelen lens controllen flags result) Q (\<lambda>_ _. True) s"
  unfolding txc_recvmsg_def option.case
  by (rule wp_speculative_read [where f = "\<lambda>k b. recvmsg_speculative K len0 t k b fd lens flags result", OF assms])

text \<open>The data that fit in the caller's scatter list are its first bytes.\<close>

lemma concat_pieces: "concat (pieces c i lens) = get_bytes c i (sum_list (map unat lens))"
proof (induction lens arbitrary: i)
  case (Cons n lens)
  have "[i..<i + (unat n + m)] = [i..<i + unat n] @ [i + unat n..<i + unat n + m]" for m
    using upt_add_eq_append [of i "i + unat n" m] by (simp add: add.assoc)
  with Cons show ?case by (simp add: get_bytes_def)
qed (simp add: get_bytes_def)

lemma take_get_bytes: "m \<le> n \<Longrightarrow> take m (get_bytes c i n) = get_bytes c i m"
  by (simp add: get_bytes_def take_map take_upt)

lemma message_data_delivered:
  assumes "datagram_ok d" "unat base + 1600 < 2 ^ 32" "sum_list (map unat lens) \<le> length (d_data d)"
  shows "concat (rcv_iov (snd (read_message (with_message base d c) base lens))) = take (sum_list (map unat lens)) (d_data d)"
proof -
  have "offset_of (with_message base d c) (field (with_message base d c) (unat base + 20)) = unat base + 1600"
    using assms(2) by (simp add: offset_of_def with_message_pointer [OF assms(1)] unat_plus_u32)
  moreover have "get_bytes (with_message base d c) (unat base + 1600) (sum_list (map unat lens)) =
      take (sum_list (map unat lens)) (d_data d)"
    using take_get_bytes [OF assms(3), of "with_message base d c" "unat base + 1600"] with_message_data [OF assms(1)] by simp
  ultimately show ?thesis by (simp add: read_message_def Let_def concat_pieces)
qed


section \<open>Two messages\<close>

text \<open>The length of a message in its header, seen as bytes of the buffer.\<close>

lemma with_message_length_field:
  assumes "datagram_ok d"
  shows "get_bytes (with_message base d c) (unat base + 24) 4 = bytes_of_word (of_nat (length (d_data d)))"
proof -
  have "get_bytes (set_field i w c) i 4 = bytes_of_word w" for i w c
    using get_put_same [of i "bytes_of_word w" c] by (simp add: set_field_put)
  with assms show ?thesis
    by (auto simp: message_defs Let_def datagram_ok_def get_put_other get_set_other)
qed

lemma slice_get_bytes: "j + m \<le> n \<Longrightarrow> take m (drop j (get_bytes c i n)) = get_bytes c (i + j) m"
  by (simp add: get_bytes_def take_map drop_map drop_upt take_upt)


section \<open>Witnesses\<close>

text \<open>A kernel that always delivers the message \<open>d\<close>, and a socket with an empty buffer.\<close>

definition delivering :: "datagram \<Rightarrow> files kernel" where
  "delivering d = sample_kernel\<lparr>sys_recvmsg := (\<lambda>_ _ _ _ _ k. (Inr d, k))\<rparr>"

definition sample_socket_state :: "files x_state" where
  "sample_socket_state = sample_x_state\<lparr>koas := (\<lambda>_. sample_koa TXC_KOA_IS_SOCK_DGRAM 1 [3]),
     bufmgr := (bufmgr sample_x_state)\<lparr>circ_mem := (\<lambda>_. \<lparr>cb_buf = 65536, cb_data = (\<lambda>_. 0), cb_size_max = 8388608,
       primary_head = 0, primary_tail = 0, secondary_head = 0, secondary_tail = 0,
       speculative_primary_head = 0, speculative_primary_tail = 0, speculative_secondary_head = 0, speculative_secondary_tail = 0,
       cb_state = TXC_BUFFER_STATE_NON_SPECULATIVE\<rparr>)\<rparr>\<rparr>"

abbreviation short_message :: datagram where
  "short_message \<equiv> \<lparr>d_name = [], d_data = [1, 2, 3], d_control = [], d_flags = 0\<rparr>"

lemma fill_message_runs:
  assumes "sys_recvmsg K fd 16 [65536] 2048 flags (kern s) = (Inr d, k)" "d_control d = []"
    and "unat base + 1600 + length (d_data d) \<le> unat (cb_size_max (circ s b))"
  shows "\<exists>s'. fill_message K b (True, base) fd flags s = Ok () s'"
  using assms by (simp add: fill_message_def txc_libc_recvmsg_def libc_call_def circ_get_def circ_set_def Let_def prog_simps)


lemma sample_message_run:
  "\<exists>r msg u v r' msg' w. txc_recvmsg (delivering short_message) 0 (Some 256) 3 16 [2] 0 0 None sample_socket_state = Ok (r, Some msg) u \<and>
     x_recvmsg_undo 0 u = Ok 0 v \<and>
     txc_recvmsg (delivering short_message) 0 (Some 256) 3 16 [2] 0 0 None v = Ok (r', Some msg') w"
  by (simp add: txc_recvmsg_def recvmsg_speculative_def speculate_def fill_message_def copy_message_def find_space_def
      read_message_def readable_def offset_of_def field_def set_field_def put_bytes_def get_bytes_def message_size_def
      place_datagram_def complete_header_def bytes_of_word_def word_of_bytes_def x_recvmsg_undo_def
      store_bytes_def circ_get_def circ_set_def txc_koa_get_buffer_def sample_koa_def koa_fds_def
      delivering_def txc_libc_recvmsg_def sample_run_defs sample_socket_state_def Let_def data_shift_def control_shift_def)


end
