(* ===== verification/Interface.thy ===== *)
theory Interface
  imports Replay
begin

text \<open>
  The interface of the library, \<^verbatim>\<open>core/interface.c\<close>: global and per-thread
  initialisation, the hooks around transactions, and the commit and undo functions
  that applications register themselves.  The theorem at the end says which of
  these functions run, and in which order, when the transaction ends.
\<close>

section \<open>Initialisation\<close>

text \<open>
  What the environment answers while the managers are created: the result of each
  manager's \<^verbatim>\<open>MALLOC\<close>, the allocations of the pools, those of the alias cache, the
  configuration file and the environment variables.
\<close>

record init_env =
  ini_file :: "string option"
  ini_getenv :: "string \<Rightarrow> string option"
  ini_managers :: "addr option \<times> addr option \<times> addr option \<times> addr option \<times> addr option"
  ini_sentinels :: pool_env
  ini_circular :: pool_env
  ini_linear :: pool_env
  ini_txds :: pool_env
  ini_koas :: pool_env
  ini_cache :: "addr option \<times> addr option \<times> (addr \<Rightarrow> addr txc_hash_table_bucket)"

definition on_config :: "(config, 'a) prog \<Rightarrow> ('z tx_state_scheme, 'a) prog" where
  "on_config = zoom (\<lambda>s. \<lparr>settings = runtime_settings s, cfg_warnings = []\<rparr>) (\<lambda>c s. s\<lparr>runtime_settings := settings c\<rparr>)"

text \<open>
  The result codes of the constructors are ignored.  When the sentinel or the
  buffer manager could not be created its global pointer stays \<^verbatim>\<open>NULL\<close>, which the
  constructors of the transaction manager and of the KOA manager dereference.
\<close>

definition create_sentinelmgr :: "addr option \<Rightarrow> pool_env \<Rightarrow> ('z sentinel_state_scheme, unit) prog" where
  "create_sentinelmgr mgr env =
     bnd (zoom sentinels (\<lambda>m s. s\<lparr>sentinels := m\<rparr>) (txc_sentinelmgr_create mgr env)) (\<lambda>(_, p).
     bnd (deref p) (\<lambda>pool.
     modify (\<lambda>s. s\<lparr>pool_sentinel := pool\<rparr>)))"

definition create_buffermgr :: "addr option \<Rightarrow> pool_env \<Rightarrow> pool_env \<Rightarrow> ('z tx_state_scheme, unit) prog" where
  "create_buffermgr mgr ec el =
     bnd (zoom (\<lambda>s. (circ_mem (bufmgr s), lin_mem (bufmgr s))) (\<lambda>(c, l) s. s\<lparr>bufmgr := (bufmgr s)\<lparr>circ_mem := c, lin_mem := l\<rparr>\<rparr>)
            (txc_buffermgr_create mgr ec el)) (\<lambda>(_, p).
     bnd (deref p) (\<lambda>b.
     modify (\<lambda>s. s\<lparr>bufmgr := b\<rparr>)))"

definition TXC_global_init :: "init_env \<Rightarrow> ('z txmgr_state_scheme, txc_result_t) prog" where
  "TXC_global_init env =
     (case ini_managers env of (ms, mb, mst, mt, mk) \<Rightarrow>
      bnd (on_config (txc_config_init (ini_file env) (ini_getenv env))) (\<lambda>_.
      bnd (create_sentinelmgr ms (ini_sentinels env)) (\<lambda>_.
      bnd (create_buffermgr mb (ini_circular env) (ini_linear env)) (\<lambda>_.
      bnd (txc_statsmgr_create mst) (\<lambda>_.
      bnd (txc_txmgr_create mt (ini_txds env)) (\<lambda>_.
      bnd (case ini_cache env of (hp, tbl0, heap) \<Rightarrow> txc_koamgr_create mk (ini_koas env) hp tbl0 heap) (\<lambda>_.
      bnd (gets (\<lambda>s. debug_all (runtime_settings s))) (\<lambda>all.
      bnd (mwhen all (modify (\<lambda>s. s\<lparr>runtime_settings := (runtime_settings s)\<lparr>debug_koa := True, debug_pool := True,
             debug_sentinel := True, debug_tx := True, debug_xcall := True\<rparr>\<rparr>))) (\<lambda>_.
      ret TXC_R_SUCCESS)))))))))"

definition TXC_global_shutdown ::
  "bool \<Rightarrow> (addr \<Rightarrow> addr txc_hash_table_bucket) \<Rightarrow> ('z stats_state_scheme, txc_result_t) prog" where
  "TXC_global_shutdown fopen_ok heap = bnd (txc_stats_print fopen_ok heap) (\<lambda>_. ret TXC_R_SUCCESS)"

definition TXC_thread_init ::
  "u32 \<Rightarrow> u32 \<Rightarrow> u32 \<Rightarrow> (addr \<Rightarrow> addr txc_hash_table_bucket) \<Rightarrow> ('z txmgr_state_scheme, txc_result_t) prog" where
  "TXC_thread_init self td thread heap =
     bnd (txc_tx_create self td thread heap) (\<lambda>(_, t).
     bnd (modify (\<lambda>s. s\<lparr>l_txd := Some t\<rparr>)) (\<lambda>_.
     ret TXC_R_SUCCESS))"

section \<open>Transactions\<close>

definition TXC_transaction_abort :: "txc_tx_abortreason_t \<Rightarrow> ('z tx_state_scheme, 'a) prog" where
  "TXC_transaction_abort reason =
     bnd (gets l_txd) (\<lambda>p. bnd (deref p) (\<lambda>t. txc_tx_abort_transaction t reason))"

definition TXC_get_xactstate :: "('z tx_state_scheme, txc_tx_xactstate_t) prog" where
  "TXC_get_xactstate = bnd (gets l_txd) txc_tx_get_xactstate"

definition TXC_transaction_pre_begin :: "addr \<Rightarrow> txc_tx_srcloc_t \<Rightarrow> ('z stats_state_scheme, unit) prog" where
  "TXC_transaction_pre_begin srcloc_str srcloc =
     bnd (gets l_txd) (\<lambda>p. txc_tx_pre_begin p srcloc_str srcloc)"

definition TXC_transaction_post_begin :: "('z stats_state_scheme, unit) prog" where
  "TXC_transaction_post_begin = bnd (gets l_txd) (\<lambda>p. bnd (deref p) txc_tx_post_begin)"

definition TXC_fm_register :: "int \<Rightarrow> addr option \<Rightarrow> ('z tx_state_scheme, unit) prog" where
  "TXC_fm_register flags err =
     bnd (gets l_txd) (\<lambda>p. bnd (deref p) (\<lambda>t. txc_fm_register t flags err))"

definition TXC_register_commit_action :: "addr \<Rightarrow> addr \<Rightarrow> addr option \<Rightarrow> ('z tx_state_scheme, txc_result_t) prog" where
  "TXC_register_commit_action function args error_result =
     bnd (gets l_txd) (\<lambda>p.
     bnd (deref p) (\<lambda>t.
     txc_tx_register_commit_action t (Act_user function args) error_result TXC_TX_REGULAR_COMMIT_ACTION_ORDER))"

definition TXC_register_undo_action :: "addr \<Rightarrow> addr \<Rightarrow> addr option \<Rightarrow> ('z tx_state_scheme, txc_result_t) prog" where
  "TXC_register_undo_action function args error_result =
     bnd (gets l_txd) (\<lambda>p.
     bnd (deref p) (\<lambda>t.
     txc_tx_register_undo_action t (Act_user function args) error_result TXC_TX_REGULAR_UNDO_ACTION_ORDER))"

section \<open>Functions of the application\<close>

datatype registration = On_commit addr addr "addr option" | On_rollback addr addr "addr option"

fun register :: "registration \<Rightarrow> ('z tx_state_scheme, txc_result_t) prog" where
  "register (On_commit f args p) = TXC_register_commit_action f args p"
| "register (On_rollback f args p) = TXC_register_undo_action f args p"

fun commit_entries :: "registration \<Rightarrow> txc_tx_action_list_entry list" where
  "commit_entries (On_commit f args p) = [entry_of (Act_user f args, p, 0)]"
| "commit_entries (On_rollback f args p) = []"

fun undo_entries_of :: "registration \<Rightarrow> txc_tx_action_list_entry list" where
  "undo_entries_of (On_commit f args p) = []"
| "undo_entries_of (On_rollback f args p) = [entry_of (Act_user f args, p, 0)]"

definition registered_all :: "addr \<Rightarrow> registration list \<Rightarrow> ('k, 'z) x_state_scheme \<Rightarrow> ('k, 'z) x_state_scheme \<Rightarrow> bool" where
  "registered_all t us s s' \<longleftrightarrow> around t s' = around t s \<and>
     grows commit_action_list t (\<lambda>ys. ys = concat (map commit_entries us)) s s' \<and>
     grows undo_action_list t (\<lambda>ys. ys = concat (map undo_entries_of us)) s s'"

lemma registered_all_append:
  assumes "registered_all t us s s'" "registered_all t vs s' s''"
  shows "registered_all t (us @ vs) s s''"
  using assms unfolding registered_all_def by (auto elim: grows_trans)

lemma register_one:
  assumes "l_txd s = Some t"
  shows "wp (register u) (\<lambda>_. registered_all t [u] s) (\<lambda>_ _. True) s"
proof -
  have same: "grows sel t (\<lambda>ys. ys = []) s s'" if "sel (txds s' t) = sel (txds s t)" "around t s' = around t s"
    for sel and s' :: "('a, 'b) x_state_scheme"
    using grows_same [OF that(1) around_realloc [OF that(2)]] by simp
  show ?thesis
  proof (cases u)
    case (On_commit f args p)
    then show ?thesis
      using assms same
      by (simp add: TXC_register_commit_action_def deref_def,
          intro wp_mono [OF withinD [OF register_commit_within]]) (simp_all add: registers_def registered_all_def)
  next
    case (On_rollback f args p)
    then show ?thesis
      using assms same
      by (simp add: TXC_register_undo_action_def deref_def,
          intro wp_mono [OF withinD [OF register_undo_within]]) (simp_all add: registers_def registered_all_def)
  qed
qed

lemma register_all:
  assumes "l_txd s = Some t"
  shows "wp (map_prog register us) (\<lambda>_. registered_all t us s) (\<lambda>_ _. True) s"
  using assms
proof (induction us arbitrary: s)
  case Nil
  then show ?case by (simp add: registered_all_def grows_same)
next
  case (Cons u us)
  show ?case
    unfolding map_prog.simps wp_bnd
  proof (rule wp_mono [OF register_one [OF Cons.prems]], goal_cases)
    case (1 r s1)
    then have "l_txd s1 = Some t" using Cons.prems by (simp add: registered_all_def around_def)
    from Cons.IH [OF this] show ?case
      by (rule wp_mono) (use registered_all_append [OF 1] in \<open>auto\<close>)
  qed simp
qed

definition user_effect :: "'k kernel \<Rightarrow> txc_tx_action_list_entry \<Rightarrow> 'k \<Rightarrow> 'k" where
  "user_effect K e = (case ae_function e of Act_user f args \<Rightarrow> (\<lambda>k. snd (sys_user K f args k)) | _ \<Rightarrow> id)"

lemma run_list_user:
  assumes "\<And>e. e \<in> set es \<Longrightarrow> \<exists>f args. ae_function e = Act_user f args"
  shows "wp (run_list (exec_action K) es acc) (\<lambda>_ s'. kern s' = fold (user_effect K) es (kern s)) (\<lambda>_ _. False) s"
  using assms
proof (induction es arbitrary: acc s)
  case (Cons e es)
  obtain f args where e: "ae_function e = Act_user f args" using Cons.prems [of e] by auto
  then have "wp (run_entry (exec_action K) e acc) (\<lambda>_ s'. kern s' = user_effect K e (kern s)) (\<lambda>_ _. False) s"
    by (auto simp: run_entry_def split_beta user_action_def user_effect_def wp_def bnd_def store_int_def modify_def ret_def
        split: prod.splits option.splits)
  then show ?case
    unfolding run_list.simps wp_bnd
  proof (rule wp_mono, goal_cases)
    case (1 acc' s')
    with Cons.IH [of acc' s'] Cons.prems show ?case by simp
  qed
qed simp

lemma user_entries:
  assumes "e \<in> set (concat (map commit_entries us)) \<or> e \<in> set (concat (map undo_entries_of us))"
  shows "ae_order e = 0" "\<exists>f args. ae_function e = Act_user f args"
proof -
  from assms obtain u where "e \<in> set (commit_entries u) \<or> e \<in> set (undo_entries_of u)" by auto
  then show "ae_order e = 0" "\<exists>f args. ae_function e = Act_user f args" by (cases u, auto simp: entry_of_def)+
qed

text \<open>Behind a list of manager actions only the functions of the application are regular.\<close>

lemma regular_part:
  assumes "list_all manager_entry xs" "\<And>e. e \<in> set ys \<Longrightarrow> ae_order e = 0"
  shows "filter (\<lambda>e. ae_order e = 0) (xs @ ys) = ys" "regular_list (xs @ ys)"
  using assms by (auto simp: list_all_iff manager_entry_def regular_list_def filter_empty_conv filter_id_conv)

text \<open>
  C9. Functions that the application registers follow the outcome of the
  transaction: whatever sequence of commit and undo functions it registers, none
  runs before the end, a commit runs exactly the commit functions, in the order of
  registration, and a rollback exactly the undo functions, in the reverse order.
\<close>

theorem user_actions_follow_outcome:
  assumes txd: "l_txd s = Some t"
    and usable: "list_usable commit_action_list t s" "list_usable undo_action_list t s"
    and fresh: "list_all manager_entry (entries commit_action_list t s)" "list_all manager_entry (entries undo_action_list t s)"
    and run: "map_prog register us s = Ok rs s1"
    and room: "length (entries commit_action_list t s1) < 2 ^ 31" "length (entries undo_action_list t s1) < 2 ^ 31"
  shows "kern s1 = kern s \<and>
    kern (final_state (commit_transaction K t s1)) = fold (user_effect K) (concat (map commit_entries us)) (kern s) \<and>
    kern (final_state (abort_transaction K t s1)) = fold (user_effect K) (rev (concat (map undo_entries_of us))) (kern s)"
proof -
  let ?c = "concat (map commit_entries us)" and ?u = "concat (map undo_entries_of us)"
  have all: "registered_all t us s s1" using wp_OkD [OF register_all [OF txd] run] .
  then have k: "kern s1 = kern s" by (simp add: registered_all_def around_def)
  have c: "list_usable commit_action_list t s1" "entries commit_action_list t s1 = entries commit_action_list t s @ ?c"
    and u: "list_usable undo_action_list t s1" "entries undo_action_list t s1 = entries undo_action_list t s @ ?u"
    using all usable room by (auto simp: registered_all_def grows_def)
  note user = user_entries [of _ us]
  note pc = regular_part [OF fresh(1), of ?c] and pu = regular_part [OF fresh(2), of ?u]
  have "wp (run_list (exec_action K) ?c (0, 0)) (\<lambda>_ s'. kern s' = fold (user_effect K) ?c (kern s)) (\<lambda>_ _. False) s1"
    using run_list_user [of ?c K "(0, 0)" s1] user(2) k by auto
  then have "wp (commit_transaction K t) (\<lambda>_ s'. kern s' = fold (user_effect K) ?c (kern s)) (\<lambda>_ s'. kern s' = fold (user_effect K) ?c (kern s)) s1"
    using pc user(1) by (intro commit_outcome) (simp_all add: c app_def)
  moreover have "wp (run_list (exec_action K) (rev ?u) (0, 0)) (\<lambda>_ s'. kern s' = fold (user_effect K) (rev ?u) (kern s)) (\<lambda>_ _. False) s1"
    using run_list_user [of "rev ?u" K "(0, 0)" s1] user(2) k by auto
  then have "wp (abort_transaction K t) (\<lambda>_ s'. kern s' = fold (user_effect K) (rev ?u) (kern s)) (\<lambda>_ s'. kern s' = fold (user_effect K) (rev ?u) (kern s)) s1"
    using pu user(1) by (intro abort_outcome) (simp_all add: u app_def)
  ultimately show ?thesis using k by (simp add: wp_final)
qed

section \<open>Witness\<close>

text \<open>A kernel in which the application's function number \<open>f\<close> appends \<open>f\<close> to the file with number 0.\<close>

definition logging_kernel :: "files kernel" where
  "logging_kernel = sample_kernel\<lparr>sys_user := (\<lambda>f args k. (0, k\<lparr>node_data := (node_data k)(0 := node_data k 0 @ [ucast f])\<rparr>))\<rparr>"

lemma sample_register_run:
  "\<exists>u. map_prog register [On_commit 1 0 None, On_rollback 2 0 None, On_commit 3 0 None, On_rollback 4 0 None] sample_x_state = Ok [0, 0, 0, 0] u \<and>
     length (entries undo_action_list 256 u) = 2 \<and> length (entries commit_action_list 256 u) = 2"
  by (simp add: TXC_register_commit_action_def TXC_register_undo_action_def entries_def sample_run_defs)

theorem user_actions_follow_outcome_witness:
  "\<exists>u. map_prog register [On_commit 1 0 None, On_rollback 2 0 None, On_commit 3 0 None, On_rollback 4 0 None] sample_x_state = Ok [0, 0, 0, 0] u \<and>
     node_data (kern (final_state (commit_transaction logging_kernel 256 u))) 0 = [10, 11, 12, 13, 14, 1, 3] \<and>
     node_data (kern (final_state (abort_transaction logging_kernel 256 u))) 0 = [10, 11, 12, 13, 14, 4, 2]"
proof -
  obtain u where u: "map_prog register [On_commit 1 0 None, On_rollback 2 0 None, On_commit 3 0 None, On_rollback 4 0 None] sample_x_state = Ok [0, 0, 0, 0] u"
    "length (entries undo_action_list 256 u) = 2" "length (entries commit_action_list 256 u) = 2"
    using sample_register_run by blast
  have "l_txd sample_x_state = Some 256" by simp
  moreover have "list_usable commit_action_list 256 sample_x_state" "list_usable undo_action_list 256 sample_x_state"
      "list_all manager_entry (entries commit_action_list 256 sample_x_state)"
      "list_all manager_entry (entries undo_action_list 256 sample_x_state)"
    by (simp_all add: list_usable_def list_ready_def entries_def sample_txd_def)
  ultimately show ?thesis
    using user_actions_follow_outcome [OF _ _ _ _ _ u(1), where t = 256 and K = logging_kernel] u
    by (simp add: user_effect_def logging_kernel_def entry_of_def sample_files_def)
qed

end
