(* ===== verification/Cstring.thy ===== *)
theory Cstring
  imports Memory
begin

text \<open>
  The string functions that transactions may call, \<^verbatim>\<open>src/src/libc/string.c\<close>: versions
  of the C library's functions that the compiler instruments.  They work on the
  byte-level memory.  Loops that look for a terminating zero are partial functions:
  \<open>None\<close> is a search that never ends.  Several functions are unrolled by four, and
  \<^verbatim>\<open>strchr\<close> looks at a word at a time; the theorems relate them to plain definitions
  on lists of bytes.
\<close>

section \<open>strcpy and strlen\<close>

partial_function (option) strcpy_loop :: "addr \<Rightarrow> addr \<Rightarrow> memory \<Rightarrow> memory option" where
  "strcpy_loop q p m = (if m p = 0 then Some (m(q := 0)) else strcpy_loop (q + 1) (p + 1) (m(q := m p)))"

definition txc_libc_strcpy :: "addr \<Rightarrow> addr \<Rightarrow> memory \<Rightarrow> (addr \<times> memory) option" where
  "txc_libc_strcpy dest src m = map_option (\<lambda>m. (dest, m)) (strcpy_loop dest src m)"

partial_function (option) strlen_loop :: "addr \<Rightarrow> memory \<Rightarrow> addr option" where
  "strlen_loop s m = (if m s = 0 then Some s else strlen_loop (s + 1) m)"

definition txc_libc_strlen :: "addr option \<Rightarrow> memory \<Rightarrow> u32 option" where
  "txc_libc_strlen str m =
     (case str of None \<Rightarrow> Some (- 1) | Some a \<Rightarrow> map_option (\<lambda>s. s - a) (strlen_loop a m))"

section \<open>strncpy\<close>

text \<open>
  \<^verbatim>\<open>c = *s2++; *++s1 = c;\<close> and a sequence of \<open>k + 1\<close> such statements that stops behind
  a zero.
\<close>

definition copy_char :: "addr \<Rightarrow> addr \<Rightarrow> memory \<Rightarrow> memory \<times> addr \<times> addr \<times> byte" where
  "copy_char s1 s2 m = (m(s1 + 1 := m s2), s1 + 1, s2 + 1, m s2)"

primrec copy_chars :: "nat \<Rightarrow> addr \<Rightarrow> addr \<Rightarrow> memory \<Rightarrow> memory \<times> addr \<times> addr \<times> byte" where
  "copy_chars 0 s1 s2 m = copy_char s1 s2 m"
| "copy_chars (Suc k) s1 s2 m =
     (case copy_char s1 s2 m of (m, s1, s2, c) \<Rightarrow> if c = 0 then (m, s1, s2, c) else copy_chars k s1 s2 m)"

text \<open>The unrolled loop, with \<open>k\<close> iterations after the first: \<open>Inl\<close> is the exit at a zero.\<close>

primrec strncpy_quads :: "nat \<Rightarrow> addr \<Rightarrow> addr \<Rightarrow> memory \<Rightarrow> (memory \<times> addr) + (memory \<times> addr \<times> addr)" where
  "strncpy_quads 0 s1 s2 m =
     (case copy_chars 3 s1 s2 m of (m, s1, s2, c) \<Rightarrow> if c = 0 then Inl (m, s1) else Inr (m, s1, s2))"
| "strncpy_quads (Suc k) s1 s2 m =
     (case copy_chars 3 s1 s2 m of (m, s1, s2, c) \<Rightarrow> if c = 0 then Inl (m, s1) else strncpy_quads k s1 s2 m)"

text \<open>\<^verbatim>\<open>do *++s1 = '\\0'; while (--n > 0)\<close> for \<open>n = k + 1\<close>.\<close>

primrec zero_fill :: "nat \<Rightarrow> addr \<Rightarrow> memory \<Rightarrow> memory" where
  "zero_fill 0 s1 m = m(s1 + 1 := 0)"
| "zero_fill (Suc k) s1 m = zero_fill k (s1 + 1) (m(s1 + 1 := 0))"

text \<open>
  The loop for the last characters, \<open>n = k + 1\<close> of them: \<open>Inl\<close> is the return from its
  body, \<open>Inr\<close> the exit behind a zero with the number of bytes that are still to be
  filled.
\<close>

primrec strncpy_last :: "nat \<Rightarrow> addr \<Rightarrow> addr \<Rightarrow> memory \<Rightarrow> memory + (memory \<times> addr \<times> nat)" where
  "strncpy_last 0 s1 s2 m = Inl (fst (copy_char s1 s2 m))"
| "strncpy_last (Suc k) s1 s2 m =
     (case copy_char s1 s2 m of (m, s1, s2, c) \<Rightarrow> if c = 0 then Inr (m, s1, Suc k) else strncpy_last k s1 s2 m)"

definition strncpy_last_chars :: "addr \<Rightarrow> addr \<Rightarrow> u32 \<Rightarrow> memory \<Rightarrow> memory" where
  "strncpy_last_chars s1 s2 n m =
     (let n = n AND 3 in
      if n = 0 then m
      else case strncpy_last (unat n - 1) s1 s2 m of Inl m \<Rightarrow> m | Inr (m, s1, n) \<Rightarrow> zero_fill (n - 1) s1 m)"

definition txc_libc_strncpy :: "addr \<Rightarrow> addr \<Rightarrow> u32 \<Rightarrow> memory \<Rightarrow> addr \<times> memory" where
  "txc_libc_strncpy s s2 n m =
     (s, let s1 = s - 1 in
         if n \<ge> 4 then
           (case strncpy_quads (unat (drop_bit 2 n) - 1) s1 s2 m of
              Inl (m, s1) \<Rightarrow> (let n = n - (s1 - s) - 1 in if n = 0 then m else zero_fill (unat n - 1) s1 m)
            | Inr (m, s1, s2) \<Rightarrow> strncpy_last_chars s1 s2 n m)
         else strncpy_last_chars s1 s2 n m)"

section \<open>strcat and strncat\<close>

text \<open>\<^verbatim>\<open>do c = *s1++; while (c != '\\0')\<close> ends behind the zero.\<close>

partial_function (option) skip_string :: "addr \<Rightarrow> memory \<Rightarrow> addr option" where
  "skip_string s1 m = (if m s1 = 0 then Some (s1 + 1) else skip_string (s1 + 1) m)"

partial_function (option) strcat_loop :: "addr \<Rightarrow> addr \<Rightarrow> memory \<Rightarrow> memory option" where
  "strcat_loop s1 s2 m =
     (case copy_char s1 s2 m of (m, s1, s2, c) \<Rightarrow> if c = 0 then Some m else strcat_loop s1 s2 m)"

definition txc_libc_strcat :: "addr \<Rightarrow> addr \<Rightarrow> memory \<Rightarrow> (addr \<times> memory) option" where
  "txc_libc_strcat dest src m =
     Option.bind (skip_string dest m) (\<lambda>s1. map_option (\<lambda>m. (dest, m)) (strcat_loop (s1 - 2) src m))"

text \<open>The two loops of \<^verbatim>\<open>strncat\<close>: \<open>Inl\<close> is a return from the body.\<close>

primrec strncat_quads :: "nat \<Rightarrow> addr \<Rightarrow> addr \<Rightarrow> memory \<Rightarrow> memory + (memory \<times> addr \<times> addr \<times> byte)" where
  "strncat_quads 0 s1 s2 m =
     (case copy_chars 3 s1 s2 m of (m, s1, s2, c) \<Rightarrow> if c = 0 then Inl m else Inr (m, s1, s2, c))"
| "strncat_quads (Suc k) s1 s2 m =
     (case copy_chars 3 s1 s2 m of (m, s1, s2, c) \<Rightarrow> if c = 0 then Inl m else strncat_quads k s1 s2 m)"

primrec strncat_last :: "nat \<Rightarrow> addr \<Rightarrow> addr \<Rightarrow> byte \<Rightarrow> memory \<Rightarrow> memory" where
  "strncat_last 0 s1 s2 c m = (if c \<noteq> 0 then m(s1 + 1 := 0) else m)"
| "strncat_last (Suc n) s1 s2 c m =
     (case copy_char s1 s2 m of (m, s1, s2, c) \<Rightarrow> if c = 0 then m else strncat_last n s1 s2 c m)"

definition txc_libc_strncat :: "addr \<Rightarrow> addr \<Rightarrow> u32 \<Rightarrow> memory \<Rightarrow> (addr \<times> memory) option" where
  "txc_libc_strncat s s2 n m =
     map_option (\<lambda>s1.
       (s, let s1 = s1 - 2 in
           if n \<ge> 4 then
             (case strncat_quads (unat (drop_bit 2 n) - 1) s1 s2 m of
                Inl m \<Rightarrow> m
              | Inr (m, s1, s2, c) \<Rightarrow> strncat_last (unat (n AND 3)) s1 s2 c m)
           else strncat_last (unat n) s1 s2 0 m))
       (skip_string s m)"

section \<open>Comparison\<close>

text \<open>\<^verbatim>\<open>char\<close> is signed, so \<^verbatim>\<open>strcmp\<close> compares signed characters; \<^verbatim>\<open>strncmp\<close> compares unsigned ones.\<close>

partial_function (option) txc_libc_strcmp :: "addr \<Rightarrow> addr \<Rightarrow> memory \<Rightarrow> int option" where
  "txc_libc_strcmp a b m =
     (let c1 = m a; c2 = m b; delta = sint c1 - sint c2 in
      if delta \<noteq> 0 then Some delta
      else if c1 \<noteq> 0 \<and> c2 \<noteq> 0 then txc_libc_strcmp (a + 1) (b + 1) m
      else Some 0)"

text \<open>\<open>k + 1\<close> comparisons in a row: \<open>Inl\<close> is a return.\<close>

primrec compare_chars :: "nat \<Rightarrow> addr \<Rightarrow> addr \<Rightarrow> memory \<Rightarrow> int + (addr \<times> addr \<times> byte \<times> byte)" where
  "compare_chars 0 s1 s2 m =
     (if m s1 = 0 \<or> m s1 \<noteq> m s2 then Inl (uint (m s1) - uint (m s2)) else Inr (s1 + 1, s2 + 1, m s1, m s2))"
| "compare_chars (Suc k) s1 s2 m =
     (if m s1 = 0 \<or> m s1 \<noteq> m s2 then Inl (uint (m s1) - uint (m s2)) else compare_chars k (s1 + 1) (s2 + 1) m)"

primrec strncmp_quads :: "nat \<Rightarrow> addr \<Rightarrow> addr \<Rightarrow> memory \<Rightarrow> int + (addr \<times> addr \<times> byte \<times> byte)" where
  "strncmp_quads 0 s1 s2 m = compare_chars 3 s1 s2 m"
| "strncmp_quads (Suc k) s1 s2 m =
     (case compare_chars 3 s1 s2 m of Inl r \<Rightarrow> Inl r | Inr (s1, s2, _, _) \<Rightarrow> strncmp_quads k s1 s2 m)"

primrec strncmp_last :: "nat \<Rightarrow> addr \<Rightarrow> addr \<Rightarrow> byte \<Rightarrow> byte \<Rightarrow> memory \<Rightarrow> int" where
  "strncmp_last 0 s1 s2 c1 c2 m = uint c1 - uint c2"
| "strncmp_last (Suc n) s1 s2 c1 c2 m =
     (if m s1 = 0 \<or> m s1 \<noteq> m s2 then uint (m s1) - uint (m s2) else strncmp_last n (s1 + 1) (s2 + 1) (m s1) (m s2) m)"

definition txc_libc_strncmp :: "addr \<Rightarrow> addr \<Rightarrow> u32 \<Rightarrow> memory \<Rightarrow> int" where
  "txc_libc_strncmp s1 s2 n m =
     (if n \<ge> 4 then
        (case strncmp_quads (unat (drop_bit 2 n) - 1) s1 s2 m of
           Inl r \<Rightarrow> r
         | Inr (s1, s2, c1, c2) \<Rightarrow> strncmp_last (unat (n AND 3)) s1 s2 c1 c2 m)
      else strncmp_last (unat n) s1 s2 0 0 m)"

text \<open>\<open>lower\<close> is the \<^verbatim>\<open>tolower\<close> of the C library; in the loops it is applied to signed characters.\<close>

partial_function (option) txc_libc_strcasecmp :: "(int \<Rightarrow> int) \<Rightarrow> addr \<Rightarrow> addr \<Rightarrow> memory \<Rightarrow> int option" where
  "txc_libc_strcasecmp lower s1 s2 m =
     (if m s1 \<noteq> 0 \<and> lower (sint (m s1)) = lower (sint (m s2)) then txc_libc_strcasecmp lower (s1 + 1) (s2 + 1) m
      else Some (lower (uint (m s1)) - lower (uint (m s2))))"

primrec strncasecmp_loop :: "(int \<Rightarrow> int) \<Rightarrow> nat \<Rightarrow> addr \<Rightarrow> addr \<Rightarrow> memory \<Rightarrow> addr \<times> addr" where
  "strncasecmp_loop lower 0 s1 s2 m = (s1, s2)"
| "strncasecmp_loop lower (Suc n) s1 s2 m =
     (if lower (sint (m s1)) = lower (sint (m s2)) then
        if n = 0 \<or> m s1 = 0 \<or> m s2 = 0 then (s1, s2) else strncasecmp_loop lower n (s1 + 1) (s2 + 1) m
      else (s1, s2))"

definition txc_libc_strncasecmp :: "(int \<Rightarrow> int) \<Rightarrow> addr \<Rightarrow> addr \<Rightarrow> u32 \<Rightarrow> memory \<Rightarrow> int" where
  "txc_libc_strncasecmp lower s1 s2 n m =
     (if n = 0 then 0
      else case strncasecmp_loop lower (unat n) s1 s2 m of (s1, s2) \<Rightarrow> lower (uint (m s1)) - lower (uint (m s2)))"

section \<open>strchr and strrchr\<close>

text \<open>
  The result is the address of the first \<open>c\<close>, or \<open>None\<close> (\<^verbatim>\<open>NULL\<close>) when the string ends
  before.  Characters are examined one by one until the address is aligned, then in
  words of four bytes: the test finds every word that has a zero or a \<open>c\<close>, and some
  that do not.
\<close>

definition magic_bits :: u32 where
  "magic_bits = 0x7efefeff"

definition hole_unchanged :: "u32 \<Rightarrow> bool" where
  "hole_unchanged x \<longleftrightarrow> ((x + magic_bits) XOR NOT x) AND NOT magic_bits \<noteq> 0"

definition charmask :: "byte \<Rightarrow> u32" where
  "charmask c = (let w = ucast c OR push_bit 8 (ucast c) in w OR push_bit 16 w)"

text \<open>Examining \<open>k\<close> characters: \<open>None\<close> when none of them decides.\<close>

primrec examine :: "nat \<Rightarrow> byte \<Rightarrow> addr \<Rightarrow> memory \<Rightarrow> addr option option" where
  "examine 0 c cp m = None"
| "examine (Suc k) c cp m = (if m cp = c then Some (Some cp) else if m cp = 0 then Some None else examine k c (cp + 1) m)"

partial_function (option) strchr_words :: "byte \<Rightarrow> addr \<Rightarrow> memory \<Rightarrow> addr option option" where
  "strchr_words c p m =
     (let w = load32 m p in
      if hole_unchanged w \<or> hole_unchanged (w XOR charmask c) then
        (case examine 4 c p m of None \<Rightarrow> strchr_words c (p + 4) m | Some r \<Rightarrow> Some r)
      else strchr_words c (p + 4) m)"

partial_function (option) strchr_head :: "byte \<Rightarrow> addr \<Rightarrow> memory \<Rightarrow> addr option option" where
  "strchr_head c p m =
     (if p AND 3 \<noteq> 0 then
        if m p = c then Some (Some p) else if m p = 0 then Some None else strchr_head c (p + 1) m
      else strchr_words c p m)"

definition txc_libc_strchr :: "addr \<Rightarrow> int \<Rightarrow> memory \<Rightarrow> addr option option" where
  "txc_libc_strchr s c_in m = strchr_head (of_int c_in) s m"

text \<open>\<^verbatim>\<open>strrchr\<close> calls the \<^verbatim>\<open>strchr\<close> of the C library, here the plain search.\<close>

partial_function (option) strchr_plain :: "byte \<Rightarrow> addr \<Rightarrow> memory \<Rightarrow> addr option option" where
  "strchr_plain c s m = (if m s = c then Some (Some s) else if m s = 0 then Some None else strchr_plain c (s + 1) m)"

partial_function (option) strrchr_loop :: "byte \<Rightarrow> addr \<Rightarrow> addr option \<Rightarrow> memory \<Rightarrow> addr option option" where
  "strrchr_loop c s found m =
     (case strchr_plain c s m of
        None \<Rightarrow> None
      | Some None \<Rightarrow> Some found
      | Some (Some p) \<Rightarrow> strrchr_loop c (p + 1) (Some p) m)"

definition txc_libc_strrchr :: "addr \<Rightarrow> int \<Rightarrow> memory \<Rightarrow> addr option option" where
  "txc_libc_strrchr s c_in m =
     (let c = of_int c_in in if c = 0 then strchr_plain 0 s m else strrchr_loop c s None m)"

section \<open>The test for zeros in a word\<close>

text \<open>Adding changes a bit whose counterpart in the other summand is clear exactly when there is a carry into it.\<close>

lemma odd_add_div:
  fixes x y :: nat
  assumes "even (y div 2 ^ k)"
  shows "odd ((x + y) div 2 ^ k) \<longleftrightarrow> odd (x div 2 ^ k) \<noteq> (2 ^ k \<le> x mod 2 ^ k + y mod 2 ^ k)"
proof -
  let ?c = "(x mod 2 ^ k + y mod 2 ^ k) div 2 ^ k"
  have "?c < 2"
    using add_strict_mono [of "x mod 2 ^ k" "2 ^ k" "y mod 2 ^ k" "2 ^ k"] by (simp add: less_mult_imp_div_less)
  moreover have "?c = 0 \<longleftrightarrow> \<not> 2 ^ k \<le> x mod 2 ^ k + y mod 2 ^ k" by (simp add: div_eq_0_iff not_le)
  moreover have "(x + y) div 2 ^ k = x div 2 ^ k + y div 2 ^ k + ?c" by (rule div_add1_eq)
  ultimately show ?thesis using assms by (cases "?c = 0") (auto simp: less_2_cases_iff)
qed

lemma bit_unat: "bit (x :: u32) k \<longleftrightarrow> odd (unat x div 2 ^ k)"
  by (simp add: bit_iff_odd [symmetric] bit_unsigned_iff bit_imp_le_length)

lemma bit_add_carry:
  fixes x y :: u32
  assumes "k < 32" "\<not> bit y k"
  shows "bit (x + y) k \<longleftrightarrow> bit x k \<noteq> (2 ^ k \<le> unat x mod 2 ^ k + unat y mod 2 ^ k)"
proof -
  have "even (unat y div 2 ^ k)" using assms(2) by (simp add: bit_unat)
  have "bit (x + y) k \<longleftrightarrow> bit (take_bit 32 (unat x + unat y)) k"
    by (simp add: bit_unat unat_word_ariths take_bit_eq_mod bit_iff_odd)
  also have "\<dots> \<longleftrightarrow> odd ((unat x + unat y) div 2 ^ k)"
    using assms(1) by (simp add: bit_take_bit_iff flip: bit_iff_odd)
  also have "\<dots> \<longleftrightarrow> bit x k \<noteq> (2 ^ k \<le> unat x mod 2 ^ k + unat y mod 2 ^ k)"
    using odd_add_div [OF \<open>even (unat y div 2 ^ k)\<close>] by (simp add: bit_unat)
  finally show ?thesis .
qed

lemma or_push_bit:
  fixes a b :: nat
  assumes "a < 2 ^ k"
  shows "a OR push_bit k b = a + 2 ^ k * b"
proof -
  have "\<not> bit a n" if "k \<le> n" for n
  proof -
    have "a < 2 ^ n" using assms that by (meson less_le_trans one_le_numeral power_increasing)
    then show ?thesis by (simp add: bit_iff_odd)
  qed
  then have "a AND push_bit k b = 0" by (auto simp: bit_eq_iff bit_simps not_le)
  then show ?thesis by (simp flip: disjunctive_add_eq_or add: push_bit_eq_mult mult.commute)
qed

lemma unat_byte: "unat (b :: byte) < 256"
  using unsigned_less [of b] by simp

lemma unat_word_of_bytes:
  "unat (word_of_bytes b0 b1 b2 b3) = unat b0 + 2 ^ 8 * unat b1 + 2 ^ 16 * unat b2 + 2 ^ 24 * unat b3"
proof -
  have ranges: "unat b0 < 2 ^ 8" "unat b0 + 2 ^ 8 * unat b1 < 2 ^ 16" "unat b0 + 2 ^ 8 * unat b1 + 2 ^ 16 * unat b2 < 2 ^ 24"
    using unat_byte [of b0] unat_byte [of b1] unat_byte [of b2] by simp_all
  have shifts: "unat (push_bit k (ucast b :: u32)) = push_bit k (unat b)" if "k \<le> 24" for k and b :: byte
  proof -
    have "unat b * 2 ^ k < 256 * 2 ^ 24"
      using unat_byte [of b] that by (intro mult_less_le_imp_less power_increasing) simp_all
    then show ?thesis 
      using unat_byte [of b]
      by (simp add: unsigned_push_bit_eq unsigned_ucast_eq take_bit_nat_eq_self) (simp add: push_bit_eq_mult take_bit_nat_eq_self)
  qed
  have "unat (word_of_bytes b0 b1 b2 b3) = unat b0 OR push_bit 8 (unat b1) OR push_bit 16 (unat b2) OR push_bit 24 (unat b3)"
    using ranges(1) by (simp add: word_of_bytes_def unsigned_or_eq shifts unsigned_ucast_eq take_bit_nat_eq_self)
  also have "\<dots> = ((unat b0 OR push_bit 8 (unat b1)) OR push_bit 16 (unat b2)) OR push_bit 24 (unat b3)"
    by (simp only: or.assoc)
  also have "\<dots> = unat b0 + 2 ^ 8 * unat b1 + 2 ^ 16 * unat b2 + 2 ^ 24 * unat b3"
    by (simp only: or_push_bit ranges)
  finally show ?thesis .
qed

text \<open>The holes are the bits 8, 16, 24 and 31; a hole is unchanged when no carry falls into it.\<close>

lemma holes: "NOT magic_bits = push_bit 8 (1 OR push_bit 8 (1 OR push_bit 8 (1 OR push_bit 7 1)))"
  by (simp add: magic_bits_def)

lemma hole_unchanged_iff: "hole_unchanged x \<longleftrightarrow> (\<exists>k\<in>{8, 16, 24, 31}. unat x mod 2 ^ k + unat magic_bits mod 2 ^ k < 2 ^ k)"
proof -
  have hole: "bit (NOT magic_bits) k \<longleftrightarrow> k \<in> {8, 16, 24, 31}" for k
    by (simp only: holes bit_push_bit_iff bit_or_iff bit_1_iff) auto
  have unchanged: "bit ((x + magic_bits) XOR NOT x) k \<longleftrightarrow> unat x mod 2 ^ k + unat magic_bits mod 2 ^ k < 2 ^ k"
    if "k \<in> {8, 16, 24, 31}" for k
  proof -
    from that have "k < 32" by auto
    moreover from this that have "\<not> bit magic_bits k" using hole [of k] by (simp add: bit_not_iff)
    ultimately show ?thesis using bit_add_carry [of k magic_bits x] by (auto simp: bit_simps)
  qed
  have "hole_unchanged x \<longleftrightarrow> (\<exists>k. bit ((x + magic_bits) XOR NOT x) k \<and> k \<in> {8, 16, 24, 31})"
    unfolding hole_unchanged_def bit_eq_iff [of _ "0 :: u32"] 
    by (simp only: bit_and_iff hole bit_0_eq) (auto simp del: bit_not_iff_eq intro: exI [of _ 8] exI [of _ 16] exI [of _ 24] exI [of _ 31])
  then show ?thesis using unchanged by blast
qed

lemma hole_carries:
  fixes n0 n1 n2 n3 :: nat
  assumes "n0 < 256" "n1 < 256" "n2 < 256" "n3 < 256"
  defines "x \<equiv> n0 + 256 * n1 + 65536 * n2 + 16777216 * n3"
  shows "x mod 256 = 0 \<or> x mod 65536 < 257 \<or> x mod 16777216 < 65793 \<or> x mod 2147483648 < 16843009 \<longleftrightarrow>
    n0 = 0 \<or> n1 = 0 \<or> n2 = 0 \<or> n3 = 0 \<or> n3 = 128"
proof -
  have strip: "(r + d * q) mod d = r" if "r < d" for r d q :: nat using that by simp
  let ?h = "if n3 < 128 then n3 else n3 - 128"
  have mods: "x mod 256 = n0" using strip [of n0 256 "n1 + 256 * n2 + 65536 * n3"] assms(1) by (simp add: x_def add.assoc)
  have mods1: "x mod 65536 = n0 + 256 * n1"
    using strip [of "n0 + 256 * n1" 65536 "n2 + 256 * n3"] assms(1,2) by (simp add: x_def add.assoc)
  have mods2: "x mod 16777216 = n0 + 256 * n1 + 65536 * n2"
    using strip [of "n0 + 256 * n1 + 65536 * n2" 16777216 n3] assms(1-3) by (simp add: x_def add.assoc)
  have mods3: "x mod 2147483648 = n0 + 256 * n1 + 65536 * n2 + 16777216 * ?h"
  proof (cases "n3 < 128")
    case False
    then obtain k where "n3 = 128 + k" by (metis le_Suc_ex not_le)
    then have "x = (n0 + 256 * n1 + 65536 * n2 + 16777216 * k) + 2147483648 * 1" by (simp add: x_def)
    moreover have "n0 + 256 * n1 + 65536 * n2 + 16777216 * k < 2147483648" using assms(1-4) \<open>n3 = 128 + k\<close> by simp
    ultimately show ?thesis using False \<open>n3 = 128 + k\<close> by (simp only: strip) simp
  qed (use assms(1-3) in \<open>simp add: x_def\<close>)
  have h: "?h = 0 \<longleftrightarrow> n3 = 0 \<or> n3 = 128" by auto
  have "n0 = 0 \<or> n0 + 256 * n1 < 257 \<or> n0 + 256 * n1 + 65536 * n2 < 65793 \<or>
      n0 + 256 * n1 + 65536 * n2 + 16777216 * h < 16843009 \<longleftrightarrow> n0 = 0 \<or> n1 = 0 \<or> n2 = 0 \<or> h = 0" for h
    using assms(1-3) by linarith
  then show ?thesis unfolding mods mods1 mods2 mods3 by (simp only: h)
qed

text \<open>
  The test of \<^verbatim>\<open>strchr\<close> finds exactly the words that have a zero byte, and misfires
  exactly when the most significant byte is 128, as its comment says.
\<close>

theorem hole_test: "hole_unchanged (word_of_bytes b0 b1 b2 b3) \<longleftrightarrow> 0 \<in> {b0, b1, b2, b3} \<or> b3 = 128"
proof -
  have zero: "b = 0 \<longleftrightarrow> unat b = 0" for b :: byte by (simp add: unat_eq_0)
  have top: "b3 = 128 \<longleftrightarrow> unat b3 = 128" using word_unat_eq_iff [of b3 128] by simp
  show ?thesis
    unfolding hole_unchanged_iff unat_word_of_bytes
    using hole_carries [of "unat b0" "unat b1" "unat b2" "unat b3"] unat_byte [of b0] unat_byte [of b1] unat_byte [of b2]
      unat_byte [of b3]
    by (simp add: magic_bits_def zero top add.assoc)
qed

lemma charmask_bytes: "charmask c = word_of_bytes c c c c"
  by (simp add: charmask_def word_of_bytes_def Let_def push_bit_or or.assoc)

lemma bit_byte: "8 \<le> n \<Longrightarrow> \<not> bit (b :: byte) n"
  using bit_imp_le_length [of b n] by auto

lemma bit_word_of_bytes:
  "n < 8 \<Longrightarrow> bit (word_of_bytes b0 b1 b2 b3) n = bit b0 n"
  "n < 8 \<Longrightarrow> bit (word_of_bytes b0 b1 b2 b3) (8 + n) = bit b1 n"
  "n < 8 \<Longrightarrow> bit (word_of_bytes b0 b1 b2 b3) (16 + n) = bit b2 n"
  "n < 8 \<Longrightarrow> bit (word_of_bytes b0 b1 b2 b3) (24 + n) = bit b3 n"
  by (simp_all add: word_of_bytes_def bit_simps bit_byte)

lemma bytes_of_word_of_bytes: "bytes_of_word (word_of_bytes b0 b1 b2 b3) = [b0, b1, b2, b3]"
proof -
  have *: "ucast (drop_bit k (word_of_bytes b0 b1 b2 b3)) = (b :: byte)"
    if "\<And>n. n < 8 \<Longrightarrow> bit (word_of_bytes b0 b1 b2 b3) (k + n) = bit b n" for k b
    by (rule bit_word_eqI) (simp add: bit_simps that)
  show ?thesis
    using * [of 0 b0] * [of 8 b1] * [of 16 b2] * [of 24 b3] by (simp add: bytes_of_word_def bit_word_of_bytes)
qed

lemma bytes_of_load32: "bytes_of_word (load32 m a) = bytes_at m a 4"
  by (simp add: load32_def bytes_of_word_of_bytes bytes_at_def upt_rec)

lemma xor_bytes: "word_of_bytes a0 a1 a2 a3 XOR word_of_bytes b0 b1 b2 b3 =
    word_of_bytes (a0 XOR b0) (a1 XOR b1) (a2 XOR b2) (a3 XOR b3)"
proof (rule bit_word_eqI)
  fix n
  assume "n < LENGTH(32)"
  then have "\<exists>i<8. n = i \<or> n = 8 + i \<or> n = 16 + i \<or> n = 24 + i" by simp presburger
  then obtain i where "i < 8" "n = i \<or> n = 8 + i \<or> n = 16 + i \<or> n = 24 + i" by blast
  then show "bit (word_of_bytes a0 a1 a2 a3 XOR word_of_bytes b0 b1 b2 b3) n =
      bit (word_of_bytes (a0 XOR b0) (a1 XOR b1) (a2 XOR b2) (a3 XOR b3)) n"
    by (elim disjE) (simp_all add: bit_xor_iff bit_word_of_bytes)
qed


section \<open>strchr is the plain search\<close>

lemma examine_plain:
  "strchr_plain c p m = (case examine k c p m of None \<Rightarrow> strchr_plain c (p + of_nat k) m | Some r \<Rightarrow> Some r)"
proof (induction k arbitrary: p)
  case (Suc k)
  then show ?case by (subst strchr_plain.simps) (simp add: add.assoc split: option.split)
qed simp

text \<open>The test never skips a word in which the search ends.\<close>

lemma test_safe:
  assumes "\<not> hole_unchanged (load32 m p)" "\<not> hole_unchanged (load32 m p XOR charmask c)"
  shows "examine 4 c p m = None"
proof -
  have "b XOR c = 0 \<longleftrightarrow> b = c" for b :: byte by (metis xor.left_neutral xor.assoc xor_self_eq)
  then have "0 \<notin> {m p, m (p + 1), m (p + 2), m (p + 3)}" "c \<notin> {m p, m (p + 1), m (p + 2), m (p + 3)}"
    using assms by (auto simp: load32_def charmask_bytes xor_bytes hole_test)
  then show ?thesis by (auto simp: eval_nat_numeral add.assoc)
qed

lemma strchr_words_step:
  "strchr_words c p m = (case examine 4 c p m of None \<Rightarrow> strchr_words c (p + 4) m | Some r \<Rightarrow> Some r)"
  by (subst strchr_words.simps) (auto simp: Let_def test_safe)

lemma examine_hit: "examine k c p m = None \<longleftrightarrow> (\<forall>i<k. m (p + of_nat i) \<noteq> 0 \<and> m (p + of_nat i) \<noteq> c)"
proof (induction k arbitrary: p)
  case (Suc k)
  show ?case by (auto simp: Suc All_less_Suc2 add.assoc)
qed simp

text \<open>A search that ends meets the character or a zero.\<close>

definition met :: "byte \<Rightarrow> addr \<Rightarrow> memory \<Rightarrow> bool" where
  "met c s m \<longleftrightarrow> (\<exists>n. m (s + of_nat n) = 0 \<or> m (s + of_nat n) = c)"

lemma met_here: "m s = 0 \<or> m s = c \<Longrightarrow> met c s m"
  unfolding met_def by (intro exI [of _ 0]) simp

lemma met_later: "met c (s + of_nat k) m \<Longrightarrow> met c s m"
  unfolding met_def by (metis add.assoc of_nat_add)

lemma met_examined: "examine k c s m = Some r \<Longrightarrow> met c s m"
  unfolding met_def using examine_hit [of k c s m] by auto

lemma strchr_plain_ends:
  assumes "strchr_plain c s m = Some r"
  shows "met c s m"
proof -
  have "(\<lambda>((c, s), m) r. met c s m) ((c, s), m) r"
    by (rule strchr_plain.raw_induct [OF _ assms])
      (auto intro: met_here met_later [where k = 1, simplified] split: if_splits)
  then show ?thesis by simp
qed

lemma strchr_words_ends:
  assumes "strchr_words c s m = Some r"
  shows "met c s m"
proof -
  have "(\<lambda>((c, s), m) r. met c s m) ((c, s), m) r"
    by (rule strchr_words.raw_induct [OF _ assms])
      (auto intro: met_examined met_later [where k = 4, simplified] simp: Let_def split: if_splits option.splits)
  then show ?thesis by simp
qed

lemma strchr_words_plain: "strchr_words c p m = strchr_plain c p m"
proof (cases "met c p m")
  case True
  then obtain n where "m (p + of_nat n) = 0 \<or> m (p + of_nat n) = c" by (auto simp: met_def)
  then show ?thesis
  proof (induction n arbitrary: p rule: less_induct)
    case (less n)
    show ?case
    proof (cases "examine 4 c p m")
      case None
      then have "4 \<le> n" using less.prems by (auto simp: examine_hit not_le [symmetric])
      then have "p + of_nat n = (p + 4) + of_nat (n - 4)" by (simp add: of_nat_diff)
      then have "strchr_words c (p + 4) m = strchr_plain c (p + 4) m"
        using less.IH [of "n - 4" "p + 4"] less.prems \<open>4 \<le> n\<close> by simp
      then show ?thesis using None examine_plain [of c p m 4] by (subst strchr_words_step) simp
    qed (subst strchr_words_step, simp add: examine_plain [of c p m 4])
  qed
next
  case False
  then show ?thesis
    by (metis not_None_eq strchr_plain_ends strchr_words_ends)
qed

lemma unat_and_3: "unat (x AND 3 :: u32) = unat x mod 4"
proof -
  have "x AND 3 = take_bit 2 x" by (simp add: take_bit_eq_mask mask_eq_exp_minus_1)
  then show ?thesis by (simp add: take_bit_eq_mod unat_mod)
qed

lemma aligned_iff: "x AND 3 = (0 :: u32) \<longleftrightarrow> unat x mod 4 = 0"
  by (metis unat_and_3 unat_eq_0)

lemma next_aligned:
  fixes p :: u32
  assumes "p AND 3 \<noteq> 0"
  shows "4 - unat (p + 1) mod 4 < 4 - unat p mod 4 \<or> (p + 1) AND 3 = 0"
proof -
  have "unat (p + 1) mod 4 = Suc (unat p) mod 4" by (simp add: unat_word_ariths mod_mod_cancel)
  also have "\<dots> = (if unat p mod 4 = 3 then 0 else Suc (unat p mod 4))" by (simp add: mod_Suc)
  finally have "unat (p + 1) mod 4 = \<dots>" .
  moreover have "unat p mod 4 < 4" by simp
  ultimately show ?thesis using assms unfolding aligned_iff by (cases "unat p mod 4 = 3") simp_all
qed

lemma strchr_head_plain: "strchr_head c p m = strchr_plain c p m"
proof (induction "4 - unat p mod 4" arbitrary: p rule: less_induct)
  case less
  have aligned: "strchr_head c p m = strchr_plain c p m" if "p AND 3 = 0" for p
    using that by (subst strchr_head.simps) (simp add: strchr_words_plain)
  show ?case
  proof (cases "p AND 3 = 0")
    case False
    then have "strchr_head c (p + 1) m = strchr_plain c (p + 1) m"
      using next_aligned [of p] less [of "p + 1"] aligned by blast
    with False show ?thesis by (subst strchr_head.simps, subst strchr_plain.simps) simp
  qed (rule aligned)
qed

text \<open>
  C15. The optimised \<^verbatim>\<open>strchr\<close>, which looks at single characters up to a word boundary and
  then at whole words through the test for unchanged holes, is the plain character by
  character search: it returns the same result, and it ends for exactly the same strings.
\<close>

theorem strchr_is_plain_search: "txc_libc_strchr s c_in m = strchr_plain (of_int c_in) s m"
  by (simp add: txc_libc_strchr_def strchr_head_plain)


section \<open>Strings in memory\<close>

text \<open>The string \<open>bs\<close> lies at \<open>a\<close>, with its terminating zero.\<close>

definition cstring :: "memory \<Rightarrow> addr \<Rightarrow> byte list \<Rightarrow> bool" where
  "cstring m a bs \<longleftrightarrow> bytes_at m a (length bs) = bs \<and> 0 \<notin> set bs \<and> m (a + of_nat (length bs)) = 0 \<and> length bs < 2 ^ 32"

lemma bytes_at_snoc: "bytes_at m a (Suc n) = bytes_at m a n @ [m (a + of_nat n)]"
  by (simp add: bytes_at_def)

lemma cstring_Nil [simp]: "cstring m a [] \<longleftrightarrow> m a = 0"
  by (simp add: cstring_def)

lemma cstring_Cons: "cstring m a (b # bs) \<longleftrightarrow> m a = b \<and> b \<noteq> 0 \<and> cstring m (a + 1) bs \<and> Suc (length bs) < 2 ^ 32"
  by (auto simp: cstring_def bytes_at_Suc add.assoc)

lemma strlen_loop_cstring: "cstring m a bs \<Longrightarrow> strlen_loop a m = Some (a + of_nat (length bs))"
proof (induction bs arbitrary: a)
  case (Cons b bs)
  then show ?case by (subst strlen_loop.simps) (auto simp: cstring_Cons add.assoc)
qed (subst strlen_loop.simps, simp)

lemma skip_string_cstring: "cstring m a bs \<Longrightarrow> skip_string a m = Some (a + of_nat (length bs) + 1)"
proof (induction bs arbitrary: a)
  case (Cons b bs)
  then show ?case by (subst skip_string.simps) (auto simp: cstring_Cons add.assoc)
qed (subst skip_string.simps, simp)

lemma strchr_plain_cstring:
  "cstring m a bs \<Longrightarrow> strchr_plain c a m =
     Some (if c \<in> set (bs @ [0]) then Some (a + of_nat (length (takeWhile (\<lambda>b. b \<noteq> c) (bs @ [0])))) else None)"
proof (induction bs arbitrary: a)
  case (Cons b bs)
  then show ?case by (subst strchr_plain.simps) (auto simp: cstring_Cons add.assoc)
qed (subst strchr_plain.simps, simp)


lemma cstring_append: "cstring m a (xs @ ys) \<Longrightarrow> cstring m (a + of_nat (length xs)) ys"
  by (induction xs arbitrary: a) (auto simp: cstring_Cons simp flip: add.assoc)

lemma strchr_plain_first:
  "cstring m a (xs @ c # ys) \<Longrightarrow> c \<notin> set xs \<Longrightarrow> strchr_plain c a m = Some (Some (a + of_nat (length xs)))"
proof (induction xs arbitrary: a)
  case (Cons x xs)
  then show ?case by (subst strchr_plain.simps) (auto simp: cstring_Cons add.assoc)
qed (subst strchr_plain.simps, simp add: cstring_Cons)

lemma cstring_store: "0 \<notin> set bs \<Longrightarrow> length bs < 2 ^ 32 \<Longrightarrow> cstring (store_at m a (bs @ [0])) a bs"
  using bytes_at_store_at [of "bs @ [0]" m a]
  by (simp add: cstring_def bytes_at_snoc)

text \<open>\<^verbatim>\<open>strrchr\<close> finds the last occurrence.\<close>

lemma strrchr_loop_none: "cstring m s bs \<Longrightarrow> c \<noteq> 0 \<Longrightarrow> c \<notin> set bs \<Longrightarrow> strrchr_loop c s found m = Some found"
  by (subst strrchr_loop.simps) (simp add: strchr_plain_cstring)

lemma strrchr_loop_last:
  assumes "cstring m s (xs @ c # ys)" "c \<noteq> 0" "c \<notin> set ys"
  shows "strrchr_loop c s found m = Some (Some (s + of_nat (length xs)))"
  using assms(1)
proof (induction "length xs" arbitrary: s xs found rule: less_induct)
  case less
  show ?case
  proof (cases "c \<in> set xs")
    case False
    note first = strchr_plain_first [OF less.prems False]
    have "cstring m (s + of_nat (length xs) + 1) ys" using cstring_append [OF less.prems] by (simp add: cstring_Cons)
    from strrchr_loop_none [OF this assms(2,3)] first show ?thesis by (subst strrchr_loop.simps) simp
  next
    case True
    then obtain us vs where xs: "xs = us @ c # vs" "c \<notin> set us" by (meson split_list_first)
    have "cstring m (s + of_nat (length us)) (c # vs @ c # ys)" using cstring_append [of m s us "c # vs @ c # ys"] less.prems xs by simp
    then have "cstring m (s + of_nat (length us) + 1) (vs @ c # ys)" by (simp add: cstring_Cons)
    from less.hyps [OF _ this, of "Some (s + of_nat (length us))"] xs
    have "strrchr_loop c (s + of_nat (length us) + 1) (Some (s + of_nat (length us))) m = Some (Some (s + of_nat (length xs)))"
      by (simp add: algebra_simps)
    then show ?thesis using strchr_plain_first [of m s us c "vs @ c # ys"] less.prems xs by (subst strrchr_loop.simps) simp
  qed
qed

section \<open>Copying\<close>

lemma store_at_snoc:
  "length bs < 2 ^ 32 \<Longrightarrow> (store_at m a bs)(a + of_nat (length bs) := b) = store_at m a (bs @ [b])"
proof (induction bs arbitrary: a)
  case (Cons b' bs)
  have ne: "a \<noteq> a + 1 + of_nat (length bs)"
  proof
    assume "a = a + 1 + of_nat (length bs)"
    then have "of_nat (Suc (length bs)) = (0 :: addr)" by (simp add: add.assoc)
    with Cons.prems show False by (simp add: unat_eq_0 [symmetric] unat_of_nat_u32 del: of_nat_Suc)
  qed
  have "(store_at m (a + 1) bs)(a + 1 + of_nat (length bs) := b) = store_at m (a + 1) (bs @ [b])"
    by (rule Cons.IH) (use Cons.prems in simp)
  then show ?case by (simp add: fun_upd_twist [OF ne] flip: add.assoc del: fun_upd_apply)
qed simp

lemma store_at_append:
  "length xs + length ys \<le> 2 ^ 32 \<Longrightarrow> store_at (store_at m a xs) (a + of_nat (length xs)) ys = store_at m a (xs @ ys)"
proof (induction ys rule: rev_induct)
  case (snoc y ys)
  have "store_at (store_at m a xs) (a + of_nat (length xs)) (ys @ [y]) =
      (store_at m a (xs @ ys))(a + of_nat (length (xs @ ys)) := y)"
    using snoc store_at_snoc [of ys "store_at m a xs" "a + of_nat (length xs)" y] by (simp add: add.assoc)
  then show ?case using snoc.prems store_at_snoc [of "xs @ ys" m a y] by simp
qed simp

lemma apart_mono: "apart a n b k \<Longrightarrow> n' \<le> n \<Longrightarrow> k' \<le> k \<Longrightarrow> apart a n' b k'"
  by (simp add: apart_def)

lemma read_apart:
  assumes "apart a n b k" "length bs \<le> k" "k \<le> 2 ^ 32" "i < n"
  shows "store_at m b bs (a + of_nat i) = m (a + of_nat i)"
proof -
  have "bytes_at (store_at m b bs) a n = bytes_at m a n"
    using apart_mono [OF assms(1) order_refl assms(2)] assms(2,3) by (simp add: apart_store)
  then show ?thesis using assms(4) by (metis nth_bytes_at)
qed

text \<open>\<open>copied m s s2 i\<close>: the state of a copy from \<open>s2\<close> to \<open>s\<close> behind its first \<open>i\<close> characters.\<close>

definition copied :: "memory \<Rightarrow> addr \<Rightarrow> addr \<Rightarrow> nat \<Rightarrow> memory" where
  "copied m s s2 i = store_at m s (bytes_at m s2 i)"

definition nonzero :: "memory \<Rightarrow> addr \<Rightarrow> nat \<Rightarrow> bool" where
  "nonzero m s2 i \<longleftrightarrow> (\<forall>j<i. m (s2 + of_nat j) \<noteq> 0)"

lemma copy_char_copied:
  assumes "apart s2 N s N" "N \<le> 2 ^ 32" "i < N"
  shows "copy_char (s - 1 + of_nat i) (s2 + of_nat i) (copied m s s2 i) =
    (copied m s s2 (Suc i), s - 1 + of_nat (Suc i), s2 + of_nat (Suc i), m (s2 + of_nat i))"
proof -
  have "copied m s s2 i (s2 + of_nat i) = m (s2 + of_nat i)"
    unfolding copied_def by (rule read_apart [OF assms(1) _ assms(2,3)]) (use assms(3) in simp)
  moreover have "(copied m s s2 i)(s + of_nat i := m (s2 + of_nat i)) = copied m s s2 (Suc i)"
    unfolding copied_def using store_at_snoc [of "bytes_at m s2 i" m s "m (s2 + of_nat i)"] assms(2,3)
    by (simp add: bytes_at_snoc)
  ultimately show ?thesis by (simp add: copy_char_def algebra_simps)
qed

lemma nonzero_Suc: "nonzero m s2 (Suc i) \<longleftrightarrow> nonzero m s2 i \<and> m (s2 + of_nat i) \<noteq> 0"
  by (auto simp: nonzero_def less_Suc_eq)

lemma copy_chars_copied:
  assumes "apart s2 N s N" "N \<le> 2 ^ 32" "nonzero m s2 i" "i + k < N"
  shows "\<exists>j. i \<le> j \<and> j \<le> i + k \<and> nonzero m s2 j \<and> (m (s2 + of_nat j) = 0 \<or> j = i + k) \<and>
    copy_chars k (s - 1 + of_nat i) (s2 + of_nat i) (copied m s s2 i) =
      (copied m s s2 (Suc j), s - 1 + of_nat (Suc j), s2 + of_nat (Suc j), m (s2 + of_nat j))"
  using assms(3,4)
proof (induction k arbitrary: i)
  case 0
  then show ?case using copy_char_copied [OF assms(1,2), of i m] by auto
next
  case (Suc k)
  note step = copy_char_copied [OF assms(1,2), of i m]
  show ?case
  proof (cases "m (s2 + of_nat i) = 0")
    case True
    then show ?thesis using step Suc.prems by (intro exI [of _ i]) simp
  next
    case False
    with Suc.prems have "nonzero m s2 (Suc i)" "Suc i + k < N" by (simp_all add: nonzero_Suc)
    from Suc.IH [OF this] obtain j where "Suc i \<le> j" "j \<le> Suc i + k" "nonzero m s2 j" "m (s2 + of_nat j) = 0 \<or> j = Suc i + k"
      "copy_chars k (s - 1 + of_nat (Suc i)) (s2 + of_nat (Suc i)) (copied m s s2 (Suc i)) =
        (copied m s s2 (Suc j), s - 1 + of_nat (Suc j), s2 + of_nat (Suc j), m (s2 + of_nat j))"
      by blast
    then show ?thesis using step Suc.prems False by (intro exI [of _ j]) (simp del: of_nat_Suc)
  qed
qed


text \<open>The unrolled loops are one sequence of copied characters.\<close>

lemma copy_chars_add:
  "copy_chars (a + Suc b) s1 s2 m =
     (case copy_chars a s1 s2 m of (m, s1, s2, c) \<Rightarrow> if c = 0 then (m, s1, s2, c) else copy_chars b s1 s2 m)"
  by (induction a arbitrary: s1 s2 m) (simp_all split: prod.split)

lemma strncpy_quads_chars:
  "strncpy_quads k s1 s2 m =
     (case copy_chars (4 * k + 3) s1 s2 m of (m, s1, s2, c) \<Rightarrow> if c = 0 then Inl (m, s1) else Inr (m, s1, s2))"
proof (induction k arbitrary: s1 s2 m)
  case (Suc k)
  have "4 * Suc k + 3 = 3 + Suc (4 * k + 3)" by simp
  then show ?case by (simp only: copy_chars_add strncpy_quads.simps Suc) (simp split: prod.split)
qed simp

lemma strncat_quads_chars:
  "strncat_quads k s1 s2 m =
     (case copy_chars (4 * k + 3) s1 s2 m of (m, s1, s2, c) \<Rightarrow> if c = 0 then Inl m else Inr (m, s1, s2, c))"
proof (induction k arbitrary: s1 s2 m)
  case (Suc k)
  have "4 * Suc k + 3 = 3 + Suc (4 * k + 3)" by simp
  then show ?case by (simp only: copy_chars_add strncat_quads.simps Suc) (simp split: prod.split)
qed simp

lemma strncat_last_chars:
  "strncat_last (Suc k) s1 s2 c m = (case copy_chars k s1 s2 m of (m, s1, s2, c) \<Rightarrow> if c = 0 then m else m(s1 + 1 := 0))"
proof (induction k arbitrary: s1 s2 c m)
  case (Suc k)
  show ?case by (subst strncat_last.simps) (simp add: Suc del: strncat_last.simps fun_upd_apply split: prod.split)
qed (simp add: copy_char_def)

lemma zero_fill_store:
  "k < 2 ^ 32 \<Longrightarrow> zero_fill k s1 m = store_at m (s1 + 1) (replicate (Suc k) 0)"
proof (induction k arbitrary: s1 m)
  case (Suc k)
  then have "zero_fill (Suc k) s1 m = store_at (store_at m (s1 + 1) [0]) (s1 + 1 + of_nat (length [0 :: byte])) (replicate (Suc k) 0)"
    by (simp del: fun_upd_apply replicate_Suc)
  also have "\<dots> = store_at m (s1 + 1) ([0] @ replicate (Suc k) 0)"
    by (rule store_at_append) (use Suc.prems in simp)
  finally show ?case by simp
qed simp


lemma strncpy_last_copied:
  assumes "apart s2 N s N" "N \<le> 2 ^ 32" "nonzero m s2 i" "i + k < N"
  shows "(\<exists>j. j < i + k \<and> nonzero m s2 j \<and> m (s2 + of_nat j) = 0 \<and>
      strncpy_last k (s - 1 + of_nat i) (s2 + of_nat i) (copied m s s2 i) =
        Inr (copied m s s2 (Suc j), s - 1 + of_nat (Suc j), i + k - j)) \<or>
    nonzero m s2 (i + k) \<and>
      strncpy_last k (s - 1 + of_nat i) (s2 + of_nat i) (copied m s s2 i) = Inl (copied m s s2 (Suc (i + k)))"
  using assms(3,4)
proof (induction k arbitrary: i)
  case 0
  then show ?case using copy_char_copied [OF assms(1,2), of i m] by simp
next
  case (Suc k)
  note step = copy_char_copied [OF assms(1,2), of i m]
  show ?case
  proof (cases "m (s2 + of_nat i) = 0")
    case True
    then show ?thesis using step Suc.prems by (intro disjI1 exI [of _ i]) simp
  next
    case False
    with Suc.prems have "nonzero m s2 (Suc i)" "Suc i + k < N" by (simp_all add: nonzero_Suc)
    from Suc.IH [OF this] show ?thesis using step Suc.prems False by (simp del: of_nat_Suc)
  qed
qed

text \<open>What \<^verbatim>\<open>strncpy\<close> is meant to store: the string up to its zero, and zeros up to \<open>n\<close> bytes.\<close>

definition string_prefix :: "memory \<Rightarrow> addr \<Rightarrow> nat \<Rightarrow> byte list" where
  "string_prefix m a n = takeWhile (\<lambda>b. b \<noteq> 0) (bytes_at m a n)"

definition padded :: "memory \<Rightarrow> addr \<Rightarrow> addr \<Rightarrow> nat \<Rightarrow> memory" where
  "padded m s s2 n = store_at m s (string_prefix m s2 n @ replicate (n - length (string_prefix m s2 n)) 0)"

lemma bytes_at_add: "bytes_at m a (i + k) = bytes_at m a i @ bytes_at m (a + of_nat i) k"
  by (rule nth_equalityI) (auto simp: nth_append nth_bytes_at)

lemma string_prefix_full: "nonzero m a n \<Longrightarrow> string_prefix m a n = bytes_at m a n"
  by (auto simp: string_prefix_def nonzero_def in_set_conv_nth nth_bytes_at)

lemma string_prefix_zero:
  assumes "nonzero m a j" "m (a + of_nat j) = 0" "j < n"
  shows "string_prefix m a n = bytes_at m a j"
proof -
  obtain k where "n = j + Suc k" using assms(3) less_imp_Suc_add by fastforce
  then have "bytes_at m a n = bytes_at m a j @ 0 # bytes_at m (a + of_nat j + 1) k"
    using assms(2) by (simp only: bytes_at_add bytes_at_Suc [of m "a + of_nat j"])
  moreover have "\<forall>b \<in> set (bytes_at m a j). b \<noteq> 0" using assms(1) by (auto simp: nonzero_def in_set_conv_nth nth_bytes_at)
  ultimately show ?thesis by (simp add: string_prefix_def)
qed

lemma padded_zero:
  assumes "nonzero m s2 j" "m (s2 + of_nat j) = 0" "j < n" "n \<le> 2 ^ 32"
  shows "padded m s s2 n = store_at (copied m s s2 (Suc j)) (s + of_nat (Suc j)) (replicate (n - Suc j) 0)"
proof -
  have "bytes_at m s2 j @ replicate (n - j) 0 = bytes_at m s2 (Suc j) @ replicate (n - Suc j) 0"
    using assms(2,3) by (simp add: bytes_at_snoc flip: replicate_Suc Suc_diff_Suc)
  then show ?thesis
    using assms store_at_append [of "bytes_at m s2 (Suc j)" "replicate (n - Suc j) 0" m s]
    by (simp add: padded_def copied_def string_prefix_zero [OF assms(1-3)])
qed

lemma padded_full:
  assumes "nonzero m s2 k"
  shows "padded m s s2 (Suc k) = copied m s s2 (Suc k)"
proof (cases "m (s2 + of_nat k) = 0")
  case True
  then show ?thesis by (simp add: padded_def string_prefix_zero [OF assms True] copied_def bytes_at_snoc)
next
  case False
  then show ?thesis using assms by (simp add: padded_def copied_def string_prefix_full nonzero_Suc)
qed


lemma zero_fill_padded:
  assumes "nonzero m s2 j" "m (s2 + of_nat j) = 0" "Suc j < n" "n \<le> 2 ^ 32"
  shows "zero_fill (n - Suc j - 1) (s - 1 + of_nat (Suc j)) (copied m s s2 (Suc j)) = padded m s s2 n"
  using assms padded_zero [of m s2 j n s] zero_fill_store [of "n - Suc j - 1" "s - 1 + of_nat (Suc j)" "copied m s s2 (Suc j)"]
  by (simp add: algebra_simps Suc_diff_Suc del: replicate_Suc of_nat_Suc store_at.simps)

lemma strncpy_last_chars_padded:
  assumes "apart s2 (unat n) s (unat n)" "nonzero m s2 i" "i = 4 * (unat n div 4)"
  shows "strncpy_last_chars (s - 1 + of_nat i) (s2 + of_nat i) n (copied m s s2 i) = padded m s s2 (unat n)"
proof (cases "unat n mod 4")
  case 0
  then have "unat n = i" using assms(3) by auto
  with 0 show ?thesis using assms(2) 
    by (simp add: strncpy_last_chars_def Let_def aligned_iff padded_def copied_def string_prefix_full)
next
  case (Suc k)
  then have n: "unat n = Suc (i + k)" using assms(3) by (metis add_Suc_right mult_div_mod_eq)
  have "unat n \<le> 2 ^ 32" using unat_u32_less [of n] by simp
  from strncpy_last_copied [OF assms(1) this assms(2), of k] consider
      j where "j < i + k" "nonzero m s2 j" "m (s2 + of_nat j) = 0"
        "strncpy_last k (s - 1 + of_nat i) (s2 + of_nat i) (copied m s s2 i) =
          Inr (copied m s s2 (Suc j), s - 1 + of_nat (Suc j), i + k - j)"
    | "nonzero m s2 (i + k)"
        "strncpy_last k (s - 1 + of_nat i) (s2 + of_nat i) (copied m s s2 i) = Inl (copied m s s2 (Suc (i + k)))"
    using n by auto
  then show ?thesis
  proof cases
    case 1
    then show ?thesis using n Suc zero_fill_padded [of m s2 j "unat n" s] \<open>unat n \<le> 2 ^ 32\<close>
      by (simp add: strncpy_last_chars_def Let_def aligned_iff unat_and_3 del: of_nat_Suc)
  next
    case 2
    then show ?thesis using n Suc padded_full [OF 2(1)]
      by (simp add: strncpy_last_chars_def Let_def aligned_iff unat_and_3 del: of_nat_Suc)
  qed
qed


text \<open>The unrolled part of \<^verbatim>\<open>strncpy\<close> and \<^verbatim>\<open>strncat\<close>: it stops at a zero, or has copied all of its characters.\<close>

lemma quads_copied:
  assumes "apart s2 N s N" "N \<le> 2 ^ 32" "4 * Suc k \<le> N"
  obtains j where "j < 4 * Suc k" "nonzero m s2 j" "m (s2 + of_nat j) = 0 \<or> j = 4 * k + 3"
    "copy_chars (4 * k + 3) (s - 1) s2 m =
      (copied m s s2 (Suc j), s - 1 + of_nat (Suc j), s2 + of_nat (Suc j), m (s2 + of_nat j))"
proof -
  have "nonzero m s2 0" "0 + (4 * k + 3) < N" "copied m s s2 0 = m" using assms(3) by (simp_all add: nonzero_def copied_def)
  from copy_chars_copied [OF assms(1,2) this(1,2)] this(3) obtain j where
      "j \<le> 4 * k + 3" "nonzero m s2 j" "m (s2 + of_nat j) = 0 \<or> j = 4 * k + 3"
      "copy_chars (4 * k + 3) (s - 1) s2 m =
        (copied m s s2 (Suc j), s - 1 + of_nat (Suc j), s2 + of_nat (Suc j), m (s2 + of_nat j))"
    by (auto simp del: of_nat_Suc)
  then show thesis by (intro that [of j]) simp_all
qed

lemma unat_quads: "4 \<le> n \<Longrightarrow> 4 * Suc (unat (drop_bit 2 n) - 1) = 4 * (unat (n :: u32) div 4)"
proof -
  assume "4 \<le> n"
  then have "4 \<le> unat n" by (simp add: word_le_nat_alt)
  moreover have "unat (drop_bit 2 n) = unat n div 4" by (simp add: drop_bit_eq_div unat_div)
  ultimately show ?thesis by simp
qed

lemma fill_length:
  fixes n :: u32
  assumes "j < unat n"
  shows "unat (n - of_nat (Suc j)) = unat n - Suc j" "n = of_nat (Suc j) \<longleftrightarrow> unat n = Suc j"
proof -
  have "unat (of_nat (Suc j) :: u32) = Suc j"
    using assms unat_u32_less [of n] by (simp add: unat_of_nat_u32 del: of_nat_Suc)
  then show "unat (n - of_nat (Suc j)) = unat n - Suc j" "n = of_nat (Suc j) \<longleftrightarrow> unat n = Suc j"
    using assms by (simp_all only: unat_sub word_le_nat_alt Suc_le_eq word_unat_eq_iff)
qed

text \<open>
  C22. \<^verbatim>\<open>strncpy\<close>, with its loop unrolled by four and its jumps, stores exactly \<open>n\<close> bytes:
  the characters of the source up to its terminating zero, or the first \<open>n\<close> when there is
  no zero among them, and zeros for the rest.  Source and destination do not overlap.
\<close>

theorem strncpy_pads:
  assumes "apart s2 (unat n) s (unat n)"
  shows "txc_libc_strncpy s s2 n m =
    (s, store_at m s (string_prefix m s2 (unat n) @ replicate (unat n - length (string_prefix m s2 (unat n))) 0))"
proof -
  let ?q = "unat (drop_bit 2 n) - 1"
  have top: "unat n \<le> 2 ^ 32" using unat_u32_less [of n] by simp
  have "snd (txc_libc_strncpy s s2 n m) = padded m s s2 (unat n)"
  proof (cases "4 \<le> n")
    case False
    then have "unat n div 4 = 0" by (simp add: word_le_nat_alt)
    then show ?thesis using False strncpy_last_chars_padded [OF assms, of m 0]
      by (simp add: txc_libc_strncpy_def nonzero_def copied_def)
  next
    case True
    have le: "4 * Suc ?q \<le> unat n" using unat_quads [OF True] by simp
    obtain j where j: "j < 4 * Suc ?q" "nonzero m s2 j" "m (s2 + of_nat j) = 0 \<or> j = 4 * ?q + 3"
      "copy_chars (4 * ?q + 3) (s - 1) s2 m =
        (copied m s s2 (Suc j), s - 1 + of_nat (Suc j), s2 + of_nat (Suc j), m (s2 + of_nat j))"
      by (rule quads_copied [OF assms top le])
    show ?thesis
    proof (cases "m (s2 + of_nat j) = 0")
      case zero: True
      have "j < unat n" using j(1) le by simp
      note rest = fill_length [OF this] padded_zero [OF j(2) zero this top, of s]
      have "snd (txc_libc_strncpy s s2 n m) =
          (if unat n = Suc j then copied m s s2 (Suc j)
           else zero_fill (unat n - Suc j - 1) (s - 1 + of_nat (Suc j)) (copied m s s2 (Suc j)))"
        using True
        by (simp add: txc_libc_strncpy_def strncpy_quads_chars j(4) zero Let_def rest(1,2) del: of_nat_Suc One_nat_def)
      then show ?thesis
        using rest(3) \<open>j < unat n\<close> zero_fill_padded [OF j(2) zero _ top, of s] by (cases "unat n = Suc j") simp_all
    next
      case False
      then have "nonzero m s2 (Suc j)" using j(2) by (simp add: nonzero_Suc)
      moreover have "Suc j = 4 * (unat n div 4)" using j(3) False unat_quads [OF True] by simp
      ultimately show ?thesis using strncpy_last_chars_padded [OF assms, of m "Suc j"] False
        by (simp add: txc_libc_strncpy_def True strncpy_quads_chars j(4) del: of_nat_Suc One_nat_def)
    qed
  qed
  then show ?thesis by (simp add: txc_libc_strncpy_def padded_def)
qed


definition sample_memory :: memory where
  "sample_memory a = (if a = 100 then 104 else if a = 101 then 105 else if a = 300 then 111 else 0)"

lemma apart_code: "apart a n b k \<longleftrightarrow> list_all (\<lambda>i. list_all (\<lambda>j. a + of_nat i \<noteq> b + of_nat j) [0..<k]) [0..<n]"
  by (auto simp: apart_def list_all_iff)

theorem strncpy_pads_witness:
  "apart 100 (unat (5 :: u32)) 200 (unat (5 :: u32)) \<and>
   txc_libc_strncpy 200 100 5 sample_memory = (200, store_at sample_memory 200 [104, 105, 0, 0, 0])"
proof -
  have "apart 100 (unat (5 :: u32)) 200 (unat (5 :: u32))" by (simp add: apart_code upt_rec)
  moreover have "string_prefix sample_memory 100 (unat (5 :: u32)) = [104, 105]"
    by (simp add: string_prefix_def bytes_at_def upt_rec sample_memory_def)
  ultimately show ?thesis using strncpy_pads [of 100 5 200 sample_memory] by (simp add: numeral_3_eq_3)
qed

text \<open>The two loops of \<^verbatim>\<open>strncat\<close> are one.\<close>

lemma strncat_body:
  fixes n :: u32
  assumes "n \<noteq> 0"
  shows "(if n \<ge> 4 then
            (case strncat_quads (unat (drop_bit 2 n) - 1) s1 s2 m of
               Inl m \<Rightarrow> m
             | Inr (m, s1, s2, c) \<Rightarrow> strncat_last (unat (n AND 3)) s1 s2 c m)
          else strncat_last (unat n) s1 s2 0 m) =
    (case copy_chars (unat n - 1) s1 s2 m of (m, s1, s2, c) \<Rightarrow> if c = 0 then m else m(s1 + 1 := 0))"
proof (cases "4 \<le> n")
  case True
  let ?q = "unat (drop_bit 2 n) - 1"
  have "4 * ?q + 4 = 4 * (unat n div 4)" using unat_quads [OF True] by simp
  then have q: "4 * ?q + 4 + unat n mod 4 = unat n" using mult_div_mod_eq [of 4 "unat n"] by (simp only:)
  show ?thesis
  proof (cases "unat n mod 4")
    case 0
    then have "4 * ?q + 3 = unat n - 1" using q by simp
    with True 0 show ?thesis
      by (simp add: strncat_quads_chars unat_and_3 del: One_nat_def fun_upd_apply split: prod.split)
  next
    case (Suc r)
    then have "4 * ?q + 3 + Suc r = unat n - 1" using q by simp
    then have "copy_chars (unat n - 1) s1 s2 m = (case copy_chars (4 * ?q + 3) s1 s2 m of
        (m, s1, s2, c) \<Rightarrow> if c = 0 then (m, s1, s2, c) else copy_chars r s1 s2 m)"
      by (metis copy_chars_add)
    with True Suc show ?thesis
      by (simp add: strncat_quads_chars unat_and_3 strncat_last_chars del: One_nat_def fun_upd_apply strncat_last.simps split: prod.split)
  qed
next
  case False
  moreover obtain k where "unat n = Suc k" using assms by (metis not0_implies_Suc unat_eq_0)
  ultimately show ?thesis by (simp add: strncat_last_chars del: strncat_last.simps fun_upd_apply)
qed

text \<open>
  \<^verbatim>\<open>strncat\<close> on a string \<open>bs\<close> at \<open>s\<close> appends the characters of \<open>s2\<close> up to its zero, at most
  \<open>n\<close> of them, over the terminating zero of \<open>bs\<close>, and always terminates the result,
  whichever of the two loops the copy ends in.
\<close>

theorem strncat_appends:
  assumes "cstring m s bs" "d = s + of_nat (length bs)" "apart s2 (unat n) d (Suc (unat n))"
  shows "txc_libc_strncat s s2 n m = Some (s, store_at m d (string_prefix m s2 (unat n) @ [0]))"
proof (cases "n = 0")
  case True
  have "m d = 0" using assms(1,2) by (simp add: cstring_def)
  with True show ?thesis using skip_string_cstring [OF assms(1)]
    by (simp add: txc_libc_strncat_def string_prefix_def fun_upd_idem del: fun_upd_apply)
next
  case False
  obtain k where k: "unat n = Suc k" using False by (metis not0_implies_Suc unat_eq_0)
  have bound: "unat n \<le> 2 ^ 32" "unat n < 2 ^ 32" using unat_u32_less [of n] by simp_all
  have apart: "apart s2 (unat n) d (unat n)" by (rule apart_mono [OF assms(3)]) simp_all
  have "nonzero m s2 0" "0 + k < unat n" "copied m d s2 0 = m" using k by (simp_all add: nonzero_def copied_def)
  from copy_chars_copied [OF apart bound(1) this(1,2)] this(3) obtain j where
      j: "j \<le> k" "nonzero m s2 j" "m (s2 + of_nat j) = 0 \<or> j = k"
      "copy_chars k (d - 1) s2 m = (copied m d s2 (Suc j), d - 1 + of_nat (Suc j), s2 + of_nat (Suc j), m (s2 + of_nat j))"
    by (auto simp del: of_nat_Suc)
  have "txc_libc_strncat s s2 n m =
      Some (s, case copy_chars (unat n - 1) (s + of_nat (length bs) + 1 - 2) s2 m of
        (m, s1, s2, c) \<Rightarrow> if c = 0 then m else m(s1 + 1 := 0))"
    unfolding txc_libc_strncat_def skip_string_cstring [OF assms(1)] Let_def option.map strncat_body [OF False] ..
  moreover have "s + of_nat (length bs) + 1 - 2 = d - 1" "unat n - 1 = k" using assms(2) k by simp_all
  ultimately have run: "txc_libc_strncat s s2 n m =
      Some (s, if m (s2 + of_nat j) = 0 then copied m d s2 (Suc j)
               else (copied m d s2 (Suc j))(d + of_nat (Suc j) := 0))"
    by (simp only: j(4) prod.case) (simp add: algebra_simps del: fun_upd_apply)
  show ?thesis
  proof (cases "m (s2 + of_nat j) = 0")
    case True
    moreover have "j < unat n" using j(1) k by simp
    ultimately show ?thesis using run string_prefix_zero [OF j(2)] by (simp add: copied_def bytes_at_snoc)
  next
    case False
    then have "nonzero m s2 (unat n)" "Suc j = unat n" using j k by (simp_all add: nonzero_Suc)
    then show ?thesis using False run store_at_snoc [of "bytes_at m s2 (unat n)" m d 0] bound(2)
      by (simp add: copied_def string_prefix_full del: fun_upd_apply of_nat_Suc)
  qed
qed


theorem strncat_appends_witness:
  "cstring sample_memory 300 [111] \<and> apart 100 (unat (5 :: u32)) 301 (Suc (unat (5 :: u32))) \<and>
   txc_libc_strncat 300 100 5 sample_memory = Some (300, store_at sample_memory 301 [104, 105, 0])"
proof -
  have "cstring sample_memory 300 [111]" by (simp add: cstring_def bytes_at_def sample_memory_def)
  moreover have "apart 100 (unat (5 :: u32)) 301 (Suc (unat (5 :: u32)))" by (simp add: apart_code upt_rec)
  moreover have "string_prefix sample_memory 100 (unat (5 :: u32)) = [104, 105]"
    by (simp add: string_prefix_def bytes_at_def upt_rec sample_memory_def)
  ultimately show ?thesis using strncat_appends [of sample_memory 300 "[111]" 301 100 5] by simp
qed

section \<open>strcpy and strcat\<close>

text \<open>\<^verbatim>\<open>strcpy\<close> and \<^verbatim>\<open>strcat\<close> write a whole string and its zero.\<close>

lemma nonzero_cstring: "cstring m a bs \<Longrightarrow> nonzero m a (length bs)"
  unfolding cstring_def nonzero_def by (metis nth_bytes_at nth_mem)

lemma copied_cstring: "cstring m s2 bs \<Longrightarrow> copied m s s2 (Suc (length bs)) = store_at m s (bs @ [0])"
  by (simp add: copied_def bytes_at_snoc cstring_def)

lemma strcat_loop_copied:
  assumes "cstring m s2 bs" "apart s2 (Suc (length bs)) s (Suc (length bs))" "i \<le> length bs"
  shows "strcat_loop (s - 1 + of_nat i) (s2 + of_nat i) (copied m s s2 i) = Some (copied m s s2 (Suc (length bs)))"
  using assms(3)
proof (induction "length bs - i" arbitrary: i)
  case 0
  then have "i = length bs" by simp
  with 0 show ?case
    using copy_char_copied [OF assms(2), of i m] assms(1) by (subst strcat_loop.simps) (simp add: cstring_def)
next
  case (Suc k)
  then have i: "i < length bs" by simp
  then have "m (s2 + of_nat i) \<noteq> 0" using nonzero_cstring [OF assms(1)] by (simp add: nonzero_def)
  then show ?case
    using Suc i copy_char_copied [OF assms(2), of i m] assms(1)
    by (subst strcat_loop.simps) (simp add: cstring_def del: of_nat_Suc)
qed

lemma strcat_appends:
  assumes "cstring m s as" "cstring m s2 bs" "d = s + of_nat (length as)"
    "apart s2 (Suc (length bs)) d (Suc (length bs))"
  shows "txc_libc_strcat s s2 m = Some (s, store_at m d (bs @ [0]))"
proof -
  have "s + of_nat (length as) + 1 - 2 = d - 1 + of_nat 0" "s2 = s2 + of_nat 0" "m = copied m d s2 0"
    using assms(3) by (simp_all add: copied_def)
  then have "strcat_loop (s + of_nat (length as) + 1 - 2) s2 m = Some (store_at m d (bs @ [0]))"
    using strcat_loop_copied [OF assms(2,4), of 0] copied_cstring [OF assms(2)] by simp
  then show ?thesis by (simp add: txc_libc_strcat_def skip_string_cstring [OF assms(1)])
qed

lemma strcpy_loop_strcat:
  assumes "strcat_loop q p m = Some r"
  shows "strcpy_loop (q + 1) p m = Some r"
proof -
  have "(\<lambda>((q, p), m) r. strcpy_loop (q + 1) p m = Some r) ((q, p), m) r"
    by (rule strcat_loop.raw_induct [OF _ assms])
      (subst strcpy_loop.simps, fastforce simp: copy_char_def split: if_splits)
  then show ?thesis by simp
qed

lemma strcpy_copies:
  assumes "cstring m s2 bs" "apart s2 (Suc (length bs)) s (Suc (length bs))"
  shows "txc_libc_strcpy s s2 m = Some (s, store_at m s (bs @ [0]))"
  using strcpy_loop_strcat [of "s - 1" s2 m] strcat_loop_copied [OF assms, of 0] copied_cstring [OF assms(1), of s]
  by (simp add: txc_libc_strcpy_def copied_def)

section \<open>Comparison\<close>

text \<open>The comparison of two arrays, and what \<^verbatim>\<open>strncmp\<close> computes from it.\<close>

fun compare_bytes :: "byte list \<Rightarrow> byte list \<Rightarrow> int" where
  "compare_bytes (x # xs) (y # ys) = (if x = 0 \<or> x \<noteq> y then uint x - uint y else compare_bytes xs ys)"
| "compare_bytes _ _ = 0"

lemma strncmp_last_compare:
  "c1 = c2 \<Longrightarrow> strncmp_last n s1 s2 c1 c2 m = compare_bytes (bytes_at m s1 n) (bytes_at m s2 n)"
  by (induction n arbitrary: s1 s2 c1 c2) (simp_all add: bytes_at_Suc)

lemma compare_chars_compare:
  "case compare_chars k s1 s2 m of
     Inl r \<Rightarrow> compare_bytes (bytes_at m s1 (Suc k) @ xs) (bytes_at m s2 (Suc k) @ ys) = r
   | Inr (s1', s2', c1, c2) \<Rightarrow> s1' = s1 + of_nat (Suc k) \<and> s2' = s2 + of_nat (Suc k) \<and> c1 = c2 \<and>
       compare_bytes (bytes_at m s1 (Suc k) @ xs) (bytes_at m s2 (Suc k) @ ys) = compare_bytes xs ys"
proof (induction k arbitrary: s1 s2)
  case (Suc k)
  from Suc [of "s1 + 1" "s2 + 1"] show ?case
    by (auto simp: bytes_at_Suc [of _ _ "Suc k"] add.assoc split: sum.splits)
qed (simp add: bytes_at_Suc)

lemma compare_chars_add:
  "compare_chars (a + Suc b) s1 s2 m =
     (case compare_chars a s1 s2 m of Inl r \<Rightarrow> Inl r | Inr (s1, s2, _, _) \<Rightarrow> compare_chars b s1 s2 m)"
  by (induction a arbitrary: s1 s2) (simp_all split: sum.split)

lemma strncmp_quads_chars: "strncmp_quads k s1 s2 m = compare_chars (4 * k + 3) s1 s2 m"
proof (induction k arbitrary: s1 s2)
  case (Suc k)
  have "4 * Suc k + 3 = 3 + Suc (4 * k + 3)" by simp
  then show ?case by (simp only: compare_chars_add strncmp_quads.simps Suc)
qed simp

text \<open>
  \<^verbatim>\<open>strncmp\<close>, unrolled by four, is the comparison of the first \<open>n\<close> bytes of its
  arguments as unsigned characters that stops at the first difference or at a zero.
\<close>

theorem strncmp_compares: "txc_libc_strncmp s1 s2 n m = compare_bytes (bytes_at m s1 (unat n)) (bytes_at m s2 (unat n))"
proof (cases "4 \<le> n")
  case True
  let ?k = "4 * (unat (drop_bit 2 n) - 1) + 3"
  let ?r = "unat n mod 4"
  have k: "Suc ?k = 4 * (unat n div 4)" using unat_quads [OF True] by simp
  then have n: "unat n = Suc ?k + ?r" using mult_div_mod_eq [of 4 "unat n"] by (simp only:)
  show ?thesis
    using compare_chars_compare [where k = ?k and ?s1.0 = s1 and ?s2.0 = s2 and m = m
        and xs = "bytes_at m (s1 + of_nat (Suc ?k)) ?r" and ys = "bytes_at m (s2 + of_nat (Suc ?k)) ?r"]
    unfolding txc_libc_strncmp_def strncmp_quads_chars unat_and_3 bytes_at_add [symmetric] n [symmetric]
    by (auto simp: True strncmp_last_compare simp del: of_nat_Suc split: sum.splits)
qed (simp add: txc_libc_strncmp_def strncmp_last_compare)


text \<open>\<^verbatim>\<open>strcmp\<close> decides equality of strings, but orders them by signed characters.\<close>

lemma sint_byte_eq: "sint (x :: byte) = sint y \<longleftrightarrow> x = y"
  by (rule signed_word_eqI [THEN iffI]) auto

lemma sint_byte_0: "sint (x :: byte) = 0 \<longleftrightarrow> x = 0"
  using sint_byte_eq [of x 0] by simp

lemma strcmp_decides_equality:
  "cstring m a xs \<Longrightarrow> cstring m b ys \<Longrightarrow> \<exists>d. txc_libc_strcmp a b m = Some d \<and> (d = 0 \<longleftrightarrow> xs = ys)"
proof (induction xs arbitrary: a b ys)
  case Nil
  then show ?case by (cases ys) (subst txc_libc_strcmp.simps, auto simp: cstring_Cons Let_def sint_byte_eq sint_byte_0)+
next
  case (Cons x xs)
  show ?case
  proof (cases ys)
    case Nil
    then show ?thesis using Cons.prems by (subst txc_libc_strcmp.simps) (auto simp: cstring_Cons Let_def sint_byte_eq sint_byte_0)
  next
    case (Cons y ys')
    then show ?thesis using Cons.IH [of "a + 1" "b + 1" ys'] Cons.prems
      by (subst txc_libc_strcmp.simps) (auto simp: cstring_Cons Let_def sint_byte_eq sint_byte_0)
  qed
qed

lemma strcmp_orders_signed:
  "m a = 128 \<Longrightarrow> m b = 1 \<Longrightarrow> txc_libc_strcmp a b m = Some (- 129) \<and> txc_libc_strncmp a b 1 m = 127"
  by (subst txc_libc_strcmp.simps) (simp add: txc_libc_strncmp_def word_le_nat_alt)

end
