(* ===== verification/Wordcopy.thy ===== *)
theory Wordcopy
  imports Cstring
begin

text \<open>
  The word copying functions of \<^verbatim>\<open>src/src/libc/wordcopy.c\<close>.  Each one enters the body of an
  unrolled loop in the middle, with pointers that are moved back accordingly, keeps the
  words that are on their way in registers, and stores the last word behind the loop.
  The theorems show that they copy exactly the words asked for, for either direction and
  for sources that are not aligned, where every stored word is put together from two.
\<close>

section \<open>The loops\<close>

definition OPSIZ :: u32 where
  "OPSIZ = 4"

definition OP_T_THRES :: u32 where
  "OP_T_THRES = 16"

definition MERGE :: "u32 \<Rightarrow> nat \<Rightarrow> u32 \<Rightarrow> nat \<Rightarrow> u32" where
  "MERGE w0 sh_1 w1 sh_2 = drop_bit sh_1 w0 OR push_bit sh_2 w1"

text \<open>Registers \<^verbatim>\<open>a0\<close> to \<^verbatim>\<open>a3\<close>, and \<^verbatim>\<open>((op_t *) p)[i]\<close>.\<close>

type_synonym registers = "nat \<Rightarrow> u32"

definition op :: "addr \<Rightarrow> nat \<Rightarrow> addr" where
  "op p i = p + OPSIZ * of_nat i"

text \<open>
  A loop body is a sequence of \<open>p\<close> statement pairs, \<open>step j\<close> for the \<open>j\<close>-th; the first
  iteration starts at \<open>j\<close>.  The pointers advance by \<open>stride\<close>, and the length is an
  unsigned integer that is compared with zero.
\<close>

type_synonym word_step = "nat \<Rightarrow> addr \<Rightarrow> addr \<Rightarrow> registers \<times> memory \<Rightarrow> registers \<times> memory"

partial_function (option) word_loop ::
  "nat \<Rightarrow> word_step \<Rightarrow> u32 \<Rightarrow> nat \<Rightarrow> addr \<Rightarrow> addr \<Rightarrow> u32 \<Rightarrow> registers \<times> memory \<Rightarrow>
    (addr \<times> registers \<times> memory) option" where
  "word_loop p step stride j srcp dstp len am =
     (let am = fold (\<lambda>j. step j srcp dstp) [j..<p] am; len = len - of_nat p in
      if len \<noteq> 0 then word_loop p step stride 0 (srcp + stride) (dstp + stride) len am
      else Some (dstp + stride, am))"

section \<open>Forward, aligned\<close>

text \<open>The pair \<^verbatim>\<open>do8\<close> is step 0, \<^verbatim>\<open>do1\<close> is step 7: even ones load \<^verbatim>\<open>a0\<close> and store \<^verbatim>\<open>a1\<close>.\<close>

fun fwd_aligned_step :: word_step where
  "fwd_aligned_step j srcp dstp (a, m) =
     (if even j then (a(0 := load32 m (op srcp j)), store32 m (op dstp j) (a 1))
      else (a(1 := load32 m (op srcp j)), store32 m (op dstp j) (a 0)))"

text \<open>
  The switch: the register that is loaded, what is subtracted from the pointers (in words)
  and added to the length, and the step at which the loop is entered.
\<close>

fun fwd_aligned_entry :: "nat \<Rightarrow> nat \<times> u32 \<times> u32 \<times> u32 \<times> nat" where
  "fwd_aligned_entry r =
     (if r = 2 then (0, 6, 7, 6, 7)
      else if r = 3 then (1, 5, 6, 5, 6)
      else if r = 4 then (0, 4, 5, 4, 5)
      else if r = 5 then (1, 3, 4, 3, 4)
      else if r = 6 then (0, 2, 3, 2, 3)
      else if r = 7 then (1, 1, 2, 1, 2)
      else if r = 0 then (0, 0, 1, 0, 1)
      else (1, - 1, 0, - 1, 0))"

definition txc_libc_wordcopy_fwd_aligned :: "registers \<Rightarrow> addr \<Rightarrow> addr \<Rightarrow> u32 \<Rightarrow> memory \<Rightarrow> memory option" where
  "txc_libc_wordcopy_fwd_aligned a dstp srcp len m =
     (case fwd_aligned_entry (unat len mod 8) of (r, ds, dd, dl, j) \<Rightarrow>
        if OP_T_THRES \<le> 3 * OPSIZ \<and> len = 0 then Some m
        else
          let a = a(r := load32 m (op srcp 0)); srcp = srcp - ds * OPSIZ; dstp = dstp - dd * OPSIZ; len' = len + dl in
          if OP_T_THRES \<le> 3 * OPSIZ \<and> unat len mod 8 = 1 \<and> len' = 0 then Some (store32 m (op dstp 0) (a 1))
          else map_option (\<lambda>(dstp, a, m). store32 m (op dstp 0) (a 1))
                 (word_loop 8 fwd_aligned_step (8 * OPSIZ) j srcp dstp len' (a, m)))"

section \<open>Forward, unaligned source\<close>

fun fwd_dest_step :: "nat \<Rightarrow> nat \<Rightarrow> word_step" where
  "fwd_dest_step sh_1 sh_2 j srcp dstp (a, m) =
     (a(j := load32 m (op srcp j)),
      store32 m (op dstp j)
        (if j = 0 then MERGE (a 2) sh_1 (a 3) sh_2
         else if j = 1 then MERGE (a 3) sh_1 (a 0) sh_2
         else if j = 2 then MERGE (a 0) sh_1 (a 1) sh_2
         else MERGE (a 1) sh_1 (a 2) sh_2))"

text \<open>The switch: two registers are loaded.\<close>

fun fwd_dest_entry :: "nat \<Rightarrow> nat \<times> nat \<times> u32 \<times> u32 \<times> u32 \<times> nat" where
  "fwd_dest_entry r =
     (if r = 2 then (1, 2, 1, 3, 2, 3)
      else if r = 3 then (0, 1, 0, 2, 1, 2)
      else if r = 0 then (3, 0, - 1, 1, 0, 1)
      else (2, 3, - 2, 0, - 1, 0))"

definition txc_libc_wordcopy_fwd_dest_aligned :: "registers \<Rightarrow> addr \<Rightarrow> addr \<Rightarrow> u32 \<Rightarrow> memory \<Rightarrow> memory option" where
  "txc_libc_wordcopy_fwd_dest_aligned a dstp srcp len m =
     (let sh_1 = 8 * (unat srcp mod 4); sh_2 = 32 - sh_1; srcp = srcp AND - OPSIZ in
      case fwd_dest_entry (unat len mod 4) of (r, r', ds, dd, dl, j) \<Rightarrow>
        if OP_T_THRES \<le> 3 * OPSIZ \<and> len = 0 then Some m
        else
          let a = a(r := load32 m (op srcp 0), r' := load32 m (op srcp 1));
              srcp = srcp - ds * OPSIZ; dstp = dstp - dd * OPSIZ; len' = len + dl in
          if OP_T_THRES \<le> 3 * OPSIZ \<and> unat len mod 4 = 1 \<and> len' = 0
          then Some (store32 m (op dstp 0) (MERGE (a 2) sh_1 (a 3) sh_2))
          else map_option (\<lambda>(dstp, a, m). store32 m (op dstp 0) (MERGE (a 2) sh_1 (a 3) sh_2))
                 (word_loop 4 (fwd_dest_step sh_1 sh_2) (4 * OPSIZ) j srcp dstp len' (a, m)))"


section \<open>Backward\<close>

text \<open>
  The pointers point behind the blocks.  The pair \<^verbatim>\<open>do8\<close> is again step 0; the words it
  works on are counted from the end of a block of eight (or four).
\<close>

fun bwd_aligned_step :: word_step where
  "bwd_aligned_step j srcp dstp (a, m) =
     (if even j then (a(0 := load32 m (op srcp (7 - j))), store32 m (op dstp (7 - j)) (a 1))
      else (a(1 := load32 m (op srcp (7 - j))), store32 m (op dstp (7 - j)) (a 0)))"

text \<open>The switch: the pointers move first, then the word at the given index is loaded.\<close>

fun bwd_aligned_entry :: "nat \<Rightarrow> u32 \<times> u32 \<times> nat \<times> nat \<times> u32 \<times> nat" where
  "bwd_aligned_entry r =
     (if r = 2 then (2, 1, 0, 1, 6, 7)
      else if r = 3 then (3, 2, 1, 2, 5, 6)
      else if r = 4 then (4, 3, 0, 3, 4, 5)
      else if r = 5 then (5, 4, 1, 4, 3, 4)
      else if r = 6 then (6, 5, 0, 5, 2, 3)
      else if r = 7 then (7, 6, 1, 6, 1, 2)
      else if r = 0 then (8, 7, 0, 7, 0, 1)
      else (9, 8, 1, 8, - 1, 0))"

definition txc_libc_wordcopy_bwd_aligned :: "registers \<Rightarrow> addr \<Rightarrow> addr \<Rightarrow> u32 \<Rightarrow> memory \<Rightarrow> memory option" where
  "txc_libc_wordcopy_bwd_aligned a dstp srcp len m =
     (case bwd_aligned_entry (unat len mod 8) of (ds, dd, r, i, dl, j) \<Rightarrow>
        if OP_T_THRES \<le> 3 * OPSIZ \<and> len = 0 then Some m
        else
          let srcp = srcp - ds * OPSIZ; dstp = dstp - dd * OPSIZ; a = a(r := load32 m (op srcp i)); len' = len + dl in
          if OP_T_THRES \<le> 3 * OPSIZ \<and> unat len mod 8 = 1 \<and> len' = 0 then Some (store32 m (op dstp 7) (a 1))
          else map_option (\<lambda>(dstp, a, m). store32 m (op dstp 7) (a 1))
                 (word_loop 8 bwd_aligned_step (- (8 * OPSIZ)) j srcp dstp len' (a, m)))"

fun bwd_dest_step :: "nat \<Rightarrow> nat \<Rightarrow> word_step" where
  "bwd_dest_step sh_1 sh_2 j srcp dstp (a, m) =
     (a(3 - j := load32 m (op srcp (3 - j))),
      store32 m (op dstp (3 - j))
        (if j = 0 then MERGE (a 0) sh_1 (a 1) sh_2
         else if j = 1 then MERGE (a 3) sh_1 (a 0) sh_2
         else if j = 2 then MERGE (a 2) sh_1 (a 3) sh_2
         else MERGE (a 1) sh_1 (a 2) sh_2))"

text \<open>The switch: the word at index \<open>i\<close> goes to one register, the word before it to the other.\<close>

fun bwd_dest_entry :: "nat \<Rightarrow> u32 \<times> u32 \<times> nat \<times> nat \<times> nat \<times> u32 \<times> nat" where
  "bwd_dest_entry r =
     (if r = 2 then (3, 1, 2, 1, 2, 2, 3)
      else if r = 3 then (4, 2, 3, 2, 3, 1, 2)
      else if r = 0 then (5, 3, 0, 3, 4, 0, 1)
      else (6, 4, 1, 0, 5, - 1, 0))"

definition txc_libc_wordcopy_bwd_dest_aligned :: "registers \<Rightarrow> addr \<Rightarrow> addr \<Rightarrow> u32 \<Rightarrow> memory \<Rightarrow> memory option" where
  "txc_libc_wordcopy_bwd_dest_aligned a dstp srcp len m =
     (let sh_1 = 8 * (unat srcp mod 4); sh_2 = 32 - sh_1; srcp = (srcp AND - OPSIZ) + OPSIZ in
      case bwd_dest_entry (unat len mod 4) of (ds, dd, r, r', i, dl, j) \<Rightarrow>
        if OP_T_THRES \<le> 3 * OPSIZ \<and> len = 0 then Some m
        else
          let srcp = srcp - ds * OPSIZ; dstp = dstp - dd * OPSIZ;
              a = a(r := load32 m (op srcp i), r' := load32 m (op srcp (i - 1))); len' = len + dl in
          if OP_T_THRES \<le> 3 * OPSIZ \<and> unat len mod 4 = 1 \<and> len' = 0
          then Some (store32 m (op dstp 3) (MERGE (a 0) sh_1 (a 1) sh_2))
          else map_option (\<lambda>(dstp, a, m). store32 m (op dstp 3) (MERGE (a 0) sh_1 (a 1) sh_2))
                 (word_loop 4 (bwd_dest_step sh_1 sh_2) (- (4 * OPSIZ)) j srcp dstp len' (a, m)))"

section \<open>Copying bytes\<close>

text \<open>
  The macros of \<^verbatim>\<open>memcopy.h\<close>.  They move the pointers, and the word copies store the number
  of remaining bytes.
\<close>

primrec BYTE_COPY_FWD :: "nat \<Rightarrow> addr \<Rightarrow> addr \<Rightarrow> memory \<Rightarrow> addr \<times> addr \<times> memory" where
  "BYTE_COPY_FWD 0 dst_bp src_bp m = (dst_bp, src_bp, m)"
| "BYTE_COPY_FWD (Suc n) dst_bp src_bp m = BYTE_COPY_FWD n (dst_bp + 1) (src_bp + 1) (m(dst_bp := m src_bp))"

primrec BYTE_COPY_BWD :: "nat \<Rightarrow> addr \<Rightarrow> addr \<Rightarrow> memory \<Rightarrow> addr \<times> addr \<times> memory" where
  "BYTE_COPY_BWD 0 dst_ep src_ep m = (dst_ep, src_ep, m)"
| "BYTE_COPY_BWD (Suc n) dst_ep src_ep m =
     BYTE_COPY_BWD n (dst_ep - 1) (src_ep - 1) (m(dst_ep - 1 := m (src_ep - 1)))"

definition WORD_COPY_FWD :: "registers \<Rightarrow> addr \<Rightarrow> addr \<Rightarrow> u32 \<Rightarrow> memory \<Rightarrow> (addr \<times> addr \<times> nat \<times> memory) option" where
  "WORD_COPY_FWD a dst_bp src_bp nbytes m =
     map_option (\<lambda>m. (dst_bp + (nbytes AND - OPSIZ), src_bp + (nbytes AND - OPSIZ), unat nbytes mod 4, m))
       (if unat src_bp mod 4 = 0 then txc_libc_wordcopy_fwd_aligned a dst_bp src_bp (nbytes div OPSIZ) m
        else txc_libc_wordcopy_fwd_dest_aligned a dst_bp src_bp (nbytes div OPSIZ) m)"

definition WORD_COPY_BWD :: "registers \<Rightarrow> addr \<Rightarrow> addr \<Rightarrow> u32 \<Rightarrow> memory \<Rightarrow> (addr \<times> addr \<times> nat \<times> memory) option" where
  "WORD_COPY_BWD a dst_ep src_ep nbytes m =
     map_option (\<lambda>m. (dst_ep - (nbytes AND - OPSIZ), src_ep - (nbytes AND - OPSIZ), unat nbytes mod 4, m))
       (if unat src_ep mod 4 = 0 then txc_libc_wordcopy_bwd_aligned a dst_ep src_ep (nbytes div OPSIZ) m
        else txc_libc_wordcopy_bwd_dest_aligned a dst_ep src_ep (nbytes div OPSIZ) m)"

section \<open>The contract of a loop body\<close>

text \<open>
  \<open>inv k j srcp dstp am\<close>: the next step is \<open>j\<close>, \<open>k\<close> words have been stored and word \<open>k\<close> is in
  the registers.  A step stores one more word of the \<open>n\<close>, and the move of the pointers
  leads back to step 0.
\<close>

locale unrolled_copy =
  fixes p :: nat and step :: word_step and stride :: u32 and n :: nat
    and inv :: "nat \<Rightarrow> nat \<Rightarrow> addr \<Rightarrow> addr \<Rightarrow> registers \<times> memory \<Rightarrow> bool"
  assumes step: "inv k j srcp dstp am \<Longrightarrow> j < p \<Longrightarrow> Suc k < n \<Longrightarrow> inv (Suc k) (Suc j) srcp dstp (step j srcp dstp am)"
    and advance: "inv k p srcp dstp am \<Longrightarrow> inv k 0 (srcp + stride) (dstp + stride) am"
    and period: "0 < p" "p < 2 ^ 32"
begin

lemma steps:
  assumes "inv k j srcp dstp am" "j + i \<le> p" "k + i < n"
  shows "inv (k + i) (j + i) srcp dstp (fold (\<lambda>j. step j srcp dstp) [j..<j + i] am)"
  using assms
proof (induction i)
  case (Suc i)
  then show ?case using step [of "k + i" "j + i" srcp dstp] by simp
qed simp

text \<open>The loop ends, and leaves the last word to be stored.\<close>

lemma loop:
  assumes "inv k j srcp dstp am" "j \<le> p" "unat len = p * Suc q" "k + (p - j) + p * q + 1 = n"
  shows "\<exists>dstp' am' srcp'. word_loop p step stride j srcp dstp len am = Some (dstp', am') \<and> inv (n - 1) 0 srcp' dstp' am'"
  using assms
proof (induction q arbitrary: k j srcp dstp len am)
  case 0
  let ?am = "fold (\<lambda>j. step j srcp dstp) [j..<p] am"
  have "inv (k + (p - j)) p srcp dstp ?am" using steps [OF 0(1), of "p - j"] 0(2,4) by simp
  then have "inv (n - 1) 0 (srcp + stride) (dstp + stride) ?am" using advance 0(4) by (auto simp flip: 0(4))
  moreover have "len = of_nat p" using 0(3) period(2) by (simp add: word_unat_eq_iff unat_of_nat_u32)
  ultimately show ?case by (subst word_loop.simps) (auto simp: Let_def)
next
  case (Suc q)
  let ?am = "fold (\<lambda>j. step j srcp dstp) [j..<p] am"
  have "inv (k + (p - j)) p srcp dstp ?am" using steps [OF Suc.prems(1), of "p - j"] Suc.prems(2,4) by simp
  then have "inv (k + (p - j)) 0 (srcp + stride) (dstp + stride) ?am" by (rule advance)
  moreover have "unat (len - of_nat p) = p * Suc q"
    using Suc.prems(3) period by (simp add: unat_sub word_le_nat_alt unat_of_nat_u32)
  moreover from this have "len - of_nat p \<noteq> 0" using period(1) by (metis mult_is_0 nat.distinct(1) not_less0 unat_0)
  ultimately show ?case using Suc.IH [of "k + (p - j)" 0] Suc.prems(4) by (subst word_loop.simps) (simp add: Let_def)
qed

text \<open>A whole run, from the entry with \<open>r\<close> words before the full blocks.\<close>

lemma run:
  assumes "inv 0 (p + 1 - r) srcp dstp am" "2 \<le> r" "r \<le> p + 1" "n = r + p * q" "unat len = p * Suc q"
  obtains dstp' a' m' srcp' where "word_loop p step stride (p + 1 - r) srcp dstp len am = Some (dstp', a', m')"
    "inv (n - 1) 0 srcp' dstp' (a', m')"
proof -
  have "p + 1 - r \<le> p" "0 + (p - (p + 1 - r)) + p * q + 1 = n" using assms(2-4) by simp_all
  from loop [OF assms(1) this(1) assms(5) this(2)] that show thesis by (metis surj_pair)
qed

end

section \<open>Words in memory\<close>

lemma store_word:
  "store32 m a (load32 m' b) = store_at m a (bytes_at m' b 4)"
  by (simp add: store32_def bytes_of_load32)

lemma store_word_copied:
  assumes "4 * Suc k \<le> 2 ^ 32"
  shows "store32 (copied m d s (4 * k)) (d + 4 * of_nat k) (load32 m (s + 4 * of_nat k)) = copied m d s (4 * Suc k)"
proof -
  have "d + 4 * of_nat k = d + of_nat (length (bytes_at m s (4 * k)))" "bytes_at m s (4 * Suc k) = bytes_at m s (4 * k) @ bytes_at m (s + 4 * of_nat k) 4"
    using bytes_at_add [of m s "4 * k" 4] by (simp_all add: add.commute)
  then show ?thesis
    using store_at_append [of "bytes_at m s (4 * k)" "bytes_at m (s + 4 * of_nat k) 4" m d] assms
    by (simp add: store_word copied_def)
qed

lemma apart_within: "apart s n d k \<Longrightarrow> i + l \<le> n \<Longrightarrow> k' \<le> k \<Longrightarrow> apart (s + of_nat i) l d k'"
  unfolding apart_def by (auto simp: add.assoc simp flip: of_nat_add)

lemma load_word_copied:
  assumes "apart s (4 * n) d (4 * n)" "4 * n \<le> 2 ^ 32" "k \<le> n" "i < n"
  shows "load32 (copied m d s (4 * k)) (s + 4 * of_nat i) = load32 m (s + 4 * of_nat i)"
proof -
  have "apart (s + 4 * of_nat i) 4 d (4 * k)"
    using apart_within [OF assms(1), of "4 * i" 4 "4 * k"] assms(3,4) by simp
  then show ?thesis unfolding copied_def using assms(2,3) by (intro load32_apart) simp_all
qed


section \<open>Forward copies\<close>

definition fwd_aligned_inv ::
  "memory \<Rightarrow> addr \<Rightarrow> addr \<Rightarrow> nat \<Rightarrow> nat \<Rightarrow> nat \<Rightarrow> addr \<Rightarrow> addr \<Rightarrow> registers \<times> memory \<Rightarrow> bool" where
  "fwd_aligned_inv m0 s d n k j srcp dstp am \<longleftrightarrow>
     apart s (4 * n) d (4 * n) \<and> 4 * n \<le> 2 ^ 32 \<and> k < n \<and> snd am = copied m0 d s (4 * k) \<and>
     op srcp j = s + 4 * of_nat (Suc k) \<and> op dstp j = d + 4 * of_nat k \<and>
     fst am (if even j then 1 else 0) = load32 m0 (s + 4 * of_nat k)"

interpretation fwd_aligned: unrolled_copy 8 fwd_aligned_step "8 * OPSIZ" n "fwd_aligned_inv m0 s d n" for m0 s d n
proof
  fix k j srcp dstp and am :: "registers \<times> memory"
  assume I: "fwd_aligned_inv m0 s d n k j srcp dstp am" "Suc k < n"
  obtain a m where am: "am = (a, m)" by fastforce
  have "load32 m (op srcp j) = load32 m0 (s + 4 * of_nat (Suc k))"
    using I load_word_copied [of s n d k "Suc k" m0] by (simp add: fwd_aligned_inv_def am)
  moreover have "store32 m (op dstp j) (load32 m0 (s + 4 * of_nat k)) = copied m0 d s (4 * Suc k)"
    using I store_word_copied [of k m0 d s] by (simp add: fwd_aligned_inv_def am)
  ultimately show "fwd_aligned_inv m0 s d n (Suc k) (Suc j) srcp dstp (fwd_aligned_step j srcp dstp am)"
    using I by (auto simp: fwd_aligned_inv_def am op_def OPSIZ_def algebra_simps)
next
  fix k srcp dstp and am :: "registers \<times> memory"
  assume "fwd_aligned_inv m0 s d n k 8 srcp dstp am"
  then show "fwd_aligned_inv m0 s d n k 0 (srcp + 8 * OPSIZ) (dstp + 8 * OPSIZ) am"
    by (simp add: fwd_aligned_inv_def op_def OPSIZ_def)
qed simp_all


text \<open>
  The entry of a \<open>p\<close>-fold loop: with \<open>r\<close> words before the full blocks, from 2 to \<open>p + 1\<close>, the
  loop starts at step \<open>p + 1 - r\<close> with a length that is a multiple of \<open>p\<close>.
\<close>

lemma entry_words:
  fixes len :: u32
  assumes "2 \<le> unat len" "unat len + p < 2 ^ 32" "0 < p"
  obtains r q where "2 \<le> r" "r \<le> p + 1" "unat len = r + p * q" "unat (len + (of_nat p - of_nat r)) = p * Suc q"
proof -
  let ?r = "2 + (unat len - 2) mod p" and ?q = "(unat len - 2) div p"
  have n: "unat len = ?r + p * ?q" using assms(1) by (simp add: mod_mult_div_eq)
  have "len + (of_nat p - of_nat ?r) = of_nat (p * Suc ?q)"
  proof -
    have "of_nat (unat len) = (of_nat (?r + p * ?q) :: u32)" using n by (rule arg_cong)
    then have "len = of_nat ?r + of_nat p * of_nat ?q" by (simp only: of_nat_add of_nat_mult) simp
    then show ?thesis by (simp add: algebra_simps)
  qed
  moreover have "p * Suc ?q < 2 ^ 32"
  proof -
    have "p * ?q \<le> unat len" using n by linarith
    then show ?thesis using assms(2) by simp
  qed
  moreover have "?r \<le> p + 1" using mod_less_divisor [OF assms(3), of "unat len - 2"] by simp
  ultimately show thesis using that [OF _ _ n] by (simp only: unat_of_nat_u32 le_add1)
qed

lemma no_threshold: "\<not> OP_T_THRES \<le> 3 * OPSIZ"
  by (simp add: OP_T_THRES_def OPSIZ_def word_le_nat_alt)

lemma op_0: "op x 0 = x"
  by (simp add: op_def)

lemma op_Suc: "op x (Suc j) = op x j + 4"
  by (simp add: op_def OPSIZ_def)

lemma fwd_aligned_entry_eq:
  assumes "2 \<le> r" "r \<le> 9"
  shows "fwd_aligned_entry (r mod 8) = (if even r then 0 else 1, 8 - of_nat r, 9 - of_nat r, 8 - of_nat r, 9 - r)"
proof -
  from assms have "r \<in> {2, 3, 4, 5, 6, 7, 8, 9}" by auto
  then show ?thesis by auto
qed

text \<open>
  \<^verbatim>\<open>txc_libc_wordcopy_fwd_aligned\<close> copies the \<open>len\<close> words at \<open>srcp\<close> to \<open>dstp\<close>, for any
  number of words from two on and whichever way the loop is entered.
\<close>

lemma wordcopy_fwd_aligned_copies:
  assumes "2 \<le> unat len" "4 * unat len \<le> 2 ^ 32" "apart srcp (4 * unat len) dstp (4 * unat len)"
  shows "txc_libc_wordcopy_fwd_aligned a dstp srcp len m = Some (store_at m dstp (bytes_at m srcp (4 * unat len)))"
proof -
  let ?n = "unat len"
  have "?n + 8 < 2 ^ 32" using assms(2) by simp
  from entry_words [OF assms(1) this] obtain r q where
    r: "2 \<le> r" "r \<le> 8 + 1" "?n = r + 8 * q" "unat (len + (8 - of_nat r)) = 8 * Suc q" by auto
  have "?n mod 8 = r mod 8" using r(3) by simp
  then have entry: "fwd_aligned_entry (?n mod 8) = (if even r then 0 else 1, 8 - of_nat r, 9 - of_nat r, 8 - of_nat r, 9 - r)"
    using fwd_aligned_entry_eq [of r] r(1,2) by simp
  let ?s = "srcp - (8 - of_nat r) * OPSIZ" and ?d = "dstp - (9 - of_nat r) * OPSIZ"
  let ?a = "a(if even r then 0 else 1 := load32 m srcp)"
  have "fwd_aligned_inv m srcp dstp ?n 0 (8 + 1 - r) ?s ?d (?a, m)"
    using r assms by (simp add: fwd_aligned_inv_def copied_def op_def OPSIZ_def of_nat_diff)
  from fwd_aligned.run [OF this r] obtain d' a' m' s' where
    loop: "word_loop 8 fwd_aligned_step (8 * OPSIZ) (8 + 1 - r) ?s ?d (len + (8 - of_nat r)) (?a, m) = Some (d', a', m')"
    and I: "fwd_aligned_inv m srcp dstp ?n (?n - 1) 0 s' d' (a', m')" .
  have "store32 m' (op d' 0) (a' 1) = copied m dstp srcp (4 * Suc (?n - 1))"
    using I store_word_copied [of "?n - 1" m dstp srcp] assms(1,2) by (simp add: fwd_aligned_inv_def del: mult_Suc_right)
  then have "store32 m' (op d' 0) (a' 1) = copied m dstp srcp (4 * ?n)" using assms(1) by simp
  then show ?thesis using loop
    by (simp add: txc_libc_wordcopy_fwd_aligned_def entry no_threshold op_0 copied_def Let_def del: fwd_aligned_entry.simps fun_upd_apply)
qed


section \<open>Backward copies\<close>

lemma store_at_before: "store_at (store_at m (b + of_nat (length xs)) ys) b xs = store_at m b (xs @ ys)"
proof (induction xs arbitrary: b)
  case (Cons x xs)
  then show ?case using Cons [of "b + 1"] by (simp add: add.assoc del: fun_upd_apply)
qed simp

lemma apart_inside: "apart s n d k \<Longrightarrow> i + l \<le> n \<Longrightarrow> j + l' \<le> k \<Longrightarrow> apart (s + of_nat i) l (d + of_nat j) l'"
  unfolding apart_def by (auto simp: add.assoc simp flip: of_nat_add)

text \<open>The last \<open>k\<close> words below \<open>s\<close> have been copied to the words below \<open>d\<close>.\<close>

definition copied_back :: "memory \<Rightarrow> addr \<Rightarrow> addr \<Rightarrow> nat \<Rightarrow> memory" where
  "copied_back m d s k = store_at m (d - 4 * of_nat k) (bytes_at m (s - 4 * of_nat k) (4 * k))"

lemma store_word_back:
  "store32 (copied_back m d s k) (d - 4 * of_nat (Suc k)) (load32 m (s - 4 * of_nat (Suc k))) = copied_back m d s (Suc k)"
proof -
  let ?b = "d - 4 * of_nat (Suc k)" and ?s = "s - 4 * of_nat (Suc k)"
  have "bytes_at m ?s (4 * Suc k) = bytes_at m ?s 4 @ bytes_at m (?s + of_nat 4) (4 * k)"
    using bytes_at_add [of m ?s 4 "4 * k"] by simp
  moreover have "d - 4 * of_nat k = ?b + of_nat (length (bytes_at m ?s 4))" "s - 4 * of_nat k = ?s + of_nat 4" by simp_all
  ultimately show ?thesis unfolding copied_back_def store_word by (simp only: store_at_before)
qed

lemma load_word_back:
  assumes "apart (s - 4 * of_nat n') (4 * n') (d - 4 * of_nat n) (4 * n)" "4 * n \<le> 2 ^ 32" "k \<le> n" "i < n'"
  shows "load32 (copied_back m d s' k) (s - 4 * of_nat (Suc i)) = load32 m (s - 4 * of_nat (Suc i))"
proof -
  have "s - 4 * of_nat n' + of_nat (4 * (n' - Suc i)) = s - 4 * of_nat (Suc i)"
    "d - 4 * of_nat n + of_nat (4 * (n - k)) = d - 4 * of_nat k"
    using assms(3,4) by (simp_all add: of_nat_diff algebra_simps Suc_leI)
  moreover have "apart (s - 4 * of_nat n' + of_nat (4 * (n' - Suc i))) 4 (d - 4 * of_nat n + of_nat (4 * (n - k))) (4 * k)"
    by (rule apart_inside [OF assms(1)]) (use assms(3,4) in simp_all)
  ultimately have "apart (s - 4 * of_nat (Suc i)) 4 (d - 4 * of_nat k) (4 * k)" by metis
  then show ?thesis unfolding copied_back_def using assms(2,3) by (intro load32_apart) simp_all
qed

definition bwd_aligned_inv ::
  "memory \<Rightarrow> addr \<Rightarrow> addr \<Rightarrow> nat \<Rightarrow> nat \<Rightarrow> nat \<Rightarrow> addr \<Rightarrow> addr \<Rightarrow> registers \<times> memory \<Rightarrow> bool" where
  "bwd_aligned_inv m0 s d n k j srcp dstp am \<longleftrightarrow>
     apart (s - 4 * of_nat n) (4 * n) (d - 4 * of_nat n) (4 * n) \<and> 4 * n \<le> 2 ^ 32 \<and> k < n \<and> snd am = copied_back m0 d s k \<and>
     op srcp 7 - 4 * of_nat j = s - 4 * of_nat (k + 2) \<and> op dstp 7 - 4 * of_nat j = d - 4 * of_nat (Suc k) \<and>
     fst am (if even j then 1 else 0) = load32 m0 (s - 4 * of_nat (Suc k))"

lemma op_back: "j \<le> i \<Longrightarrow> op x (i - j) = op x i - 4 * of_nat j"
  by (simp add: op_def OPSIZ_def of_nat_diff algebra_simps)

interpretation bwd_aligned: unrolled_copy 8 bwd_aligned_step "- (8 * OPSIZ)" n "bwd_aligned_inv m0 s d n" for m0 s d n
proof
  fix k j srcp dstp and am :: "registers \<times> memory"
  assume I: "bwd_aligned_inv m0 s d n k j srcp dstp am" "j < 8" "Suc k < n"
  obtain a m where am: "am = (a, m)" by fastforce
  have ops: "op srcp (7 - j) = s - 4 * of_nat (Suc (Suc k))" "op dstp (7 - j) = d - 4 * of_nat (Suc k)"
    using I op_back [of j 7 srcp] op_back [of j 7 dstp] by (simp_all add: bwd_aligned_inv_def)
  have "load32 m (op srcp (7 - j)) = load32 m0 (s - 4 * of_nat (Suc (Suc k)))"
    unfolding ops using I load_word_back [of s n d n k "Suc k" m0 s] by (simp add: bwd_aligned_inv_def am del: of_nat_Suc)
  moreover have "store32 m (op dstp (7 - j)) (load32 m0 (s - 4 * of_nat (Suc k))) = copied_back m0 d s (Suc k)"
    unfolding ops using I store_word_back [of m0 d s k] by (simp add: bwd_aligned_inv_def am del: of_nat_Suc)
  ultimately show "bwd_aligned_inv m0 s d n (Suc k) (Suc j) srcp dstp (bwd_aligned_step j srcp dstp am)"
    using I by (auto simp: bwd_aligned_inv_def am algebra_simps)
next
  fix k srcp dstp and am :: "registers \<times> memory"
  assume "bwd_aligned_inv m0 s d n k 8 srcp dstp am"
  then show "bwd_aligned_inv m0 s d n k 0 (srcp + - (8 * OPSIZ)) (dstp + - (8 * OPSIZ)) am"
    by (simp add: bwd_aligned_inv_def op_def OPSIZ_def algebra_simps)
qed simp_all

lemma bwd_aligned_entry_eq:
  assumes "2 \<le> r" "r \<le> 9"
  shows "bwd_aligned_entry (r mod 8) = (of_nat r, of_nat r - 1, if even r then 0 else 1, r - 1, 8 - of_nat r, 9 - r)"
proof -
  from assms have "r \<in> {2, 3, 4, 5, 6, 7, 8, 9}" by auto
  then show ?thesis by auto
qed


text \<open>\<^verbatim>\<open>txc_libc_wordcopy_bwd_aligned\<close> copies the \<open>len\<close> words below \<open>srcp\<close> to the words below \<open>dstp\<close>.\<close>

lemma wordcopy_bwd_aligned_copies:
  assumes "2 \<le> unat len" "4 * unat len \<le> 2 ^ 32"
    "apart (srcp - 4 * len) (4 * unat len) (dstp - 4 * len) (4 * unat len)"
  shows "txc_libc_wordcopy_bwd_aligned a dstp srcp len m =
    Some (store_at m (dstp - 4 * len) (bytes_at m (srcp - 4 * len) (4 * unat len)))"
proof -
  let ?n = "unat len"
  have "?n + 8 < 2 ^ 32" using assms(2) by simp
  from entry_words [OF assms(1) this] obtain r q where
    r: "2 \<le> r" "r \<le> 8 + 1" "?n = r + 8 * q" "unat (len + (8 - of_nat r)) = 8 * Suc q" by auto
  have "?n mod 8 = r mod 8" using r(3) by simp
  then have entry: "bwd_aligned_entry (?n mod 8) = (of_nat r, of_nat r - 1, if even r then 0 else 1, r - 1, 8 - of_nat r, 9 - r)"
    using bwd_aligned_entry_eq [of r] r(1,2) by simp
  let ?s = "srcp - of_nat r * OPSIZ" and ?d = "dstp - (of_nat r - 1) * OPSIZ"
  let ?a = "a(if even r then 0 else 1 := load32 m (op ?s (r - 1)))"
  have "bwd_aligned_inv m srcp dstp ?n 0 (8 + 1 - r) ?s ?d (?a, m)"
    using r(1,2) assms by (simp add: bwd_aligned_inv_def copied_back_def op_def OPSIZ_def of_nat_diff algebra_simps)
  from bwd_aligned.run [OF this r] obtain d' a' m' s' where
    loop: "word_loop 8 bwd_aligned_step (- (8 * OPSIZ)) (8 + 1 - r) ?s ?d (len + (8 - of_nat r)) (?a, m) = Some (d', a', m')"
    and I: "bwd_aligned_inv m srcp dstp ?n (?n - 1) 0 s' d' (a', m')" .
  have "store32 m' (op d' 7) (a' 1) = copied_back m dstp srcp (Suc (?n - 1))"
    using I store_word_back [of m dstp srcp "?n - 1"] by (simp add: bwd_aligned_inv_def del: of_nat_Suc)
  then have "store32 m' (op d' 7) (a' 1) = copied_back m dstp srcp ?n" using assms(1) by simp
  then show ?thesis using loop
    by (simp add: txc_libc_wordcopy_bwd_aligned_def entry no_threshold copied_back_def Let_def
        del: bwd_aligned_entry.simps fun_upd_apply)
qed

section \<open>Unaligned sources\<close>

lemma bit_u32: "32 \<le> n \<Longrightarrow> \<not> bit (w :: u32) n"
  using bit_imp_le_length [of w n] by auto

lemma merge_load:
  assumes "0 < r" "r < 4"
  shows "MERGE (load32 m b) (8 * r) (load32 m (b + 4)) (32 - 8 * r) = load32 m (b + of_nat r)"
proof (rule bit_word_eqI)
  fix i
  assume "i < LENGTH(32)"
  then have "\<exists>e<8. i = e \<or> i = 8 + e \<or> i = 16 + e \<or> i = 24 + e" by simp presburger
  then obtain e where e: "e < 8" "i = e \<or> i = 8 + e \<or> i = 16 + e \<or> i = 24 + e" by blast
  from assms have "r = 1 \<or> r = 2 \<or> r = 3" by auto
  with e show "bit (MERGE (load32 m b) (8 * r) (load32 m (b + 4)) (32 - 8 * r)) i = bit (load32 m (b + of_nat r)) i"
    by (elim disjE) (simp_all add: MERGE_def load32_def bit_simps bit_word_of_bytes bit_u32 add.assoc)
qed


lemma round_down: "(s :: u32) AND - OPSIZ = s - of_nat (unat s mod 4)"
proof -
  have "- OPSIZ = NOT 3" by (simp add: OPSIZ_def)
  moreover have "(s AND NOT 3) + (s AND 3) = (s AND NOT 3) OR (s AND 3)"
    by (rule disjunctive_add_eq_or) (auto simp: bit_eq_iff bit_simps)
  moreover have "(s AND NOT 3) OR (s AND 3) = s" by (rule bit_word_eqI) (auto simp: bit_simps)
  moreover have "s AND 3 = of_nat (unat s mod 4)" by (simp flip: unat_and_3)
  ultimately show ?thesis by (metis add_diff_cancel_right')
qed

definition fwd_dest_inv ::
  "memory \<Rightarrow> addr \<Rightarrow> nat \<Rightarrow> addr \<Rightarrow> nat \<Rightarrow> nat \<Rightarrow> nat \<Rightarrow> addr \<Rightarrow> addr \<Rightarrow> registers \<times> memory \<Rightarrow> bool" where
  "fwd_dest_inv m0 b r d n k j srcp dstp am \<longleftrightarrow>
     apart b (4 * Suc n) d (4 * n) \<and> 4 * n \<le> 2 ^ 32 \<and> k < n \<and> 0 < r \<and> r < 4 \<and>
     snd am = copied m0 d (b + of_nat r) (4 * k) \<and>
     op srcp j = b + 4 * of_nat (k + 2) \<and> op dstp j = d + 4 * of_nat k \<and>
     fst am ((j + 2) mod 4) = load32 m0 (b + 4 * of_nat k) \<and> fst am ((j + 3) mod 4) = load32 m0 (b + 4 * of_nat (Suc k))"

lemma load_word_outside:
  assumes "apart b (4 * Suc n) d (4 * n)" "4 * n \<le> 2 ^ 32" "k \<le> n" "i \<le> n"
  shows "load32 (copied m d s (4 * k)) (b + 4 * of_nat i) = load32 m (b + 4 * of_nat i)"
proof -
  have "apart (b + 4 * of_nat i) 4 d (4 * k)"
    using apart_within [OF assms(1), of "4 * i" 4 "4 * k"] assms(3,4) by simp
  then show ?thesis unfolding copied_def using assms(2,3) by (intro load32_apart) simp_all
qed

interpretation fwd_dest: unrolled_copy 4 "fwd_dest_step (8 * r) (32 - 8 * r)" "4 * OPSIZ" n "fwd_dest_inv m0 b r d n"
  for m0 b r d n
proof
  fix k j srcp dstp and am :: "registers \<times> memory"
  assume I: "fwd_dest_inv m0 b r d n k j srcp dstp am" "j < 4" "Suc k < n"
  obtain a m where am: "am = (a, m)" by fastforce
  have j: "j = 0 \<or> j = 1 \<or> j = 2 \<or> j = 3" using \<open>j < 4\<close> by auto
  let ?v = "MERGE (a ((j + 2) mod 4)) (8 * r) (a ((j + 3) mod 4)) (32 - 8 * r)"
  have "load32 m (op srcp j) = load32 m0 (b + 4 * of_nat (k + 2))"
    using I load_word_outside [of b n d k "k + 2" m0 "b + of_nat r"] by (simp add: fwd_dest_inv_def am)
  moreover have "?v = load32 m0 (b + of_nat r + 4 * of_nat k)"
    using I merge_load [of r m0 "b + 4 * of_nat k"] by (simp add: fwd_dest_inv_def am algebra_simps)
  then have "store32 m (op dstp j) ?v = copied m0 d (b + of_nat r) (4 * Suc k)"
    using I store_word_copied [of k m0 d "b + of_nat r"] by (simp add: fwd_dest_inv_def am)
  moreover have "fwd_dest_step (8 * r) (32 - 8 * r) j srcp dstp am = (a(j := load32 m (op srcp j)), store32 m (op dstp j) ?v)"
    using j by (elim disjE) (simp_all add: am, simp add: numeral_2_eq_2)
  moreover have "(j + 3) mod 4 \<noteq> j" "(j + 4) mod 4 = j" using j by auto
  ultimately show "fwd_dest_inv m0 b r d n (Suc k) (Suc j) srcp dstp (fwd_dest_step (8 * r) (32 - 8 * r) j srcp dstp am)"
    using I by (simp add: fwd_dest_inv_def am op_Suc add.commute [of 3 j])
next
  fix k srcp dstp and am :: "registers \<times> memory"
  assume "fwd_dest_inv m0 b r d n k 4 srcp dstp am"
  then show "fwd_dest_inv m0 b r d n k 0 (srcp + 4 * OPSIZ) (dstp + 4 * OPSIZ) am"
    by (simp add: fwd_dest_inv_def op_def OPSIZ_def) (simp add: numeral_2_eq_2)
qed simp_all


lemma fwd_dest_last:
  assumes "fwd_dest_inv m0 b r d n k 0 srcp dstp (a, m)"
  shows "MERGE (a 2) (8 * r) (a 3) (32 - 8 * r) = load32 m0 (b + of_nat r + 4 * of_nat k)"
proof -
  have "a 2 = load32 m0 (b + 4 * of_nat k)" "a 3 = load32 m0 (b + 4 * of_nat k + 4)" "0 < r" "r < 4"
    using assms by (simp_all add: fwd_dest_inv_def add.assoc add.commute [of 4] flip: numeral_2_eq_2 numeral_3_eq_3)
  then show ?thesis using merge_load [of r m0 "b + 4 * of_nat k"] by (simp add: algebra_simps)
qed

lemma fwd_dest_entry_eq:
  assumes "2 \<le> r" "r \<le> 5"
  shows "fwd_dest_entry (r mod 4) =
    ((5 - r + 2) mod 4, (5 - r + 3) mod 4, 3 - of_nat r, 5 - of_nat r, 4 - of_nat r, 5 - r)"
proof -
  from assms have "r \<in> {2, 3, 4, 5}" by auto
  then show ?thesis by auto
qed

text \<open>
  \<^verbatim>\<open>txc_libc_wordcopy_fwd_dest_aligned\<close>, whose source is not aligned, reads only aligned
  words, from the one that holds the first byte to the one that holds the last, and
  puts every stored word together from two of them; the result is the copy of the
  \<open>len\<close> words at \<open>srcp\<close>.
\<close>

lemma wordcopy_fwd_dest_aligned_copies:
  assumes "2 \<le> unat len" "4 * unat len < 2 ^ 32" "unat srcp mod 4 \<noteq> 0"
    "apart (srcp - of_nat (unat srcp mod 4)) (4 * Suc (unat len)) dstp (4 * unat len)"
  shows "txc_libc_wordcopy_fwd_dest_aligned a dstp srcp len m = Some (store_at m dstp (bytes_at m srcp (4 * unat len)))"
proof -
  let ?n = "unat len"
  let ?e = "unat srcp mod 4"
  let ?b = "srcp - of_nat ?e"
  have "?n + 4 < 2 ^ 32" using assms(2) by simp
  from entry_words [OF assms(1) this] obtain r q where
    r: "2 \<le> r" "r \<le> 4 + 1" "?n = r + 4 * q" "unat (len + (4 - of_nat r)) = 4 * Suc q" by auto
  have "?n mod 4 = r mod 4" using r(3) by simp
  then have entry: "fwd_dest_entry (?n mod 4) =
      ((5 - r + 2) mod 4, (5 - r + 3) mod 4, 3 - of_nat r, 5 - of_nat r, 4 - of_nat r, 5 - r)"
    using fwd_dest_entry_eq [of r] r(1,2) by simp
  let ?s = "?b - (3 - of_nat r) * OPSIZ" and ?d = "dstp - (5 - of_nat r) * OPSIZ"
  let ?a = "a((5 - r + 2) mod 4 := load32 m ?b, (5 - r + 3) mod 4 := load32 m (op ?b 1))"
  have "r = 2 \<or> r = 3 \<or> r = 4 \<or> r = 5" using r(1,2) by auto
  then have "(5 - r + 2) mod 4 \<noteq> (5 - r + 3) mod 4" by auto
  then have "fwd_dest_inv m ?b ?e dstp ?n 0 (4 + 1 - r) ?s ?d (?a, m)"
    using r(1,2) assms by (simp add: fwd_dest_inv_def copied_def op_def OPSIZ_def of_nat_diff)
  from fwd_dest.run [OF this r] obtain d' a' m' s' where
    loop: "word_loop 4 (fwd_dest_step (8 * ?e) (32 - 8 * ?e)) (4 * OPSIZ) (4 + 1 - r) ?s ?d (len + (4 - of_nat r)) (?a, m) = Some (d', a', m')"
    and I: "fwd_dest_inv m ?b ?e dstp ?n (?n - 1) 0 s' d' (a', m')" .
  have "MERGE (a' 2) (8 * ?e) (a' 3) (32 - 8 * ?e) = load32 m (srcp + 4 * of_nat (?n - 1))"
    using fwd_dest_last [OF I] by simp
  then have "store32 m' (op d' 0) (MERGE (a' 2) (8 * ?e) (a' 3) (32 - 8 * ?e)) = copied m dstp srcp (4 * Suc (?n - 1))"
    using I store_word_copied [of "?n - 1" m dstp srcp] assms(1,2) by (simp add: fwd_dest_inv_def del: mult_Suc_right)
  then have "store32 m' (op d' 0) (MERGE (a' 2) (8 * ?e) (a' 3) (32 - 8 * ?e)) = copied m dstp srcp (4 * ?n)" using assms(1) by simp
  then show ?thesis using loop
    by (simp add: txc_libc_wordcopy_fwd_dest_aligned_def entry no_threshold round_down op_0 copied_def Let_def
        del: fwd_dest_entry.simps fun_upd_apply)
qed


definition bwd_dest_inv ::
  "memory \<Rightarrow> addr \<Rightarrow> nat \<Rightarrow> addr \<Rightarrow> nat \<Rightarrow> nat \<Rightarrow> nat \<Rightarrow> addr \<Rightarrow> addr \<Rightarrow> registers \<times> memory \<Rightarrow> bool" where
  "bwd_dest_inv m0 b r d n k j srcp dstp am \<longleftrightarrow>
     apart (b - 4 * of_nat (Suc n)) (4 * Suc n) (d - 4 * of_nat n) (4 * n) \<and> 4 * n \<le> 2 ^ 32 \<and> k < n \<and> 0 < r \<and> r < 4 \<and>
     snd am = copied_back m0 d (b - 4 + of_nat r) k \<and>
     op srcp 3 - 4 * of_nat j = b - 4 * of_nat (k + 3) \<and> op dstp 3 - 4 * of_nat j = d - 4 * of_nat (Suc k) \<and>
     fst am ((4 - j) mod 4) = load32 m0 (b - 4 * of_nat (k + 2)) \<and> fst am ((5 - j) mod 4) = load32 m0 (b - 4 * of_nat (Suc k))"

lemma merge_back:
  assumes "0 < r" "r < 4"
  shows "MERGE (load32 m (b - 4 * of_nat (k + 2))) (8 * r) (load32 m (b - 4 * of_nat (Suc k))) (32 - 8 * r) =
    load32 m (b - 4 + of_nat r - 4 * of_nat (Suc k))"
  using merge_load [OF assms, of m "b - 4 * of_nat (k + 2)"] by (simp add: algebra_simps)

interpretation bwd_dest: unrolled_copy 4 "bwd_dest_step (8 * r) (32 - 8 * r)" "- (4 * OPSIZ)" n "bwd_dest_inv m0 b r d n"
  for m0 b r d n
proof
  fix k j srcp dstp and am :: "registers \<times> memory"
  assume I: "bwd_dest_inv m0 b r d n k j srcp dstp am" "j < 4" "Suc k < n"
  obtain a m where am: "am = (a, m)" by fastforce
  have j: "j = 0 \<or> j = 1 \<or> j = 2 \<or> j = 3" using \<open>j < 4\<close> by auto
  let ?v = "MERGE (a ((4 - j) mod 4)) (8 * r) (a ((5 - j) mod 4)) (32 - 8 * r)"
  have ops: "op srcp (3 - j) = b - 4 * of_nat (Suc (Suc (Suc k)))" "op dstp (3 - j) = d - 4 * of_nat (Suc k)"
    using I op_back [of j 3 srcp] op_back [of j 3 dstp] by (simp_all add: bwd_dest_inv_def)
  have "load32 m (op srcp (3 - j)) = load32 m0 (b - 4 * of_nat (Suc (Suc (Suc k))))"
    unfolding ops using I load_word_back [of b "Suc n" d n k "Suc (Suc k)" m0 "b - 4 + of_nat r"]
    by (simp add: bwd_dest_inv_def am del: of_nat_Suc)
  moreover have "?v = load32 m0 (b - 4 + of_nat r - 4 * of_nat (Suc k))"
    using I merge_back [of r m0 b k] by (simp add: bwd_dest_inv_def am del: of_nat_Suc)
  then have "store32 m (op dstp (3 - j)) ?v = copied_back m0 d (b - 4 + of_nat r) (Suc k)"
    unfolding ops using I store_word_back [of m0 d "b - 4 + of_nat r" k] by (simp add: bwd_dest_inv_def am del: of_nat_Suc)
  moreover have "bwd_dest_step (8 * r) (32 - 8 * r) j srcp dstp am =
      (a(3 - j := load32 m (op srcp (3 - j))), store32 m (op dstp (3 - j)) ?v)"
    using j by (elim disjE) (simp_all add: am)
  moreover have "(4 - Suc j) mod 4 = 3 - j" "(5 - Suc j) mod 4 = (4 - j) mod 4" "(4 - j) mod 4 \<noteq> 3 - j" using j by auto
  ultimately show "bwd_dest_inv m0 b r d n (Suc k) (Suc j) srcp dstp (bwd_dest_step (8 * r) (32 - 8 * r) j srcp dstp am)"
    using I by (simp add: bwd_dest_inv_def am algebra_simps)
next
  fix k srcp dstp and am :: "registers \<times> memory"
  assume "bwd_dest_inv m0 b r d n k 4 srcp dstp am"
  then show "bwd_dest_inv m0 b r d n k 0 (srcp + - (4 * OPSIZ)) (dstp + - (4 * OPSIZ)) am"
    by (simp add: bwd_dest_inv_def op_def OPSIZ_def algebra_simps)
qed simp_all


lemma bwd_dest_entry_eq:
  assumes "2 \<le> r" "r \<le> 5"
  shows "bwd_dest_entry (r mod 4) =
    (of_nat r + 1, of_nat r - 1, (5 - (5 - r)) mod 4, (4 - (5 - r)) mod 4, r, 4 - of_nat r, 5 - r)"
proof -
  from assms have "r \<in> {2, 3, 4, 5}" by auto
  then show ?thesis by auto
qed

text \<open>
  \<^verbatim>\<open>txc_libc_wordcopy_bwd_dest_aligned\<close> copies the \<open>len\<close> words below an unaligned \<open>srcp\<close> to the words
  below \<open>dstp\<close>.
\<close>

lemma wordcopy_bwd_dest_aligned_copies:
  assumes "2 \<le> unat len" "4 * unat len < 2 ^ 32" "unat srcp mod 4 \<noteq> 0"
    "apart (srcp - of_nat (unat srcp mod 4) + 4 - 4 * of_nat (Suc (unat len))) (4 * Suc (unat len)) (dstp - 4 * len) (4 * unat len)"
  shows "txc_libc_wordcopy_bwd_dest_aligned a dstp srcp len m =
    Some (store_at m (dstp - 4 * len) (bytes_at m (srcp - 4 * len) (4 * unat len)))"
proof -
  let ?n = "unat len"
  let ?e = "unat srcp mod 4"
  let ?b = "srcp - of_nat ?e + OPSIZ"
  have "?n + 4 < 2 ^ 32" using assms(2) by simp
  from entry_words [OF assms(1) this] obtain r q where
    r: "2 \<le> r" "r \<le> 4 + 1" "?n = r + 4 * q" "unat (len + (4 - of_nat r)) = 4 * Suc q" by auto
  have "?n mod 4 = r mod 4" using r(3) by simp
  then have entry: "bwd_dest_entry (?n mod 4) =
      (of_nat r + 1, of_nat r - 1, (5 - (5 - r)) mod 4, (4 - (5 - r)) mod 4, r, 4 - of_nat r, 5 - r)"
    using bwd_dest_entry_eq [of r] r(1,2) by simp
  let ?s = "?b - (of_nat r + 1) * OPSIZ" and ?d = "dstp - (of_nat r - 1) * OPSIZ"
  let ?a = "a((5 - (5 - r)) mod 4 := load32 m (op ?s r), (4 - (5 - r)) mod 4 := load32 m (op ?s (r - 1)))"
  have "r = 2 \<or> r = 3 \<or> r = 4 \<or> r = 5" using r(1,2) by auto
  then have "(5 - (5 - r)) mod 4 \<noteq> (4 - (5 - r)) mod 4" by auto
  then have "bwd_dest_inv m ?b ?e dstp ?n 0 (4 + 1 - r) ?s ?d (?a, m)"
    using r(1,2) assms by (simp add: bwd_dest_inv_def copied_back_def op_def OPSIZ_def of_nat_diff algebra_simps)
  from bwd_dest.run [OF this r] obtain d' a' m' s' where
    loop: "word_loop 4 (bwd_dest_step (8 * ?e) (32 - 8 * ?e)) (- (4 * OPSIZ)) (4 + 1 - r) ?s ?d (len + (4 - of_nat r)) (?a, m) = Some (d', a', m')"
    and I: "bwd_dest_inv m ?b ?e dstp ?n (?n - 1) 0 s' d' (a', m')" .
  have "MERGE (a' 0) (8 * ?e) (a' 1) (32 - 8 * ?e) = load32 m (srcp - 4 * of_nat (Suc (?n - 1)))"
    using I merge_back [of ?e m ?b "?n - 1"] by (simp add: bwd_dest_inv_def OPSIZ_def del: of_nat_Suc)
  then have "store32 m' (op d' 3) (MERGE (a' 0) (8 * ?e) (a' 1) (32 - 8 * ?e)) = copied_back m dstp srcp (Suc (?n - 1))"
    using I store_word_back [of m dstp srcp "?n - 1"] by (simp add: bwd_dest_inv_def OPSIZ_def del: of_nat_Suc)
  then have "store32 m' (op d' 3) (MERGE (a' 0) (8 * ?e) (a' 1) (32 - 8 * ?e)) = copied_back m dstp srcp ?n" using assms(1) by simp
  then show ?thesis using loop
    by (simp add: txc_libc_wordcopy_bwd_dest_aligned_def entry no_threshold round_down copied_back_def Let_def
        del: bwd_dest_entry.simps fun_upd_apply)
qed


section \<open>Whole copies\<close>

text \<open>Copying \<open>n\<close> more bytes behind the first \<open>k\<close>.\<close>

lemma byte_copy_copied:
  assumes "apart s N d N" "N \<le> 2 ^ 32" "k + n \<le> N"
  shows "BYTE_COPY_FWD n (d + of_nat k) (s + of_nat k) (copied m d s k) =
    (d + of_nat (k + n), s + of_nat (k + n), copied m d s (k + n))"
  using assms(3)
proof (induction n arbitrary: k)
  case (Suc n)
  then have read: "copied m d s k (s + of_nat k) = m (s + of_nat k)"
    using copy_char_copied [OF assms(1,2), of k m] by (simp add: copy_char_def)
  moreover have "(copied m d s k)(d + of_nat k := m (s + of_nat k)) = copied m d s (Suc k)"
    using copy_char_copied [OF assms(1,2), of k m] Suc.prems by (simp add: copy_char_def read del: fun_upd_apply)
  moreover note Suc.IH [of "Suc k"]
  ultimately show ?case using Suc.prems by (simp add: add.assoc [symmetric] add.commute [of _ 1] del: fun_upd_apply)
qed simp

lemma div_OPSIZ: "unat (n div OPSIZ) = unat n div 4"
  by (simp add: OPSIZ_def unat_div)

lemma and_OPSIZ: "(n :: u32) AND - OPSIZ = of_nat (4 * (unat n div 4))"
proof -
  have "of_nat (unat n) = (of_nat (4 * (unat n div 4) + unat n mod 4) :: u32)" by simp
  then have "n = of_nat (4 * (unat n div 4)) + of_nat (unat n mod 4)" by (simp only: of_nat_add) simp
  then have "n - of_nat (unat n mod 4) = of_nat (4 * (unat n div 4))" by (metis add_diff_cancel_right')
  then show ?thesis by (simp only: round_down)
qed

text \<open>
  C16. The strategy of the memory functions: a copy of \<open>n\<close> bytes forward that copies words first,
  whether or not the source is aligned, and then the few remaining bytes, copies exactly
  the \<open>n\<close> bytes.  The words copied at once are entered through the middle of the unrolled
  loops, and for an unaligned source every stored word is put together from the two
  aligned words that hold its bytes.  There are at least two words, and the destination
  does not overlap the aligned words around the source.
\<close>

theorem forward_copy_exact:
  assumes "8 \<le> unat n" "unat n + 8 < 2 ^ 32"
    "apart (src - of_nat (unat src mod 4)) (unat n + 8) dst (unat n)"
  shows "\<exists>d s r m'. WORD_COPY_FWD a dst src n m = Some (d, s, r, m') \<and>
    BYTE_COPY_FWD r d s m' = (dst + n, src + n, store_at m dst (bytes_at m src (unat n)))"
proof -
  let ?e = "unat src mod 4" and ?q = "unat n div 4"
  have words: "2 \<le> unat (n div OPSIZ)" "4 * unat (n div OPSIZ) < 2 ^ 32" "unat n = 4 * ?q + unat n mod 4"
    using assms(1,2) by (simp_all add: div_OPSIZ)
  have e: "?e < 4" by simp
  have inner: "apart src (unat n) dst (unat n)"
    using apart_within [OF assms(3), of ?e "unat n" "unat n"] e by simp
  have "(if unat src mod 4 = 0 then txc_libc_wordcopy_fwd_aligned a dst src (n div OPSIZ) m
      else txc_libc_wordcopy_fwd_dest_aligned a dst src (n div OPSIZ) m) = Some (copied m dst src (4 * ?q))"
  proof (cases "?e = 0")
    case True
    then show ?thesis
      using wordcopy_fwd_aligned_copies [OF words(1), of src dst a m] apart_mono [OF inner, of "4 * ?q" "4 * ?q"] words(2)
      by (simp add: copied_def div_OPSIZ)
  next
    case False
    moreover have "apart (src - of_nat ?e) (4 * Suc ?q) dst (4 * ?q)" by (rule apart_mono [OF assms(3)]) (use words(3) in simp_all)
    ultimately show ?thesis
      using wordcopy_fwd_dest_aligned_copies [OF words(1,2) False, of dst a m] by (simp add: copied_def div_OPSIZ)
  qed
  moreover have "BYTE_COPY_FWD (unat n mod 4) (dst + of_nat (4 * ?q)) (src + of_nat (4 * ?q)) (copied m dst src (4 * ?q)) =
      (dst + of_nat (unat n), src + of_nat (unat n), copied m dst src (unat n))"
    using byte_copy_copied [OF inner, of "4 * ?q" "unat n mod 4" m] words(3) assms(2) by simp
  ultimately show ?thesis by (simp add: WORD_COPY_FWD_def and_OPSIZ copied_def)
qed

theorem forward_copy_exact_witness:
  "apart 400 53 (800 :: addr) 45 \<and>
   (\<exists>d s r m'. WORD_COPY_FWD (\<lambda>_. 0) 800 402 45 sample_memory = Some (d, s, r, m') \<and>
     BYTE_COPY_FWD r d s m' = (845, 447, store_at sample_memory 800 (bytes_at sample_memory 402 45)))"
proof -
  have "apart 400 53 (800 :: addr) 45" by (simp add: apart_code upt_rec)
  then show ?thesis using forward_copy_exact [of 45 402 800 "\<lambda>_. 0" sample_memory] by simp
qed

end
