(* ===== verification/Net.thy ===== *)
theory Net
  imports Cstring
begin

text \<open>
  Numbers and Internet addresses as text: \<^verbatim>\<open>txc_libc_atoi\<close> of \<^verbatim>\<open>src/src/libc/stdlib.c\<close> and
  \<^verbatim>\<open>src/src/libc/net.c\<close>, with the parts of the C library that the latter calls (\<^verbatim>\<open>strtoul\<close>
  with base 0, \<^verbatim>\<open>isspace\<close>, and \<^verbatim>\<open>sprintf\<close> with \<^verbatim>\<open>%u\<close>).  A search that runs through all of
  memory is \<open>None\<close>.
\<close>

section \<open>atoi\<close>

text \<open>Characters are written as their codes: 9 and 32 are blanks, 43 is \<^verbatim>\<open>+\<close>, 45 is \<^verbatim>\<open>-\<close>, 48 is \<^verbatim>\<open>0\<close>.\<close>

partial_function (option) skip_blanks :: "addr \<Rightarrow> memory \<Rightarrow> addr option" where
  "skip_blanks p m = (if m p = 32 \<or> m p = 9 then skip_blanks (p + 1) m else Some p)"

partial_function (option) atoi_digits :: "addr \<Rightarrow> u32 \<Rightarrow> memory \<Rightarrow> u32 option" where
  "atoi_digits p n m = (if 48 \<le> m p \<and> m p \<le> 57 then atoi_digits (p + 1) (n * 10 + ucast (m p) - 48) m else Some n)"

text \<open>The value is a 32-bit integer that wraps around.\<close>

definition txc_libc_atoi :: "addr \<Rightarrow> memory \<Rightarrow> u32 option" where
  "txc_libc_atoi p m =
     Option.bind (skip_blanks p m) (\<lambda>p.
       let f = (m p = 45); p = (if m p = 45 \<or> m p = 43 then p + 1 else p) in
       map_option (\<lambda>n. if f then - n else n) (atoi_digits p 0 m))"

section \<open>Byte order\<close>

definition txc_libc_htons :: "16 word \<Rightarrow> 16 word" where
  "txc_libc_htons x = push_bit 8 x OR drop_bit 8 x"

definition htonl :: "u32 \<Rightarrow> u32" where
  "htonl x = (case bytes_of_word x of [b0, b1, b2, b3] \<Rightarrow> word_of_bytes b3 b2 b1 b0)"

section \<open>strtoul\<close>

definition isspace :: "byte \<Rightarrow> bool" where
  "isspace c \<longleftrightarrow> c = 32 \<or> 9 \<le> c \<and> c \<le> 13"

text \<open>The value of a digit; 36 stands for a character that is none.\<close>

definition digit :: "byte \<Rightarrow> nat" where
  "digit c =
     (if 48 \<le> c \<and> c \<le> 57 then unat c - 48
      else if 97 \<le> c \<and> c \<le> 122 then unat c - 87
      else if 65 \<le> c \<and> c \<le> 90 then unat c - 55
      else 36)"

partial_function (option) skip_spaces :: "addr \<Rightarrow> memory \<Rightarrow> addr option" where
  "skip_spaces p m = (if isspace (m p) then skip_spaces (p + 1) m else Some p)"

partial_function (option) scan_digits :: "nat \<Rightarrow> addr \<Rightarrow> nat \<Rightarrow> memory \<Rightarrow> (nat \<times> addr) option" where
  "scan_digits base p acc m =
     (if digit (m p) < base then scan_digits base (p + 1) (acc * base + digit (m p)) m else Some (acc, p))"

text \<open>The base that \<^verbatim>\<open>strtoul\<close> deduces for base 0, and where the digits start.\<close>

definition number_base :: "addr \<Rightarrow> memory \<Rightarrow> nat \<times> addr" where
  "number_base p m =
     (if m p = 48 then
        if (m (p + 1) = 120 \<or> m (p + 1) = 88) \<and> digit (m (p + 2)) < 16 then (16, p + 2) else (8, p)
      else (10, p))"

text \<open>The value, the end of the number (the start of the text when there is none) and whether \<^verbatim>\<open>errno\<close> is \<^verbatim>\<open>ERANGE\<close>.\<close>

definition strtoul :: "addr \<Rightarrow> memory \<Rightarrow> (u32 \<times> addr \<times> bool) option" where
  "strtoul nptr m =
     Option.bind (skip_spaces nptr m) (\<lambda>p.
       let neg = (m p = 45); p = (if m p = 45 \<or> m p = 43 then p + 1 else p) in
       case number_base p m of (base, p) \<Rightarrow>
         map_option (\<lambda>(v, q).
           if q = p then (0, nptr, False)
           else if 2 ^ 32 \<le> v then (- 1, q, True)
           else (if neg then - of_nat v else of_nat v, q, False))
         (scan_digits base p 0 m))"

section \<open>inet\_aton\<close>

text \<open>
  The loop over the parts, with \<open>k\<close> more dots allowed: the inner \<open>None\<close> is the result 0.
\<close>

primrec aton_parts :: "nat \<Rightarrow> addr \<Rightarrow> u32 list \<Rightarrow> memory \<Rightarrow> (u32 list \<times> u32) option option" where
  "aton_parts 0 c parts m =
     map_option (\<lambda>(val, endptr, erange).
       if erange \<or> endptr = c then None
       else if m endptr = 46 then None
       else if m endptr = 0 \<or> isspace (m endptr) then Some (parts, val)
       else None)
     (strtoul c m)"
| "aton_parts (Suc k) c parts m =
     Option.bind (strtoul c m) (\<lambda>(val, endptr, erange).
       if erange \<or> endptr = c then Some None
       else if m endptr = 46 then aton_parts k (endptr + 1) (parts @ [val]) m
       else if m endptr = 0 \<or> isspace (m endptr) then Some (Some (parts, val))
       else Some None)"

definition aton_address :: "u32 list \<Rightarrow> u32 \<Rightarrow> u32 option" where
  "aton_address parts val =
     (case parts of
        [] \<Rightarrow> Some val
      | [a] \<Rightarrow> if val > 0xffffff \<or> a > 0xff then None else Some (val OR push_bit 24 a)
      | [a, b] \<Rightarrow> if val > 0xffff \<or> a > 0xff \<or> b > 0xff then None else Some (val OR (push_bit 24 a OR push_bit 16 b))
      | [a, b, c] \<Rightarrow>
          if val > 0xff \<or> a > 0xff \<or> b > 0xff \<or> c > 0xff then None
          else Some (val OR (push_bit 24 a OR push_bit 16 b OR push_bit 8 c))
      | _ \<Rightarrow> Some val)"

definition txc_libc_inet_aton :: "addr \<Rightarrow> addr option \<Rightarrow> memory \<Rightarrow> (int \<times> memory) option" where
  "txc_libc_inet_aton cp addr m =
     map_option (\<lambda>r.
       case Option.bind r (\<lambda>(parts, val). aton_address parts val) of
         None \<Rightarrow> (0, m)
       | Some val \<Rightarrow> (1, case addr of None \<Rightarrow> m | Some a \<Rightarrow> store32 m a (htonl val)))
     (aton_parts 3 cp [] m)"

section \<open>inet\_ntop\<close>

fun decimal :: "nat \<Rightarrow> byte list" where
  "decimal n = (if n < 10 then [of_nat (48 + n)] else decimal (n div 10) @ [of_nat (48 + n mod 10)])"

declare decimal.simps [simp del]

definition inet_ntop4_sprintf :: "byte \<Rightarrow> byte \<Rightarrow> byte \<Rightarrow> byte \<Rightarrow> byte list" where
  "inet_ntop4_sprintf a b c d =
     decimal (unat a) @ 46 # decimal (unat b) @ 46 # decimal (unat c) @ 46 # decimal (unat d)"

datatype net_errno = ENOSPC | EAFNOSUPPORT

text \<open>
  The result is the address of the text, or \<^verbatim>\<open>NULL\<close> with the error.  \<open>size\<close> is unsigned.
\<close>

definition inet_ntop4 :: "addr \<Rightarrow> addr \<Rightarrow> u32 \<Rightarrow> memory \<Rightarrow> (net_errno + addr) \<times> memory" where
  "inet_ntop4 src dst sz m =
     (let tmp = inet_ntop4_sprintf (m src) (m (src + 1)) (m (src + 2)) (m (src + 3)) in
      if of_nat (length tmp) \<ge> sz then (Inl ENOSPC, m) else (Inr dst, store_at m dst (tmp @ [0])))"

definition AF_INET :: int where "AF_INET = 2"

definition AF_INET6 :: int where "AF_INET6 = 10"

text \<open>\<open>None\<close> is the failed assertion for version 6 addresses.\<close>

definition txc_libc_inet_ntop :: "int \<Rightarrow> addr \<Rightarrow> addr \<Rightarrow> u32 \<Rightarrow> memory \<Rightarrow> ((net_errno + addr) \<times> memory) option" where
  "txc_libc_inet_ntop af src dst sz m =
     (if af = AF_INET then Some (inet_ntop4 src dst sz m)
      else if af = AF_INET6 then None
      else Some (Inl EAFNOSUPPORT, m))"

section \<open>Reading decimal numbers\<close>

lemma cstring_hd: "cstring m p bs \<Longrightarrow> m p = hd (bs @ [0])"
  by (cases bs) (simp_all add: cstring_Cons)

lemma scan_digits_list:
  assumes "cstring m p (ds @ rest)" "\<forall>d \<in> set ds. digit d < base" "\<not> digit (hd (rest @ [0])) < base"
  shows "scan_digits base p acc m = Some (foldl (\<lambda>v d. v * base + digit d) acc ds, p + of_nat (length ds))"
  using assms(1,2)
proof (induction ds arbitrary: p acc)
  case Nil
  then show ?case using assms(3) cstring_hd [of m p rest] by (subst scan_digits.simps) simp
next
  case (Cons d ds)
  then show ?case by (subst scan_digits.simps) (simp add: cstring_Cons add.assoc)
qed

lemma digit_of_nat: "n < 10 \<Longrightarrow> digit (48 + of_nat n) = n"
proof -
  assume "n < 10"
  then have "unat (of_nat (48 + n) :: byte) = 48 + n" by (simp only: unat_of_nat) simp
  with \<open>n < 10\<close> show ?thesis by (simp add: digit_def word_le_nat_alt)
qed

lemma digit_consts: "digit 48 = 0" "digit 46 = 36" "digit 0 = 36"
  by (simp_all add: digit_def word_le_nat_alt)

lemma decimal_digits: "d \<in> set (decimal n) \<Longrightarrow> digit d < 10"
  by (induction n rule: decimal.induct) (subst (asm) decimal.simps, auto simp: digit_of_nat split: if_splits)

lemma decimal_value: "foldl (\<lambda>v d. v * 10 + digit d) 0 (decimal n) = n"
  by (induction n rule: decimal.induct) (subst decimal.simps, simp add: digit_of_nat)

text \<open>A number does not start with a zero, except for zero itself.\<close>

lemma decimal_hd: "\<exists>d bs. decimal n = (48 + of_nat d) # bs \<and> d < 10 \<and> (d = 0 \<longrightarrow> n = 0 \<and> bs = [])"
proof (induction n rule: decimal.induct)
  case (1 n)
  show ?case
  proof (cases "n < 10")
    case False
    with 1 obtain d bs where "decimal (n div 10) = (48 + of_nat d) # bs" "d < 10" "d = 0 \<longrightarrow> n div 10 = 0" by blast
    then show ?thesis using False by (subst decimal.simps) auto
  qed (subst decimal.simps, auto)
qed

lemma byte_digit:
  assumes "d < 10"
  shows "\<not> isspace (48 + of_nat d)" "(48 + of_nat d :: byte) \<noteq> 45" "(48 + of_nat d :: byte) \<noteq> 43"
    "(48 + of_nat d :: byte) = 48 \<longleftrightarrow> d = 0" "(48 + of_nat d :: byte) \<noteq> 0"
proof -
  have "unat (48 + of_nat d :: byte) = 48 + d" using assms unat_of_nat [of "48 + d", where 'a = 8] by simp
  then show "\<not> isspace (48 + of_nat d)" "(48 + of_nat d :: byte) \<noteq> 45" "(48 + of_nat d :: byte) \<noteq> 43"
    "(48 + of_nat d :: byte) = 48 \<longleftrightarrow> d = 0" "(48 + of_nat d :: byte) \<noteq> 0"
    by (auto simp: isspace_def word_le_nat_alt word_unat_eq_iff)
qed

lemma strtoul_decimal:
  assumes "cstring m p (decimal n @ rest)" "n < 2 ^ 32" "hd (rest @ [0]) \<in> {46, 0}"
  shows "strtoul p m = Some (of_nat n, p + of_nat (length (decimal n)), False)"
proof -
  obtain d bs where d: "decimal n = (48 + of_nat d) # bs" "d < 10" "d = 0 \<longrightarrow> n = 0 \<and> bs = []" using decimal_hd by blast
  have first: "m p = 48 + of_nat d" using assms(1) d(1) by (simp add: cstring_Cons)
  then have "skip_spaces p m = Some p" using byte_digit [OF d(2)] by (subst skip_spaces.simps) simp
  moreover obtain base where base: "number_base p m = (base, p)" "base = 10 \<or> base = 8 \<and> n = 0"
  proof (cases "d = 0")
    case True
    then have "m (p + 1) \<in> {46, 0}"
      using assms(1,3) d cstring_hd [of m "p + 1" rest] by (simp add: cstring_Cons)
    with True first d(3) that show thesis by (auto simp: number_base_def)
  next
    case False
    with byte_digit [OF d(2)] first that show thesis by (simp add: number_base_def)
  qed
  moreover have "scan_digits base p 0 m = Some (n, p + of_nat (length (decimal n)))"
  proof -
    have "\<not> digit (hd (rest @ [0])) < base" using assms(3) base(2) by (auto simp: digit_consts)
    moreover have "\<forall>c \<in> set (decimal n). digit c < base"
      using base(2) decimal_digits by (auto simp: decimal.simps [of 0] digit_consts)
    moreover have "foldl (\<lambda>v c. v * base + digit c) 0 (decimal n) = n"
      using base(2) decimal_value [of n] by (auto simp: decimal.simps [of 0] digit_consts)
    ultimately show ?thesis using scan_digits_list [OF assms(1)] by metis
  qed
  moreover have "(of_nat (length (decimal n)) :: addr) \<noteq> 0"
    using assms(1) d(1) unat_of_nat_u32 [of "length (decimal n)"] by (auto simp: cstring_def unat_eq_0 [symmetric])
  ultimately show ?thesis using byte_digit [OF d(2)] first assms(2) by (simp add: strtoul_def)
qed


section \<open>Round trip\<close>

lemma decimal_end:
  assumes "cstring m p (decimal n @ rest)"
  shows "cstring m (p + of_nat (length (decimal n))) rest" "p + of_nat (length (decimal n)) \<noteq> p"
proof -
  show "cstring m (p + of_nat (length (decimal n))) rest" using assms by (rule cstring_append)
  obtain d bs where "decimal n = (48 + of_nat d) # bs" using decimal_hd by blast
  then show "p + of_nat (length (decimal n)) \<noteq> p"
    using assms unat_of_nat_u32 [of "length (decimal n)"] by (auto simp: cstring_def unat_eq_0 [symmetric])
qed

lemma aton_parts_dot:
  assumes "cstring m p (decimal n @ 46 # rest)" "n < 2 ^ 32"
  shows "aton_parts (Suc k) p parts m = aton_parts k (p + of_nat (length (decimal n)) + 1) (parts @ [of_nat n]) m"
    "cstring m (p + of_nat (length (decimal n)) + 1) rest"
  using strtoul_decimal [OF assms] decimal_end [OF assms(1)] by (simp_all add: cstring_Cons)

lemma aton_parts_last:
  assumes "cstring m p (decimal n)" "n < 2 ^ 32"
  shows "aton_parts k p parts m = Some (Some (parts, of_nat n))"
  using strtoul_decimal [of m p n "[]"] decimal_end [of m p n "[]"] assms by (cases k) simp_all

lemma aton_quad:
  assumes "cstring m p (inet_ntop4_sprintf a b c d)"
  shows "aton_parts 3 p [] m = Some (Some ([ucast a, ucast b, ucast c], ucast d))"
proof -
  have small: "unat x < 2 ^ 32" for x :: byte using unat_byte [of x] by simp
  have cast: "of_nat (unat x) = (ucast x :: u32)" for x :: byte
    by (simp add: word_unat_eq_iff unsigned_ucast_eq take_bit_nat_eq_self unat_of_nat_u32 small)
  note 1 = aton_parts_dot [OF assms [unfolded inet_ntop4_sprintf_def] small]
  note 2 = aton_parts_dot [OF 1(2) small]
  note 3 = aton_parts_dot [OF 2(2) small]
  note 4 = aton_parts_last [OF 3(2) small]
  show ?thesis by (simp only: numeral_3_eq_3 1(1) 2(1) 3(1) 4 cast append.simps)
qed

lemma aton_address_quad: "aton_address [ucast a, ucast b, ucast c] (ucast d) = Some (word_of_bytes d c b (a :: byte))"
proof -
  have "\<not> 255 < (ucast x :: u32)" for x :: byte
    using unat_byte [of x] by (simp add: word_less_nat_alt unsigned_ucast_eq take_bit_nat_eq_self)
  then show ?thesis by (simp add: aton_address_def word_of_bytes_def or.assoc or.commute or.left_commute)
qed

lemma length_decimal_byte: "length (decimal (unat (b :: byte))) \<le> 3"
proof -
  have "length (decimal n) \<le> Suc k" if "n < 10 ^ Suc k" for n k
    using that
  proof (induction k arbitrary: n)
    case (Suc k)
    then have "n div 10 < 10 ^ Suc k" by (simp add: less_mult_imp_div_less)
    with Suc.IH [of "n div 10"] show ?case by (subst decimal.simps) simp
  qed (subst decimal.simps, simp)
  from this [of "unat b" 2] unat_byte [of b] show ?thesis by simp
qed

lemma decimal_nonzero: "0 \<notin> set (decimal n)"
  using decimal_digits [of 0 n] by (auto simp: digit_consts)

text \<open>
  C20. \<^verbatim>\<open>txc_libc_inet_aton\<close> reads back what \<^verbatim>\<open>txc_libc_inet_ntop\<close> writes: a version 4 address that is
  printed to a buffer of at least sixteen bytes and parsed again is the same four bytes,
  in network order.
\<close>

theorem inet_roundtrip:
  assumes "16 \<le> sz"
  shows "\<exists>m' m''. txc_libc_inet_ntop AF_INET src dst sz m = Some (Inr dst, m') \<and>
    txc_libc_inet_aton dst (Some addr) m' = Some (1, m'') \<and> bytes_at m'' addr 4 = bytes_at m src 4"
proof -
  let ?t = "inet_ntop4_sprintf (m src) (m (src + 1)) (m (src + 2)) (m (src + 3))"
  let ?m = "store_at m dst (?t @ [0])"
  have len: "length ?t \<le> 15"
    using length_decimal_byte [of "m src"] length_decimal_byte [of "m (src + 1)"] length_decimal_byte [of "m (src + 2)"]
      length_decimal_byte [of "m (src + 3)"] by (simp add: inet_ntop4_sprintf_def)
  then have "\<not> sz \<le> of_nat (length ?t)"
    using assms by (simp add: word_le_nat_alt unat_of_nat_u32)
  then have print: "txc_libc_inet_ntop AF_INET src dst sz m = Some (Inr dst, ?m)"
    by (simp add: txc_libc_inet_ntop_def inet_ntop4_def Let_def)
  have "cstring ?m dst ?t"
    using len by (intro cstring_store) (simp_all add: inet_ntop4_sprintf_def decimal_nonzero)
  from aton_quad [OF this] have "txc_libc_inet_aton dst (Some addr) ?m =
      Some (1, store32 ?m addr (htonl (word_of_bytes (m (src + 3)) (m (src + 2)) (m (src + 1)) (m src))))"
    by (simp add: txc_libc_inet_aton_def aton_address_quad)
  moreover have "bytes_at (store32 ?m addr (htonl (word_of_bytes (m (src + 3)) (m (src + 2)) (m (src + 1)) (m src)))) addr 4 = bytes_at m src 4"
    using bytes_at_store_at [of "[m src, m (src + 1), m (src + 2), m (src + 3)]" ?m addr]
    by (simp add: store32_def htonl_def bytes_of_word_of_bytes) (simp add: bytes_at_def upt_rec)
  ultimately show ?thesis using print by blast
qed

theorem inet_roundtrip_witness:
  "\<exists>m' m''. txc_libc_inet_ntop AF_INET 100 200 16 sample_memory = Some (Inr 200, m') \<and>
    txc_libc_inet_aton 200 (Some 300) m' = Some (1, m'') \<and> bytes_at m'' 300 4 = [104, 105, 0, 0]"
  using inet_roundtrip [of 16 100 200 sample_memory 300] by (simp add: bytes_at_def upt_rec sample_memory_def)


section \<open>atoi and htons\<close>

lemma digit_char: "48 \<le> c \<and> c \<le> 57 \<longleftrightarrow> digit c < 10"
  by (auto simp: digit_def word_le_nat_alt)

lemma digit_word: "digit c < 10 \<Longrightarrow> (ucast c :: u32) - 48 = of_nat (digit c)"
proof -
  assume "digit c < 10"
  then have c: "48 \<le> unat c" "digit c = unat c - 48" using digit_char [of c] by (simp_all add: digit_def word_le_nat_alt)
  have "(ucast c :: u32) = of_nat (unat c)"
    using unat_byte [of c] by (simp add: word_unat_eq_iff unsigned_ucast_eq take_bit_nat_eq_self unat_of_nat_u32)
  with c show ?thesis by (simp add: of_nat_diff)
qed

lemma atoi_digits_list:
  assumes "cstring m p (ds @ rest)" "\<forall>d \<in> set ds. digit d < 10" "\<not> digit (hd (rest @ [0])) < 10"
  shows "atoi_digits p (of_nat v) m = Some (of_nat (foldl (\<lambda>v d. v * 10 + digit d) v ds))"
  using assms(1,2)
proof (induction ds arbitrary: p v)
  case Nil
  then show ?case using assms(3) cstring_hd [of m p rest] by (subst atoi_digits.simps) (simp add: digit_char)
next
  case (Cons d ds)
  then have "of_nat v * 10 + ucast d - 48 = (of_nat (v * 10 + digit d) :: u32)"
    using digit_word [of d] by (simp add: algebra_simps)
  with Cons.IH [of "p + 1" "v * 10 + digit d"] Cons.prems show ?case
    by (subst atoi_digits.simps) (simp add: cstring_Cons digit_char del: of_nat_add of_nat_mult)
qed

text \<open>\<^verbatim>\<open>atoi\<close> reads a decimal number with leading blanks and a sign, modulo \<open>2\<^sup>3\<^sup>2\<close>.\<close>

lemma atoi_decimal:
  assumes "cstring m p (replicate k 32 @ (if neg then [45] else []) @ decimal n @ rest)" "\<not> digit (hd (rest @ [0])) < 10"
  shows "txc_libc_atoi p m = Some (if neg then - of_nat n else of_nat n)"
proof -
  have skip: "skip_blanks p m = Some (p + of_nat k)"
    if "cstring m p (replicate k 32 @ bs)" "hd (bs @ [0]) \<noteq> 32" "hd (bs @ [0]) \<noteq> 9" for k bs
    using that
  proof (induction k arbitrary: p)
    case 0
    then show ?case using cstring_hd [of m p bs] by (subst skip_blanks.simps) simp
  next
    case (Suc k)
    then show ?case by (subst skip_blanks.simps) (simp add: cstring_Cons add.assoc)
  qed
  obtain d bs where d: "decimal n = (48 + of_nat d) # bs" "d < 10" using decimal_hd by blast
  have "isspace 32" "isspace 9" by (simp_all add: isspace_def word_le_nat_alt)
  then have nb: "(48 + of_nat d :: byte) \<noteq> 32" "(48 + of_nat d :: byte) \<noteq> 9" using byte_digit(1) [OF d(2)] by metis+
  let ?q = "p + of_nat k"
  have "skip_blanks p m = Some ?q" using skip [OF assms(1)] d nb by auto
  moreover have q: "cstring m ?q ((if neg then [45] else []) @ decimal n @ rest)"
    using cstring_append [OF assms(1)] by simp
  moreover have "atoi_digits r 0 m = Some (of_nat n)" if "cstring m r (decimal n @ rest)" for r
    using atoi_digits_list [OF that _ assms(2), of 0] decimal_digits decimal_value [of n] by auto
  ultimately show ?thesis using byte_digit [OF d(2)] d(1)
    by (cases neg) (auto simp: txc_libc_atoi_def Let_def cstring_Cons)
qed

lemma htons_involution: "txc_libc_htons (txc_libc_htons x) = x"
  by (rule bit_word_eqI) (auto simp: txc_libc_htons_def bit_simps)

end
