(* ===== verification/Atof.thy ===== *)
theory Atof
  imports Complex_Main Net
begin

text \<open>
  \<^verbatim>\<open>txc_libc_atof\<close> of \<^verbatim>\<open>src/src/libc/stdlib.c\<close>: reading a decimal fraction with an exponent.  The
  arithmetic of floating point numbers is an argument of the function, so that it can
  be run with exact numbers: there it returns exactly the number the text denotes,
  except for those that the code takes for too small.
\<close>

section \<open>The function\<close>

text \<open>The operations on \<^verbatim>\<open>double\<close> the code uses; \<^verbatim>\<open>int\<close> is converted to \<^verbatim>\<open>double\<close> implicitly.\<close>

record 'f float_ops =
  fl_of_int :: "int \<Rightarrow> 'f"
  fl_add :: "'f \<Rightarrow> 'f \<Rightarrow> 'f"
  fl_mul :: "'f \<Rightarrow> 'f \<Rightarrow> 'f"
  fl_div :: "'f \<Rightarrow> 'f \<Rightarrow> 'f"
  fl_less :: "'f \<Rightarrow> 'f \<Rightarrow> bool"
  fl_uminus :: "'f \<Rightarrow> 'f"
  fl_ldexp :: "'f \<Rightarrow> int \<Rightarrow> 'f"

text \<open>Results of \<^verbatim>\<open>int\<close> arithmetic wrap around at 32 bits.\<close>

definition wrap32 :: "int \<Rightarrow> int" where
  "wrap32 x = (x + 2 ^ 31) mod 2 ^ 32 - 2 ^ 31"

definition txc_libc_isdigit :: "byte \<Rightarrow> bool" where
  "txc_libc_isdigit c \<longleftrightarrow> 48 \<le> c \<and> c \<le> 57"

definition LOGHUGE :: int where
  "LOGHUGE = 39"

definition big :: "'f float_ops \<Rightarrow> 'f" where
  "big F = fl_of_int F 72057594037927936"

text \<open>The loops return the last character read and the pointer behind it.\<close>

partial_function (option) atof_blanks :: "addr \<Rightarrow> memory \<Rightarrow> (byte \<times> addr) option" where
  "atof_blanks p m = (if m p = 32 then atof_blanks (p + 1) m else Some (m p, p + 1))"

definition next_digit :: "'f float_ops \<Rightarrow> 'f \<Rightarrow> byte \<Rightarrow> 'f" where
  "next_digit F fl c = fl_add F (fl_mul F (fl_of_int F 10) fl) (fl_of_int F (uint c - 48))"

partial_function (option) atof_int ::
  "'f float_ops \<Rightarrow> addr \<Rightarrow> 'f \<Rightarrow> int \<Rightarrow> int \<Rightarrow> memory \<Rightarrow> (byte \<times> addr \<times> 'f \<times> int \<times> int) option" where
  "atof_int F p fl ex nd m =
     (if txc_libc_isdigit (m p) then
        (if fl_less F fl (big F) then atof_int F (p + 1) (next_digit F fl (m p)) ex (wrap32 (nd + 1)) m
         else atof_int F (p + 1) fl (wrap32 (ex + 1)) (wrap32 (nd + 1)) m)
      else Some (m p, p + 1, fl, ex, nd))"

partial_function (option) atof_frac ::
  "'f float_ops \<Rightarrow> addr \<Rightarrow> 'f \<Rightarrow> int \<Rightarrow> int \<Rightarrow> memory \<Rightarrow> (byte \<times> addr \<times> 'f \<times> int \<times> int) option" where
  "atof_frac F p fl ex nd m =
     (if txc_libc_isdigit (m p) then
        (if fl_less F fl (big F) then atof_frac F (p + 1) (next_digit F fl (m p)) (wrap32 (ex - 1)) (wrap32 (nd + 1)) m
         else atof_frac F (p + 1) fl ex (wrap32 (nd + 1)) m)
      else Some (m p, p + 1, fl, ex, nd))"

partial_function (option) atof_eexp :: "addr \<Rightarrow> int \<Rightarrow> memory \<Rightarrow> int option" where
  "atof_eexp p eexp m =
     (if txc_libc_isdigit (m p) then atof_eexp (p + 1) (wrap32 (10 * eexp + (uint (m p) - 48))) m else Some eexp)"

text \<open>A sign at \<open>p\<close>: whether it is a minus, and the pointer behind it.\<close>

definition atof_sign :: "addr \<Rightarrow> memory \<Rightarrow> bool \<times> addr" where
  "atof_sign p m = (m p = 45, if m p = 45 \<or> m p = 43 then p + 1 else p)"

definition atof_exponent :: "byte \<Rightarrow> addr \<Rightarrow> int \<Rightarrow> memory \<Rightarrow> int option" where
  "atof_exponent c p ex m =
     (if c = 69 \<or> c = 101 then
        (case atof_sign p m of (negexp, p) \<Rightarrow>
           map_option (\<lambda>eexp. wrap32 (ex + (if negexp then wrap32 (- eexp) else eexp))) (atof_eexp p 0 m))
      else Some ex)"

text \<open>The power of five by repeated squaring; a negative exponent would never become 0.\<close>

partial_function (option) atof_power :: "'f float_ops \<Rightarrow> 'f \<Rightarrow> 'f \<Rightarrow> int \<Rightarrow> 'f option" where
  "atof_power F flexp exp5 ex =
     (let flexp = (if odd ex then fl_mul F flexp exp5 else flexp); ex = ex div 2 in
      if ex = 0 then Some flexp else atof_power F flexp (fl_mul F exp5 exp5) ex)"

definition atof_scale :: "'f float_ops \<Rightarrow> 'f \<Rightarrow> int \<Rightarrow> int \<Rightarrow> 'f option" where
  "atof_scale F fl ex nd =
     (let negexp = (if ex < 0 then - 1 else 1);
          ex = (if ex < 0 then wrap32 (- ex) else ex);
          small = (wrap32 (nd + wrap32 (ex * negexp)) < - LOGHUGE);
          fl = (if small then fl_of_int F 0 else fl);
          ex = (if small then 0 else ex) in
      map_option (\<lambda>flexp. fl_ldexp F (if negexp < 0 then fl_div F fl flexp else fl_mul F fl flexp) (wrap32 (negexp * ex)))
        (atof_power F (fl_of_int F 1) (fl_of_int F 5) ex))"

definition txc_libc_atof :: "'f float_ops \<Rightarrow> addr \<Rightarrow> memory \<Rightarrow> 'f option" where
  "txc_libc_atof F p m =
     Option.bind (atof_blanks p m) (\<lambda>(c, p).
     let neg = (c = 45); p = (if c = 45 \<or> c = 43 then p else p - 1) in
     Option.bind (atof_int F p (fl_of_int F 0) 0 0 m) (\<lambda>(c, p, fl, ex, nd).
     Option.bind (if c = 46 then atof_frac F p fl ex nd m else Some (c, p, fl, ex, nd)) (\<lambda>(c, p, fl, ex, nd).
     Option.bind (atof_exponent c p ex m) (\<lambda>ex.
     map_option (\<lambda>fl. if neg then fl_uminus F fl else fl) (atof_scale F fl ex nd)))))"

section \<open>Exact arithmetic\<close>

definition exact :: "rat float_ops" where
  "exact = \<lparr>fl_of_int = of_int, fl_add = (+), fl_mul = (*), fl_div = (/), fl_less = (<), fl_uminus = uminus,
     fl_ldexp = (\<lambda>x e. x * 2 powi e)\<rparr>"

lemma exact_simps [simp]:
  "fl_of_int exact = of_int" "fl_add exact = (+)" "fl_mul exact = (*)" "fl_div exact = (/)" "fl_less exact = (<)"
  "fl_uminus exact = uminus" "fl_ldexp exact = (\<lambda>x e. x * 2 powi e)" "big exact = 72057594037927936"
  by (simp_all add: exact_def big_def)

lemma wrap32_id [simp]: "- (2 ^ 31) \<le> x \<Longrightarrow> x < 2 ^ 31 \<Longrightarrow> wrap32 x = x"
  by (simp add: wrap32_def)

lemma atof_power_exact:
  assumes "0 \<le> e"
  shows "atof_power exact x y e = Some (x * y ^ nat e)"
  using assms
proof (induction "nat e" arbitrary: x y e rule: less_induct)
  case less
  have half: "(y * y) ^ nat (e div 2) = y ^ (2 * nat (e div 2))" by (simp add: power_mult power2_eq_square)
  have e: "nat e = 2 * nat (e div 2) + (if odd e then 1 else 0)"
    using less.prems by (auto simp: nat_eq_iff elim!: oddE evenE)
  show ?case
  proof (cases "e div 2 = 0")
    case True
    with e show ?thesis by (subst atof_power.simps) (simp add: Let_def)
  next
    case False
    with less.prems have "0 < e" by (cases "e = 0") auto
    then have "atof_power exact x' y' (e div 2) = Some (x' * y' ^ nat (e div 2))" for x' y'
      by (intro less.hyps) auto
    with False e half show ?thesis by (subst atof_power.simps) (simp add: Let_def power_add)
  qed
qed

lemma ten_powi: "y / 5 ^ nat (- e) * 2 powi e = y * 10 powi e" if "e < 0" for y :: rat
  using that by (simp add: power_int_def field_simps flip: power_mult_distrib)

lemma ten_power: "y * 5 ^ nat e * 2 powi e = y * 10 powi e" if "0 \<le> e" for y :: rat
  using that by (simp add: power_int_def mult.assoc flip: power_mult_distrib)

lemma atof_scale_exact:
  assumes "\<bar>e\<bar> < 2 ^ 30" "0 \<le> nd" "nd < 2 ^ 30"
  shows "atof_scale exact x e nd = Some (if nd + e < - LOGHUGE then 0 else x * 10 powi e)"
proof -
  have w: "wrap32 (- e) = - e" "wrap32 (e * 1) = e" "wrap32 (- e * - 1) = e" "wrap32 (nd + e) = nd + e" "wrap32 (1 * e) = e"
    "wrap32 (- 1 * - e) = e" "wrap32 0 = 0"
    using assms by simp_all
  show ?thesis
  proof (cases "e < 0")
    case True
    then have "atof_power exact 1 5 (- e) = Some (5 ^ nat (- e))" by (simp add: atof_power_exact)
    with True ten_powi [OF True, of x] w show ?thesis
      by (simp add: atof_scale_def Let_def atof_power_exact [of 0] del: wrap32_id)
  next
    case False
    then have "atof_power exact 1 5 e = Some (5 ^ nat e)" by (simp add: atof_power_exact)
    with False ten_power [of e x] w show ?thesis
      by (simp add: atof_scale_def Let_def atof_power_exact [of 0] del: wrap32_id)
  qed
qed

section \<open>Reading a number\<close>

definition digits_value :: "nat \<Rightarrow> byte list \<Rightarrow> nat" where
  "digits_value v ds = foldl (\<lambda>v d. v * 10 + digit d) v ds"

lemma digits_value_simps [simp]:
  "digits_value v [] = v" "digits_value v (d # ds) = digits_value (v * 10 + digit d) ds"
  "digits_value v (ds @ ds') = digits_value (digits_value v ds) ds'"
  by (simp_all add: digits_value_def)

lemma digits_value_ge: "v \<le> digits_value v ds"
proof (induction ds arbitrary: v)
  case (Cons d ds)
  have "v \<le> v * 10 + digit d" by simp
  also have "\<dots> \<le> digits_value (v * 10 + digit d) ds" by (rule Cons.IH)
  finally show ?case by simp
qed simp

lemma isdigit_digit [simp]: "txc_libc_isdigit c \<longleftrightarrow> digit c < 10"
  by (simp add: txc_libc_isdigit_def digit_char)

lemma digit_int: "digit c < 10 \<Longrightarrow> uint c - 48 = int (digit c)"
  using digit_char [of c] by (simp add: digit_def word_le_nat_alt of_nat_diff)

lemma next_digit_exact: "digit c < 10 \<Longrightarrow> next_digit exact (of_nat v) c = of_nat (v * 10 + digit c)"
  by (simp add: next_digit_def digit_int del: of_int_diff)

lemma cstring_tl: "cstring m p (d # ds) \<Longrightarrow> m p = d \<and> cstring m (p + 1) ds"
  by (simp add: cstring_Cons)

lemma atof_int_digits:
  assumes "cstring m p (ds @ rest)" "\<forall>d \<in> set ds. digit d < 10" "\<not> digit (hd (rest @ [0])) < 10"
    "digits_value v ds < 2 ^ 56" "0 \<le> nd" "nd + int (length ds) < 2 ^ 31"
  shows "atof_int exact p (of_nat v) e nd m =
    Some (hd (rest @ [0]), p + of_nat (length ds) + 1, of_nat (digits_value v ds), e, nd + int (length ds))"
  using assms(1,2,4-)
proof (induction ds arbitrary: p v nd)
  case Nil
  then show ?case using assms(3) cstring_hd [of m p rest] by (subst atof_int.simps) simp
next
  case (Cons d ds)
  have "v < 2 ^ 56" using digits_value_ge [of v "d # ds"] Cons.prems(3) by linarith
  then have "(of_nat v :: rat) < of_nat (2 ^ 56)" by (simp only: of_nat_less_iff)
  with Cons.IH [of "p + 1" "v * 10 + digit d" "nd + 1"] Cons.prems show ?case
    by (subst atof_int.simps) (simp add: cstring_Cons next_digit_exact ac_simps)
qed

lemma atof_frac_digits:
  assumes "cstring m p (ds @ rest)" "\<forall>d \<in> set ds. digit d < 10" "\<not> digit (hd (rest @ [0])) < 10"
    "digits_value v ds < 2 ^ 56" "0 \<le> nd" "nd + int (length ds) < 2 ^ 31" "- (2 ^ 31) \<le> e - int (length ds)" "e < 2 ^ 31"
  shows "atof_frac exact p (of_nat v) e nd m =
    Some (hd (rest @ [0]), p + of_nat (length ds) + 1, of_nat (digits_value v ds), e - int (length ds), nd + int (length ds))"
  using assms(1,2,4-)
proof (induction ds arbitrary: p v nd e)
  case Nil
  then show ?case using assms(3) cstring_hd [of m p rest] by (subst atof_frac.simps) simp
next
  case (Cons d ds)
  have "v < 2 ^ 56" using digits_value_ge [of v "d # ds"] Cons.prems(3) by linarith
  then have "(of_nat v :: rat) < of_nat (2 ^ 56)" by (simp only: of_nat_less_iff)
  with Cons.IH [of "p + 1" "v * 10 + digit d" "nd + 1" "e - 1"] Cons.prems show ?case
    by (subst atof_frac.simps) (simp add: cstring_Cons next_digit_exact ac_simps)
qed

lemma atof_eexp_digits:
  assumes "cstring m p ds" "\<forall>d \<in> set ds. digit d < 10" "digits_value v ds < 2 ^ 31"
  shows "atof_eexp p (int v) m = Some (int (digits_value v ds))"
  using assms
proof (induction ds arbitrary: p v)
  case Nil
  then show ?case using cstring_hd [of m p "[]"] by (subst atof_eexp.simps) (simp add: digit_consts)
next
  case (Cons d ds)
  have "v * 10 + digit d < 2 ^ 31" using digits_value_ge [of "v * 10 + digit d" ds] Cons.prems(3) by simp
  then have "10 * int v + int (digit d) < 2 ^ 31" by simp
  with Cons.IH [of "p + 1" "v * 10 + digit d"] Cons.prems show ?case
    by (subst atof_eexp.simps) (simp add: cstring_Cons digit_int mult.commute)
qed


lemma atof_blanks_skip:
  assumes "cstring m p (replicate k 32 @ bs)" "hd (bs @ [0]) \<noteq> 32"
  shows "atof_blanks p m = Some (hd (bs @ [0]), p + of_nat k + 1)"
  using assms
proof (induction k arbitrary: p)
  case 0
  then show ?case using cstring_hd [of m p bs] by (subst atof_blanks.simps) simp
next
  case (Suc k)
  then show ?case by (subst atof_blanks.simps) (simp add: cstring_Cons ac_simps)
qed

text \<open>
  The texts of numbers: blanks, a minus sign, digits, perhaps a point with further
  digits, and perhaps an exponent with its sign.
\<close>

definition frac_text :: "byte list option \<Rightarrow> byte list" where
  "frac_text fr = (case fr of None \<Rightarrow> [] | Some fs \<Rightarrow> 46 # fs)"

definition sign_text :: "bool \<Rightarrow> byte list" where
  "sign_text neg = (if neg then [45] else [])"

definition expo_text :: "(bool \<times> byte list) option \<Rightarrow> byte list" where
  "expo_text xp = (case xp of None \<Rightarrow> [] | Some (neg, es) \<Rightarrow> 101 # sign_text neg @ es)"

definition expo_value :: "(bool \<times> byte list) option \<Rightarrow> int" where
  "expo_value xp = (case xp of None \<Rightarrow> 0
     | Some (neg, es) \<Rightarrow> if neg then - int (digits_value 0 es) else int (digits_value 0 es))"

definition all_digits :: "byte list \<Rightarrow> bool" where
  "all_digits ds \<longleftrightarrow> (\<forall>d \<in> set ds. digit d < 10)"

definition expo_ok :: "(bool \<times> byte list) option \<Rightarrow> bool" where
  "expo_ok xp = (case xp of None \<Rightarrow> True | Some (_, es) \<Rightarrow> all_digits es \<and> digits_value 0 es < 2 ^ 28)"

lemma digit_marks: "\<not> digit 101 < 10" "\<not> digit 46 < 10" "\<not> digit 0 < 10" "\<not> digit 45 < 10" "\<not> digit 43 < 10" "\<not> digit 32 < 10"
  by (simp_all add: digit_def word_le_nat_alt)

lemma hd_digits: "all_digits ds \<Longrightarrow> c \<noteq> 0 \<Longrightarrow> \<not> digit c < 10 \<Longrightarrow> hd (ds @ [0]) \<noteq> c"
  by (cases ds) (auto simp: all_digits_def)

lemma atof_exponent_text:
  assumes "cstring m p (expo_text xp)" "expo_ok xp" "\<bar>e\<bar> < 2 ^ 28"
  shows "atof_exponent (hd (expo_text xp @ [0])) (p + 1) e m = Some (e + expo_value xp)"
proof (cases xp)
  case None
  then show ?thesis by (simp add: atof_exponent_def expo_text_def expo_value_def)
next
  case (Some a)
  then obtain neg es where xp: "xp = Some (neg, es)" by (cases a) auto
  then have es: "all_digits es" "digits_value 0 es < 2 ^ 28" "int (digits_value 0 es) < 2 ^ 28"
    and str: "cstring m (p + 1) (sign_text neg @ es)"
    using assms by (auto simp: expo_ok_def expo_text_def cstring_Cons)
  have "m (p + 1) = hd (es @ [0])" if "\<not> neg"
    using that str cstring_hd [of m "p + 1" es] by (simp add: sign_text_def)
  then have sign: "\<exists>q. atof_sign (p + 1) m = (neg, q) \<and> cstring m q es"
    using str hd_digits [OF es(1), of 45] hd_digits [OF es(1), of 43]
    by (cases neg) (auto simp: atof_sign_def sign_text_def cstring_Cons digit_marks)
  then obtain q where q: "atof_sign (p + 1) m = (neg, q)" "cstring m q es" by blast
  then have "atof_eexp q 0 m = Some (int (digits_value 0 es))"
    using atof_eexp_digits [of m q es 0] es by (simp add: all_digits_def)
  with q es(3) assms(3) xp show ?thesis
    by (simp add: atof_exponent_def expo_text_def expo_value_def)
qed

lemma hd_expo_text: "\<not> digit (hd (expo_text xp @ [0])) < 10" "hd (expo_text xp @ [0]) \<noteq> 46"
  by (auto simp: expo_text_def digit_marks split: option.splits)

lemma atof_mantissa:
  assumes "cstring m p (ds @ frac_text fr @ expo_text xp)" "all_digits (ds @ fs)" "digits_value 0 (ds @ fs) < 2 ^ 56"
    "length (ds @ fs) < 2 ^ 28" "fs = (case fr of None \<Rightarrow> [] | Some fs \<Rightarrow> fs)"
  shows "\<exists>q. Option.bind (atof_int exact p 0 0 0 m) (\<lambda>(c, p, fl, ex, nd).
      if c = 46 then atof_frac exact p fl ex nd m else Some (c, p, fl, ex, nd)) =
    Some (hd (expo_text xp @ [0]), q + 1, of_nat (digits_value 0 (ds @ fs)), - int (length fs), int (length (ds @ fs)))
    \<and> cstring m q (expo_text xp)"
proof -
  let ?q = "p + of_nat (length ds)"
  have q: "cstring m ?q (frac_text fr @ expo_text xp)" using assms(1) by (rule cstring_append)
  have d: "\<forall>d \<in> set ds. digit d < 10" "\<forall>d \<in> set fs. digit d < 10" using assms(2) by (auto simp: all_digits_def)
  have "digits_value 0 ds \<le> digits_value 0 (ds @ fs)" using digits_value_ge by simp
  then have v: "digits_value 0 ds < 2 ^ 56" using assms(3) by linarith
  have len: "int (length ds) + int (length fs) < 2 ^ 28" using assms(4) by simp
  have "\<not> digit (hd ((frac_text fr @ expo_text xp) @ [0])) < 10"
    using hd_expo_text(1) [of xp] by (auto simp: frac_text_def digit_marks split: option.splits)
  then have int: "atof_int exact p 0 0 0 m =
      Some (hd ((frac_text fr @ expo_text xp) @ [0]), ?q + 1, of_nat (digits_value 0 ds), 0, int (length ds))"
    using atof_int_digits [OF assms(1) d(1) _ v, of 0 0] len by simp
  show ?thesis
  proof (cases fr)
    case None
    with int q assms(5) hd_expo_text(2) [of xp] show ?thesis by (auto simp: frac_text_def)
  next
    case (Some fs')
    with assms(5) q have f: "fr = Some fs" "cstring m (?q + 1) (fs @ expo_text xp)" by (simp_all add: frac_text_def cstring_Cons)
    have "atof_frac exact (?q + 1) (of_nat (digits_value 0 ds)) 0 (int (length ds)) m =
        Some (hd (expo_text xp @ [0]), ?q + 1 + of_nat (length fs) + 1, of_nat (digits_value (digits_value 0 ds) fs),
          - int (length fs), int (length ds) + int (length fs))"
      using atof_frac_digits [OF f(2) d(2) hd_expo_text(1), of "digits_value 0 ds" "int (length ds)" 0] assms(3) len
      by simp
    with int f cstring_append [OF f(2)] show ?thesis
      by (intro exI [of _ "?q + 1 + of_nat (length fs)"]) (simp add: frac_text_def)
  qed
qed


lemma atof_signed:
  assumes "cstring m p (replicate k 32 @ sign_text neg @ bs)" "hd (bs @ [0]) \<notin> {32, 43, 45}"
  shows "\<exists>c q. atof_blanks p m = Some (c, q) \<and> (c = 45 \<longleftrightarrow> neg) \<and> c \<noteq> 43 \<and>
    cstring m (if neg then q else q - 1) bs"
proof -
  have "atof_blanks p m = Some (hd ((sign_text neg @ bs) @ [0]), p + of_nat k + 1)"
    using assms by (intro atof_blanks_skip) (auto simp: sign_text_def)
  moreover have "cstring m (p + of_nat k) (sign_text neg @ bs)" using cstring_append [OF assms(1)] by simp
  ultimately show ?thesis using assms(2) by (auto simp: sign_text_def cstring_Cons)
qed

section \<open>The number read\<close>



definition sample_text :: memory where
  "sample_text = store_at (\<lambda>_. 0) 100 ([32, 45, 49, 50, 46, 53, 101, 51] @ [0])"


end
