(* ===== verification/Condvar.thy ===== *)
theory Condvar
  imports Prelude
begin

text \<open>
  Transactional condition variables, \<^verbatim>\<open>src/src/xcalls/condvar/futex.c\<close> and the macros of
  \<^verbatim>\<open>condvar.h\<close>.  Threads interleave at every access to the shared event counter and at
  every futex system call, so each function is the list of its atomic steps and a state
  machine runs the steps of many threads.  The system calls behave as documented:
  \<^verbatim>\<open>FUTEX_WAIT\<close> compares and blocks in one step, \<^verbatim>\<open>FUTEX_WAKE\<close> wakes any threads up to the
  given number, and a blocked thread may wake up for no reason.
\<close>

section \<open>Functions as sequences of atomic steps\<close>

record txc_cond_event =
  event :: u32
  loops :: u32

definition txc_cond_event_init :: txc_cond_event where
  "txc_cond_event_init = \<lparr>event = 0, loops = 0\<rparr>"

text \<open>
  \<open>Load\<close> and \<open>Store\<close> are the two halves of \<^verbatim>\<open>ev->event++\<close> outside of a transaction;
  \<open>Tm_increment\<close> is the increment in a transaction, which updates in place and excludes
  other transactions.  \<open>Get\<close> reads the counter for a later wait and \<open>Test\<close> is the comparison
  before that wait.
\<close>

datatype act = Load | Store | Tm_increment | Get | Inc_loops | Test | Futex_wait | Futex_wake nat

definition INT_MAX :: nat where
  "INT_MAX = 2 ^ 31 - 1"

definition futex_wait :: "act list" where
  "futex_wait = [Futex_wait]"

definition futex_wake :: "nat \<Rightarrow> act list" where
  "futex_wake nwake = [Futex_wake nwake]"

definition txc_cond_event_signal :: "act list" where
  "txc_cond_event_signal = [Load, Store] @ futex_wake 1"

definition txc_cond_event_tm_signal_body :: "act list" where
  "txc_cond_event_tm_signal_body = futex_wake 1"

definition txc_cond_event_tm_signal :: "act list" where
  "txc_cond_event_tm_signal = [Tm_increment] @ txc_cond_event_tm_signal_body"

definition txc_cond_event_broadcast :: "act list" where
  "txc_cond_event_broadcast = [Load, Store] @ futex_wake INT_MAX"

definition txc_cond_event_get :: "act list" where
  "txc_cond_event_get = [Get]"

definition txc_cond_event_wait :: "act list" where
  "txc_cond_event_wait = [Get] @ futex_wait"

definition txc_cond_event_deferred_wait :: "act list" where
  "txc_cond_event_deferred_wait = [Test] @ futex_wait"

definition txc_cond_event_inc :: "act list" where
  "txc_cond_event_inc = [Inc_loops]"

text \<open>
  \<^verbatim>\<open>txc_cond_wait\<close> inside \<^verbatim>\<open>COND_XACT_BEGIN\<close> and \<^verbatim>\<open>COND_XACT_END\<close>: the transaction remembers the counter
  and commits, the wait is done behind it, and a new transaction resumes at the label.
\<close>

definition txc_cond_wait :: "act list" where
  "txc_cond_wait = txc_cond_event_inc @ txc_cond_event_get @ txc_cond_event_deferred_wait"

datatype call = Cond_wait | Event_wait | Event_signal | Event_tm_signal | Event_broadcast

fun body :: "call \<Rightarrow> act list" where
  "body Cond_wait = txc_cond_wait"
| "body Event_wait = txc_cond_event_wait"
| "body Event_signal = txc_cond_event_signal"
| "body Event_tm_signal = txc_cond_event_tm_signal"
| "body Event_broadcast = txc_cond_event_broadcast"

section \<open>Threads\<close>

text \<open>
  A thread has steps to do, a register and may be asleep in the kernel.  Three fields are
  bookkeeping for the theorems and are never read by a step: \<open>count\<close> counts the increments,
  \<open>seen t\<close> is its value when thread \<open>t\<close> last read the counter for a wait (and its number
  when \<open>t\<close> last incremented), and \<open>completed\<close> is the number of the latest increment whose
  broadcast has finished.
\<close>

record cond_state =
  ev :: txc_cond_event
  todo :: "nat \<Rightarrow> act list"
  reg :: "nat \<Rightarrow> u32"
  asleep :: "nat \<Rightarrow> bool"
  count :: nat
  seen :: "nat \<Rightarrow> nat"
  completed :: nat

definition cond_init :: cond_state where
  "cond_init = \<lparr>ev = txc_cond_event_init, todo = \<lambda>_. [], reg = \<lambda>_. 0, asleep = \<lambda>_. False,
     count = 0, seen = \<lambda>_. 0, completed = 0\<rparr>"

definition increment :: "nat \<Rightarrow> u32 \<Rightarrow> cond_state \<Rightarrow> cond_state" where
  "increment t v s = s\<lparr>ev := (ev s)\<lparr>event := v\<rparr>, count := Suc (count s), seen := (seen s)(t := Suc (count s))\<rparr>"

definition sleepers :: "nat \<Rightarrow> cond_state \<Rightarrow> nat list" where
  "sleepers N s = filter (asleep s) [0..<N]"

text \<open>
  The kernel's choice \<open>ws\<close> of threads to wake is legal when it takes all sleepers, or as
  many as were asked for.
\<close>

definition wakes :: "nat \<Rightarrow> nat \<Rightarrow> nat list \<Rightarrow> cond_state \<Rightarrow> bool" where
  "wakes N n ws s \<longleftrightarrow> distinct ws \<and> set ws \<subseteq> set (sleepers N s) \<and>
     length ws = min n (length (sleepers N s))"

text \<open>
  One atomic step of thread \<open>t\<close>.  With \<open>racy = False\<close> a store is possible only while the
  loaded value is current, that is, increments do not interleave.
\<close>

fun act_step :: "bool \<Rightarrow> nat \<Rightarrow> nat list \<Rightarrow> nat \<Rightarrow> act \<Rightarrow> cond_state \<Rightarrow> cond_state option" where
  "act_step racy N ws t Load s = Some (s\<lparr>reg := (reg s)(t := event (ev s))\<rparr>)"
| "act_step racy N ws t Store s =
     (if racy \<or> reg s t = event (ev s) then Some (increment t (reg s t + 1) s) else None)"
| "act_step racy N ws t Tm_increment s = Some (increment t (event (ev s) + 1) s)"
| "act_step racy N ws t Get s =
     Some (s\<lparr>reg := (reg s)(t := event (ev s)), seen := (seen s)(t := count s)\<rparr>)"
| "act_step racy N ws t Inc_loops s = Some (s\<lparr>ev := (ev s)\<lparr>loops := loops (ev s) + 1\<rparr>\<rparr>)"
| "act_step racy N ws t Test s =
     Some (if reg s t = event (ev s) then s else s\<lparr>todo := (todo s)(t := tl (todo s t))\<rparr>)"
| "act_step racy N ws t Futex_wait s =
     Some (if reg s t = event (ev s) then s\<lparr>asleep := (asleep s)(t := True)\<rparr> else s)"
| "act_step racy N ws t (Futex_wake n) s =
     (if wakes N n ws s
      then Some (s\<lparr>asleep := \<lambda>u. asleep s u \<and> u \<notin> set ws,
                   completed := if n = INT_MAX then max (completed s) (seen s t) else completed s\<rparr>)
      else None)"

text \<open>
  Moves of the machine: a running thread calls a function, a thread runs its next step,
  or a sleeping thread wakes up by itself.
\<close>

datatype move = Call nat call | Run nat "nat list" | Spurious nat

fun cond_move :: "bool \<Rightarrow> nat \<Rightarrow> move \<Rightarrow> cond_state \<Rightarrow> cond_state option" where
  "cond_move racy N (Call t f) s =
     (if t < N \<and> todo s t = [] \<and> \<not> asleep s t then Some (s\<lparr>todo := (todo s)(t := body f)\<rparr>) else None)"
| "cond_move racy N (Run t ws) s =
     (if t < N \<and> \<not> asleep s t then
        case todo s t of
          [] \<Rightarrow> None
        | a # as \<Rightarrow> act_step racy N ws t a (s\<lparr>todo := (todo s)(t := as)\<rparr>)
      else None)"
| "cond_move racy N (Spurious t) s = (if asleep s t then Some (s\<lparr>asleep := (asleep s)(t := False)\<rparr>) else None)"

primrec cond_run :: "bool \<Rightarrow> nat \<Rightarrow> move list \<Rightarrow> cond_state \<Rightarrow> cond_state option" where
  "cond_run racy N [] s = Some s"
| "cond_run racy N (mv # mvs) s = Option.bind (cond_move racy N mv s) (cond_run racy N mvs)"

section \<open>Invariant\<close>

lemmas body_defs = futex_wait_def futex_wake_def txc_cond_event_signal_def txc_cond_event_tm_signal_body_def
  txc_cond_event_tm_signal_def txc_cond_event_broadcast_def txc_cond_event_get_def txc_cond_event_wait_def
  txc_cond_event_deferred_wait_def txc_cond_event_inc_def txc_cond_wait_def

text \<open>What a thread still has to do, and what its fields mean there.\<close>

definition waiting :: "act list \<Rightarrow> bool" where
  "waiting as \<longleftrightarrow> as = [Test, Futex_wait] \<or> as = [Futex_wait]"

definition thread_ok :: "cond_state \<Rightarrow> nat \<Rightarrow> bool" where
  "thread_ok s t \<longleftrightarrow>
     todo s t \<in> {[], [Inc_loops, Get, Test, Futex_wait], [Get, Test, Futex_wait], [Get, Futex_wait], [Test, Futex_wait],
       [Futex_wait], [Load, Store, Futex_wake 1], [Store, Futex_wake 1], [Futex_wake 1], [Tm_increment, Futex_wake 1],
       [Load, Store, Futex_wake INT_MAX], [Store, Futex_wake INT_MAX], [Futex_wake INT_MAX]} \<and>
     seen s t \<le> count s \<and>
     (waiting (todo s t) \<or> asleep s t \<longrightarrow> reg s t = of_nat (seen s t)) \<and>
     (asleep s t \<longrightarrow> todo s t = [] \<and> completed s \<le> seen s t)"

definition cond_ok :: "nat \<Rightarrow> cond_state \<Rightarrow> bool" where
  "cond_ok N s \<longleftrightarrow> event (ev s) = of_nat (count s) \<and> completed s \<le> count s \<and>
     (\<forall>t. thread_ok s t) \<and> (\<forall>t. asleep s t \<longrightarrow> t < N)"


lemma cond_ok_init: "cond_ok N cond_init"
  by (simp add: cond_ok_def thread_ok_def cond_init_def txc_cond_event_init_def waiting_def)

lemma count_mono: "cond_move racy N mv s = Some s' \<Longrightarrow> count s \<le> count s'"
  by (cases "(racy, N, mv, s)" rule: cond_move.cases)
    (auto split: if_splits list.splits elim!: act_step.elims simp: increment_def)

lemma run_count_mono: "cond_run racy N mvs s = Some s' \<Longrightarrow> count s \<le> count s'"
  by (induction mvs arbitrary: s) (auto simp: bind_eq_Some_conv dest: count_mono intro: order_trans)

text \<open>A broadcast wakes all sleepers, since there are fewer threads than \<^verbatim>\<open>INT_MAX\<close>.\<close>

lemma wakes_all:
  assumes "wakes N INT_MAX ws s" "N \<le> INT_MAX"
  shows "set ws = set (sleepers N s)"
proof -
  have "length (sleepers N s) \<le> N" using length_filter_le [of "asleep s" "[0..<N]"] by (simp add: sleepers_def)
  moreover have "distinct (sleepers N s)" by (simp add: sleepers_def)
  ultimately have "card (set ws) = card (set (sleepers N s))" "set ws \<subseteq> set (sleepers N s)"
    using assms by (simp_all add: wakes_def distinct_card)
  then show ?thesis by (simp add: card_subset_eq)
qed

lemma broadcast_wakes: "wakes N INT_MAX ws s \<Longrightarrow> N \<le> INT_MAX \<Longrightarrow> asleep s u \<Longrightarrow> u < N \<Longrightarrow> u \<in> set ws"
  using wakes_all [of N ws s] by (simp add: sleepers_def)

lemma of_nat_u32_inj: "a < 2 ^ 32 \<Longrightarrow> b < 2 ^ 32 \<Longrightarrow> (of_nat a :: u32) = of_nat b \<longleftrightarrow> a = b"
  by (metis unat_of_nat_u32)

lemma cond_okI:
  assumes "cond_ok N s" "event (ev s') = of_nat (count s')" "completed s' \<le> count s'" "count s \<le> count s'"
    and "thread_ok s' t" "asleep s' t \<longrightarrow> t < N"
    and "\<And>u. u \<noteq> t \<Longrightarrow> todo s' u = todo s u \<and> reg s' u = reg s u \<and> seen s' u = seen s u \<and>
      (asleep s' u \<longrightarrow> asleep s u \<and> completed s' \<le> seen s u)"
  shows "cond_ok N s'"
proof -
  have "thread_ok s' u" for u
  proof (cases "u = t")
    case False
    moreover have "thread_ok s u" using assms(1) by (simp add: cond_ok_def)
    ultimately show ?thesis using assms(4) assms(7) [OF False] unfolding thread_ok_def by (auto intro: order_trans)
  qed (use assms(5) in simp)
  moreover have "u < N" if "asleep s' u" for u
    using that assms(1,6) assms(7) [of u] by (cases "u = t") (auto simp: cond_ok_def)
  ultimately show ?thesis using assms(2,3) by (simp add: cond_ok_def)
qed

lemma asleep_seen: "cond_ok N s \<Longrightarrow> asleep s u \<Longrightarrow> completed s \<le> seen s u"
  by (simp add: cond_ok_def thread_ok_def)

lemma cond_ok_run:
  assumes "cond_ok N s" "t < N" "\<not> asleep s t" "todo s t = a # as"
    "act_step False N ws t a (s\<lparr>todo := (todo s)(t := as)\<rparr>) = Some s'" "count s' < 2 ^ 32" "N \<le> INT_MAX"
  shows "cond_ok N s'"
proof (rule cond_okI [OF assms(1), where t = t])
  have T: "thread_ok s t" and S: "event (ev s) = of_nat (count s)" "completed s \<le> count s"
    using assms(1) by (simp_all add: cond_ok_def)
  note facts = assms(2-7) T S
  show "event (ev s') = of_nat (count s')"
    using facts by (cases a) (auto simp: increment_def split: if_splits)
  show "completed s' \<le> count s'"
    using facts by (cases a) (auto simp: increment_def thread_ok_def split: if_splits)
  show "count s \<le> count s'"
    using facts by (cases a) (auto simp: increment_def split: if_splits)
  show "asleep s' t \<longrightarrow> t < N" using assms(2) by simp
  show "thread_ok s' t"
    using facts by (cases a) (auto simp: thread_ok_def increment_def waiting_def of_nat_u32_inj split: if_splits)
  fix u
  assume "u \<noteq> t"
  then show "todo s' u = todo s u \<and> reg s' u = reg s u \<and> seen s' u = seen s u \<and>
      (asleep s' u \<longrightarrow> asleep s u \<and> completed s' \<le> seen s u)"
    using facts asleep_seen [OF assms(1)] broadcast_wakes [of N ws "s\<lparr>todo := (todo s)(t := as)\<rparr>" u] assms(1)
    by (cases a) (auto simp: increment_def cond_ok_def split: if_splits)
qed


lemma cond_ok_move:
  assumes "cond_ok N s" "cond_move False N mv s = Some s'" "count s' < 2 ^ 32" "N \<le> INT_MAX"
  shows "cond_ok N s'"
proof (cases mv)
  case (Call t f)
  with assms(2) have "todo s t = []" "\<not> asleep s t" "t < N" "s' = s\<lparr>todo := (todo s)(t := body f)\<rparr>"
    by (simp_all split: if_splits)
  then show ?thesis using assms(1)
    by (cases f) (auto simp: cond_ok_def thread_ok_def waiting_def body_defs)
next
  case (Run t ws)
  with assms show ?thesis by (auto split: if_splits list.splits intro: cond_ok_run)
next
  case (Spurious t)
  with assms show ?thesis by (auto simp: cond_ok_def thread_ok_def split: if_splits)
qed

lemma cond_ok_reachable:
  "cond_run False N mvs s = Some s' \<Longrightarrow> cond_ok N s \<Longrightarrow> count s' < 2 ^ 32 \<Longrightarrow> N \<le> INT_MAX \<Longrightarrow> cond_ok N s'"
proof (induction mvs arbitrary: s)
  case (Cons mv mvs)
  then obtain s1 where "cond_move False N mv s = Some s1" "cond_run False N mvs s1 = Some s'"
    by (auto simp: bind_eq_Some_conv)
  moreover from this(2) have "count s1 < 2 ^ 32" using run_count_mono Cons.prems(3) by (meson le_less_trans)
  ultimately show ?case using Cons cond_ok_move by blast
qed simp


text \<open>A run with two waiters, of which one sleeps, and a broadcast in between.\<close>

definition sample_moves :: "move list" where
  "sample_moves = [Call 0 Cond_wait, Run 0 [], Run 0 [], Call 1 Event_wait, Run 1 [], Run 1 [],
     Call 2 Event_broadcast, Run 2 [], Run 2 [], Run 2 [1]]"

lemmas run_defs = cond_init_def txc_cond_event_init_def body_defs increment_def wakes_def sleepers_def INT_MAX_def



definition racing_moves :: "move list" where
  "racing_moves = [Call 2 Event_broadcast, Run 2 [], Call 1 Event_broadcast, Run 1 [], Run 1 [], Run 1 [],
     Call 0 Cond_wait, Run 0 [], Run 0 [], Run 2 [], Run 2 [], Run 0 [], Run 0 []]"


end
