(* ===== verification/Lowlevellock.thy ===== *)
theory Lowlevellock
  imports Prelude
begin

text \<open>
  The low level locks of \<^verbatim>\<open>src/src/xcalls/condvar/lowlevellock.h\<close>: macros that are one
  atomic instruction on the word of the lock and, if that is not enough, a call of
  a function of the C library that waits for the lock or wakes a waiter.  Those
  functions are not part of the repository: the steps they may take are parameters
  here, and what the macros rely on is stated as the contract they must keep.  Many
  threads use the macros on one lock in a state machine, whose invariant gives
  mutual exclusion.
\<close>

section \<open>Instructions\<close>

text \<open>
  \<^verbatim>\<open>cmpxchgl\<close> compares \<^verbatim>\<open>eax\<close> with the word: it returns the new word, the new value of \<^verbatim>\<open>eax\<close>
  and the zero flag.
\<close>

definition cmpxchgl :: "u32 \<Rightarrow> u32 \<Rightarrow> u32 \<Rightarrow> u32 \<times> u32 \<times> bool" where
  "cmpxchgl eax new w = (if w = eax then (new, eax, True) else (w, w, False))"

abbreviation (input) LLL_MUTEX_LOCK_INITIALIZER :: u32 where "LLL_MUTEX_LOCK_INITIALIZER \<equiv> 0"

abbreviation (input) LLL_MUTEX_LOCK_INITIALIZER_LOCKED :: u32 where "LLL_MUTEX_LOCK_INITIALIZER_LOCKED \<equiv> 1"

abbreviation (input) LLL_MUTEX_LOCK_INITIALIZER_WAITERS :: u32 where "LLL_MUTEX_LOCK_INITIALIZER_WAITERS \<equiv> 2"

text \<open>Bits of the word of a robust lock, as the kernel defines them.\<close>

abbreviation (input) FUTEX_WAITERS :: u32 where "FUTEX_WAITERS \<equiv> 0x80000000"

abbreviation (input) FUTEX_OWNER_DIED :: u32 where "FUTEX_OWNER_DIED \<equiv> 0x40000000"

text \<open>
  How a macro ends after its instruction: with a value, or in a function of the C
  library, which gets the value of \<^verbatim>\<open>eax\<close> and for timed locks the timeout.
\<close>

datatype external =
    Mutex_lock_wait u32
  | Robust_mutex_lock_wait u32
  | Mutex_timedlock_wait u32 addr
  | Robust_mutex_timedlock_wait u32 addr
  | Mutex_unlock_wake

datatype macro_end = Return u32 | Enter external

text \<open>\<open>on_failure\<close> is the jump to the stub when the zero flag is not set.\<close>

definition on_failure :: "(u32 \<Rightarrow> external) \<Rightarrow> u32 \<times> u32 \<times> bool \<Rightarrow> u32 \<times> macro_end" where
  "on_failure f = (\<lambda>(w, eax, zf). (w, if zf then Return eax else Enter (f eax)))"

section \<open>The macros for mutexes\<close>

definition lll_mutex_trylock :: "u32 \<Rightarrow> u32 \<times> macro_end" where
  "lll_mutex_trylock w =
     (case cmpxchgl LLL_MUTEX_LOCK_INITIALIZER LLL_MUTEX_LOCK_INITIALIZER_LOCKED w of (w, eax, _) \<Rightarrow> (w, Return eax))"

definition lll_robust_mutex_trylock :: "u32 \<Rightarrow> u32 \<Rightarrow> u32 \<times> macro_end" where
  "lll_robust_mutex_trylock ident w =
     (case cmpxchgl LLL_MUTEX_LOCK_INITIALIZER ident w of (w, eax, _) \<Rightarrow> (w, Return eax))"

definition lll_mutex_cond_trylock :: "u32 \<Rightarrow> u32 \<times> macro_end" where
  "lll_mutex_cond_trylock w =
     (case cmpxchgl LLL_MUTEX_LOCK_INITIALIZER LLL_MUTEX_LOCK_INITIALIZER_WAITERS w of (w, eax, _) \<Rightarrow> (w, Return eax))"

definition lll_mutex_lock :: "u32 \<Rightarrow> u32 \<times> macro_end" where
  "lll_mutex_lock w = on_failure Mutex_lock_wait (cmpxchgl 0 1 w)"

definition lll_robust_mutex_lock :: "u32 \<Rightarrow> u32 \<Rightarrow> u32 \<times> macro_end" where
  "lll_robust_mutex_lock ident w = on_failure Robust_mutex_lock_wait (cmpxchgl 0 ident w)"

definition lll_mutex_cond_lock :: "u32 \<Rightarrow> u32 \<times> macro_end" where
  "lll_mutex_cond_lock w = on_failure Mutex_lock_wait (cmpxchgl 0 2 w)"

definition lll_robust_mutex_cond_lock :: "u32 \<Rightarrow> u32 \<Rightarrow> u32 \<times> macro_end" where
  "lll_robust_mutex_cond_lock ident w = on_failure Robust_mutex_lock_wait (cmpxchgl 0 (or ident FUTEX_WAITERS) w)"

definition lll_mutex_timedlock :: "addr \<Rightarrow> u32 \<Rightarrow> u32 \<times> macro_end" where
  "lll_mutex_timedlock timeout w = on_failure (\<lambda>eax. Mutex_timedlock_wait eax timeout) (cmpxchgl 0 1 w)"

definition lll_robust_mutex_timedlock :: "addr \<Rightarrow> u32 \<Rightarrow> u32 \<Rightarrow> u32 \<times> macro_end" where
  "lll_robust_mutex_timedlock timeout ident w =
     on_failure (\<lambda>eax. Robust_mutex_timedlock_wait eax timeout) (cmpxchgl 0 ident w)"

text \<open>The value of the two unlock macros is discarded.\<close>

definition lll_mutex_unlock :: "u32 \<Rightarrow> u32 \<times> macro_end" where
  "lll_mutex_unlock w = (let w = w - 1 in (w, if w \<noteq> 0 then Enter Mutex_unlock_wake else Return 0))"

definition lll_robust_mutex_unlock :: "u32 \<Rightarrow> u32 \<times> macro_end" where
  "lll_robust_mutex_unlock w = (let w = and w FUTEX_WAITERS in (w, if w \<noteq> 0 then Enter Mutex_unlock_wake else Return 0))"

definition lll_mutex_islocked :: "u32 \<Rightarrow> bool" where
  "lll_mutex_islocked w \<longleftrightarrow> w \<noteq> 0"

section \<open>The futex system call\<close>

text \<open>
  \<open>sys\<close> is the kernel: call number, address, operation, value and timeout.
\<close>

type_synonym 'k futex_kernel = "int \<Rightarrow> addr \<Rightarrow> int \<Rightarrow> u32 \<Rightarrow> addr option \<Rightarrow> 'k \<Rightarrow> int \<times> 'k"

abbreviation (input) SYS_futex :: int where "SYS_futex \<equiv> 240"

abbreviation (input) FUTEX_WAIT :: int where "FUTEX_WAIT \<equiv> 0"

abbreviation (input) FUTEX_WAKE :: int where "FUTEX_WAKE \<equiv> 1"

definition lll_futex_wait :: "'k futex_kernel \<Rightarrow> addr \<Rightarrow> u32 \<Rightarrow> ('k, int) prog" where
  "lll_futex_wait sys futex val = (\<lambda>k. case sys SYS_futex futex FUTEX_WAIT val None k of (status, k) \<Rightarrow> Ok status k)"

definition lll_futex_timed_wait :: "'k futex_kernel \<Rightarrow> addr \<Rightarrow> u32 \<Rightarrow> addr \<Rightarrow> ('k, int) prog" where
  "lll_futex_timed_wait sys futex val timeout =
     (\<lambda>k. case sys SYS_futex futex FUTEX_WAIT val (Some timeout) k of (status, k) \<Rightarrow> Ok status k)"

text \<open>The register of the timeout is not set for a wake, \<open>esi\<close> is what it holds.\<close>

definition lll_futex_wake :: "'k futex_kernel \<Rightarrow> addr option \<Rightarrow> addr \<Rightarrow> u32 \<Rightarrow> ('k, unit) prog" where
  "lll_futex_wake sys esi futex nr = (\<lambda>k. case sys SYS_futex futex FUTEX_WAKE nr esi k of (_, k) \<Rightarrow> Ok () k)"

text \<open>The owner of a robust lock died: the word is marked and one waiter woken.\<close>

definition lll_robust_mutex_dead ::
  "'k futex_kernel \<Rightarrow> addr option \<Rightarrow> addr \<Rightarrow> ((addr \<Rightarrow> u32) \<times> 'k, unit) prog" where
  "lll_robust_mutex_dead sys esi futex = (\<lambda>(m, k).
     let m = m(futex := or (m futex) FUTEX_OWNER_DIED) in
     case sys SYS_futex futex FUTEX_WAKE 1 esi k of (_, k) \<Rightarrow> Ok () (m, k))"

section \<open>Locks inside the C library\<close>

text \<open>
  Without threads the instruction has no lock prefix: the first component says
  whether it is atomic.
\<close>

definition lll_trylock :: "bool \<Rightarrow> u32 \<Rightarrow> bool \<times> u32 \<times> macro_end" where
  "lll_trylock multiple_threads w =
     (multiple_threads,
      case cmpxchgl LLL_MUTEX_LOCK_INITIALIZER LLL_MUTEX_LOCK_INITIALIZER_LOCKED w of
        (w, _, zf) \<Rightarrow> (w, Return (if zf then 0 else 1)))"

definition lll_lock :: "bool \<Rightarrow> u32 \<Rightarrow> bool \<times> u32 \<times> macro_end" where
  "lll_lock multiple_threads w = (multiple_threads, on_failure Mutex_lock_wait (cmpxchgl 0 1 w))"

definition lll_unlock :: "bool \<Rightarrow> u32 \<Rightarrow> bool \<times> u32 \<times> macro_end" where
  "lll_unlock multiple_threads w =
     (multiple_threads, let w = w - 1 in (w, if w \<noteq> 0 then Enter Mutex_unlock_wake else Return 0))"

definition lll_islocked :: "u32 \<Rightarrow> bool" where
  "lll_islocked w \<longleftrightarrow> w \<noteq> 0"

section \<open>Waiting for a thread to end\<close>

text \<open>
  \<open>tid_after n\<close> is the word with the identifier of the thread as it is read after the
  \<open>n\<close>-th return of the system call; the result is the number of calls made.
\<close>

partial_function (option) wait_tid_loop :: "(nat \<Rightarrow> u32) \<Rightarrow> nat \<Rightarrow> nat option" where
  "wait_tid_loop tid_after n = (if tid_after n \<noteq> 0 then wait_tid_loop tid_after (Suc n) else Some (Suc n))"

definition lll_wait_tid :: "u32 \<Rightarrow> (nat \<Rightarrow> u32) \<Rightarrow> nat option" where
  "lll_wait_tid tid tid_after = (if tid \<noteq> 0 then wait_tid_loop tid_after 0 else Some 0)"

text \<open>\<open>timedwait\<close> is \<^verbatim>\<open>__lll_timedwait_tid\<close> of the C library.\<close>

definition lll_timedwait_tid :: "('s, int) prog \<Rightarrow> u32 \<Rightarrow> int \<Rightarrow> ('s, int) prog" where
  "lll_timedwait_tid timedwait tid tv_nsec =
     (if tid \<noteq> 0 then if tv_nsec < 0 \<or> tv_nsec \<ge> 1000000000 then ret 22 else timedwait
      else ret 0)"

section \<open>Threads on one lock\<close>

text \<open>
  What a thread is doing: nothing with the lock, waiting in a function of the C
  library, between a lock that has returned and the next unlock, or in the function
  that wakes a waiter.  The lock is held in the last two.
\<close>

datatype place = Outside | Waiting | Inside | Waking

record lock_state =
  futex_word :: u32
  place_of :: "nat \<Rightarrow> place"

text \<open>
  The functions of the C library, by what they may do to the word: a step of the
  waiting function that goes on waiting or gives up, its last step when it returns
  with the lock, and the waking function.  The contract is the protocol that the
  comment on the states of a lock describes: 0 is untaken, and a waiter that gets the
  lock leaves 2.
\<close>

record waiting_functions =
  wait_step :: "u32 \<Rightarrow> u32 \<Rightarrow> bool"
  wait_return :: "u32 \<Rightarrow> u32 \<Rightarrow> bool"
  wake_return :: "u32 \<Rightarrow> u32 \<Rightarrow> bool"

definition lock_protocol :: "waiting_functions \<Rightarrow> bool" where
  "lock_protocol F \<longleftrightarrow>
     (\<forall>w w'. wait_step F w w' \<longrightarrow> (w' = w \<or> w \<noteq> 0 \<and> w' = 2)) \<and>
     (\<forall>w w'. wait_return F w w' \<longrightarrow> w = 0 \<and> w' = 2) \<and>
     (\<forall>w w'. wake_return F w w' \<longrightarrow> w' = 0)"

text \<open>Where a thread is after a macro, by how the macro ended.\<close>

fun after_trylock :: "macro_end \<Rightarrow> place" where
  "after_trylock (Return eax) = (if eax = 0 then Inside else Outside)"
| "after_trylock (Enter f) = Waiting"

fun after_lock :: "macro_end \<Rightarrow> place" where
  "after_lock (Return eax) = Inside"
| "after_lock (Enter f) = Waiting"

fun after_unlock :: "macro_end \<Rightarrow> place" where
  "after_unlock (Return eax) = Outside"
| "after_unlock (Enter f) = Waking"

definition run_macro :: "(u32 \<Rightarrow> u32 \<times> macro_end) \<Rightarrow> (macro_end \<Rightarrow> place) \<Rightarrow> nat \<Rightarrow> lock_state \<Rightarrow> lock_state" where
  "run_macro macro after t s =
     (case macro (futex_word s) of (w, e) \<Rightarrow> s\<lparr>futex_word := w, place_of := (place_of s)(t := after e)\<rparr>)"

inductive lll_step :: "waiting_functions \<Rightarrow> lock_state \<Rightarrow> lock_state \<Rightarrow> bool" for F where
  trylock: "place_of s t = Outside \<Longrightarrow> macro \<in> {lll_mutex_trylock, lll_mutex_cond_trylock} \<Longrightarrow>
    lll_step F s (run_macro macro after_trylock t s)"
| lock: "place_of s t = Outside \<Longrightarrow> macro \<in> {lll_mutex_lock, lll_mutex_cond_lock} \<union> range lll_mutex_timedlock \<Longrightarrow>
    lll_step F s (run_macro macro after_lock t s)"
| wait: "place_of s t = Waiting \<Longrightarrow> wait_step F (futex_word s) w \<Longrightarrow> lll_step F s (s\<lparr>futex_word := w\<rparr>)"
| give_up: "place_of s t = Waiting \<Longrightarrow> wait_step F (futex_word s) w \<Longrightarrow>
    lll_step F s (s\<lparr>futex_word := w, place_of := (place_of s)(t := Outside)\<rparr>)"
| obtain_lock: "place_of s t = Waiting \<Longrightarrow> wait_return F (futex_word s) w \<Longrightarrow>
    lll_step F s (s\<lparr>futex_word := w, place_of := (place_of s)(t := Inside)\<rparr>)"
| unlock: "place_of s t = Inside \<Longrightarrow> lll_step F s (run_macro lll_mutex_unlock after_unlock t s)"
| wake: "place_of s t = Waking \<Longrightarrow> wake_return F (futex_word s) w \<Longrightarrow>
    lll_step F s (s\<lparr>futex_word := w, place_of := (place_of s)(t := Outside)\<rparr>)"

inductive lll_reachable :: "waiting_functions \<Rightarrow> lock_state \<Rightarrow> bool" for F where
  start: "lll_reachable F \<lparr>futex_word = LLL_MUTEX_LOCK_INITIALIZER, place_of = \<lambda>_. Outside\<rparr>"
| next_step: "lll_reachable F s \<Longrightarrow> lll_step F s s' \<Longrightarrow> lll_reachable F s'"

definition holds_lock :: "lock_state \<Rightarrow> nat \<Rightarrow> bool" where
  "holds_lock s t \<longleftrightarrow> place_of s t \<in> {Inside, Waking}"

section \<open>Mutual exclusion\<close>

text \<open>The word tells whether the lock is held, and one thread at most holds it.\<close>

definition lock_ok :: "lock_state \<Rightarrow> bool" where
  "lock_ok s \<longleftrightarrow> futex_word s \<in> {0, 1, 2} \<and>
     (if futex_word s = 0 then \<forall>t. \<not> holds_lock s t else \<exists>!t. holds_lock s t)"

lemmas trylock_defs = lll_mutex_trylock_def lll_mutex_cond_trylock_def cmpxchgl_def

lemmas lock_defs = lll_mutex_lock_def lll_mutex_cond_lock_def lll_mutex_timedlock_def cmpxchgl_def on_failure_def

lemma lock_ok_taken:
  assumes "lock_ok s" "futex_word s = 0" "w \<in> {1, 2}" "p \<in> {Inside, Waking}"
  shows "lock_ok (s\<lparr>futex_word := w, place_of := (place_of s)(t := p)\<rparr>)"
  using assms by (auto simp: lock_ok_def holds_lock_def split: if_splits)

lemma lock_ok_stays:
  assumes "lock_ok s" "w = futex_word s \<or> futex_word s \<noteq> 0 \<and> w \<in> {1, 2}" "holds_lock s t = (p \<in> {Inside, Waking})"
  shows "lock_ok (s\<lparr>futex_word := w, place_of := (place_of s)(t := p)\<rparr>)"
proof -
  have "holds_lock (s\<lparr>futex_word := w, place_of := (place_of s)(t := p)\<rparr>) = holds_lock s"
    using assms(3) by (auto simp: holds_lock_def fun_eq_iff)
  moreover have "w \<in> {0, 1, 2}" "w = 0 \<longleftrightarrow> futex_word s = 0" using assms(1,2) by (auto simp: lock_ok_def)
  ultimately show ?thesis using assms(1) by (simp add: lock_ok_def)
qed

lemma lock_ok_released:
  assumes "lock_ok s" "holds_lock s t" "p \<in> {Outside, Waiting}"
  shows "lock_ok (s\<lparr>futex_word := 0, place_of := (place_of s)(t := p)\<rparr>)"
  using assms by (auto simp: lock_ok_def holds_lock_def split: if_splits)

lemma lll_step_ok:
  assumes F: "lock_protocol F" and "lll_step F s s'" "lock_ok s"
  shows "lock_ok s'"
  using assms(2,3)
proof cases
  case (trylock t macro)
  then show ?thesis
    using lock_ok_taken [OF assms(3)] lock_ok_stays [OF assms(3), of "futex_word s" t Outside]
    by (auto simp: run_macro_def trylock_defs holds_lock_def)
next
  case (lock t macro)
  then show ?thesis
    using lock_ok_taken [OF assms(3)] lock_ok_stays [OF assms(3), of "futex_word s" t Waiting]
    by (auto simp: run_macro_def lock_defs holds_lock_def)
next
  case (wait t w)
  then have "s' = s\<lparr>futex_word := w, place_of := (place_of s)(t := Waiting)\<rparr>" by (simp add: fun_upd_idem)
  then show ?thesis
    using wait F lock_ok_stays [OF assms(3), of w t Waiting] by (auto simp: lock_protocol_def holds_lock_def)
next
  case (give_up t w)
  then show ?thesis
    using F lock_ok_stays [OF assms(3), of w t Outside] by (auto simp: lock_protocol_def holds_lock_def)
next
  case (obtain_lock t w)
  then show ?thesis
    using F lock_ok_taken [OF assms(3), of w Inside t] by (auto simp: lock_protocol_def)
next
  case (unlock t)
  then have t: "holds_lock s t" by (simp add: holds_lock_def)
  with assms(3) have "futex_word s = 1 \<or> futex_word s = 2" by (auto simp: lock_ok_def)
  then show ?thesis
    using unlock(1) t lock_ok_released [OF assms(3) t, of Outside] lock_ok_stays [OF assms(3), of 1 t Waking]
    by (auto simp: run_macro_def lll_mutex_unlock_def Let_def)
next
  case (wake t w)
  then show ?thesis
    using F lock_ok_released [OF assms(3), of t Outside] by (auto simp: lock_protocol_def holds_lock_def)
qed

lemma lll_reachable_ok: "lock_protocol F \<Longrightarrow> lll_reachable F s \<Longrightarrow> lock_ok s"
proof (rotate_tac, induction rule: lll_reachable.induct)
  case start
  then show ?case by (simp add: lock_ok_def holds_lock_def)
next
  case (next_step s s')
  then show ?case using lll_step_ok by blast
qed

text \<open>
  C12. The macros exclude each other: however threads interleave their attempts to
  take the lock, timed or not, the waiting, the releasing and the waking, and provided
  that the functions of the C library keep the protocol of the word, no two threads
  are between the return of a lock macro and the end of the unlock; and an attempt
  by \<^verbatim>\<open>lll_mutex_trylock\<close> returns 0, taking the lock, exactly when nobody holds it.
\<close>

theorem locks_mutually_exclusive:
  assumes "lock_protocol F" "lll_reachable F s"
  shows "(holds_lock s t \<and> holds_lock s u \<longrightarrow> t = u) \<and>
    (snd (lll_mutex_trylock (futex_word s)) = Return 0 \<longleftrightarrow> (\<forall>t. \<not> holds_lock s t))"
  using lll_reachable_ok [OF assms]
  by (auto simp: lock_ok_def lll_mutex_trylock_def cmpxchgl_def split: if_splits)

text \<open>
  The functions of the C library: a waiter exchanges the word with 2 and has the lock
  if it was 0; the waking function stores 0.
\<close>

definition exchange_functions :: waiting_functions where
  "exchange_functions = \<lparr>wait_step = (\<lambda>w w'. w \<noteq> 0 \<and> w' = 2), wait_return = (\<lambda>w w'. w = 0 \<and> w' = 2),
     wake_return = (\<lambda>w w'. w' = 0)\<rparr>"

text \<open>Thread 1 takes the lock, thread 2 has to wait and marks the word, thread 1 releases and wakes it.\<close>

lemma sample_lock_run:
  "lll_reachable exchange_functions \<lparr>futex_word = 2, place_of = (\<lambda>_. Outside)(1 := Inside, 2 := Waiting)\<rparr>"
  "lll_reachable exchange_functions \<lparr>futex_word = 1, place_of = (\<lambda>_. Outside)(1 := Waking, 2 := Waiting)\<rparr>"
proof -
  let ?s = "\<lambda>w p. \<lparr>futex_word = w, place_of = p\<rparr>"
  note move = lll_reachable.next_step [where F = exchange_functions]
  have "lll_reachable exchange_functions (?s 1 ((\<lambda>_. Outside)(1 := Inside)))"
    using move [OF lll_reachable.start lll_step.lock, of 1 lll_mutex_lock] by (simp add: run_macro_def lock_defs)
  then have "lll_reachable exchange_functions (?s 1 ((\<lambda>_. Outside)(1 := Inside, 2 := Waiting)))"
    using move [OF _ lll_step.lock, of _ 2 lll_mutex_lock] by (fastforce simp: run_macro_def lock_defs)
  then show two: "lll_reachable exchange_functions (?s 2 ((\<lambda>_. Outside)(1 := Inside, 2 := Waiting)))"
    using move [OF _ lll_step.wait, of _ 2 2] by (fastforce simp: exchange_functions_def)
  show "lll_reachable exchange_functions (?s 1 ((\<lambda>_. Outside)(1 := Waking, 2 := Waiting)))"
    using move [OF two lll_step.unlock, of 1] by (simp add: run_macro_def lll_mutex_unlock_def fun_upd_twist)
qed

lemma exchange_functions_protocol: "lock_protocol exchange_functions"
  by (simp add: lock_protocol_def exchange_functions_def)

theorem locks_mutually_exclusive_witness:
  "\<not> holds_lock \<lparr>futex_word = 1, place_of = (\<lambda>_. Outside)(1 := Waking, 2 := Waiting)\<rparr> 2 \<and>
   holds_lock \<lparr>futex_word = 1, place_of = (\<lambda>_. Outside)(1 := Waking, 2 := Waiting)\<rparr> 1 \<and>
   snd (lll_mutex_trylock 1) \<noteq> Return 0"
  using locks_mutually_exclusive [OF exchange_functions_protocol sample_lock_run(2), of 1 2]
  by (simp add: holds_lock_def)

section \<open>Waking\<close>

text \<open>
  An unlock returns without waking only if the word was 1; a lock taken by the
  macros for condition variables is always released with a wake, and a robust one
  exactly if a waiter has set its bit.
\<close>

lemma no_waiters_bit:
  assumes "unat w < 2 ^ 30"
  shows "and w FUTEX_WAITERS = 0"
proof -
  have "\<not> bit (unat w) 31" using assms by (simp add: bit_iff_odd)
  then have "\<not> bit w 31" by (simp add: bit_unsigned_iff)
  then show ?thesis using and_exp_eq_0_iff_not_bit [of w 31] by simp
qed

lemma unlock_wakes:
  "snd (lll_mutex_unlock w) = Return 0 \<longleftrightarrow> w = 1"
  "snd (lll_mutex_unlock (fst (lll_mutex_cond_lock 0))) = Enter Mutex_unlock_wake"
  "snd (lll_robust_mutex_unlock (fst (lll_robust_mutex_cond_lock ident 0))) = Enter Mutex_unlock_wake"
  "unat ident < 2 ^ 30 \<Longrightarrow> lll_robust_mutex_unlock (fst (lll_robust_mutex_lock ident 0)) = (0, Return 0)"
  by (simp_all add: lll_mutex_unlock_def lll_mutex_cond_lock_def lll_robust_mutex_unlock_def lll_robust_mutex_cond_lock_def
      lll_robust_mutex_lock_def cmpxchgl_def on_failure_def Let_def bit.conj_disj_distrib2 no_waiters_bit)

section \<open>The end of a thread\<close>

text \<open>The wait ends with the first system call after which the word is 0, and only then.\<close>

lemma wait_tid_loop_ends:
  assumes "f (n + k) = 0" "\<And>i. i < k \<Longrightarrow> f (n + i) \<noteq> 0"
  shows "wait_tid_loop f n = Some (Suc (n + k))"
  using assms
proof (induction k arbitrary: n)
  case 0
  then show ?case by (subst wait_tid_loop.simps) simp
next
  case (Suc k)
  have "f n \<noteq> 0" using Suc.prems(2) [of 0] by simp
  moreover have "wait_tid_loop f (Suc n) = Some (Suc (Suc n + k))"
    by (rule Suc.IH) (use Suc.prems(1) Suc.prems(2) [of "Suc i" for i] in auto)
  ultimately show ?case by (subst wait_tid_loop.simps) simp
qed

lemma wait_tid_loop_zero:
  assumes "wait_tid_loop f n = Some m"
  shows "\<exists>i. n \<le> i \<and> f i = 0"
proof (rule wait_tid_loop.raw_induct [OF _ assms], goal_cases)
  case (1 loop f n m)
  show ?case
  proof (cases "f n = 0")
    case False
    with 1 obtain i where "Suc n \<le> i" "f i = 0" by (auto split: if_splits) blast
    then show ?thesis using Suc_leD by blast
  qed blast
qed

lemma wait_tid_ends: "(\<exists>m. lll_wait_tid tid f = Some m) \<longleftrightarrow> tid = 0 \<or> (\<exists>n. f n = 0)"
proof (cases "tid = 0")
  case False
  have "\<exists>m. wait_tid_loop f 0 = Some m" if n: "f n = 0" for n
  proof -
    have "f (0 + (LEAST n. f n = 0)) = 0" using LeastI [of "\<lambda>n. f n = 0", OF n] by simp
    moreover have "f (0 + i) \<noteq> 0" if "i < (LEAST n. f n = 0)" for i using not_less_Least [OF that] by simp
    ultimately show ?thesis using wait_tid_loop_ends by blast
  qed
  moreover have "\<exists>n. f n = 0" if "wait_tid_loop f 0 = Some m" for m using wait_tid_loop_zero [OF that] by blast
  ultimately show ?thesis using False by (auto simp: lll_wait_tid_def)
qed (simp add: lll_wait_tid_def)


end
