(* ===== verification/Spec2Isabelle.thy ===== *)
theory Spec2Isabelle
  imports Pool Hash_Table Buffer Config Txdesc Sentinel_Sort Sentinel Sentinel_Protocol Stats Koa Txmgr
    Xfile Xdir Xpipe Xthread Xmsg Frames Xactions Posix Rollback Deferral Levels Directory Threads Replay Messages Interface
    Cstring Wordcopy Net Atof Condvar Lowlevellock
begin

text \<open>
  Verification of the xCalls library (\<^verbatim>\<open>libtxc\<close>): system calls for programs that run
  inside memory transactions.

  \<^bold>\<open>The program.\<close>  A transaction that calls the operating system cannot simply be
  rolled back by the transactional memory: the kernel keeps what the call did.  An
  xCall wraps a system call.  It either executes at once and registers an
  \<^emph>\<open>undo\<close> action that compensates for it, or registers a \<^emph>\<open>commit\<close> action that makes
  the call when the transaction commits.  To keep other transactions away from a
  kernel object in between, the xCall acquires the \<^emph>\<open>sentinel\<close> of the object, a
  revocable lock that is released at the end of the transaction.  A \<^emph>\<open>kernel object
  abstraction\<close> (KOA) ties file descriptors and inodes to sentinels and buffers.

  \<^bold>\<open>How the parts work together.\<close>  \<^verbatim>\<open>_TXC_global_init\<close> reads the configuration and
  creates the managers, which take their objects from fixed pools.  A thread gets a
  transaction descriptor with its two action lists, two sentinel lists and a linear
  buffer.  An xCall looks up the KOA of its descriptor, acquires the sentinel (or
  aborts the transaction when another one holds it), works on the kernel and
  registers its actions.  At the end the TM runtime calls \<^verbatim>\<open>tx_generic_commit_action\<close>
  or \<^verbatim>\<open>tx_generic_undo_action\<close>, which run the registered actions level by level:
  first those of xCalls and of the application, then those that manage KOAs, then
  the release of the sentinels, last the statistics.

  \<^bold>\<open>The style of the model.\<close>  Code is a function from a state to an outcome: \<open>Ok\<close> with
  a result and a new state, or \<open>Fault\<close> with the reason (undefined behaviour, a failed
  assertion, \<^verbatim>\<open>exit(1)\<close>, the abort of the transaction, a mutex that blocks) and the
  state in which it struck.  C structures are records, C enumerations and the
  function pointers in the action lists are datatypes, pointers to library objects
  are addresses into maps of the state, and \<^verbatim>\<open>unsigned int\<close> and \<^verbatim>\<open>size_t\<close> are 32-bit
  words that wrap.  The sizes of structures are those of a 32-bit build.  \<open>wp m Q E s\<close>
  says that the program \<open>m\<close> run in \<open>s\<close> returns with \<open>Q\<close> or faults with \<open>E\<close>.  What is
  outside the library is a parameter: the kernel is a record of functions on an
  abstract kernel state, \<^verbatim>\<open>malloc\<close> and \<^verbatim>\<open>realloc\<close> answer from streams, and the TM runtime
  is the execution mode of each thread and the list of generic actions.

  \<^bold>\<open>Theories, in the order of the code.\<close>
    \<^item> \<open>Prelude\<close>: programs, faults, result codes, \<open>wp\<close> and its rules, loops, mutexes.
      \<open>Dll\<close>: linked lists threaded through records of pointers.
    \<^item> \<open>Pool\<close> (\<^verbatim>\<open>src/misc/pool.c\<close>): object pools.  The representation invariant ties the
      two lists and the counters to lists of objects; allocation, release, iteration
      and printing are exact, a double release is detected, and a pool serves all
      its objects.  The interface is a locale that the managers use.
    \<^item> \<open>Hash_Table\<close> (\<^verbatim>\<open>src/misc/hash_table.c\<close>): the table refines a finite map, and its
      iterator enumerates it.
    \<^item> \<open>Buffer\<close> (\<^verbatim>\<open>src/core/buffer.c\<close>): linear buffers are stacks, with the wrap-around of
      their length computation; circular buffers are used by \<open>Xpipe\<close>.
    \<^item> \<open>Config\<close> (\<^verbatim>\<open>src/core/config.c\<close>): the parser of \<^verbatim>\<open>txc.ini\<close>, with its round trip, the
      ranges of the options, and the lines on which it gives up.
    \<^item> \<open>Txdesc\<close> (\<^verbatim>\<open>src/core/tx.c\<close>, \<^verbatim>\<open>fm.c\<close>, \<^verbatim>\<open>tmsystem\<close>): descriptors, registration of actions
      with growing lists, and the loops that run them.  The locale \<open>action_runner\<close> has
      the laws of both loops: every action runs once, by level, in the order (commit)
      or the reverse order (undo) of registration.
    \<^item> \<open>Sentinel\<close>, \<open>Sentinel_Sort\<close>, \<open>Sentinel_Protocol\<close> (\<^verbatim>\<open>src/core/sentinel.c\<close>): acquisition
      with spinning, release and reference counts; the sort used before a restart;
      and the protocol between transactions as an inductive step relation, with
      mutual exclusion and freedom from deadlock of restarting transactions as
      invariants of the reachable states.
    \<^item> \<open>Stats\<close> (\<^verbatim>\<open>src/core/stats.c\<close>): the counters kept per source location are the exact
      count, sum, minimum and maximum of the committed transactions.
    \<^item> \<open>Koa\<close> (\<^verbatim>\<open>src/core/koa.c\<close>): reference counts, the alias cache, the descriptor map, and
      the locking of all descriptors of a KOA.
    \<^item> \<open>Txmgr\<close> (\<^verbatim>\<open>src/core/tx.c\<close>): the list of allocated descriptors and the hooks around
      the beginning of a transaction.
    \<^item> \<open>Memory\<close>: the byte-level memory of the message xCalls and of the string functions,
      with regions and the layout of 32-bit words.
    \<^item> \<open>Syscalls\<close> (\<^verbatim>\<open>src/libc/syscalls.h\<close>) and \<open>Xfile\<close>, \<open>Xdir\<close>, \<open>Xpipe\<close>, \<open>Xthread\<close>, \<open>Xmsg\<close>
      (\<^verbatim>\<open>src/xcalls/x_*.c\<close>): the xCalls with their commit and undo functions.  \<open>Xmsg\<close> builds
      message headers byte by byte, with the pointer arithmetic of the code.
    \<^item> \<open>Condvar\<close> (\<^verbatim>\<open>src/xcalls/condvar\<close>): condition variables on futexes.  A function is the list
      of its accesses to the event counter and of its system calls, and threads
      interleave between them.  No wakeup is lost while increments do not interleave,
      and a run of two broadcasts at the same time loses one.  \<open>Lowlevellock\<close>
      (\<^verbatim>\<open>lowlevellock.h\<close>): every macro is its atomic instruction on the word of the lock and
      the function of the C library it may enter after it.  The steps of those
      functions are parameters that keep the protocol of the word (\<open>lock_protocol\<close>);
      mutual exclusion is an invariant of the step relation of many threads.
    \<^item> \<open>Cstring\<close> (\<^verbatim>\<open>src/libc/string.c\<close>), \<open>Wordcopy\<close> (\<^verbatim>\<open>wordcopy.c\<close>, \<^verbatim>\<open>memcopy.h\<close>), \<open>Net\<close> (\<^verbatim>\<open>net.c\<close>
      and \<^verbatim>\<open>atoi\<close> of \<^verbatim>\<open>stdlib.c\<close>): the C library functions that transactions may call.  The
      unrolled loops are single sequences of steps, \<^verbatim>\<open>strchr\<close> with its test on whole words
      is the plain search, the word copies enter their loops in the middle (the
      locale \<open>unrolled_copy\<close> has the argument once, for both directions and for unaligned
      sources), and \<^verbatim>\<open>inet_aton\<close> reads what \<^verbatim>\<open>inet_ntop\<close> prints.  \<open>Atof\<close> (\<^verbatim>\<open>atof\<close> of \<^verbatim>\<open>stdlib.c\<close>) takes
      the operations on \<^verbatim>\<open>double\<close> as an argument; with exact numbers it returns the number
      the text denotes, or 0 where the code takes it for too small.
    \<^item> \<open>Interface\<close> (\<^verbatim>\<open>src/core/interface.c\<close>): initialisation and the functions an
      application registers.

  \<^bold>\<open>Whole transactions.\<close>  \<open>Frames\<close> has the locales for what programs leave alone: a
  preorder on states, the rules for the combinators proved once, and every operation
  of the managers shown to be \<^emph>\<open>quiet\<close>, that is, to leave the kernel, the objects of
  the application and the action lists as they are.  \<open>Xactions\<close> gives the actions
  their meaning and instantiates the loops of \<open>Txdesc\<close>.  On top of these:
    \<^item> \<open>Posix\<close> states what is assumed of the kernel, as laws on a view of its state as
      open files with positions and contents (\<open>posix_kernel\<close>), and shows on a sample
      kernel that they can hold.  \<open>Rollback\<close> proves that the undo actions restore the
      view, and the mutexes, whatever the transaction did.  The predicate
      \<open>undoable\<close> says when the code can undo a write: a sequential write must start at
      the end of its file (its undo function truncates the file), an overwriting write
      not beyond it (the gap that such a write leaves is not removed).
    \<^item> \<open>Directory\<close> does the same for the name space: the laws of \<open>dir_kernel\<close> are about
      paths, inodes and contents, and the undo actions of creations and renamings
      restore them.  Undo functions of this kind also work on KOAs and may stop at a
      fault, so the theorem has a second half: what is left then is the name space
      between two calls.  Between the change of the directory and the registration of
      the undo action an xCall must not restart the transaction (\<open>steady\<close>).
    \<^item> \<open>Deferral\<close>: deferred calls reach the kernel at the commit, in order, and never
      after a rollback.  \<open>Threads\<close>: the same for threads created in a transaction.
      \<open>Replay\<close>: what a rolled back transaction read from a pipe is read again from the
      buffer.  \<open>Messages\<close>: the same for a message received on a socket, and what goes
      wrong with a second one.  \<open>Interface\<close>: the same dichotomy for the application's functions.
    \<^item> \<open>Levels\<close>: the levels of registered actions stay in range under all twenty-two xCalls,
      so the loops that count levels end.

  \<^bold>\<open>Loops and bounds.\<close>  Walks along pointer lists (\<open>walk\<close>) and the loops over execution
  levels (\<open>run_orders\<close>) may run for ever and are partial functions into \<open>option\<close>: \<open>None\<close>
  is a loop that does not end.  So are the searches for the end of a string and the loops
  of the word copies, whose length is compared with zero.  Theorems say where they return \<open>Some\<close>, and one shows a
  list on which the walk does not.  All other loops are structural or come with a
  termination proof; there is no fuel.  Lists shorter than \<open>2 ^ 31\<close> are assumed where
  the code doubles 32-bit capacities.

  \<^bold>\<open>Not modelled.\<close>  Debug output (its fatal variants are faults), the rounding of floating
  point numbers (in \<^verbatim>\<open>atof\<close>), the unwind tables of the inline assembly, the page copies, which this build
  disables, the LogTM variant of the TM wrapper, which is an empty file, and the tests.
  The two rollback theorems are about different views of the kernel, open files and
  the name space; a transaction that writes to a file it has just created is covered by
  each for its own part.
\<close>

end
